(* ===== verification/Prelude.thy ===== *)
theory Prelude
  imports Complex_Main "HOL-Library.Word" "HOL-Library.AList"
begin

section \<open>Prelude: shared types, Python idioms and automation\<close>

text \<open>
  What every component of the development uses: the theorem collections, the Python
  idioms that several modules share (rounding, bounded deques, truthiness of optional
  strings, JSON values) and generic list lemmas about them.

  Conventions.
  \<^item> A \<open>datetime\<close> of the source is timezone-aware UTC with microsecond resolution; it is
    an \<open>int\<close> counting microseconds. A \<open>timedelta\<close> is an \<open>int\<close> of microseconds.
  \<^item> A \<open>UUID\<close> is its 128 bit value.
  \<^item> A Python \<open>float\<close> is an exact rational. Rounding errors of IEEE arithmetic, infinities
    and NaN are outside the model; the explicit \<open>round\<close> calls of the source are inside.
  \<^item> A Python \<open>str\<close> is a \<open>string\<close>; the literals of the source are all ASCII.
\<close>

named_theorems frame_simps
  \<open>what an operation leaves unchanged, as rewrite rules\<close>

named_theorems step_defs
  \<open>definitions of the small state updates an operation is composed of\<close>

subsection \<open>Scalar types\<close>

type_synonym uuid = "128 word"
type_synonym datetime = int
type_synonym timedelta = int
type_synonym byte = "8 word"

definition usec_per_sec :: int where
  "usec_per_sec = 1000000"

subsection \<open>JSON values\<close>

datatype json =
    JNull
  | JBool bool
  | JInt int
  | JFloat rat
  | JStr string
  | JList "json list"
  | JObj "(string \<times> json) list"

subsection \<open>Rounding\<close>

text \<open>Python's \<open>round(x)\<close> rounds half to even; \<open>round(x, n)\<close> does so at the n-th decimal.\<close>

definition py_round :: "rat \<Rightarrow> int" where
  "py_round x =
     (let f = \<lfloor>x\<rfloor>; d = x - of_int f in
      if d < 1 / 2 then f
      else if 1 / 2 < d then f + 1
      else if even f then f else f + 1)"

definition py_round_digits :: "rat \<Rightarrow> nat \<Rightarrow> rat" where
  "py_round_digits x n = of_int (py_round (x * 10 ^ n)) / 10 ^ n"

lemma py_round_int [simp]: "py_round (of_int k) = k"
  by (simp add: py_round_def Let_def)

lemma py_round_numeral [simp]:
  "py_round 0 = 0" "py_round 1 = 1" "py_round (numeral n) = numeral n"
  using py_round_int[of 0] py_round_int[of 1] py_round_int[of "numeral n"] by simp_all

lemma py_round_error: "\<bar>of_int (py_round x) - x\<bar> \<le> 1 / 2"
proof -
  have "of_int \<lfloor>x\<rfloor> \<le> x" and "x < of_int \<lfloor>x\<rfloor> + 1"
    by linarith+
  then show ?thesis
    by (auto simp: py_round_def Let_def abs_le_iff)
qed

lemma py_round_unique: "\<bar>of_int k - x\<bar> < 1 / 2 \<Longrightarrow> py_round x = k"
proof -
  assume k: "\<bar>of_int k - x\<bar> < 1 / 2"
  have "\<bar>of_int (py_round x) - x\<bar> \<le> 1 / 2" by (rule py_round_error)
  with k have "\<bar>(of_int (py_round x - k) :: rat)\<bar> < 1"
    unfolding of_int_diff by linarith
  then have "\<bar>py_round x - k\<bar> < 1"
    by (metis of_int_abs of_int_less_1_iff)
  then show ?thesis by simp
qed

lemma py_round_mono: "x \<le> y \<Longrightarrow> py_round x \<le> py_round y"
proof (rule ccontr)
  assume le: "x \<le> y" and "\<not> py_round x \<le> py_round y"
  then have gt: "py_round y + 1 \<le> py_round x" by simp
  have ex: "of_int (py_round x) - x \<le> 1 / 2" and ey: "y - of_int (py_round y) \<le> 1 / 2"
    using py_round_error[of x] py_round_error[of y] by linarith+
  from gt have "(of_int (py_round y) :: rat) + 1 \<le> of_int (py_round x)"
    by (metis of_int_1 of_int_add of_int_le_iff)
  with ex ey le have "x = y" by linarith
  with gt show False by simp
qed

lemma py_round_digits_mono: "x \<le> y \<Longrightarrow> py_round_digits x n \<le> py_round_digits y n"
  by (simp add: py_round_digits_def divide_right_mono py_round_mono)

lemma py_round_digits_error: "\<bar>py_round_digits x n - x\<bar> \<le> 1 / (2 * 10 ^ n)"
proof -
  let ?p = "10 ^ n :: rat"
  have p: "0 < ?p" by simp
  have "\<bar>of_int (py_round (x * ?p)) - x * ?p\<bar> \<le> 1 / 2" by (rule py_round_error)
  then have "\<bar>of_int (py_round (x * ?p)) - x * ?p\<bar> / ?p \<le> (1 / 2) / ?p"
    by (rule divide_right_mono) (use p in simp)
  moreover have "\<bar>of_int (py_round (x * ?p)) - x * ?p\<bar> / ?p
      = \<bar>(of_int (py_round (x * ?p)) - x * ?p) / ?p\<bar>"
    using p by (simp only: abs_divide abs_of_pos)
  moreover have "(of_int (py_round (x * ?p)) - x * ?p) / ?p = py_round_digits x n - x"
    using p by (simp add: py_round_digits_def diff_divide_distrib)
  ultimately show ?thesis by simp
qed

subsection \<open>Optional values\<close>

text \<open>\<open>overlay new old\<close> is the reported value where there is one, and the held one otherwise.\<close>

definition overlay :: "'a option \<Rightarrow> 'a option \<Rightarrow> 'a option" where
  "overlay new old = (case new of None \<Rightarrow> old | Some v \<Rightarrow> Some v)"

lemma overlay_simps [simp]:
  "overlay None old = old" "overlay (Some v) old = Some v" "overlay x None = x"
  "overlay x x = x"
  by (simp_all add: overlay_def split: option.splits)

lemma overlay_assoc: "overlay a (overlay b c) = overlay (overlay a b) c"
  by (simp add: overlay_def split: option.splits)

lemma overlay_idem [simp]: "overlay a (overlay a b) = overlay a b"
  by (simp add: overlay_assoc)

text \<open>The truth value of an optional string: \<open>None\<close> and the empty string are false.\<close>

fun truthy_str :: "string option \<Rightarrow> bool" where
  "truthy_str None = False"
| "truthy_str (Some s) = (s \<noteq> [])"

subsection \<open>Text\<close>

text \<open>\<open>str.strip\<close>, \<open>str.casefold\<close>, \<open>str.join\<close> and \<open>str.startswith\<close> on ASCII text.\<close>

definition is_space :: "char \<Rightarrow> bool" where
  "is_space c =
     (let n = (of_char c :: nat) in (9 \<le> n \<and> n \<le> 13) \<or> (28 \<le> n \<and> n \<le> 32))"

definition py_strip :: "string \<Rightarrow> string" where
  "py_strip s = rev (dropWhile is_space (rev (dropWhile is_space s)))"

definition lower_char :: "char \<Rightarrow> char" where
  "lower_char c = (let n = (of_char c :: nat) in if 65 \<le> n \<and> n \<le> 90 then char_of (n + 32) else c)"

definition py_casefold :: "string \<Rightarrow> string" where
  "py_casefold s = map lower_char s"

fun py_join :: "string \<Rightarrow> string list \<Rightarrow> string" where
  "py_join sep [] = []"
| "py_join sep [x] = x"
| "py_join sep (x # xs) = x @ sep @ py_join sep xs"

definition starts_with :: "string \<Rightarrow> string \<Rightarrow> bool" where
  "starts_with pre s \<longleftrightarrow> take (length pre) s = pre"

lemma lower_char_idem [simp]: "lower_char (lower_char c) = lower_char c"
  by (auto simp: lower_char_def Let_def)

lemma py_casefold_idem [simp]: "py_casefold (py_casefold s) = py_casefold s"
  by (simp add: py_casefold_def)

subsection \<open>Bounded sequences\<close>

definition take_last :: "nat \<Rightarrow> 'a list \<Rightarrow> 'a list" where
  "take_last n xs = drop (length xs - n) xs"

lemma length_take_last [simp]: "length (take_last n xs) = min n (length xs)"
  by (simp add: take_last_def)

lemma take_last_all [simp]: "length xs \<le> n \<Longrightarrow> take_last n xs = xs"
  by (simp add: take_last_def)

lemma set_take_last: "set (take_last n xs) \<subseteq> set xs"
  by (simp add: take_last_def set_drop_subset)

lemma take_last_snoc: "0 < n \<Longrightarrow> take_last n (take_last n xs @ [x]) = take_last n (xs @ [x])"
  by (cases "length xs < n") (simp_all add: take_last_def Suc_diff_le not_less)

text \<open>\<open>collections.deque(maxlen=m).append\<close>: the oldest element falls out of a full deque.\<close>

definition deque_append :: "nat \<Rightarrow> 'a \<Rightarrow> 'a list \<Rightarrow> 'a list" where
  "deque_append m x xs = take_last m (xs @ [x])"

lemma length_deque_append: "length (deque_append m x xs) \<le> m"
  by (simp add: deque_append_def)

lemma deque_append_last: "0 < m \<Longrightarrow> last (deque_append m x xs) = x"
  by (simp add: deque_append_def take_last_def)

lemma deque_append_keeps: "length xs < m \<Longrightarrow> deque_append m x xs = xs @ [x]"
  by (simp add: deque_append_def)

text \<open>A bounded log is the recent part of the whole history.\<close>

lemma deque_append_history:
  "0 < m \<Longrightarrow> deque_append m x (take_last m hist) = take_last m (hist @ [x])"
  by (simp add: deque_append_def take_last_snoc)

end
