(* ===== verification/Domain_Errors.thy ===== *)
theory Domain_Errors
  imports Prelude
begin

section \<open>Domain errors\<close>

text \<open>
  \<open>errors.py\<close>: the exception hierarchy that maps onto problem details. An exception is a
  value: \<open>homeflow_error\<close> for the hierarchy, \<open>failure\<close> for whatever an operation may raise.
  A detail is an authored constant or one of the two formatted texts of the source, kept
  by their arguments.
\<close>

datatype error_kind =
    HomeFlowError
  | UnauthenticatedError
  | ForbiddenError
  | ActionAuthorizationRequiredError
  | DeviceNotFoundError
  | CommandNotFoundError
  | ScheduleNotFoundError
  | CapabilityNotSupportedError
  | InvalidParametersError
  | ParameterOutOfRangeError
  | DeviceUnavailableError
  | RateLimitedError

datatype detail_text =
    Authored string
  | TemperatureRange rat rat
  | TimerRange rat rat rat

fun problem_type :: "error_kind \<Rightarrow> string" where
  "problem_type HomeFlowError = ''internal_error''"
| "problem_type UnauthenticatedError = ''unauthenticated''"
| "problem_type ForbiddenError = ''forbidden''"
| "problem_type ActionAuthorizationRequiredError = ''action_authorization_required''"
| "problem_type DeviceNotFoundError = ''device_not_found''"
| "problem_type CommandNotFoundError = ''command_not_found''"
| "problem_type ScheduleNotFoundError = ''schedule_not_found''"
| "problem_type CapabilityNotSupportedError = ''capability_not_supported''"
| "problem_type InvalidParametersError = ''invalid_parameters''"
| "problem_type ParameterOutOfRangeError = ''parameter_out_of_range''"
| "problem_type DeviceUnavailableError = ''device_unavailable''"
| "problem_type RateLimitedError = ''rate_limited''"

fun error_title :: "error_kind \<Rightarrow> string" where
  "error_title HomeFlowError = ''Internal error''"
| "error_title UnauthenticatedError = ''Authentication required''"
| "error_title ForbiddenError = ''Not permitted''"
| "error_title ActionAuthorizationRequiredError = ''Additional authorisation required''"
| "error_title DeviceNotFoundError = ''Device not found''"
| "error_title CommandNotFoundError = ''Command not found''"
| "error_title ScheduleNotFoundError = ''Timer not found''"
| "error_title CapabilityNotSupportedError = ''Unsupported action''"
| "error_title InvalidParametersError = ''Invalid parameters''"
| "error_title ParameterOutOfRangeError = ''Parameter out of range''"
| "error_title DeviceUnavailableError = ''Device unavailable''"
| "error_title RateLimitedError = ''Too many requests''"

fun error_status :: "error_kind \<Rightarrow> int" where
  "error_status HomeFlowError = 500"
| "error_status UnauthenticatedError = 401"
| "error_status ForbiddenError = 403"
| "error_status ActionAuthorizationRequiredError = 403"
| "error_status DeviceNotFoundError = 404"
| "error_status CommandNotFoundError = 404"
| "error_status ScheduleNotFoundError = 404"
| "error_status CapabilityNotSupportedError = 422"
| "error_status InvalidParametersError = 422"
| "error_status ParameterOutOfRangeError = 422"
| "error_status DeviceUnavailableError = 409"
| "error_status RateLimitedError = 429"

fun default_detail :: "error_kind \<Rightarrow> string" where
  "default_detail HomeFlowError = ''The request could not be completed.''"
| "default_detail UnauthenticatedError = ''A valid registered client credential is required.''"
| "default_detail ForbiddenError = ''This client is not permitted to perform the action.''"
| "default_detail ActionAuthorizationRequiredError =
     ''This action requires a fresh device-owner authorisation, which this deployment does not provide yet.''"
| "default_detail DeviceNotFoundError = ''No such device.''"
| "default_detail CommandNotFoundError = ''No such command.''"
| "default_detail ScheduleNotFoundError = ''No such timer.''"
| "default_detail CapabilityNotSupportedError = ''The device does not support this action.''"
| "default_detail InvalidParametersError = ''The command parameters are invalid.''"
| "default_detail ParameterOutOfRangeError =
     ''The requested value is outside the device's verified range.''"
| "default_detail DeviceUnavailableError = ''The device is currently offline.''"
| "default_detail RateLimitedError = ''Too many requests. Slow down and retry shortly.''"

record homeflow_error =
  he_kind :: error_kind
  he_detail :: detail_text

text \<open>\<open>HomeFlowError.__init__\<close>: \<open>self.detail = detail or self.default_detail\<close>.\<close>

definition make_error :: "error_kind \<Rightarrow> detail_text option \<Rightarrow> homeflow_error" where
  "make_error k d =
     \<lparr>he_kind = k,
      he_detail =
        (case d of
           None \<Rightarrow> Authored (default_detail k)
         | Some (Authored s) \<Rightarrow> Authored (if s = [] then default_detail k else s)
         | Some t \<Rightarrow> t)\<rparr>"

text \<open>
  What leaves an operation that does not return: an exception of the hierarchy, or any
  other exception of the code (a failed assertion, a missing key).
\<close>

datatype failure = Raised homeflow_error | Crashed string

definition raise_kind :: "error_kind \<Rightarrow> failure" where
  "raise_kind k = Raised (make_error k None)"

definition raise_detail :: "error_kind \<Rightarrow> detail_text \<Rightarrow> failure" where
  "raise_detail k d = Raised (make_error k (Some d))"

fun failure_kind :: "failure \<Rightarrow> error_kind option" where
  "failure_kind (Raised e) = Some (he_kind e)"
| "failure_kind (Crashed _) = None"

lemma he_kind_make_error [simp]: "he_kind (make_error k d) = k"
  by (simp add: make_error_def)

lemma failure_kind_raise [simp]:
  "failure_kind (raise_kind k) = Some k" "failure_kind (raise_detail k d) = Some k"
  by (simp_all add: raise_kind_def raise_detail_def)

lemma raise_kind_inject [simp]: "raise_kind k = raise_kind k' \<longleftrightarrow> k = k'"
  by (metis failure_kind_raise(1) option.inject)

lemma raise_not_crashed [simp]:
  "raise_kind k \<noteq> Crashed m" "raise_detail k d \<noteq> Crashed m"
  "Crashed m \<noteq> raise_kind k" "Crashed m \<noteq> raise_detail k d"
  by (simp_all add: raise_kind_def raise_detail_def)

text \<open>A client can tell the error classes apart by their \<open>type\<close> alone.\<close>

lemma problem_type_inject: "problem_type k = problem_type k' \<longleftrightarrow> k = k'"
  by (cases k; cases k') simp_all

lemma error_status_range: "400 \<le> error_status k \<and> error_status k \<le> 500"
  by (cases k) simp_all

lemma default_detail_nonempty: "default_detail k \<noteq> []"
  by (cases k) simp_all

end
