(* ===== verification/Ordered_Dict.thy ===== *)
theory Ordered_Dict
  imports Prelude
begin

section \<open>Insertion-ordered dictionaries and bounded stores\<close>

text \<open>
  \<open>dict\<close> and \<open>collections.OrderedDict\<close> of the source: association lists without
  duplicate keys, in insertion order. The stores of the gateway that are bounded (settled
  commands, device locks, tickets, rate-limit buckets) share one contract, the locale
  \<open>bounded_store\<close>, which each of them interprets in its own theory.
\<close>

type_synonym ('k, 'v) odict = "('k \<times> 'v) list"

definition od_wf :: "('k, 'v) odict \<Rightarrow> bool" where
  "od_wf d \<longleftrightarrow> distinct (map fst d)"

definition od_get :: "('k, 'v) odict \<Rightarrow> 'k \<Rightarrow> 'v option" where
  "od_get d k = map_of d k"

text \<open>\<open>d[k] = v\<close>: an existing key keeps its position, a new one goes to the end.\<close>

definition od_set :: "'k \<Rightarrow> 'v \<Rightarrow> ('k, 'v) odict \<Rightarrow> ('k, 'v) odict" where
  "od_set k v d = AList.update k v d"

text \<open>\<open>del d[k]\<close>, for a key that is present.\<close>

definition od_del :: "'k \<Rightarrow> ('k, 'v) odict \<Rightarrow> ('k, 'v) odict" where
  "od_del k d = AList.delete k d"

text \<open>\<open>d.move_to_end(k)\<close>, for a key that is present.\<close>

definition od_move_to_end :: "'k \<Rightarrow> ('k, 'v) odict \<Rightarrow> ('k, 'v) odict" where
  "od_move_to_end k d =
     (case map_of d k of None \<Rightarrow> d | Some v \<Rightarrow> AList.delete k d @ [(k, v)])"

text \<open>\<open>d.popitem(last=False)\<close>, for a dictionary that is not empty.\<close>

definition od_popfirst :: "('k, 'v) odict \<Rightarrow> ('k, 'v) odict" where
  "od_popfirst d = tl d"

text \<open>\<open>while len(d) > cap: d.popitem(last=False)\<close>.\<close>

function od_trim :: "nat \<Rightarrow> ('k, 'v) odict \<Rightarrow> ('k, 'v) odict" where
  "od_trim cap d = (if cap < length d then od_trim cap (od_popfirst d) else d)"
  by pat_completeness auto
termination
  by (relation "measure (\<lambda>(cap, d). length d)") (auto simp: od_popfirst_def)

declare od_trim.simps [simp del]

text \<open>\<open>if len(d) >= cap: d.popitem(last=False)\<close>.\<close>

definition od_evict :: "nat \<Rightarrow> ('k, 'v) odict \<Rightarrow> ('k, 'v) odict" where
  "od_evict cap d = (if cap \<le> length d then od_popfirst d else d)"

subsection \<open>Laws of the operations\<close>

lemma od_get_Nil [simp]: "od_get [] k = None"
  by (simp add: od_get_def)

lemma od_wf_Nil [simp]: "od_wf []"
  by (simp add: od_wf_def)

lemma od_get_set: "od_get (od_set k v d) = (od_get d)(k \<mapsto> v)"
  by (rule ext) (simp add: od_get_def od_set_def update_conv')

lemma od_get_set_same [simp]: "od_get (od_set k v d) k = Some v"
  by (simp add: od_get_set)

lemma od_get_set_other [simp]: "j \<noteq> k \<Longrightarrow> od_get (od_set k v d) j = od_get d j"
  by (simp add: od_get_set)

lemma od_get_del: "od_get (od_del k d) = (od_get d)(k := None)"
  by (rule ext) (simp add: od_get_def od_del_def delete_conv')

lemma od_wf_set [simp]: "od_wf d \<Longrightarrow> od_wf (od_set k v d)"
  by (simp add: od_wf_def od_set_def distinct_update)

lemma od_wf_del [simp]: "od_wf d \<Longrightarrow> od_wf (od_del k d)"
  by (simp add: od_wf_def od_del_def distinct_delete)

lemma od_wf_popfirst [simp]: "od_wf d \<Longrightarrow> od_wf (od_popfirst d)"
  by (simp add: od_wf_def od_popfirst_def map_tl distinct_tl)

lemma od_wf_filter [simp]: "od_wf d \<Longrightarrow> od_wf (filter P d)"
  by (simp add: od_wf_def distinct_map_filter)

lemma od_get_in: "od_get d k = Some v \<Longrightarrow> (k, v) \<in> set d"
  by (simp add: od_get_def map_of_SomeD)

lemma od_get_iff: "od_wf d \<Longrightarrow> od_get d k = Some v \<longleftrightarrow> (k, v) \<in> set d"
  by (simp add: od_get_def od_wf_def)

lemma od_get_None_iff: "od_get d k = None \<longleftrightarrow> k \<notin> fst ` set d"
  by (simp add: od_get_def map_of_eq_None_iff)

lemma set_od_set: "od_wf d \<Longrightarrow> set (od_set k v d) = {(j, w) \<in> set d. j \<noteq> k} \<union> {(k, v)}"
proof (rule set_eqI)
  fix x :: "'a \<times> 'b"
  assume wf: "od_wf d"
  obtain j w where x: "x = (j, w)" by (cases x)
  have "x \<in> set (od_set k v d) \<longleftrightarrow> od_get (od_set k v d) j = Some w"
    using wf by (simp add: x od_get_iff)
  also have "\<dots> \<longleftrightarrow> x \<in> {(j, w) \<in> set d. j \<noteq> k} \<union> {(k, v)}"
    using wf by (auto simp: x od_get_set od_get_iff)
  finally show "x \<in> set (od_set k v d) \<longleftrightarrow> x \<in> {(j, w) \<in> set d. j \<noteq> k} \<union> {(k, v)}" .
qed

lemma keys_od_set: "fst ` set (od_set k v d) = insert k (fst ` set d)"
  by (simp add: od_set_def dom_update)

lemma length_od_set:
  "length (od_set k v d) = (if k \<in> fst ` set d then length d else Suc (length d))"
  unfolding od_set_def by (induction d) auto

lemma od_set_new: "od_get d k = None \<Longrightarrow> od_set k v d = d @ [(k, v)]"
  unfolding od_set_def od_get_def by (induction d) (auto split: if_splits)

lemma length_od_del_le: "length (od_del k d) \<le> length d"
  by (simp add: od_del_def length_delete_le)

lemma length_od_del:
  "od_wf d \<Longrightarrow> od_get d k = Some v \<Longrightarrow> Suc (length (od_del k d)) = length d"
proof (induction d)
  case Nil
  then show ?case by (simp add: od_get_def)
next
  case (Cons p d)
  obtain j w where p: "p = (j, w)" by (cases p)
  show ?case
  proof (cases "j = k")
    case True
    with Cons.prems p have "k \<notin> fst ` set d" by (auto simp: od_wf_def)
    then have "AList.delete k d = d" by (simp add: delete_idem)
    with True p show ?thesis by (simp add: od_del_def)
  next
    case False
    with Cons p show ?thesis by (simp add: od_del_def od_wf_def od_get_def)
  qed
qed

lemma od_get_move [simp]: "od_wf d \<Longrightarrow> od_get (od_move_to_end k d) = od_get d"
  by (rule ext)
    (auto simp: od_get_def od_move_to_end_def map_add_def delete_conv' split: option.splits)

lemma od_wf_move [simp]: "od_wf d \<Longrightarrow> od_wf (od_move_to_end k d)"
  by (cases "map_of d k") (simp_all add: od_wf_def od_move_to_end_def delete_keys distinct_removeAll)

lemma length_od_move [simp]: "od_wf d \<Longrightarrow> length (od_move_to_end k d) = length d"
  using length_od_del[of d k]
  by (auto simp: od_move_to_end_def od_del_def od_get_def split: option.splits)

lemma set_od_move [simp]: "od_wf d \<Longrightarrow> set (od_move_to_end k d) = set d"
proof (rule set_eqI)
  fix x :: "'a \<times> 'b"
  assume wf: "od_wf d"
  obtain j w where x: "x = (j, w)" by (cases x)
  show "x \<in> set (od_move_to_end k d) \<longleftrightarrow> x \<in> set d"
    using od_get_iff[OF wf, of j w] od_get_iff[OF od_wf_move[OF wf], of k j w] wf
    by (simp add: x)
qed

lemma last_od_move: "od_get d k = Some v \<Longrightarrow> last (od_move_to_end k d) = (k, v)"
  by (simp add: od_get_def od_move_to_end_def)

lemma od_trim_eq: "od_trim cap d = take_last cap d"
proof (induction cap d rule: od_trim.induct)
  case (1 cap d)
  show ?case
  proof (cases "cap < length d")
    case True
    then have "od_trim cap d = take_last cap (tl d)"
      using 1 by (simp add: od_trim.simps[of cap d] od_popfirst_def)
    also have "\<dots> = take_last cap d"
      using True by (simp add: take_last_def drop_Suc flip: drop_Suc Suc_diff_Suc)
    finally show ?thesis .
  qed (simp add: od_trim.simps[of cap d])
qed

lemma od_wf_take_last [simp]: "od_wf d \<Longrightarrow> od_wf (take_last n d)"
  by (simp add: od_wf_def take_last_def flip: drop_map)

lemma od_wf_trim [simp]: "od_wf d \<Longrightarrow> od_wf (od_trim cap d)"
  by (simp add: od_trim_eq)

lemma od_wf_evict [simp]: "od_wf d \<Longrightarrow> od_wf (od_evict cap d)"
  by (simp add: od_evict_def)

lemma set_od_popfirst: "set (od_popfirst d) \<subseteq> set d"
  unfolding od_popfirst_def by (cases d) auto

lemma set_od_evict: "set (od_evict cap d) \<subseteq> set d"
  using set_od_popfirst[of d] by (simp add: od_evict_def)

lemma length_od_evict: "0 < cap \<Longrightarrow> length d \<le> cap \<Longrightarrow> length (od_evict cap d) < cap"
  by (cases d) (auto simp: od_evict_def od_popfirst_def)

lemma od_get_subset:
  "od_wf d \<Longrightarrow> od_wf e \<Longrightarrow> set e \<subseteq> set d \<Longrightarrow> od_get e k = Some v \<Longrightarrow> od_get d k = Some v"
  by (auto simp: od_get_iff)

lemma od_get_evict:
  "od_wf d \<Longrightarrow> od_get (od_evict cap d) k = Some v \<Longrightarrow> od_get d k = Some v"
  by (rule od_get_subset[OF _ od_wf_evict set_od_evict])

lemma od_get_trim:
  "od_wf d \<Longrightarrow> od_get (od_trim cap d) k = Some v \<Longrightarrow> od_get d k = Some v"
  by (rule od_get_subset[OF _ od_wf_trim]) (simp_all add: od_trim_eq set_take_last)

lemma od_get_last:
  "od_wf d \<Longrightarrow> d \<noteq> [] \<Longrightarrow> last d = (k, v) \<Longrightarrow> od_get d k = Some v"
  by (metis last_in_set od_get_iff)

lemmas od_wf_ops = od_wf_set od_wf_del od_wf_popfirst od_wf_move od_wf_trim od_wf_evict

subsection \<open>The contract of a dictionary, and of a bounded store\<close>

locale keyed_map =
  fixes fetch :: "'s \<Rightarrow> 'k \<Rightarrow> 'v option"
    and put :: "'k \<Rightarrow> 'v \<Rightarrow> 's \<Rightarrow> 's"
    and inv :: "'s \<Rightarrow> bool"
  assumes inv_put: "inv s \<Longrightarrow> inv (put k v s)"
    and fetch_put: "inv s \<Longrightarrow> fetch (put k v s) = (fetch s)(k \<mapsto> v)"
begin

lemma inv_fold: "inv s \<Longrightarrow> inv (fold (\<lambda>(k, v). put k v) kvs s)"
  by (induction kvs arbitrary: s) (auto simp: inv_put)

lemma fetch_fold:
  "inv s \<Longrightarrow> fetch (fold (\<lambda>(k, v). put k v) kvs s) = fetch s ++ map_of (rev kvs)"
  by (induction kvs arbitrary: s) (auto simp: inv_put fetch_put)

end

locale bounded_store =
  fixes fetch :: "'s \<Rightarrow> 'k \<Rightarrow> 'v option"
    and put :: "'k \<Rightarrow> 'v \<Rightarrow> 's \<Rightarrow> 's"
    and size_of :: "'s \<Rightarrow> nat"
    and inv :: "'s \<Rightarrow> bool"
    and cap :: nat
  assumes inv_put: "inv s \<Longrightarrow> inv (put k v s)"
    and fetch_put_same: "inv s \<Longrightarrow> fetch (put k v s) k = Some v"
    and fetch_put_other: "inv s \<Longrightarrow> j \<noteq> k \<Longrightarrow> fetch (put k v s) j = Some w \<Longrightarrow> fetch s j = Some w"
    and size_put: "inv s \<Longrightarrow> size_of s \<le> cap \<Longrightarrow> size_of (put k v s) \<le> cap"
begin

lemma inv_fold: "inv s \<Longrightarrow> inv (fold (\<lambda>(k, v). put k v) kvs s)"
  by (induction kvs arbitrary: s) (auto simp: inv_put)

text \<open>A bounded store may forget a key, but it never returns anything but the last value put.\<close>

lemma fetch_fold:
  assumes "inv s" and "fetch (fold (\<lambda>(k, v). put k v) kvs s) j = Some w"
  shows "(fetch s ++ map_of (rev kvs)) j = Some w"
  using assms
proof (induction kvs arbitrary: s rule: rev_induct)
  case Nil
  then show ?case by simp
next
  case (snoc kv kvs)
  obtain k v where kv: "kv = (k, v)" by (cases kv)
  let ?t = "fold (\<lambda>(k, v). put k v) kvs s"
  have inv: "inv ?t" by (rule inv_fold) (rule snoc.prems(1))
  from snoc.prems(2) have last: "fetch (put k v ?t) j = Some w" by (simp add: kv)
  show ?case
  proof (cases "j = k")
    case True
    with last inv show ?thesis by (simp add: kv fetch_put_same)
  next
    case False
    with last inv have "fetch ?t j = Some w" by (blast intro: fetch_put_other)
    with snoc.prems(1) have "(fetch s ++ map_of (rev kvs)) j = Some w" by (rule snoc.IH)
    with False show ?thesis by (simp add: kv map_add_def)
  qed
qed

end

interpretation ordered_dict: keyed_map od_get od_set od_wf
  by unfold_locales (simp_all add: od_get_set)

text \<open>The two eviction disciplines of the source, and that both meet the contract.\<close>

lemma put_move_trim:
  assumes "od_wf d" "0 < cap"
  shows "od_get (od_trim cap (od_move_to_end k (od_set k v d))) k = Some v"
proof -
  let ?e = "od_move_to_end k (od_set k v d)"
  have wf: "od_wf ?e" using assms by simp
  have last: "last ?e = (k, v)" by (rule last_od_move) simp
  have ne: "?e \<noteq> []" by (auto simp: od_move_to_end_def od_set_def update_conv' split: option.splits)
  have "last (take_last cap ?e) = (k, v)" and "take_last cap ?e \<noteq> []"
    using assms(2) last ne by (simp_all add: take_last_def not_le)
  then show ?thesis
    using wf by (simp add: od_trim_eq od_get_last)
qed

interpretation recent_store:
  bounded_store od_get "\<lambda>k v d. od_trim (Suc n) (od_move_to_end k (od_set k v d))"
    length od_wf "Suc n" for n
proof (unfold_locales, goal_cases)
  case (2 s k v)
  then show ?case by (simp add: put_move_trim)
next
  case (3 s j k v w)
  then have "od_get (od_move_to_end k (od_set k v s)) j = Some w"
    by (blast intro: od_get_trim od_wf_move od_wf_set)
  with 3 show ?case by simp
qed (simp_all add: od_trim_eq)

interpretation evicting_store:
  bounded_store od_get "\<lambda>k v d. od_set k v (if od_get d k = None then od_evict (Suc n) d else d)"
    length od_wf "Suc n" for n
proof (unfold_locales, goal_cases)
  case (3 s j k v w)
  then show ?case by (auto dest: od_get_evict split: if_splits)
next
  case (4 s k v)
  then show ?case
    using length_od_evict[of "Suc n" s]
    by (auto simp: length_od_set od_get_None_iff)
qed simp_all

end
