(* ===== verification/Device_Model.thy ===== *)
theory Device_Model
  imports Ordered_Dict
begin

section \<open>The canonical device model\<close>

text \<open>
  \<open>capabilities/models.py\<close> (the vocabulary of kinds and capabilities) and
  \<open>devices/models.py\<close> (enumerations, the normalised state, constraints, the device).
  Constructors are written qualified by their type, \<open>availability.ONLINE\<close> for the source's
  \<open>Availability.ONLINE\<close>, since several enumerations share member names. Record fields
  carry a prefix (\<open>ds_\<close>, \<open>dc_\<close>, \<open>dev_\<close>) because field names are global in HOL.
\<close>

subsection \<open>Kinds and capabilities\<close>

datatype device_kind =
    LIGHT | MEDIA_PLAYER | LOCK | DOORBELL | CAMERA | INTERCOM | THERMOSTAT | POOL
  | WASHING_MACHINE | DISHWASHER | VOICE_ASSISTANT | SENSOR | SWITCH

datatype capability =
    POWER | BRIGHTNESS | COLOR | COLOR_TEMPERATURE
  | MEDIA_PLAYBACK | MEDIA_NEXT | MEDIA_PREVIOUS | VOLUME | GROUPING
  | LOCK | UNLOCK | UNLATCH
  | LIVE_VIDEO | DOORBELL_EVENTS | MOTION_EVENTS
  | CURRENT_TEMPERATURE | TARGET_TEMPERATURE | HEATING | FILTER | BUBBLES | CONTROL_PANEL_LOCK
  | HVAC_MODE | HUMIDITY
  | PROGRAM_STATUS | PROGRAM_ACTIONS | REMAINING_TIME
  | ANNOUNCEMENT | TEXT_COMMAND

subsection \<open>Enumerations of the device state\<close>

datatype availability = ONLINE | OFFLINE | UNKNOWN

datatype lock_state = LOCKED | UNLOCKED | UNKNOWN

datatype playback_state = PLAYING | PAUSED | STOPPED | UNKNOWN

datatype program_state = IDLE | RUNNING | FINISHED | UNKNOWN

datatype state_source = PROVIDER_SNAPSHOT | PROVIDER_EVENT | COMMAND_RESULT

subsection \<open>Normalised state\<close>

record device_state =
  ds_power :: "bool option"
  ds_brightness :: "int option"
  ds_current_temperature_c :: "rat option"
  ds_target_temperature_c :: "rat option"
  ds_heater :: "bool option"
  ds_filter_pump :: "bool option"
  ds_filter_last_started_at :: "datetime option"
  ds_bubbles :: "bool option"
  ds_control_panel_lock :: "bool option"
  ds_lock_state :: "lock_state option"
  ds_volume :: "int option"
  ds_playback :: "playback_state option"
  ds_program :: "program_state option"
  ds_program_name :: "string option"
  ds_remaining_seconds :: "int option"

text \<open>\<open>DeviceState()\<close>: nothing reported.\<close>

definition empty_state :: device_state where
  "empty_state =
     \<lparr>ds_power = None, ds_brightness = None, ds_current_temperature_c = None,
      ds_target_temperature_c = None, ds_heater = None, ds_filter_pump = None,
      ds_filter_last_started_at = None, ds_bubbles = None, ds_control_panel_lock = None,
      ds_lock_state = None, ds_volume = None, ds_playback = None, ds_program = None,
      ds_program_name = None, ds_remaining_seconds = None\<rparr>"

text \<open>The field constraints the class declares, which construction enforces.\<close>

definition opt_between :: "int \<Rightarrow> int \<Rightarrow> int option \<Rightarrow> bool" where
  "opt_between lo hi x = (case x of None \<Rightarrow> True | Some v \<Rightarrow> lo \<le> v \<and> v \<le> hi)"

definition device_state_ok :: "device_state \<Rightarrow> bool" where
  "device_state_ok s \<longleftrightarrow>
     opt_between 0 100 (ds_brightness s) \<and>
     opt_between 0 100 (ds_volume s) \<and>
     (case ds_remaining_seconds s of None \<Rightarrow> True | Some r \<Rightarrow> 0 \<le> r)"

text \<open>\<open>merged_with\<close> overlays the reported fields of \<open>other\<close> onto this state.\<close>

definition merged_with :: "device_state \<Rightarrow> device_state \<Rightarrow> device_state" where
  "merged_with s other =
     \<lparr>ds_power = overlay (ds_power other) (ds_power s),
      ds_brightness = overlay (ds_brightness other) (ds_brightness s),
      ds_current_temperature_c =
        overlay (ds_current_temperature_c other) (ds_current_temperature_c s),
      ds_target_temperature_c =
        overlay (ds_target_temperature_c other) (ds_target_temperature_c s),
      ds_heater = overlay (ds_heater other) (ds_heater s),
      ds_filter_pump = overlay (ds_filter_pump other) (ds_filter_pump s),
      ds_filter_last_started_at =
        overlay (ds_filter_last_started_at other) (ds_filter_last_started_at s),
      ds_bubbles = overlay (ds_bubbles other) (ds_bubbles s),
      ds_control_panel_lock = overlay (ds_control_panel_lock other) (ds_control_panel_lock s),
      ds_lock_state = overlay (ds_lock_state other) (ds_lock_state s),
      ds_volume = overlay (ds_volume other) (ds_volume s),
      ds_playback = overlay (ds_playback other) (ds_playback s),
      ds_program = overlay (ds_program other) (ds_program s),
      ds_program_name = overlay (ds_program_name other) (ds_program_name s),
      ds_remaining_seconds = overlay (ds_remaining_seconds other) (ds_remaining_seconds s)\<rparr>"

subsection \<open>Constraints, devices, rooms\<close>

record device_constraints =
  dc_target_temperature_min_c :: "rat option"
  dc_target_temperature_max_c :: "rat option"
  dc_target_temperature_step_c :: "rat option"

definition no_constraints :: device_constraints where
  "no_constraints =
     \<lparr>dc_target_temperature_min_c = None, dc_target_temperature_max_c = None,
      dc_target_temperature_step_c = None\<rparr>"

record device =
  dev_id :: uuid
  dev_display_name :: string
  dev_kind :: device_kind
  dev_room_id :: "uuid option"
  dev_room_name :: "string option"
  dev_capabilities :: "capability list"
  dev_availability :: availability
  dev_state :: device_state
  dev_constraints :: device_constraints
  dev_state_observed_at :: datetime
  dev_last_seen_at :: datetime
  dev_state_source :: state_source

definition supports :: "device \<Rightarrow> capability \<Rightarrow> bool" where
  "supports d c \<longleftrightarrow> c \<in> set (dev_capabilities d)"

definition is_stale :: "device \<Rightarrow> datetime \<Rightarrow> int \<Rightarrow> bool" where
  "is_stale d now stale_after_seconds \<longleftrightarrow>
     (if dev_availability d = availability.OFFLINE then True
      else stale_after_seconds * usec_per_sec < now - dev_state_observed_at d)"

record room =
  room_id :: uuid
  room_name :: string

subsection \<open>Laws of merging\<close>

lemma merged_with_empty [simp]: "merged_with s empty_state = s"
  by (simp add: merged_with_def empty_state_def)

lemma merged_with_idem [simp]: "merged_with s s = s"
  by (simp add: merged_with_def)

lemma merged_with_assoc: "merged_with (merged_with s t) u = merged_with s (merged_with t u)"
  by (simp add: merged_with_def overlay_assoc)

lemma merged_with_absorb [simp]: "merged_with (merged_with s t) t = merged_with s t"
  by (simp add: merged_with_assoc)

lemma merged_with_sel [simp]:
  "ds_power (merged_with s t) = overlay (ds_power t) (ds_power s)"
  "ds_brightness (merged_with s t) = overlay (ds_brightness t) (ds_brightness s)"
  "ds_current_temperature_c (merged_with s t) =
     overlay (ds_current_temperature_c t) (ds_current_temperature_c s)"
  "ds_target_temperature_c (merged_with s t) =
     overlay (ds_target_temperature_c t) (ds_target_temperature_c s)"
  "ds_heater (merged_with s t) = overlay (ds_heater t) (ds_heater s)"
  "ds_filter_pump (merged_with s t) = overlay (ds_filter_pump t) (ds_filter_pump s)"
  "ds_filter_last_started_at (merged_with s t) =
     overlay (ds_filter_last_started_at t) (ds_filter_last_started_at s)"
  "ds_bubbles (merged_with s t) = overlay (ds_bubbles t) (ds_bubbles s)"
  "ds_control_panel_lock (merged_with s t) =
     overlay (ds_control_panel_lock t) (ds_control_panel_lock s)"
  "ds_lock_state (merged_with s t) = overlay (ds_lock_state t) (ds_lock_state s)"
  "ds_volume (merged_with s t) = overlay (ds_volume t) (ds_volume s)"
  "ds_playback (merged_with s t) = overlay (ds_playback t) (ds_playback s)"
  "ds_program (merged_with s t) = overlay (ds_program t) (ds_program s)"
  "ds_program_name (merged_with s t) = overlay (ds_program_name t) (ds_program_name s)"
  "ds_remaining_seconds (merged_with s t) =
     overlay (ds_remaining_seconds t) (ds_remaining_seconds s)"
  by (simp_all add: merged_with_def)

lemma opt_between_overlay:
  "opt_between lo hi a \<Longrightarrow> opt_between lo hi b \<Longrightarrow> opt_between lo hi (overlay a b)"
  by (cases a) auto

lemma merged_with_ok:
  "device_state_ok s \<Longrightarrow> device_state_ok t \<Longrightarrow> device_state_ok (merged_with s t)"
  by (auto simp: device_state_ok_def opt_between_overlay overlay_def split: option.splits)

lemma empty_state_ok [simp]: "device_state_ok empty_state"
  by (simp add: device_state_ok_def empty_state_def opt_between_def)

lemma is_stale_mono: "is_stale d now s \<Longrightarrow> now \<le> later \<Longrightarrow> is_stale d later s"
  by (auto simp: is_stale_def split: if_splits)

end
