(* ===== verification/Command_Model.thy ===== *)
theory Command_Model
  imports Device_Model
begin

section \<open>Semantic commands, their policy, and reconciliation\<close>

text \<open>
  \<open>commands/models.py\<close> (actions, parameter models, the command record),
  \<open>commands/policy.py\<close> (required capability, parameter schema, risk class) and
  \<open>commands/reconcile.py\<close> (does an observed state satisfy a request).

  Parsing of scalars is the validation library's: the record \<open>coercions\<close> holds its three
  conversions as parameters. What the source declares (the fields of a model, their
  bounds, no extra keys, the custom validator) is written out.
\<close>

subsection \<open>Enumerations\<close>

datatype risk_class = LOW | MEDIUM | HIGH

datatype command_status =
  PENDING | RUNNING | SUCCEEDED | FAILED | TIMED_OUT | CANCELLED | SUPERSEDED | UNKNOWN

datatype action =
    SET_POWER | SET_BRIGHTNESS | SET_VOLUME | SET_PLAYBACK | SET_TARGET_TEMPERATURE
  | SET_HEATER | SET_FILTER | SET_BUBBLES | SET_CONTROL_PANEL_LOCK | SET_LOCK_STATE | UNLATCH

datatype playback_command = PLAY | PAUSE

text \<open>Risk classes are ordered by severity.\<close>

fun risk_level :: "risk_class \<Rightarrow> nat" where
  "risk_level LOW = 0"
| "risk_level MEDIUM = 1"
| "risk_level HIGH = 2"

instantiation risk_class :: linorder
begin

definition less_eq_risk_class :: "risk_class \<Rightarrow> risk_class \<Rightarrow> bool" where
  "less_eq_risk_class a b \<longleftrightarrow> risk_level a \<le> risk_level b"

definition less_risk_class :: "risk_class \<Rightarrow> risk_class \<Rightarrow> bool" where
  "less_risk_class a b \<longleftrightarrow> risk_level a < risk_level b"

instance
proof
  fix a b :: risk_class
  show "a \<le> b \<Longrightarrow> b \<le> a \<Longrightarrow> a = b"
    by (cases a; cases b) (simp_all add: less_eq_risk_class_def)
qed (auto simp: less_eq_risk_class_def less_risk_class_def)

end

lemma risk_class_le_HIGH [simp]: "r \<le> HIGH"
  by (cases r) (simp_all add: less_eq_risk_class_def)

subsection \<open>Parameters\<close>

datatype command_params =
    OnOffParams bool
  | BrightnessParams int
  | VolumeParams int
  | PlaybackParams playback_command
  | TargetTemperatureParams rat
  | LockStateParams lock_state
  | NoParams

datatype params_model =
    OnOffModel | BrightnessModel | VolumeModel | PlaybackModel | TargetTemperatureModel
  | LockStateModel | NoModel

record coercions =
  co_bool :: "json \<Rightarrow> bool option"
  co_int :: "json \<Rightarrow> int option"
  co_float :: "json \<Rightarrow> rat option"

text \<open>The only key of a one-field model: no other key may be present.\<close>

definition only_field :: "string \<Rightarrow> (string, json) odict \<Rightarrow> json option" where
  "only_field name raw =
     (if list_all (\<lambda>(k, v). k = name) raw then od_get raw name else None)"

fun playback_value :: "json \<Rightarrow> playback_command option" where
  "playback_value (JStr s) =
     (if s = ''PLAY'' then Some PLAY else if s = ''PAUSE'' then Some PAUSE else None)"
| "playback_value _ = None"

fun lock_state_value :: "json \<Rightarrow> lock_state option" where
  "lock_state_value (JStr s) =
     (if s = ''LOCKED'' then Some LOCKED
      else if s = ''UNLOCKED'' then Some UNLOCKED
      else if s = ''UNKNOWN'' then Some lock_state.UNKNOWN
      else None)"
| "lock_state_value _ = None"

fun model_validate ::
  "coercions \<Rightarrow> params_model \<Rightarrow> (string, json) odict \<Rightarrow> command_params option"
where
  "model_validate co OnOffModel raw =
     Option.bind (Option.bind (only_field ''on'' raw) (co_bool co))
       (\<lambda>b. Some (OnOffParams b))"
| "model_validate co BrightnessModel raw =
     Option.bind (Option.bind (only_field ''brightness'' raw) (co_int co))
       (\<lambda>n. if 0 \<le> n \<and> n \<le> 100 then Some (BrightnessParams n) else None)"
| "model_validate co VolumeModel raw =
     Option.bind (Option.bind (only_field ''volume'' raw) (co_int co))
       (\<lambda>n. if 0 \<le> n \<and> n \<le> 100 then Some (VolumeParams n) else None)"
| "model_validate co PlaybackModel raw =
     Option.bind (Option.bind (only_field ''playback'' raw) playback_value)
       (\<lambda>p. Some (PlaybackParams p))"
| "model_validate co TargetTemperatureModel raw =
     Option.bind (Option.bind (only_field ''celsius'' raw) (co_float co))
       (\<lambda>c. if 0 \<le> c \<and> c \<le> 60 then Some (TargetTemperatureParams c) else None)"
| "model_validate co LockStateModel raw =
     Option.bind (Option.bind (only_field ''desired'' raw) lock_state_value)
       (\<lambda>d. if d = lock_state.UNKNOWN then None else Some (LockStateParams d))"
| "model_validate co NoModel raw = (if raw = [] then Some NoParams else None)"

text \<open>\<open>params.model_dump(mode="json")\<close>.\<close>

fun params_dump :: "command_params \<Rightarrow> (string, json) odict" where
  "params_dump (OnOffParams b) = [(''on'', JBool b)]"
| "params_dump (BrightnessParams n) = [(''brightness'', JInt n)]"
| "params_dump (VolumeParams n) = [(''volume'', JInt n)]"
| "params_dump (PlaybackParams p) =
     [(''playback'', JStr (case p of PLAY \<Rightarrow> ''PLAY'' | PAUSE \<Rightarrow> ''PAUSE''))]"
| "params_dump (TargetTemperatureParams c) = [(''celsius'', JFloat c)]"
| "params_dump (LockStateParams d) =
     [(''desired'', JStr (case d of LOCKED \<Rightarrow> ''LOCKED'' | UNLOCKED \<Rightarrow> ''UNLOCKED''
                          | lock_state.UNKNOWN \<Rightarrow> ''UNKNOWN''))]"
| "params_dump NoParams = []"

subsection \<open>The command record\<close>

record command =
  cmd_id :: uuid
  cmd_device_id :: uuid
  cmd_requested_by_user_id :: uuid
  cmd_requested_by_client_id :: uuid
  cmd_action :: action
  cmd_parameters :: "(string, json) odict"
  cmd_risk_class :: risk_class
  cmd_correlation_id :: string
  cmd_created_at :: datetime
  cmd_expires_at :: datetime
  cmd_started_at :: "datetime option"
  cmd_completed_at :: "datetime option"
  cmd_status :: command_status
  cmd_failure_code :: "string option"

definition with_status ::
  "command \<Rightarrow> command_status \<Rightarrow> datetime \<Rightarrow> string option \<Rightarrow> command"
where
  "with_status c status at_time failure_code =
     (let c1 = c\<lparr>cmd_status := status, cmd_failure_code := failure_code\<rparr> in
      if status = command_status.RUNNING then c1\<lparr>cmd_started_at := Some at_time\<rparr>
      else c1\<lparr>cmd_completed_at := Some at_time\<rparr>)"

subsection \<open>Policy\<close>

record action_spec =
  as_required_capability :: capability
  as_params_model :: params_model
  as_base_risk :: risk_class

definition ACTION_SPECS :: "(action, action_spec) odict" where
  "ACTION_SPECS =
    [(SET_POWER, \<lparr>as_required_capability = POWER, as_params_model = OnOffModel,
        as_base_risk = LOW\<rparr>),
     (SET_BRIGHTNESS, \<lparr>as_required_capability = BRIGHTNESS, as_params_model = BrightnessModel,
        as_base_risk = LOW\<rparr>),
     (SET_VOLUME, \<lparr>as_required_capability = VOLUME, as_params_model = VolumeModel,
        as_base_risk = LOW\<rparr>),
     (SET_PLAYBACK, \<lparr>as_required_capability = MEDIA_PLAYBACK, as_params_model = PlaybackModel,
        as_base_risk = LOW\<rparr>),
     (SET_TARGET_TEMPERATURE, \<lparr>as_required_capability = TARGET_TEMPERATURE,
        as_params_model = TargetTemperatureModel, as_base_risk = MEDIUM\<rparr>),
     (SET_HEATER, \<lparr>as_required_capability = HEATING, as_params_model = OnOffModel,
        as_base_risk = MEDIUM\<rparr>),
     (SET_FILTER, \<lparr>as_required_capability = FILTER, as_params_model = OnOffModel,
        as_base_risk = MEDIUM\<rparr>),
     (SET_BUBBLES, \<lparr>as_required_capability = BUBBLES, as_params_model = OnOffModel,
        as_base_risk = MEDIUM\<rparr>),
     (SET_CONTROL_PANEL_LOCK, \<lparr>as_required_capability = CONTROL_PANEL_LOCK,
        as_params_model = OnOffModel, as_base_risk = MEDIUM\<rparr>),
     (SET_LOCK_STATE, \<lparr>as_required_capability = capability.LOCK,
        as_params_model = LockStateModel, as_base_risk = MEDIUM\<rparr>),
     (action.UNLATCH, \<lparr>as_required_capability = capability.UNLATCH, as_params_model = NoModel,
        as_base_risk = HIGH\<rparr>)]"

text \<open>
  \<open>None\<close> stands for the exception: a failed narrowing assertion, or an action missing
  from the table.
\<close>

definition classify :: "action \<Rightarrow> command_params \<Rightarrow> risk_class option" where
  "classify a params =
     (case od_get ACTION_SPECS a of
        None \<Rightarrow> None
      | Some spec \<Rightarrow>
          if a = SET_LOCK_STATE then
            (case params of
               LockStateParams d \<Rightarrow> Some (if d = UNLOCKED then HIGH else MEDIUM)
             | _ \<Rightarrow> None)
          else Some (as_base_risk spec))"

definition required_capability_for :: "action \<Rightarrow> command_params \<Rightarrow> capability option" where
  "required_capability_for a params =
     (if a = SET_LOCK_STATE then
        (case params of
           LockStateParams d \<Rightarrow>
             if d = UNLOCKED then Some UNLOCK
             else map_option as_required_capability (od_get ACTION_SPECS a)
         | _ \<Rightarrow> None)
      else map_option as_required_capability (od_get ACTION_SPECS a))"

subsection \<open>Reconciliation\<close>

definition temperature_epsilon_c :: rat where
  "temperature_epsilon_c = 1 / 20"

definition compare_observed :: "'a option \<Rightarrow> 'a \<Rightarrow> bool option" where
  "compare_observed observed expected =
     (case observed of None \<Rightarrow> None | Some v \<Rightarrow> Some (v = expected))"

definition desired_matches :: "action \<Rightarrow> command_params \<Rightarrow> device_state \<Rightarrow> bool option" where
  "desired_matches a p s =
     (case a of
        SET_POWER \<Rightarrow>
          (case p of OnOffParams b \<Rightarrow> compare_observed (ds_power s) b | _ \<Rightarrow> None)
      | SET_BRIGHTNESS \<Rightarrow>
          (case p of BrightnessParams n \<Rightarrow> compare_observed (ds_brightness s) n | _ \<Rightarrow> None)
      | SET_VOLUME \<Rightarrow>
          (case p of VolumeParams n \<Rightarrow> compare_observed (ds_volume s) n | _ \<Rightarrow> None)
      | SET_PLAYBACK \<Rightarrow>
          (case p of
             PlaybackParams c \<Rightarrow>
               compare_observed (ds_playback s) (if c = PLAY then PLAYING else PAUSED)
           | _ \<Rightarrow> None)
      | SET_TARGET_TEMPERATURE \<Rightarrow>
          (case p of
             TargetTemperatureParams c \<Rightarrow>
               (case ds_target_temperature_c s of
                  None \<Rightarrow> None
                | Some t \<Rightarrow> Some (\<bar>t - c\<bar> \<le> temperature_epsilon_c))
           | _ \<Rightarrow> None)
      | SET_HEATER \<Rightarrow>
          (case p of OnOffParams b \<Rightarrow> compare_observed (ds_heater s) b | _ \<Rightarrow> None)
      | SET_FILTER \<Rightarrow>
          (case p of OnOffParams b \<Rightarrow> compare_observed (ds_filter_pump s) b | _ \<Rightarrow> None)
      | SET_BUBBLES \<Rightarrow>
          (case p of OnOffParams b \<Rightarrow> compare_observed (ds_bubbles s) b | _ \<Rightarrow> None)
      | SET_CONTROL_PANEL_LOCK \<Rightarrow>
          (case p of
             OnOffParams b \<Rightarrow> compare_observed (ds_control_panel_lock s) b
           | _ \<Rightarrow> None)
      | SET_LOCK_STATE \<Rightarrow>
          (case p of LockStateParams d \<Rightarrow> compare_observed (ds_lock_state s) d | _ \<Rightarrow> None)
      | _ \<Rightarrow> None)"

subsection \<open>Lemmas\<close>

text \<open>The parameters that belong to an action, with the bounds the models declare.\<close>

definition params_fit :: "action \<Rightarrow> command_params \<Rightarrow> bool" where
  "params_fit a p =
     (case p of
        OnOffParams b \<Rightarrow>
          a \<in> {SET_POWER, SET_HEATER, SET_FILTER, SET_BUBBLES, SET_CONTROL_PANEL_LOCK}
      | BrightnessParams n \<Rightarrow> a = SET_BRIGHTNESS \<and> 0 \<le> n \<and> n \<le> 100
      | VolumeParams n \<Rightarrow> a = SET_VOLUME \<and> 0 \<le> n \<and> n \<le> 100
      | PlaybackParams c \<Rightarrow> a = SET_PLAYBACK
      | TargetTemperatureParams c \<Rightarrow> a = SET_TARGET_TEMPERATURE \<and> 0 \<le> c \<and> c \<le> 60
      | LockStateParams d \<Rightarrow> a = SET_LOCK_STATE \<and> d \<noteq> lock_state.UNKNOWN
      | NoParams \<Rightarrow> a = action.UNLATCH)"

lemma params_fit_simps [simp]:
  "params_fit a (OnOffParams b) \<longleftrightarrow>
     a \<in> {SET_POWER, SET_HEATER, SET_FILTER, SET_BUBBLES, SET_CONTROL_PANEL_LOCK}"
  "params_fit a (BrightnessParams n) \<longleftrightarrow> a = SET_BRIGHTNESS \<and> 0 \<le> n \<and> n \<le> 100"
  "params_fit a (VolumeParams n) \<longleftrightarrow> a = SET_VOLUME \<and> 0 \<le> n \<and> n \<le> 100"
  "params_fit a (PlaybackParams c) \<longleftrightarrow> a = SET_PLAYBACK"
  "params_fit a (TargetTemperatureParams t) \<longleftrightarrow> a = SET_TARGET_TEMPERATURE \<and> 0 \<le> t \<and> t \<le> 60"
  "params_fit a (LockStateParams d) \<longleftrightarrow> a = SET_LOCK_STATE \<and> d \<noteq> lock_state.UNKNOWN"
  "params_fit a NoParams \<longleftrightarrow> a = action.UNLATCH"
  by (simp_all add: params_fit_def)

lemma ACTION_SPECS_total: "\<exists>spec. od_get ACTION_SPECS a = Some spec"
  by (cases a) (simp_all add: ACTION_SPECS_def od_get_def)

lemma ACTION_SPECS_wf: "od_wf ACTION_SPECS"
  by (simp add: ACTION_SPECS_def od_wf_def)

lemma od_get_ACTION_SPECS:
  "map_option as_params_model (od_get ACTION_SPECS a) =
     Some (case a of SET_BRIGHTNESS \<Rightarrow> BrightnessModel | SET_VOLUME \<Rightarrow> VolumeModel
           | SET_PLAYBACK \<Rightarrow> PlaybackModel | SET_TARGET_TEMPERATURE \<Rightarrow> TargetTemperatureModel
           | SET_LOCK_STATE \<Rightarrow> LockStateModel | action.UNLATCH \<Rightarrow> NoModel | _ \<Rightarrow> OnOffModel)"
  by (cases a) (simp_all add: ACTION_SPECS_def od_get_def)

lemma model_validate_fit:
  assumes "od_get ACTION_SPECS a = Some spec"
    and "model_validate co (as_params_model spec) raw = Some p"
  shows "params_fit a p"
  using assms od_get_ACTION_SPECS[of a]
  by (cases a) (auto split: bind_splits if_splits)

lemma classify_fit: "params_fit a p \<Longrightarrow> \<exists>r. classify a p = Some r"
  using ACTION_SPECS_total[of a] by (cases p) (auto simp: classify_def)

lemma required_capability_fit: "params_fit a p \<Longrightarrow> \<exists>c. required_capability_for a p = Some c"
  using ACTION_SPECS_total[of a] by (cases p) (auto simp: required_capability_for_def)

lemma classify_HIGH_iff:
  "params_fit a p \<Longrightarrow>
     classify a p = Some HIGH \<longleftrightarrow>
     a = action.UNLATCH \<or> (a = SET_LOCK_STATE \<and> p = LockStateParams UNLOCKED)"
  by (cases p) (auto simp: classify_def ACTION_SPECS_def od_get_def)

lemma with_status_sel [simp]:
  "cmd_status (with_status c st t f) = st"
  "cmd_failure_code (with_status c st t f) = f"
  "cmd_id (with_status c st t f) = cmd_id c"
  "cmd_device_id (with_status c st t f) = cmd_device_id c"
  "cmd_action (with_status c st t f) = cmd_action c"
  "cmd_correlation_id (with_status c st t f) = cmd_correlation_id c"
  "cmd_risk_class (with_status c st t f) = cmd_risk_class c"
  "cmd_parameters (with_status c st t f) = cmd_parameters c"
  "cmd_requested_by_user_id (with_status c st t f) = cmd_requested_by_user_id c"
  "cmd_requested_by_client_id (with_status c st t f) = cmd_requested_by_client_id c"
  "cmd_created_at (with_status c st t f) = cmd_created_at c"
  "cmd_expires_at (with_status c st t f) = cmd_expires_at c"
  by (simp_all add: with_status_def Let_def)

lemma with_status_times [simp]:
  "st \<noteq> command_status.RUNNING \<Longrightarrow> cmd_completed_at (with_status c st t f) = Some t"
  "st \<noteq> command_status.RUNNING \<Longrightarrow> cmd_started_at (with_status c st t f) = cmd_started_at c"
  "cmd_started_at (with_status c command_status.RUNNING t f) = Some t"
  "cmd_completed_at (with_status c command_status.RUNNING t f) = cmd_completed_at c"
  by (simp_all add: with_status_def Let_def)

text \<open>What the gateway writes down of a command's parameters reads back as the same parameters.\<close>

definition coercions_exact :: "coercions \<Rightarrow> bool" where
  "coercions_exact co \<longleftrightarrow>
     (\<forall>b. co_bool co (JBool b) = Some b) \<and> (\<forall>n. co_int co (JInt n) = Some n) \<and>
     (\<forall>q. co_float co (JFloat q) = Some q)"

lemma params_dump_roundtrip:
  assumes "coercions_exact co" and "params_fit a p" and "od_get ACTION_SPECS a = Some spec"
  shows "model_validate co (as_params_model spec) (params_dump p) = Some p"
  using assms od_get_ACTION_SPECS[of a]
  by (cases p)
    (auto simp: coercions_exact_def only_field_def od_get_def
      split: playback_command.splits lock_state.splits)

end
