(* ===== verification/Provider_Base.thy ===== *)
theory Provider_Base
  imports Command_Model
begin

section \<open>The contract between the gateway core and a provider adapter\<close>

text \<open>
  \<open>integrations/base/models.py\<close>, \<open>integrations/base/errors.py\<close> and
  \<open>integrations/base/provider.py\<close>. An adapter is a record of operations over the world \<open>'w\<close>
  it talks to (its own state, the network, the physical devices). An operation returns its
  result or an exception: the caller's own timeout, an adapter failure, or anything else.
\<close>

record provider_device_ref =
  ref_provider :: string
  ref_provider_device_id :: string

definition ref_key :: "provider_device_ref \<Rightarrow> string \<times> string" where
  "ref_key r = (ref_provider r, ref_provider_device_id r)"

record provider_device =
  pd_ref :: provider_device_ref
  pd_suggested_name :: string
  pd_kind :: device_kind
  pd_capabilities :: "capability list"
  pd_room_hint :: "string option"
  pd_constraints :: device_constraints

record provider_state =
  ps_state :: device_state
  ps_availability :: availability
  ps_observed_at :: datetime

record provider_command =
  pc_action :: action
  pc_params :: command_params

datatype command_outcome = APPLIED | REJECTED | UNKNOWN

record provider_command_result =
  pcr_outcome :: command_outcome
  pcr_state :: "provider_state option"
  pcr_failure_code :: "string option"

record provider_event =
  pe_ref :: provider_device_ref
  pe_state :: provider_state

text \<open>\<open>ControllerMisbehaved\<close> is the Bestway adapter's subclass of \<open>ProviderUnavailableError\<close>.\<close>

datatype provider_error =
  ProviderError | ProviderUnavailableError | ProviderRejectedError | ControllerMisbehaved

fun failure_code :: "provider_error \<Rightarrow> string" where
  "failure_code ProviderError = ''provider_error''"
| "failure_code ProviderUnavailableError = ''device_unavailable''"
| "failure_code ProviderRejectedError = ''command_rejected''"
| "failure_code ControllerMisbehaved = ''device_unavailable''"

text \<open>\<open>except ProviderUnavailableError\<close> catches the class and its subclass.\<close>

fun is_unavailable :: "provider_error \<Rightarrow> bool" where
  "is_unavailable ProviderUnavailableError = True"
| "is_unavailable ControllerMisbehaved = True"
| "is_unavailable _ = False"

datatype adapter_exn = TimeoutError | Provider provider_error | OtherException string

record 'w device_provider =
  dp_name :: string
  dp_discover_devices :: "'w \<Rightarrow> (adapter_exn + provider_device list) \<times> 'w"
  dp_get_state :: "provider_device_ref \<Rightarrow> 'w \<Rightarrow> (adapter_exn + provider_state) \<times> 'w"
  dp_execute ::
    "provider_device_ref \<Rightarrow> provider_command \<Rightarrow> 'w
       \<Rightarrow> (adapter_exn + provider_command_result) \<times> 'w"

lemma ref_key_inject [simp]: "ref_key r = ref_key r' \<longleftrightarrow> r = r'"
  by (cases r; cases r') (auto simp: ref_key_def)

text \<open>
  What the core relies on: an adapter discovers only devices of its own, every state it hands
  over is one \<open>DeviceState\<close> accepts, when it is given parameters their model accepts, and its own
  invariant, \<open>world_ok\<close>, survives each operation. The class enforces the second at construction.
\<close>

locale adapter_contract =
  fixes p :: "'w device_provider"
    and refs :: "provider_device_ref set"
    and world_ok :: "'w \<Rightarrow> bool"
  assumes discover_refs: "world_ok w \<Longrightarrow> fst (dp_discover_devices p w) = Inr pds \<Longrightarrow> pd_ref ` set pds \<subseteq> refs"
    and state_ok: "world_ok w \<Longrightarrow> fst (dp_get_state p r w) = Inr st \<Longrightarrow> device_state_ok (ps_state st)"
    and result_ok: "world_ok w \<Longrightarrow> params_fit (pc_action c) (pc_params c) \<Longrightarrow>
      fst (dp_execute p r c w) = Inr res \<Longrightarrow> pcr_state res = Some st \<Longrightarrow> device_state_ok (ps_state st)"
    and discover_keeps: "world_ok w \<Longrightarrow> world_ok (snd (dp_discover_devices p w))"
    and get_keeps: "world_ok w \<Longrightarrow> world_ok (snd (dp_get_state p r w))"
    and execute_keeps: "world_ok w \<Longrightarrow> params_fit (pc_action c) (pc_params c) \<Longrightarrow>
      world_ok (snd (dp_execute p r c w))"

end
