(* ===== verification/Identity.thy ===== *)
theory Identity
  imports Prelude
begin

unbundle bit_operations_syntax

section \<open>Identifiers\<close>

text \<open>
  \<open>devices/identity.py\<close>: public identifiers derived from provider identifiers. The keyed
  digest (HMAC-SHA256, 32 bytes) is a parameter; the layout of its message and of the
  identifier is the source's and the standard library's.
\<close>

type_synonym hmac = "string \<Rightarrow> string \<Rightarrow> byte list"

definition bytes_to_uuid_int :: "byte list \<Rightarrow> uuid" where
  "bytes_to_uuid_int bs = foldl (\<lambda>acc b. push_bit 8 acc OR ucast b) 0 bs"

text \<open>\<open>UUID(bytes=..., version=v)\<close> sets the variant bits and the version bits.\<close>

definition uuid_with_version :: "uuid \<Rightarrow> uuid \<Rightarrow> uuid" where
  "uuid_with_version n v =
     (let n1 = n AND NOT (push_bit 48 0xC000);
          n2 = n1 OR push_bit 48 0x8000;
          n3 = n2 AND NOT (push_bit 64 0xF000)
      in n3 OR push_bit 76 v)"

definition uuid_version :: "uuid \<Rightarrow> uuid" where
  "uuid_version u = drop_bit 76 u AND 0xF"

definition derive_uuid :: "hmac \<Rightarrow> string \<Rightarrow> string list \<Rightarrow> uuid" where
  "derive_uuid h salt parts =
     (let message = py_join [CHR 0x00] parts; digest = h salt message in
      uuid_with_version (bytes_to_uuid_int (take 16 digest)) 5)"

definition device_uuid :: "hmac \<Rightarrow> string \<Rightarrow> string \<Rightarrow> string \<Rightarrow> uuid" where
  "device_uuid h salt provider provider_device_id =
     derive_uuid h salt [''device'', provider, provider_device_id]"

definition room_uuid :: "hmac \<Rightarrow> string \<Rightarrow> string \<Rightarrow> uuid" where
  "room_uuid h salt room_name =
     derive_uuid h salt [''room'', py_casefold (py_strip room_name)]"

lemma uuid_version_with_version: "uuid_version (uuid_with_version n 5) = 5"
proof (rule bit_word_eqI)
  fix i :: nat
  assume "i < LENGTH(128)"
  have low: "(0xF :: uuid) = mask 4" and five: "(5 :: uuid) = take_bit 4 5"
    by (simp_all add: mask_eq_exp_minus_1)
  show "bit (uuid_version (uuid_with_version n 5)) i = bit (5 :: uuid) i"
  proof (cases "i < 4")
    case True
    then consider "i = 0" | "i = 1" | "i = 2" | "i = 3" by linarith
    then show ?thesis
      by cases (simp_all add: uuid_version_def uuid_with_version_def Let_def low bit_simps)
  next
    case False
    then have "\<not> bit (5 :: uuid) i" by (metis five bit_take_bit_iff)
    with False show ?thesis by (simp add: uuid_version_def low bit_simps)
  qed
qed

text \<open>The messages of two devices differ unless provider and provider identifier agree.\<close>

definition no_nul :: "string \<Rightarrow> bool" where
  "no_nul s \<longleftrightarrow> CHR 0x00 \<notin> set s"

lemma append_nul_inject:
  "no_nul a \<Longrightarrow> no_nul b \<Longrightarrow> a @ CHR 0x00 # s = b @ CHR 0x00 # t \<Longrightarrow> a = b \<and> s = t"
proof (induction a arbitrary: b)
  case Nil
  then show ?case by (cases b) (auto simp: no_nul_def)
next
  case (Cons c a)
  then show ?case by (cases b) (auto simp: no_nul_def)
qed

lemma device_message_inject:
  "no_nul p \<Longrightarrow> no_nul q \<Longrightarrow>
     py_join [CHR 0x00] [''device'', p, i] = py_join [CHR 0x00] [''device'', q, j] \<longleftrightarrow>
     p = q \<and> i = j"
  using append_nul_inject[of p q i j] by auto

lemma device_room_message_distinct:
  "py_join [CHR 0x00] [''device'', p, i] \<noteq> py_join [CHR 0x00] [''room'', r]"
  by simp

text \<open>
  Two different devices share a public identifier only through the keyed digest: for
  provider names without a NUL byte the messages digested for them differ, every identifier
  is marked as version 5, and a device never shares its message with a room.
\<close>

lemma device_uuid_by_digest:
  assumes "no_nul p" and "no_nul q" and "(p, i) \<noteq> (q, j)"
  shows "\<exists>m m'. m \<noteq> m' \<and>
    device_uuid h salt p i = uuid_with_version (bytes_to_uuid_int (take 16 (h salt m))) 5 \<and>
    device_uuid h salt q j = uuid_with_version (bytes_to_uuid_int (take 16 (h salt m'))) 5 \<and>
    uuid_version (device_uuid h salt p i) = 5 \<and> (\<forall>r. m \<noteq> py_join [CHR 0x00] [''room'', r])"
proof -
  let ?m = "py_join [CHR 0x00] [''device'', p, i]" and ?n = "py_join [CHR 0x00] [''device'', q, j]"
  have "?m \<noteq> ?n" using device_message_inject[OF assms(1,2), of i j] assms(3) by auto
  moreover have "\<forall>r. ?m \<noteq> py_join [CHR 0x00] [''room'', r]" using device_room_message_distinct by blast
  ultimately show ?thesis
    by (intro exI[of _ ?m] exI[of _ ?n])
      (simp add: device_uuid_def derive_uuid_def Let_def uuid_version_with_version)
qed

end
