(* ===== verification/Device_Registry.thy ===== *)
theory Device_Registry
  imports Domain_Errors Provider_Base Identity "HOL-Library.List_Lexorder" "HOL-Library.Char_ord"
begin

section \<open>The device registry\<close>

text \<open>
  \<open>devices/registry.py\<close>: the in-memory mapping between HomeFlow devices and provider
  handles. Three dictionaries: devices and references by identifier, identifiers by
  provider reference.
\<close>

record device_registry =
  reg_id_salt :: string
  reg_devices :: "(uuid, device) odict"
  reg_refs :: "(uuid, provider_device_ref) odict"
  reg_id_by_ref :: "(string \<times> string, uuid) odict"

definition new_registry :: "string \<Rightarrow> device_registry" where
  "new_registry salt =
     \<lparr>reg_id_salt = salt, reg_devices = [], reg_refs = [], reg_id_by_ref = []\<rparr>"

definition register ::
  "hmac \<Rightarrow> provider_device \<Rightarrow> provider_state \<Rightarrow> device_registry \<Rightarrow> device \<times> device_registry"
where
  "register h pd st r =
     (let ref = pd_ref pd;
          identifier = device_uuid h (reg_id_salt r) (ref_provider ref) (ref_provider_device_id ref);
          hint = pd_room_hint pd;
          d = \<lparr>dev_id = identifier,
               dev_display_name = pd_suggested_name pd,
               dev_kind = pd_kind pd,
               dev_room_id =
                 (if truthy_str hint then map_option (room_uuid h (reg_id_salt r)) hint else None),
               dev_room_name = hint,
               dev_capabilities = pd_capabilities pd,
               dev_availability = ps_availability st,
               dev_state = ps_state st,
               dev_constraints = pd_constraints pd,
               dev_state_observed_at = ps_observed_at st,
               dev_last_seen_at = ps_observed_at st,
               dev_state_source = PROVIDER_SNAPSHOT\<rparr>
      in (d, r\<lparr>reg_devices := od_set identifier d (reg_devices r),
               reg_refs := od_set identifier ref (reg_refs r),
               reg_id_by_ref := od_set (ref_key ref) identifier (reg_id_by_ref r)\<rparr>))"

definition reg_list_devices :: "device_registry \<Rightarrow> device list" where
  "reg_list_devices r = sort_key dev_display_name (map snd (reg_devices r))"

definition reg_get :: "uuid \<Rightarrow> device_registry \<Rightarrow> device option" where
  "reg_get i r = od_get (reg_devices r) i"

definition reg_require :: "uuid \<Rightarrow> device_registry \<Rightarrow> failure + device" where
  "reg_require i r =
     (case od_get (reg_devices r) i of
        None \<Rightarrow> Inl (raise_kind DeviceNotFoundError) | Some d \<Rightarrow> Inr d)"

definition ref_for :: "uuid \<Rightarrow> device_registry \<Rightarrow> failure + provider_device_ref" where
  "ref_for i r =
     (case od_get (reg_refs r) i of
        None \<Rightarrow> Inl (raise_kind DeviceNotFoundError) | Some ref \<Rightarrow> Inr ref)"

definition id_for_ref :: "provider_device_ref \<Rightarrow> device_registry \<Rightarrow> uuid option" where
  "id_for_ref ref r = od_get (reg_id_by_ref r) (ref_key ref)"

definition reg_rooms :: "device_registry \<Rightarrow> room list" where
  "reg_rooms r =
     (let seen = fold (\<lambda>d seen.
            (case (dev_room_id d, dev_room_name d) of
               (Some i, Some n) \<Rightarrow>
                 if od_get seen i = None then od_set i \<lparr>room_id = i, room_name = n\<rparr> seen else seen
             | _ \<Rightarrow> seen))
          (map snd (reg_devices r)) []
      in sort_key room_name (map snd seen))"

definition applied ::
  "device \<Rightarrow> device_state \<Rightarrow> availability \<Rightarrow> datetime \<Rightarrow> state_source \<Rightarrow> device"
where
  "applied current state avail observed_at source =
     (let reachable = (avail = availability.ONLINE) in
      current\<lparr>dev_state := merged_with (dev_state current) state,
              dev_availability := avail,
              dev_state_observed_at :=
                (if reachable then observed_at else dev_state_observed_at current),
              dev_last_seen_at :=
                (if reachable then observed_at else dev_last_seen_at current),
              dev_state_source := source\<rparr>)"

definition reg_apply ::
  "uuid \<Rightarrow> device_state \<Rightarrow> availability \<Rightarrow> datetime \<Rightarrow> state_source \<Rightarrow> device_registry
     \<Rightarrow> (failure + device) \<times> device_registry"
where
  "reg_apply i state avail observed_at source r =
     (case reg_require i r of
        Inl e \<Rightarrow> (Inl e, r)
      | Inr current \<Rightarrow>
          (let updated = applied current state avail observed_at source in
           (Inr updated, r\<lparr>reg_devices := od_set i updated (reg_devices r)\<rparr>)))"

subsection \<open>Invariant\<close>

definition registry_inv :: "device_registry \<Rightarrow> bool" where
  "registry_inv r \<longleftrightarrow>
     od_wf (reg_devices r) \<and> od_wf (reg_refs r) \<and> od_wf (reg_id_by_ref r) \<and>
     (\<forall>i. od_get (reg_devices r) i = None \<longleftrightarrow> od_get (reg_refs r) i = None) \<and>
     (\<forall>i d. od_get (reg_devices r) i = Some d \<longrightarrow> dev_id d = i \<and> device_state_ok (dev_state d)) \<and>
     (\<forall>i ref. od_get (reg_refs r) i = Some ref \<longrightarrow> od_get (reg_id_by_ref r) (ref_key ref) = Some i) \<and>
     (\<forall>k i. od_get (reg_id_by_ref r) k = Some i \<longrightarrow> od_get (reg_devices r) i \<noteq> None)"

lemma registry_invD:
  assumes "registry_inv r"
  shows "od_get (reg_id_by_ref r) k = Some i \<Longrightarrow> \<exists>d. od_get (reg_devices r) i = Some d"
    and "od_get (reg_devices r) i = Some d \<Longrightarrow> dev_id d = i"
    and "od_get (reg_refs r) i = Some ref \<Longrightarrow> od_get (reg_id_by_ref r) (ref_key ref) = Some i"
    and "od_get (reg_devices r) i = Some d \<Longrightarrow> \<exists>ref. od_get (reg_refs r) i = Some ref"
    and "od_get (reg_devices r) i = Some d \<Longrightarrow> device_state_ok (dev_state d)"
  using assms unfolding registry_inv_def by (blast, blast, blast, metis not_None_eq, blast)

lemma registry_inv_new: "registry_inv (new_registry salt)"
  by (simp add: registry_inv_def new_registry_def)

lemma register_id:
  "dev_id (fst (register h pd st r)) =
     device_uuid h (reg_id_salt r) (ref_provider (pd_ref pd)) (ref_provider_device_id (pd_ref pd))"
  by (simp add: register_def Let_def)

lemma register_sel:
  assumes "register h pd st r = (d, r')"
  shows "reg_devices r' = od_set (dev_id d) d (reg_devices r)"
    and "reg_refs r' = od_set (dev_id d) (pd_ref pd) (reg_refs r)"
    and "reg_id_by_ref r' = od_set (ref_key (pd_ref pd)) (dev_id d) (reg_id_by_ref r)"
    and "reg_id_salt r' = reg_id_salt r"
    and "dev_state d = ps_state st" and "dev_capabilities d = pd_capabilities pd"
    and "dev_constraints d = pd_constraints pd" and "dev_availability d = ps_availability st"
  using assms by (auto simp: register_def Let_def)

text \<open>
  A reference is registered under one identifier. The identifier is the reference's own,
  which is all that keeps two references apart if their identifiers collide.
\<close>

definition id_of_ref :: "hmac \<Rightarrow> string \<Rightarrow> provider_device_ref \<Rightarrow> uuid" where
  "id_of_ref h salt ref = device_uuid h salt (ref_provider ref) (ref_provider_device_id ref)"

definition registry_keyed :: "hmac \<Rightarrow> device_registry \<Rightarrow> bool" where
  "registry_keyed h r \<longleftrightarrow>
     (\<forall>ref i. od_get (reg_id_by_ref r) (ref_key ref) = Some i \<longrightarrow> i = id_of_ref h (reg_id_salt r) ref)"

lemma registry_keyed_new: "registry_keyed h (new_registry salt)"
  by (simp add: registry_keyed_def new_registry_def)

lemma registry_keyed_register:
  assumes "registry_keyed h r" and "register h pd st r = (d, r')"
  shows "registry_keyed h r'"
proof -
  have "dev_id d = id_of_ref h (reg_id_salt r) (pd_ref pd)"
    using register_id[of h pd st r] assms(2) by (simp add: id_of_ref_def)
  with assms(1) show ?thesis
    by (auto simp: registry_keyed_def register_sel[OF assms(2)] od_get_set)
qed

lemma registry_inv_register:
  assumes inv: "registry_inv r" and ok: "device_state_ok (ps_state st)"
    and reg: "register h pd st r = (d, r')"
    and fresh: "\<And>ref. od_get (reg_refs r) (dev_id d) = Some ref \<Longrightarrow> ref = pd_ref pd"
    and keyed: "registry_keyed h r"
  shows "registry_inv r'"
proof -
  note sel = register_sel[OF reg]
  have own: "dev_id d = id_of_ref h (reg_id_salt r) (pd_ref pd)"
    using register_id[of h pd st r] reg by (simp add: id_of_ref_def)
  have refs: "od_get (reg_id_by_ref r') (ref_key ref) = Some i"
    if "od_get (reg_refs r') i = Some ref" for i ref
  proof (cases "i = dev_id d")
    case True
    with that show ?thesis by (auto simp: sel od_get_set)
  next
    case False
    with that have old: "od_get (reg_id_by_ref r) (ref_key ref) = Some i"
      using inv by (auto simp: sel od_get_set registry_inv_def)
    then have "ref \<noteq> pd_ref pd" using keyed own False by (auto simp: registry_keyed_def)
    with old show ?thesis by (simp add: sel od_get_set)
  qed
  show ?thesis
    using inv ok refs unfolding registry_inv_def sel
    by (auto simp: sel od_get_set split: if_splits)
qed

lemma reg_apply_unknown:
  "od_get (reg_devices r) i = None \<Longrightarrow>
     reg_apply i s a t src r = (Inl (raise_kind DeviceNotFoundError), r)"
  by (simp add: reg_apply_def reg_require_def)

lemma reg_apply_known:
  "od_get (reg_devices r) i = Some d \<Longrightarrow>
     reg_apply i s a t src r =
       (Inr (applied d s a t src), r\<lparr>reg_devices := od_set i (applied d s a t src) (reg_devices r)\<rparr>)"
  by (simp add: reg_apply_def reg_require_def Let_def)

text \<open>An observation changes what the device reports, never what it is.\<close>

lemma applied_frame [simp]:
  "dev_id (applied d s a t src) = dev_id d"
  "dev_kind (applied d s a t src) = dev_kind d"
  "dev_capabilities (applied d s a t src) = dev_capabilities d"
  "dev_constraints (applied d s a t src) = dev_constraints d"
  "dev_display_name (applied d s a t src) = dev_display_name d"
  "dev_room_id (applied d s a t src) = dev_room_id d"
  "dev_room_name (applied d s a t src) = dev_room_name d"
  "dev_state (applied d s a t src) = merged_with (dev_state d) s"
  "dev_availability (applied d s a t src) = a"
  by (simp_all add: applied_def Let_def)

lemma supports_applied [simp]: "supports (applied d s a t src) c = supports d c"
  by (simp add: supports_def)

lemma registry_inv_apply:
  assumes inv: "registry_inv r" and ok: "device_state_ok s"
  shows "registry_inv (snd (reg_apply i s a t src r))"
proof (cases "od_get (reg_devices r) i")
  case None
  with inv show ?thesis by (simp add: reg_apply_unknown)
next
  case (Some d)
  obtain ref where "od_get (reg_refs r) i = Some ref"
    using inv Some by (metis not_None_eq registry_inv_def)
  moreover have "dev_id d = i" and "device_state_ok (dev_state d)"
    using inv Some by (auto simp: registry_inv_def)
  ultimately show ?thesis using inv ok
    by (simp add: Some reg_apply_known registry_inv_def od_get_set merged_with_ok)
qed

lemma reg_apply_frame [simp]:
  "reg_refs (snd (reg_apply i s a t src r)) = reg_refs r"
  "reg_id_by_ref (snd (reg_apply i s a t src r)) = reg_id_by_ref r"
  "reg_id_salt (snd (reg_apply i s a t src r)) = reg_id_salt r"
  by (auto simp: reg_apply_def Let_def split: sum.splits)

end
