(* ===== verification/Event_Bus.thy ===== *)
theory Event_Bus
  imports Prelude Ordered_Dict
begin

section \<open>The event bus\<close>

text \<open>
  \<open>events/models.py\<close> and \<open>events/bus.py\<close>: a bounded publish/subscribe. A subscription is an
  object with a bounded queue; the bus holds the live ones in order. Objects are numbered in
  the order of their creation and live in a store, since a consumer keeps reading a
  subscription that the bus has already forgotten. The queue carries \<open>None\<close> as the marker
  that ends the iteration.
\<close>

datatype event_type =
    DEVICE_DISCOVERED | DEVICE_AVAILABILITY_CHANGED | DEVICE_STATE_CHANGED
  | COMMAND_REQUESTED | COMMAND_STARTED | COMMAND_SUCCEEDED | COMMAND_FAILED | COMMAND_TIMED_OUT
  | DOORBELL_PRESSED | MOTION_DETECTED
  | APPLIANCE_PROGRAM_STARTED | APPLIANCE_PROGRAM_FINISHED
  | POOL_TEMPERATURE_CHANGED | POOL_TARGET_TEMPERATURE_CHANGED
  | THERMOSTAT_STATE_CHANGED
  | SCHEDULE_ARMED | SCHEDULE_SETTLED

record domain_event =
  ev_type :: event_type
  ev_occurred_at :: datetime
  ev_device_id :: "uuid option"
  ev_command_id :: "uuid option"
  ev_correlation_id :: "string option"
  ev_payload :: "(string, json) odict"

subsection \<open>Subscriptions\<close>

record 'e subscription =
  sub_queue :: "'e option list"
  sub_maxsize :: nat
  sub_lagged :: bool
  sub_closed :: bool

definition new_subscription :: "nat \<Rightarrow> 'e subscription" where
  "new_subscription maxsize =
     \<lparr>sub_queue = [], sub_maxsize = maxsize, sub_lagged = False, sub_closed = False\<rparr>"

text \<open>\<open>asyncio.Queue.put_nowait\<close> and \<open>get_nowait\<close>; \<open>None\<close> is \<open>QueueFull\<close> or \<open>QueueEmpty\<close>.\<close>

definition queue_full :: "'e subscription \<Rightarrow> bool" where
  "queue_full s \<longleftrightarrow> 0 < sub_maxsize s \<and> sub_maxsize s \<le> length (sub_queue s)"

definition put_nowait :: "'e option \<Rightarrow> 'e subscription \<Rightarrow> 'e subscription option" where
  "put_nowait x s =
     (if queue_full s then None else Some (s\<lparr>sub_queue := sub_queue s @ [x]\<rparr>))"

definition get_nowait :: "'e subscription \<Rightarrow> ('e option \<times> 'e subscription) option" where
  "get_nowait s =
     (case sub_queue s of [] \<Rightarrow> None | x # q \<Rightarrow> Some (x, s\<lparr>sub_queue := q\<rparr>))"

definition take_lagged :: "'e subscription \<Rightarrow> bool \<times> 'e subscription" where
  "take_lagged s = (sub_lagged s, s\<lparr>sub_lagged := False\<rparr>)"

definition offer :: "'e \<Rightarrow> 'e subscription \<Rightarrow> 'e subscription" where
  "offer e s =
     (if sub_closed s then s
      else
        (case put_nowait (Some e) s of
           Some s' \<Rightarrow> s'
         | None \<Rightarrow>
             (let s1 = s\<lparr>sub_lagged := True\<rparr>;
                  s2 = (case get_nowait s1 of None \<Rightarrow> s1 | Some (_, s') \<Rightarrow> s')
              in (case put_nowait (Some e) s2 of None \<Rightarrow> s2 | Some s' \<Rightarrow> s'))))"

text \<open>The part of \<open>close\<close> that touches the subscription itself.\<close>

definition close_queue :: "'e subscription \<Rightarrow> 'e subscription" where
  "close_queue s =
     (if sub_closed s then s
      else
        (let s1 = s\<lparr>sub_closed := True\<rparr> in
         (case put_nowait None s1 of None \<Rightarrow> s1 | Some s2 \<Rightarrow> s2)))"

text \<open>\<open>__anext__\<close>: it waits, returns an event, or ends the iteration.\<close>

datatype 'e next_result = Blocked | Event 'e | StopAsyncIteration

definition anext :: "'e subscription \<Rightarrow> 'e next_result \<times> 'e subscription" where
  "anext s =
     (case get_nowait s of
        None \<Rightarrow> (Blocked, s)
      | Some (None, s') \<Rightarrow> (StopAsyncIteration, s')
      | Some (Some e, s') \<Rightarrow> (Event e, s'))"

subsection \<open>The bus\<close>

record 'e event_bus =
  bus_queue_size :: nat
  bus_subscribers :: "nat list"
  bus_objects :: "'e subscription list"

definition new_bus :: "nat \<Rightarrow> 'e event_bus" where
  "new_bus queue_size =
     \<lparr>bus_queue_size = queue_size, bus_subscribers = [], bus_objects = []\<rparr>"

definition subscriber_count :: "'e event_bus \<Rightarrow> nat" where
  "subscriber_count b = length (bus_subscribers b)"

definition subscribe :: "'e event_bus \<Rightarrow> nat \<times> 'e event_bus" where
  "subscribe b =
     (let i = length (bus_objects b) in
      (i, b\<lparr>bus_objects := bus_objects b @ [new_subscription (bus_queue_size b)],
           bus_subscribers := bus_subscribers b @ [i]\<rparr>))"

definition unsubscribe :: "nat \<Rightarrow> 'e event_bus \<Rightarrow> 'e event_bus" where
  "unsubscribe i b = b\<lparr>bus_subscribers := remove1 i (bus_subscribers b)\<rparr>"

definition update_object ::
  "nat \<Rightarrow> ('e subscription \<Rightarrow> 'e subscription) \<Rightarrow> 'e event_bus \<Rightarrow> 'e event_bus"
where
  "update_object i f b =
     (if i < length (bus_objects b)
      then b\<lparr>bus_objects := (bus_objects b)[i := f (bus_objects b ! i)]\<rparr> else b)"

definition bus_publish :: "'e \<Rightarrow> 'e event_bus \<Rightarrow> 'e event_bus" where
  "bus_publish e b = fold (\<lambda>i. update_object i (offer e)) (bus_subscribers b) b"

definition bus_close :: "nat \<Rightarrow> 'e event_bus \<Rightarrow> 'e event_bus" where
  "bus_close i b =
     (if i < length (bus_objects b) \<and> sub_closed (bus_objects b ! i) then b
      else update_object i close_queue (unsubscribe i b))"

subsection \<open>Laws of the subscription\<close>

lemma sub_maxsize_ops [simp]:
  "sub_maxsize (offer e s) = sub_maxsize s"
  "sub_maxsize (close_queue s) = sub_maxsize s"
  "sub_maxsize (snd (take_lagged s)) = sub_maxsize s"
  "sub_maxsize (snd (anext s)) = sub_maxsize s"
  by (auto simp: offer_def close_queue_def take_lagged_def anext_def put_nowait_def
      get_nowait_def Let_def split: option.splits list.splits)

lemma sub_closed_offer [simp]: "sub_closed (offer e s) = sub_closed s"
  by (auto simp: offer_def put_nowait_def get_nowait_def Let_def split: option.splits list.splits)

lemma offer_closed [simp]: "sub_closed s \<Longrightarrow> offer e s = s"
  by (simp add: offer_def)

lemma offer_room:
  "\<not> sub_closed s \<Longrightarrow> \<not> queue_full s \<Longrightarrow>
     offer e s = s\<lparr>sub_queue := sub_queue s @ [Some e]\<rparr>"
  by (simp add: offer_def put_nowait_def)

lemma offer_full:
  "\<not> sub_closed s \<Longrightarrow> queue_full s \<Longrightarrow> length (sub_queue s) \<le> sub_maxsize s \<Longrightarrow>
     offer e s = s\<lparr>sub_lagged := True, sub_queue := tl (sub_queue s) @ [Some e]\<rparr>"
  by (cases "sub_queue s")
    (auto simp: offer_def put_nowait_def get_nowait_def queue_full_def Let_def)

definition sub_bounded :: "'e subscription \<Rightarrow> bool" where
  "sub_bounded s \<longleftrightarrow> 0 < sub_maxsize s \<and> length (sub_queue s) \<le> sub_maxsize s"

lemma sub_bounded_new: "0 < n \<Longrightarrow> sub_bounded (new_subscription n)"
  by (simp add: sub_bounded_def new_subscription_def)

lemma sub_bounded_offer: "sub_bounded s \<Longrightarrow> sub_bounded (offer e s)"
  by (cases "sub_closed s"; cases "queue_full s")
    (auto simp: sub_bounded_def offer_room offer_full queue_full_def)

lemma sub_bounded_close: "sub_bounded s \<Longrightarrow> sub_bounded (close_queue s)"
  by (auto simp: sub_bounded_def close_queue_def put_nowait_def queue_full_def Let_def)

lemma sub_bounded_anext: "sub_bounded s \<Longrightarrow> sub_bounded (snd (anext s))"
  by (auto simp: sub_bounded_def anext_def get_nowait_def split: list.splits option.splits)

lemma sub_bounded_take_lagged: "sub_bounded s \<Longrightarrow> sub_bounded (snd (take_lagged s))"
  by (simp add: sub_bounded_def take_lagged_def)

subsection \<open>What a consumer of the stream sees\<close>

text \<open>
  The writer task of the WebSocket handler (\<open>_forward\<close>) takes one event, then the lag flag,
  and sends a resync frame before the event if the flag was set.
\<close>

datatype 'e stream_frame = ResyncRequired | Deliver 'e

definition forward_one :: "'e subscription \<Rightarrow> 'e stream_frame list \<times> 'e subscription" where
  "forward_one s =
     (case anext s of
        (Event e, s1) \<Rightarrow>
          (let (lagged, s2) = take_lagged s1 in
           ((if lagged then [ResyncRequired] else []) @ [Deliver e], s2))
      | (_, s1) \<Rightarrow> ([], s1))"

datatype 'e stream_step = Publish 'e | Forward

fun stream_run ::
  "'e subscription \<Rightarrow> 'e stream_step list \<Rightarrow> 'e stream_frame list \<times> 'e subscription"
where
  "stream_run s [] = ([], s)"
| "stream_run s (Publish e # ops) = stream_run (offer e s) ops"
| "stream_run s (Forward # ops) =
     (let (fs, s1) = forward_one s; (gs, s2) = stream_run s1 ops in (fs @ gs, s2))"

fun published :: "'e stream_step list \<Rightarrow> 'e list" where
  "published [] = []"
| "published (Publish e # ops) = e # published ops"
| "published (Forward # ops) = published ops"

text \<open>
  The specification: a client that reads the frames against the published events may skip
  events at a resync frame and nowhere else. \<open>follows es fs rest\<close> reads the frames \<open>fs\<close>
  against \<open>es\<close> and leaves \<open>rest\<close>.
\<close>

inductive follows :: "'e list \<Rightarrow> 'e stream_frame list \<Rightarrow> 'e list \<Rightarrow> bool" where
  follows_done: "follows es [] es"
| follows_deliver: "follows es fs rest \<Longrightarrow> follows (e # es) (Deliver e # fs) rest"
| follows_resync: "follows es fs rest \<Longrightarrow> follows (skipped @ es) (ResyncRequired # fs) rest"

inductive_simps follows_Nil: "follows es [] rest"
inductive_simps follows_Deliver: "follows es (Deliver e # fs) rest"
inductive_cases follows_ResyncE: "follows es (ResyncRequired # fs) rest"

lemma follows_append: "follows es fs mid \<Longrightarrow> follows mid gs rest \<Longrightarrow> follows es (fs @ gs) rest"
  by (induction rule: follows.induct) (auto intro: follows.intros)

lemma follows_extend: "follows es fs rest \<Longrightarrow> follows (es @ tail) fs (rest @ tail)"
proof (induction rule: follows.induct)
  case (follows_resync es fs rest skipped)
  then have "follows (skipped @ (es @ tail)) (ResyncRequired # fs) (rest @ tail)"
    by (intro follows.follows_resync)
  then show ?case by simp
qed (auto intro: follows.intros)

text \<open>The queue holds the unread end of what was published, all of it if no lag is flagged.\<close>

definition in_step :: "'e list \<Rightarrow> 'e subscription \<Rightarrow> bool" where
  "in_step rest s \<longleftrightarrow>
     \<not> sub_closed s \<and> sub_bounded s \<and>
     (if sub_lagged s then (\<exists>dropped. map Some rest = map Some dropped @ sub_queue s)
      else map Some rest = sub_queue s)"

lemma in_step_new: "0 < n \<Longrightarrow> in_step [] (new_subscription n)"
  by (simp add: in_step_def sub_bounded_new) (simp add: new_subscription_def)

lemma in_step_offer: "in_step rest s \<Longrightarrow> in_step (rest @ [e]) (offer e s)"
proof -
  assume st: "in_step rest s"
  then have open_s: "\<not> sub_closed s" and b: "sub_bounded s" by (simp_all add: in_step_def)
  obtain dropped where d: "map Some rest = map Some dropped @ sub_queue s"
    using st by (cases "sub_lagged s") (auto simp: in_step_def)
  show ?thesis
  proof (cases "queue_full s")
    case False
    with st show ?thesis
      using sub_bounded_offer[OF b, of e] by (auto simp: in_step_def offer_room)
  next
    case True
    from True b obtain x q where q: "sub_queue s = x # q"
      by (cases "sub_queue s") (auto simp: queue_full_def sub_bounded_def)
    from d q obtain y where y: "x = Some y"
      by (metis ex_map_conv in_set_conv_decomp)
    have "map Some (rest @ [e]) = map Some (dropped @ [y]) @ q @ [Some e]"
      using d q y by simp
    moreover have "offer e s = s\<lparr>sub_lagged := True, sub_queue := q @ [Some e]\<rparr>"
      using offer_full[OF open_s True] b q by (simp add: sub_bounded_def)
    ultimately show ?thesis
      using sub_bounded_offer[OF b, of e] open_s
      by (simp add: in_step_def) (intro exI[of _ "dropped @ [y]"], simp)
  qed
qed

lemma in_step_forward:
  assumes "in_step rest s" and "forward_one s = (fs, s')"
  shows "\<exists>rest'. follows rest fs rest' \<and> in_step rest' s'"
proof (cases "sub_queue s")
  case Nil
  with assms show ?thesis
    by (auto simp: forward_one_def anext_def get_nowait_def intro: follows.intros)
next
  case (Cons x q)
  obtain dropped where d: "map Some rest = map Some dropped @ x # q"
    and nd: "sub_lagged s \<or> dropped = []"
    using assms(1) Cons by (cases "sub_lagged s") (auto simp: in_step_def)
  then obtain e where e: "x = Some e"
    by (metis ex_map_conv in_set_conv_decomp)
  from d e obtain rest' where r: "rest = dropped @ e # rest'" "q = map Some rest'"
    by (auto simp: map_eq_append_conv map_eq_Cons_conv inj_map_eq_map)
  have s': "s' = s\<lparr>sub_queue := q, sub_lagged := False\<rparr>"
    and fs: "fs = (if sub_lagged s then [ResyncRequired] else []) @ [Deliver e]"
    using assms(2) Cons e
    by (auto simp: forward_one_def anext_def get_nowait_def take_lagged_def Let_def)
  have "follows rest fs rest'"
    using nd by (auto simp: r fs intro!: follows.intros)
  moreover have "in_step rest' s'"
    using assms(1) Cons by (simp add: in_step_def s' r sub_bounded_def)
  ultimately show ?thesis by blast
qed

lemma stream_run_follows:
  assumes "in_step rest s" and "stream_run s ops = (fs, s')"
  shows "\<exists>rest'. follows (rest @ published ops) fs rest' \<and> in_step rest' s'"
  using assms
proof (induction s ops arbitrary: rest fs rule: stream_run.induct)
  case (1 s)
  then show ?case by (auto intro: follows.intros)
next
  case (2 s e ops)
  have "in_step (rest @ [e]) (offer e s)" using 2(2) by (rule in_step_offer)
  from 2(1)[OF this] 2(3) show ?case by simp
next
  case (3 s ops)
  obtain gs s1 where f: "forward_one s = (gs, s1)" by fastforce
  obtain hs where run: "stream_run s1 ops = (hs, s')" and fs: "fs = gs @ hs"
    using 3(3) by (auto simp: f split: prod.splits)
  obtain mid where m: "follows rest gs mid" "in_step mid s1"
    using in_step_forward[OF 3(2) f] by blast
  obtain rest' where r: "follows (mid @ published ops) hs rest'" "in_step rest' s'"
    using 3(1)[OF f[symmetric] refl m(2) run] by blast
  have "follows (rest @ published ops) (gs @ hs) rest'"
    using follows_append[OF follows_extend[OF m(1)] r(1)] .
  with r(2) fs show ?case by auto
qed

subsection \<open>Closing\<close>

fun drain :: "'e subscription \<Rightarrow> nat \<Rightarrow> 'e next_result list" where
  "drain s 0 = []"
| "drain s (Suc n) = (let (r, s') = anext s in r # drain s' n)"

lemma drain_events:
  "sub_queue s = map Some es @ q \<Longrightarrow>
     drain s (length es + n) = map Event es @ drain (s\<lparr>sub_queue := q\<rparr>) n"
  by (induction es arbitrary: s) (auto simp: anext_def get_nowait_def)

lemma drain_blocked: "sub_queue s = [] \<Longrightarrow> drain s n = replicate n Blocked"
  by (induction n) (auto simp: anext_def get_nowait_def)

lemma close_with_room:
  "\<not> sub_closed s \<Longrightarrow> \<not> queue_full s \<Longrightarrow>
     close_queue s = s\<lparr>sub_closed := True, sub_queue := sub_queue s @ [None]\<rparr>"
  by (simp add: close_queue_def put_nowait_def queue_full_def Let_def)

lemma close_when_full:
  "\<not> sub_closed s \<Longrightarrow> queue_full s \<Longrightarrow> close_queue s = s\<lparr>sub_closed := True\<rparr>"
  by (simp add: close_queue_def put_nowait_def queue_full_def Let_def)

subsection \<open>Laws of the bus\<close>

definition bus_wf :: "'e event_bus \<Rightarrow> bool" where
  "bus_wf b \<longleftrightarrow>
     0 < bus_queue_size b \<and> distinct (bus_subscribers b) \<and>
     (\<forall>i \<in> set (bus_subscribers b). i < length (bus_objects b)) \<and>
     (\<forall>s \<in> set (bus_objects b). sub_bounded s \<and> sub_maxsize s = bus_queue_size b) \<and>
     (\<forall>i < length (bus_objects b). sub_closed (bus_objects b ! i) \<longleftrightarrow> i \<notin> set (bus_subscribers b))"

lemma bus_wf_new: "0 < n \<Longrightarrow> bus_wf (new_bus n)"
  by (simp add: bus_wf_def new_bus_def)

lemma bus_wf_subscribe: "bus_wf b \<Longrightarrow> bus_wf (snd (subscribe b))"
  by (auto simp: bus_wf_def subscribe_def Let_def nth_append sub_bounded_new less_Suc_eq)
    (auto simp: new_subscription_def)

lemma update_object_frame [simp]:
  "bus_subscribers (update_object i f b) = bus_subscribers b"
  "bus_queue_size (update_object i f b) = bus_queue_size b"
  "length (bus_objects (update_object i f b)) = length (bus_objects b)"
  by (simp_all add: update_object_def)

lemma fold_update_frame [simp]:
  "bus_subscribers (fold (\<lambda>i. update_object i f) ids b) = bus_subscribers b"
  "bus_queue_size (fold (\<lambda>i. update_object i f) ids b) = bus_queue_size b"
  "length (bus_objects (fold (\<lambda>i. update_object i f) ids b)) = length (bus_objects b)"
  by (induction ids arbitrary: b) auto

lemma fold_update_nth:
  "distinct ids \<Longrightarrow> j < length (bus_objects b) \<Longrightarrow>
     bus_objects (fold (\<lambda>i. update_object i f) ids b) ! j =
       (if j \<in> set ids then f (bus_objects b ! j) else bus_objects b ! j)"
  by (induction ids arbitrary: b) (auto simp: update_object_def nth_list_update)

text \<open>Publishing offers the event to every live subscription, once, and to nobody else.\<close>

lemma bus_publish_nth:
  "bus_wf b \<Longrightarrow> j < length (bus_objects b) \<Longrightarrow>
     bus_objects (bus_publish e b) ! j = offer e (bus_objects b ! j)"
  by (simp add: bus_publish_def fold_update_nth bus_wf_def)

lemma bus_publish_frame [simp, frame_simps]:
  "bus_subscribers (bus_publish e b) = bus_subscribers b"
  "bus_queue_size (bus_publish e b) = bus_queue_size b"
  "length (bus_objects (bus_publish e b)) = length (bus_objects b)"
  by (simp_all add: bus_publish_def)

lemma bus_wf_publish: "bus_wf b \<Longrightarrow> bus_wf (bus_publish e b)"
proof -
  assume wf: "bus_wf b"
  then have "sub_bounded (bus_objects b ! i) \<and> sub_maxsize (bus_objects b ! i) = bus_queue_size b"
    if "i < length (bus_objects b)" for i
    using that by (simp add: bus_wf_def)
  then have "\<forall>s \<in> set (bus_objects (bus_publish e b)). sub_bounded s \<and> sub_maxsize s = bus_queue_size b"
    using bus_publish_nth[OF wf] by (auto simp: in_set_conv_nth sub_bounded_offer)
  with wf show ?thesis
    by (auto simp: bus_wf_def bus_publish_nth)
qed

lemma bus_wf_close: "bus_wf b \<Longrightarrow> i < length (bus_objects b) \<Longrightarrow> bus_wf (bus_close i b)"
proof -
  assume wf: "bus_wf b" and i: "i < length (bus_objects b)"
  show ?thesis
  proof (cases "sub_closed (bus_objects b ! i)")
    case True
    with wf i show ?thesis by (simp add: bus_close_def)
  next
    case False
    let ?s = "bus_objects b ! i"
    have closed: "sub_closed (close_queue ?s)"
      by (auto simp: close_queue_def put_nowait_def Let_def split: option.splits)
    have "sub_bounded (close_queue ?s)" "sub_maxsize (close_queue ?s) = bus_queue_size b"
      using wf i by (auto simp: bus_wf_def sub_bounded_close)
    with wf i False closed show ?thesis
      by (auto simp: bus_close_def bus_wf_def update_object_def unsubscribe_def nth_list_update
          dest: set_update_subset_insert[THEN subsetD] in_set_remove1[THEN iffD1] notin_set_remove1)
  qed
qed

subsection \<open>Properties\<close>

text \<open>
  C12. The stream never diverges in silence. Whatever the interleaving of publishing and
  sending, and however far a client falls behind, the frames it is sent read against the
  published events: an event is skipped only at a resync frame, and none is repeated or
  reordered.
\<close>

theorem stream_no_silent_loss:
  assumes "0 < maxsize" and "stream_run (new_subscription maxsize) ops = (fs, s')"
  shows "\<exists>rest. follows (published ops) fs rest"
  using stream_run_follows[OF in_step_new[OF assms(1)] assms(2)] by auto

theorem stream_no_silent_loss_witness:
  "\<exists>rest. follows [1, 2, 3] [ResyncRequired, Deliver 3] (rest :: nat list)"
proof -
  let ?ops = "[Publish 1, Publish 2, Publish 3, Forward] :: nat stream_step list"
  have run: "\<exists>s'. stream_run (new_subscription 1) ?ops = ([ResyncRequired, Deliver 3], s')"
    by (simp add: new_subscription_def offer_def put_nowait_def get_nowait_def queue_full_def
        forward_one_def anext_def take_lagged_def Let_def)
  then obtain s' where "stream_run (new_subscription 1) ?ops = ([ResyncRequired, Deliver 3], s')" by blast
  from stream_no_silent_loss[OF _ this] show ?thesis by simp
qed

text \<open>
  Publishing reaches every live subscription and no closed one: after it, the newest
  entry of each live queue is the event, and the queue is still within its bound.
\<close>

lemma publish_reaches_all:
  assumes "bus_wf b" and "i < length (bus_objects b)"
  shows "if i \<in> set (bus_subscribers b)
    then \<exists>q. sub_queue (bus_objects (bus_publish e b) ! i) = q @ [Some e] \<and> length q < bus_queue_size b
    else bus_objects (bus_publish e b) ! i = bus_objects b ! i"
proof -
  let ?s = "bus_objects b ! i"
  have b: "sub_bounded ?s" "sub_maxsize ?s = bus_queue_size b"
    and live: "sub_closed ?s \<longleftrightarrow> i \<notin> set (bus_subscribers b)"
    using assms by (auto simp: bus_wf_def)
  have pub: "bus_objects (bus_publish e b) ! i = offer e ?s" using assms by (rule bus_publish_nth)
  show ?thesis
  proof (cases "i \<in> set (bus_subscribers b)")
    case True
    then have open_s: "\<not> sub_closed ?s" using live by simp
    have "\<exists>q. sub_queue (offer e ?s) = q @ [Some e]"
      using b(1) by (cases "queue_full ?s") (auto simp: offer_room[OF open_s] offer_full[OF open_s] sub_bounded_def)
    moreover have "length (sub_queue (offer e ?s)) \<le> bus_queue_size b"
      using sub_bounded_offer[OF b(1), of e] b(2) by (simp add: sub_bounded_def)
    ultimately show ?thesis using True by (auto simp: pub)
  next
    case False
    with live show ?thesis by (simp add: pub)
  qed
qed

text \<open>
  Closing ends a consumer's iteration exactly when the queue has room for the end
  marker. A subscription closed while its queue is full delivers what it holds and then
  blocks for ever: its iteration never ends.
\<close>

lemma close_ends_iteration:
  assumes "\<not> sub_closed s" and "sub_queue s = map Some es"
  shows "if queue_full s
    then \<forall>n. StopAsyncIteration \<notin> set (drain (close_queue s) n)
    else drain (close_queue s) (Suc (length es)) = map Event es @ [StopAsyncIteration]"
proof (cases "queue_full s")
  case False
  have "drain (close_queue s) (length es + 1) =
      map Event es @ drain (s\<lparr>sub_closed := True, sub_queue := [None]\<rparr>) 1"
    using drain_events[of "s\<lparr>sub_closed := True, sub_queue := sub_queue s @ [None]\<rparr>" es "[None]" 1]
    by (simp add: close_with_room[OF assms(1) False] assms(2))
  moreover have "drain (s\<lparr>sub_closed := True, sub_queue := [None]\<rparr>) 1 = [StopAsyncIteration]"
    by (simp add: anext_def get_nowait_def)
  ultimately show ?thesis using False by simp
next
  case True
  have "StopAsyncIteration \<notin> set (drain t n)" if "None \<notin> set (sub_queue t)" for t :: "'a subscription" and n
    using that
  proof (induction n arbitrary: t)
    case 0
    then show ?case by simp
  next
    case (Suc n)
    show ?case
    proof (cases "sub_queue t")
      case Nil
      with Suc show ?thesis by (simp add: anext_def get_nowait_def)
    next
      case (Cons x q)
      with Suc.prems obtain y where "x = Some y" by (cases x) auto
      with Cons Suc show ?thesis by (simp add: anext_def get_nowait_def)
    qed
  qed
  with True assms(2) show ?thesis by (auto simp: close_when_full[OF assms(1) True])
qed

end
