(* ===== verification/Audit_Log.thy ===== *)
theory Audit_Log
  imports Command_Model
begin

section \<open>The audit log\<close>

text \<open>
  \<open>audit/log.py\<close>: the entry, the contract of a sink (the protocol \<open>AuditSink\<close>, here the
  locale \<open>audit_sink\<close>) and the bounded in-memory log that implements it.
\<close>

record audit_entry =
  ae_id :: uuid
  ae_occurred_at :: datetime
  ae_event :: string
  ae_actor_user_id :: "uuid option"
  ae_actor_client_id :: "uuid option"
  ae_device_id :: "uuid option"
  ae_command_id :: "uuid option"
  ae_action :: "action option"
  ae_risk_class :: "risk_class option"
  ae_outcome :: "string option"
  ae_correlation_id :: "string option"
  ae_context :: "(string, json) odict"

record audit_log =
  al_max_entries :: nat
  al_entries :: "audit_entry list"

definition new_audit_log :: "nat \<Rightarrow> audit_log" where
  "new_audit_log max_entries = \<lparr>al_max_entries = max_entries, al_entries = []\<rparr>"

definition audit_record :: "audit_entry \<Rightarrow> audit_log \<Rightarrow> audit_log" where
  "audit_record e l = l\<lparr>al_entries := deque_append (al_max_entries l) e (al_entries l)\<rparr>"

text \<open>\<open>list(self._entries)[-limit:][::-1]\<close>, newest first.\<close>

definition audit_recent :: "audit_log \<Rightarrow> int \<Rightarrow> audit_entry list" where
  "audit_recent l limit =
     (if limit \<le> 0 then [] else rev (take_last (nat limit) (al_entries l)))"

definition audit_wf :: "audit_log \<Rightarrow> bool" where
  "audit_wf l \<longleftrightarrow> 0 < al_max_entries l \<and> length (al_entries l) \<le> al_max_entries l"

text \<open>What a caller of a sink relies on: entries come back newest first, bounded by the request.\<close>

locale audit_sink =
  fixes record_entry :: "'e \<Rightarrow> 's \<Rightarrow> 's"
    and recent :: "'s \<Rightarrow> int \<Rightarrow> 'e list"
    and inv :: "'s \<Rightarrow> bool"
    and capacity :: "'s \<Rightarrow> nat"
  assumes inv_record: "inv s \<Longrightarrow> inv (record_entry e s)"
    and capacity_record: "capacity (record_entry e s) = capacity s"
    and recent_nonpos: "n \<le> 0 \<Longrightarrow> recent s n = []"
    and recent_record: "inv s \<Longrightarrow> 0 \<le> n \<Longrightarrow> n < int (capacity s) \<Longrightarrow>
      recent (record_entry e s) (n + 1) = e # recent s n"
begin

text \<open>The last entries recorded are the first ones read, in reverse order.\<close>

lemma inv_fold: "inv s \<Longrightarrow> inv (fold record_entry es s)"
  by (induction es arbitrary: s) (auto simp: inv_record)

lemma capacity_fold: "capacity (fold record_entry es s) = capacity s"
  by (induction es arbitrary: s) (auto simp: capacity_record)

lemma recent_fold:
  "inv s \<Longrightarrow> length es \<le> capacity s \<Longrightarrow> recent (fold record_entry es s) (int (length es)) = rev es"
proof (induction es rule: rev_induct)
  case Nil
  then show ?case by (simp add: recent_nonpos)
next
  case (snoc e es)
  let ?t = "fold record_entry es s"
  have "recent (record_entry e ?t) (int (length es) + 1) = e # recent ?t (int (length es))"
    using snoc.prems by (intro recent_record) (simp_all add: inv_fold capacity_fold)
  with snoc show ?case by (simp add: add.commute)
qed

end

lemma audit_wf_record: "audit_wf l \<Longrightarrow> audit_wf (audit_record e l)"
  by (simp add: audit_wf_def audit_record_def length_deque_append)

interpretation memory_log: audit_sink audit_record audit_recent audit_wf al_max_entries
proof (unfold_locales, goal_cases)
  case (4 l n e)
  let ?m = "al_max_entries l" and ?es = "al_entries l"
  have n: "nat (n + 1) = Suc (nat n)" "nat n < ?m" using 4 by linarith+
  have "take_last (Suc (nat n)) (deque_append ?m e ?es) = take_last (nat n) ?es @ [e]"
    using n(2) 4(1)
    by (cases "length ?es = ?m")
      (simp_all add: deque_append_def take_last_def audit_wf_def Suc_diff_le Suc_diff_Suc)
  moreover have "take_last 0 ?es = []" by (simp add: take_last_def)
  ultimately show ?case
    using 4 n by (cases "n = 0") (simp_all add: audit_recent_def audit_record_def)
qed (simp_all add: audit_wf_def length_deque_append audit_recent_def audit_record_def)

lemma audit_record_frame [simp]: "al_max_entries (audit_record e l) = al_max_entries l"
  by (simp add: audit_record_def)

text \<open>
  The audit log answers newest first and forgets only what no longer fits: after any
  entries recorded on top of any well-formed log, as many as it can hold, asking for that
  many returns exactly them in reverse order, and the log stays within its bound.
\<close>

lemma audit_newest_first:
  assumes "audit_wf l" and "length es \<le> al_max_entries l"
  shows "audit_recent (fold audit_record es l) (int (length es)) = rev es \<and>
    length (al_entries (fold audit_record es l)) \<le> al_max_entries l"
  using memory_log.recent_fold[OF assms] memory_log.inv_fold[OF assms(1), of es]
    memory_log.capacity_fold[of es l]
  by (simp add: audit_wf_def)

end
