(* ===== verification/Schedule_Model.thy ===== *)
theory Schedule_Model
  imports Command_Model
begin

section \<open>Timers\<close>

text \<open>
  \<open>schedules/models.py\<close>: the timer record, its kinds, its states, and the one transition
  that leaves the armed state.
\<close>

datatype schedule_kind = DELAYED_START | RUN_FOR

datatype schedule_status =
  ARMED | COMPLETED | CANCELLED | SUPERSEDED | FAILED | UNKNOWN

definition SETTLED :: "schedule_status set" where
  "SETTLED =
     {COMPLETED, schedule_status.CANCELLED, schedule_status.SUPERSEDED, schedule_status.FAILED,
      schedule_status.UNKNOWN}"

record schedule =
  sc_id :: uuid
  sc_device_id :: uuid
  sc_kind :: schedule_kind
  sc_action :: action
  sc_desired :: bool
  sc_requested_by_user_id :: uuid
  sc_requested_by_client_id :: uuid
  sc_requested_by_display_name :: string
  sc_created_at :: datetime
  sc_due_at :: datetime
  sc_correlation_id :: string
  sc_status :: schedule_status
  sc_failure_code :: "string option"
  sc_command_id :: "uuid option"

definition settled ::
  "schedule \<Rightarrow> schedule_status \<Rightarrow> string option \<Rightarrow> uuid option \<Rightarrow> schedule"
where
  "settled s status failure_code command_id =
     s\<lparr>sc_status := status, sc_failure_code := failure_code, sc_command_id := command_id\<rparr>"

fun schedule_status_value :: "schedule_status \<Rightarrow> string" where
  "schedule_status_value ARMED = ''ARMED''"
| "schedule_status_value COMPLETED = ''COMPLETED''"
| "schedule_status_value schedule_status.CANCELLED = ''CANCELLED''"
| "schedule_status_value schedule_status.SUPERSEDED = ''SUPERSEDED''"
| "schedule_status_value schedule_status.FAILED = ''FAILED''"
| "schedule_status_value schedule_status.UNKNOWN = ''UNKNOWN''"

fun schedule_kind_value :: "schedule_kind \<Rightarrow> string" where
  "schedule_kind_value DELAYED_START = ''DELAYED_START''"
| "schedule_kind_value RUN_FOR = ''RUN_FOR''"

lemma SETTLED_iff [simp]: "st \<in> SETTLED \<longleftrightarrow> st \<noteq> ARMED"
  by (cases st) (simp_all add: SETTLED_def)

lemma settled_sel [simp]:
  "sc_id (settled s st f c) = sc_id s" "sc_device_id (settled s st f c) = sc_device_id s"
  "sc_kind (settled s st f c) = sc_kind s" "sc_action (settled s st f c) = sc_action s"
  "sc_desired (settled s st f c) = sc_desired s" "sc_due_at (settled s st f c) = sc_due_at s"
  "sc_created_at (settled s st f c) = sc_created_at s"
  "sc_requested_by_user_id (settled s st f c) = sc_requested_by_user_id s"
  "sc_requested_by_client_id (settled s st f c) = sc_requested_by_client_id s"
  "sc_correlation_id (settled s st f c) = sc_correlation_id s"
  "sc_status (settled s st f c) = st" "sc_failure_code (settled s st f c) = f"
  "sc_command_id (settled s st f c) = c"
  by (simp_all add: settled_def)

end
