(* ===== verification/Gateway_State.thy ===== *)
theory Gateway_State
  imports Device_Registry Event_Bus Audit_Log Schedule_Model
begin

section \<open>The state of the gateway\<close>

text \<open>
  The services of the source hold references to each other's collaborators: one bus, one
  audit sink, one clock, one registry, which \<open>container.py\<close> wires together. The record
  \<open>gateway\<close> is that shared state, with the private state of the services that keep any:
  \<open>_commands\<close> and \<open>_locks\<close> of \<open>CommandService\<close>, \<open>_schedules\<close> of \<open>ScheduleService\<close>.

  The clock and the supply of random identifiers are streams. A call of \<open>Clock.now\<close> consumes
  a reading, a call of \<open>uuid4\<close> an identifier, so that the order and the number of the calls
  are part of the model. A lock is the number of an \<open>asyncio.Lock\<close> object, since the question
  is which tasks share one.
\<close>

record gateway =
  gw_clock :: "nat \<Rightarrow> datetime"
  gw_ticks :: nat
  gw_uuids :: "nat \<Rightarrow> uuid"
  gw_issued :: nat
  gw_bus :: "domain_event event_bus"
  gw_audit :: audit_log
  gw_registry :: device_registry
  gw_commands :: "(uuid, command) odict"
  gw_locks :: "(uuid, nat) odict"
  gw_next_lock :: nat
  gw_schedules :: "(uuid, schedule) odict"

definition new_gateway ::
  "(nat \<Rightarrow> datetime) \<Rightarrow> (nat \<Rightarrow> uuid) \<Rightarrow> string \<Rightarrow> nat \<Rightarrow> nat \<Rightarrow> gateway"
where
  "new_gateway clk uuids salt queue_size max_entries =
     \<lparr>gw_clock = clk, gw_ticks = 0, gw_uuids = uuids, gw_issued = 0,
      gw_bus = new_bus queue_size, gw_audit = new_audit_log max_entries,
      gw_registry = new_registry salt, gw_commands = [], gw_locks = [], gw_next_lock = 0,
      gw_schedules = []\<rparr>"

text \<open>\<open>clock.now()\<close> and \<open>uuid4()\<close>.\<close>

definition clock_now :: "gateway \<Rightarrow> datetime \<times> gateway" where
  "clock_now g = (gw_clock g (gw_ticks g), g\<lparr>gw_ticks := Suc (gw_ticks g)\<rparr>)"

definition uuid4 :: "gateway \<Rightarrow> uuid \<times> gateway" where
  "uuid4 g = (gw_uuids g (gw_issued g), g\<lparr>gw_issued := Suc (gw_issued g)\<rparr>)"

definition emit :: "domain_event \<Rightarrow> gateway \<Rightarrow> gateway" where
  "emit e g = g\<lparr>gw_bus := bus_publish e (gw_bus g)\<rparr>"

text \<open>\<open>audit.record(AuditEntry(...))\<close>: the entry's own identifier is drawn as it is built.\<close>

definition log_entry :: "audit_entry \<Rightarrow> gateway \<Rightarrow> gateway" where
  "log_entry e g =
     (let (i, g1) = uuid4 g in g1\<lparr>gw_audit := audit_record (e\<lparr>ae_id := i\<rparr>) (gw_audit g1)\<rparr>)"

definition blank_entry :: "datetime \<Rightarrow> string \<Rightarrow> audit_entry" where
  "blank_entry t name =
     \<lparr>ae_id = 0, ae_occurred_at = t, ae_event = name, ae_actor_user_id = None,
      ae_actor_client_id = None, ae_device_id = None, ae_command_id = None, ae_action = None,
      ae_risk_class = None, ae_outcome = None, ae_correlation_id = None, ae_context = []\<rparr>"

definition device_event :: "event_type \<Rightarrow> datetime \<Rightarrow> uuid \<Rightarrow> string option \<Rightarrow> domain_event" where
  "device_event ty t d corr =
     \<lparr>ev_type = ty, ev_occurred_at = t, ev_device_id = Some d, ev_command_id = None,
      ev_correlation_id = corr, ev_payload = []\<rparr>"

subsection \<open>What each small step leaves alone\<close>

lemma clock_now_frame [simp, frame_simps]:
  "gw_clock (snd (clock_now g)) = gw_clock g" "gw_ticks (snd (clock_now g)) = Suc (gw_ticks g)"
  "gw_uuids (snd (clock_now g)) = gw_uuids g" "gw_issued (snd (clock_now g)) = gw_issued g"
  "gw_bus (snd (clock_now g)) = gw_bus g" "gw_audit (snd (clock_now g)) = gw_audit g"
  "gw_registry (snd (clock_now g)) = gw_registry g"
  "gw_commands (snd (clock_now g)) = gw_commands g" "gw_locks (snd (clock_now g)) = gw_locks g"
  "gw_next_lock (snd (clock_now g)) = gw_next_lock g"
  "gw_schedules (snd (clock_now g)) = gw_schedules g"
  by (simp_all add: clock_now_def)

lemma uuid4_frame [simp, frame_simps]:
  "gw_clock (snd (uuid4 g)) = gw_clock g" "gw_ticks (snd (uuid4 g)) = gw_ticks g"
  "gw_uuids (snd (uuid4 g)) = gw_uuids g" "gw_issued (snd (uuid4 g)) = Suc (gw_issued g)"
  "gw_bus (snd (uuid4 g)) = gw_bus g" "gw_audit (snd (uuid4 g)) = gw_audit g"
  "gw_registry (snd (uuid4 g)) = gw_registry g"
  "gw_commands (snd (uuid4 g)) = gw_commands g" "gw_locks (snd (uuid4 g)) = gw_locks g"
  "gw_next_lock (snd (uuid4 g)) = gw_next_lock g"
  "gw_schedules (snd (uuid4 g)) = gw_schedules g"
  by (simp_all add: uuid4_def)

lemma emit_frame [simp, frame_simps]:
  "gw_clock (emit e g) = gw_clock g" "gw_ticks (emit e g) = gw_ticks g"
  "gw_uuids (emit e g) = gw_uuids g" "gw_issued (emit e g) = gw_issued g"
  "gw_bus (emit e g) = bus_publish e (gw_bus g)" "gw_audit (emit e g) = gw_audit g"
  "gw_registry (emit e g) = gw_registry g"
  "gw_commands (emit e g) = gw_commands g" "gw_locks (emit e g) = gw_locks g"
  "gw_next_lock (emit e g) = gw_next_lock g" "gw_schedules (emit e g) = gw_schedules g"
  by (simp_all add: emit_def)

lemma log_entry_frame [simp, frame_simps]:
  "gw_clock (log_entry a g) = gw_clock g" "gw_ticks (log_entry a g) = gw_ticks g"
  "gw_uuids (log_entry a g) = gw_uuids g" "gw_issued (log_entry a g) = Suc (gw_issued g)"
  "gw_bus (log_entry a g) = gw_bus g"
  "gw_audit (log_entry a g) =
     audit_record (a\<lparr>ae_id := gw_uuids g (gw_issued g)\<rparr>) (gw_audit g)"
  "gw_registry (log_entry a g) = gw_registry g"
  "gw_commands (log_entry a g) = gw_commands g" "gw_locks (log_entry a g) = gw_locks g"
  "gw_next_lock (log_entry a g) = gw_next_lock g"
  "gw_schedules (log_entry a g) = gw_schedules g"
  by (simp_all add: log_entry_def uuid4_def)

text \<open>The clock reading a step takes.\<close>

lemma fst_clock_now [simp]: "fst (clock_now g) = gw_clock g (gw_ticks g)"
  by (simp add: clock_now_def)

lemma fst_uuid4 [simp]: "fst (uuid4 g) = gw_uuids g (gw_issued g)"
  by (simp add: uuid4_def)

text \<open>A handler that publishes several events publishes them in order.\<close>

definition bus_fold :: "domain_event list \<Rightarrow> gateway \<Rightarrow> gateway" where
  "bus_fold es g = fold emit es g"

lemma bus_fold_simps [simp]:
  "bus_fold [] g = g" "bus_fold (e # es) g = bus_fold es (emit e g)"
  "bus_fold (es @ fs) g = bus_fold fs (bus_fold es g)"
  by (simp_all add: bus_fold_def)

lemma bus_fold_frame [simp, frame_simps]:
  "gw_clock (bus_fold es g) = gw_clock g" "gw_ticks (bus_fold es g) = gw_ticks g"
  "gw_uuids (bus_fold es g) = gw_uuids g" "gw_issued (bus_fold es g) = gw_issued g"
  "gw_bus (bus_fold es g) = fold bus_publish es (gw_bus g)" "gw_audit (bus_fold es g) = gw_audit g"
  "gw_registry (bus_fold es g) = gw_registry g"
  "gw_commands (bus_fold es g) = gw_commands g" "gw_locks (bus_fold es g) = gw_locks g"
  "gw_next_lock (bus_fold es g) = gw_next_lock g"
  "gw_schedules (bus_fold es g) = gw_schedules g"
  by (induction es arbitrary: g) simp_all

end
