(* ===== verification/Device_Service.thy ===== *)
theory Device_Service
  imports Gateway_State
begin

section \<open>The device service\<close>

text \<open>
  \<open>devices/service.py\<close>: the canonical device view. \<open>bootstrap\<close> fills the registry,
  \<open>ingest\<close> applies an observation and publishes the transitions it causes.
\<close>

fun filtering :: "device_state \<Rightarrow> bool" where
  "filtering s = (ds_filter_pump s = Some True)"

definition with_derived ::
  "device \<Rightarrow> device_state \<Rightarrow> gateway \<Rightarrow> device_state \<times> gateway"
where
  "with_derived before observed g =
     (if filtering observed \<and> \<not> filtering (dev_state before) then
        (let (t, g1) = clock_now g in
         (observed\<lparr>ds_filter_last_started_at := Some t\<rparr>, g1))
      else
        (let remembered = ds_filter_last_started_at (dev_state before) in
         if remembered \<noteq> None \<and> ds_filter_last_started_at observed = None then
           (observed\<lparr>ds_filter_last_started_at := remembered\<rparr>, g)
         else (observed, g)))"

text \<open>The events of one observation, in the order they are emitted.\<close>

definition transition_types :: "device \<Rightarrow> device \<Rightarrow> event_type list" where
  "transition_types before after =
     (let b = dev_state before; a = dev_state after in
      (if dev_availability before \<noteq> dev_availability after
       then [DEVICE_AVAILABILITY_CHANGED] else []) @
      (if b = a then []
       else
         [DEVICE_STATE_CHANGED] @
         (if dev_kind after = POOL then
            (if ds_current_temperature_c b \<noteq> ds_current_temperature_c a
             then [POOL_TEMPERATURE_CHANGED] else []) @
            (if ds_target_temperature_c b \<noteq> ds_target_temperature_c a
             then [POOL_TARGET_TEMPERATURE_CHANGED] else [])
          else []) @
         (if dev_kind after \<in> {WASHING_MACHINE, DISHWASHER} \<and> ds_program b \<noteq> ds_program a then
            (if ds_program a = Some program_state.RUNNING then [APPLIANCE_PROGRAM_STARTED]
             else if ds_program a = Some FINISHED then [APPLIANCE_PROGRAM_FINISHED]
             else [])
          else [])))"

definition publish_transitions ::
  "device \<Rightarrow> device \<Rightarrow> string option \<Rightarrow> gateway \<Rightarrow> gateway"
where
  "publish_transitions before after corr g =
     (let (t, g1) = clock_now g in
      bus_fold (map (\<lambda>ty. device_event ty t (dev_id after) corr) (transition_types before after)) g1)"

definition ingest ::
  "provider_device_ref \<Rightarrow> provider_state \<Rightarrow> state_source \<Rightarrow> string option \<Rightarrow> gateway
     \<Rightarrow> (failure + device option) \<times> gateway"
where
  "ingest ref st source corr g =
     (case id_for_ref ref (gw_registry g) of
        None \<Rightarrow> (Inr None, g)
      | Some i \<Rightarrow>
          (case reg_require i (gw_registry g) of
             Inl e \<Rightarrow> (Inl e, g)
           | Inr before \<Rightarrow>
               (let (state, g1) = with_derived before (ps_state st) g in
                case reg_apply i state (ps_availability st) (ps_observed_at st) source (gw_registry g1) of
                  (Inl e, reg) \<Rightarrow> (Inl e, g1\<lparr>gw_registry := reg\<rparr>)
                | (Inr after, reg) \<Rightarrow>
                    (Inr (Some after),
                     publish_transitions before after corr (g1\<lparr>gw_registry := reg\<rparr>)))))"

text \<open>
  \<open>bootstrap\<close>: an exception of an adapter leaves the loops, since nothing there catches it.
\<close>

primrec bootstrap_devices ::
  "hmac \<Rightarrow> 'w device_provider \<Rightarrow> provider_device list \<Rightarrow> gateway \<times> 'w
     \<Rightarrow> (adapter_exn + unit) \<times> gateway \<times> 'w"
where
  "bootstrap_devices h p [] gw = (Inr (), gw)"
| "bootstrap_devices h p (pd # pds) gw =
     (let (g, w) = gw in
      case dp_get_state p (pd_ref pd) w of
        (Inl e, w1) \<Rightarrow> (Inl e, g, w1)
      | (Inr st, w1) \<Rightarrow>
          (let (d, reg) = register h pd st (gw_registry g);
               (t, g1) = clock_now (g\<lparr>gw_registry := reg\<rparr>);
               g2 = emit (device_event DEVICE_DISCOVERED t (dev_id d) None) g1
           in bootstrap_devices h p pds (g2, w1)))"

primrec bootstrap ::
  "hmac \<Rightarrow> 'w device_provider list \<Rightarrow> gateway \<times> 'w \<Rightarrow> (adapter_exn + unit) \<times> gateway \<times> 'w"
where
  "bootstrap h [] gw = (Inr (), gw)"
| "bootstrap h (p # ps) gw =
     (let (g, w) = gw in
      case dp_discover_devices p w of
        (Inl e, w1) \<Rightarrow> (Inl e, g, w1)
      | (Inr pds, w1) \<Rightarrow>
          (case bootstrap_devices h p pds (g, w1) of
             (Inl e, gw2) \<Rightarrow> (Inl e, gw2)
           | (Inr _, gw2) \<Rightarrow> bootstrap h ps gw2))"

definition svc_list_devices :: "gateway \<Rightarrow> device list" where
  "svc_list_devices g = reg_list_devices (gw_registry g)"

definition svc_get :: "uuid \<Rightarrow> gateway \<Rightarrow> failure + device" where
  "svc_get i g = reg_require i (gw_registry g)"

definition svc_rooms :: "gateway \<Rightarrow> room list" where
  "svc_rooms g = reg_rooms (gw_registry g)"

definition is_reachable :: "device \<Rightarrow> bool" where
  "is_reachable d \<longleftrightarrow> dev_availability d \<noteq> availability.OFFLINE"

subsection \<open>What an observation does\<close>

lemma svc_get_Inr: "svc_get i g = Inr d \<longleftrightarrow> od_get (reg_devices (gw_registry g)) i = Some d"
  by (simp add: svc_get_def reg_require_def split: option.splits)

lemma svc_get_Inl:
  "od_get (reg_devices (gw_registry g)) i = None \<Longrightarrow> svc_get i g = Inl (raise_kind DeviceNotFoundError)"
  by (simp add: svc_get_def reg_require_def)

lemma publish_transitions_frame [simp, frame_simps]:
  "gw_clock (publish_transitions b a c g) = gw_clock g"
  "gw_ticks (publish_transitions b a c g) = Suc (gw_ticks g)"
  "gw_uuids (publish_transitions b a c g) = gw_uuids g"
  "gw_issued (publish_transitions b a c g) = gw_issued g"
  "gw_bus (publish_transitions b a c g) =
     fold bus_publish
       (map (\<lambda>ty. device_event ty (gw_clock g (gw_ticks g)) (dev_id a) c) (transition_types b a))
       (gw_bus g)"
  "gw_audit (publish_transitions b a c g) = gw_audit g"
  "gw_registry (publish_transitions b a c g) = gw_registry g"
  "gw_commands (publish_transitions b a c g) = gw_commands g"
  "gw_locks (publish_transitions b a c g) = gw_locks g"
  "gw_next_lock (publish_transitions b a c g) = gw_next_lock g"
  "gw_schedules (publish_transitions b a c g) = gw_schedules g"
  by (simp_all add: publish_transitions_def split_beta)

lemma with_derived_frame [simp, frame_simps]:
  "gw_clock (snd (with_derived b s g)) = gw_clock g"
  "gw_uuids (snd (with_derived b s g)) = gw_uuids g"
  "gw_issued (snd (with_derived b s g)) = gw_issued g"
  "gw_bus (snd (with_derived b s g)) = gw_bus g"
  "gw_audit (snd (with_derived b s g)) = gw_audit g"
  "gw_registry (snd (with_derived b s g)) = gw_registry g"
  "gw_commands (snd (with_derived b s g)) = gw_commands g"
  "gw_locks (snd (with_derived b s g)) = gw_locks g"
  "gw_next_lock (snd (with_derived b s g)) = gw_next_lock g"
  "gw_schedules (snd (with_derived b s g)) = gw_schedules g"
  by (simp_all add: with_derived_def Let_def split_beta)

lemma with_derived_ok: "device_state_ok s \<Longrightarrow> device_state_ok (fst (with_derived b s g))"
  by (simp add: with_derived_def Let_def split_beta device_state_ok_def)

lemma ingest_unknown:
  "id_for_ref ref (gw_registry g) = None \<Longrightarrow> ingest ref st src corr g = (Inr None, g)"
  by (simp add: ingest_def)

text \<open>For a known reference the outcome is determined: no exception is possible.\<close>

lemma ingest_known:
  assumes "id_for_ref ref (gw_registry g) = Some i"
    and "od_get (reg_devices (gw_registry g)) i = Some before"
  shows "ingest ref st src corr g =
     (let (state, g1) = with_derived before (ps_state st) g;
          after = applied before state (ps_availability st) (ps_observed_at st) src
      in (Inr (Some after),
          publish_transitions before after corr
            (g1\<lparr>gw_registry :=
                  (gw_registry g)\<lparr>reg_devices := od_set i after (reg_devices (gw_registry g))\<rparr>\<rparr>)))"
proof -
  obtain state g1 where wd: "with_derived before (ps_state st) g = (state, g1)" by fastforce
  have "gw_registry g1 = gw_registry g" using with_derived_frame(6)[of before "ps_state st" g] wd by simp
  then show ?thesis
    using assms wd by (simp add: ingest_def reg_require_def reg_apply_known Let_def)
qed

lemma id_for_ref_known:
  assumes "registry_inv r" and "id_for_ref ref r = Some i"
  shows "\<exists>d. od_get (reg_devices r) i = Some d \<and> dev_id d = i"
proof -
  obtain d where "od_get (reg_devices r) i = Some d"
    using registry_invD(1)[OF assms(1), of "ref_key ref" i] assms(2) by (auto simp: id_for_ref_def)
  with registry_invD(2)[OF assms(1)] show ?thesis by blast
qed

lemma ref_for_known:
  assumes "registry_inv r" and "od_get (reg_devices r) i = Some d"
  shows "\<exists>ref. ref_for i r = Inr ref \<and> id_for_ref ref r = Some i"
proof -
  obtain ref where "od_get (reg_refs r) i = Some ref"
    using registry_invD(4)[OF assms] by blast
  with registry_invD(3)[OF assms(1)] show ?thesis by (auto simp: ref_for_def id_for_ref_def)
qed

lemma ingest_cases:
  assumes "registry_inv (gw_registry g)"
  obtains (unknown) "ingest ref st src corr g = (Inr None, g)"
  | (known) i before state g1 after where
      "id_for_ref ref (gw_registry g) = Some i"
      "od_get (reg_devices (gw_registry g)) i = Some before" "dev_id before = i"
      "with_derived before (ps_state st) g = (state, g1)"
      "after = applied before state (ps_availability st) (ps_observed_at st) src"
      "ingest ref st src corr g =
         (Inr (Some after),
          publish_transitions before after corr
            (g1\<lparr>gw_registry :=
                  (gw_registry g)\<lparr>reg_devices := od_set i after (reg_devices (gw_registry g))\<rparr>\<rparr>))"
proof (cases "id_for_ref ref (gw_registry g)")
  case None
  then show thesis using unknown by (simp add: ingest_unknown)
next
  case (Some i)
  then obtain before where b: "od_get (reg_devices (gw_registry g)) i = Some before" "dev_id before = i"
    using id_for_ref_known[OF assms] by blast
  obtain state g1 where wd: "with_derived before (ps_state st) g = (state, g1)" by fastforce
  from known[OF Some b wd refl] show thesis
    using ingest_known[OF Some b(1)] wd by (simp add: Let_def)
qed

lemma ingest_total: "registry_inv (gw_registry g) \<Longrightarrow> \<exists>r. fst (ingest ref st src corr g) = Inr r"
  by (rule ingest_cases[of g ref st src corr]) simp_all

lemma ingest_keeps [simp, frame_simps]:
  "gw_schedules (snd (ingest ref st src corr g)) = gw_schedules g"
  "gw_uuids (snd (ingest ref st src corr g)) = gw_uuids g"
  "gw_issued (snd (ingest ref st src corr g)) = gw_issued g"
  "gw_clock (snd (ingest ref st src corr g)) = gw_clock g"
  by (auto simp: ingest_def split_beta split: option.split sum.split)

lemma ingest_frame:
  fixes ref st src corr
  assumes "registry_inv (gw_registry g)"
  defines "g' \<equiv> snd (ingest ref st src corr g)"
  shows "gw_commands g' = gw_commands g" "gw_locks g' = gw_locks g" "gw_next_lock g' = gw_next_lock g"
    and "gw_schedules g' = gw_schedules g" "gw_audit g' = gw_audit g"
    and "gw_uuids g' = gw_uuids g" "gw_issued g' = gw_issued g" "gw_clock g' = gw_clock g"
    and "reg_refs (gw_registry g') = reg_refs (gw_registry g)"
    and "reg_id_by_ref (gw_registry g') = reg_id_by_ref (gw_registry g)"
proof -
  have "gw_commands g' = gw_commands g \<and> gw_locks g' = gw_locks g \<and> gw_next_lock g' = gw_next_lock g \<and>
    gw_schedules g' = gw_schedules g \<and> gw_audit g' = gw_audit g \<and>
    gw_uuids g' = gw_uuids g \<and> gw_issued g' = gw_issued g \<and> gw_clock g' = gw_clock g \<and>
    reg_refs (gw_registry g') = reg_refs (gw_registry g) \<and>
    reg_id_by_ref (gw_registry g') = reg_id_by_ref (gw_registry g)"
    using assms(1)
  proof (cases rule: ingest_cases[of g ref st src corr])
    case unknown
    then show ?thesis by (simp add: g'_def)
  next
    case (known i before state g1 after)
    then have "g1 = snd (with_derived before (ps_state st) g)" by simp
    with known(6) show ?thesis by (simp add: g'_def)
  qed
  then show "gw_commands g' = gw_commands g" "gw_locks g' = gw_locks g" "gw_next_lock g' = gw_next_lock g"
    and "gw_schedules g' = gw_schedules g" "gw_audit g' = gw_audit g"
    and "gw_uuids g' = gw_uuids g" "gw_issued g' = gw_issued g" "gw_clock g' = gw_clock g"
    and "reg_refs (gw_registry g') = reg_refs (gw_registry g)"
    and "reg_id_by_ref (gw_registry g') = reg_id_by_ref (gw_registry g)"
    by simp_all
qed

text \<open>The device an observation is about is updated; every other device is as before.\<close>

lemma ingest_devices:
  fixes st src
  assumes inv: "registry_inv (gw_registry g)"
    and ref: "id_for_ref ref (gw_registry g) = Some i"
    and dev: "od_get (reg_devices (gw_registry g)) i = Some before"
  defines "after \<equiv> applied before (fst (with_derived before (ps_state st) g))
    (ps_availability st) (ps_observed_at st) src"
  shows "ingest ref st src corr g = (Inr (Some after), snd (ingest ref st src corr g))"
    and "od_get (reg_devices (gw_registry (snd (ingest ref st src corr g)))) =
      (od_get (reg_devices (gw_registry g)))(i \<mapsto> after)"
    and "gw_bus (snd (ingest ref st src corr g)) =
      fold bus_publish
        (map (\<lambda>ty. device_event ty
              (gw_clock g (gw_ticks (snd (with_derived before (ps_state st) g)))) i corr)
          (transition_types before after))
        (gw_bus g)"
  using ingest_known[OF ref dev, of st src corr] registry_invD(2)[OF inv dev]
  by (simp_all add: after_def Let_def split_beta od_get_set)

lemma ingest_inv:
  assumes "registry_inv (gw_registry g)" and "device_state_ok (ps_state st)"
  shows "registry_inv (gw_registry (snd (ingest ref st src corr g)))"
  using assms(1)
proof (cases rule: ingest_cases[of g ref st src corr])
  case unknown
  with assms show ?thesis by simp
next
  case (known i before state g1 after)
  have "state = fst (with_derived before (ps_state st) g)" using known(4) by simp
  then have "device_state_ok state" using assms(2) by (simp add: with_derived_ok)
  then have "registry_inv (snd (reg_apply i state (ps_availability st) (ps_observed_at st) src (gw_registry g)))"
    using assms(1) by (rule registry_inv_apply[rotated])
  with known show ?thesis by (simp add: reg_apply_known)
qed

text \<open>
  \<open>evolves r r'\<close>: the same devices with the same identity, capabilities and limits; what
  they report may have changed.
\<close>

definition same_identity :: "device \<Rightarrow> device \<Rightarrow> bool" where
  "same_identity d d' \<longleftrightarrow>
     dev_id d' = dev_id d \<and> dev_kind d' = dev_kind d \<and> dev_display_name d' = dev_display_name d \<and>
     dev_room_id d' = dev_room_id d \<and> dev_capabilities d' = dev_capabilities d \<and>
     dev_constraints d' = dev_constraints d"

definition evolves :: "device_registry \<Rightarrow> device_registry \<Rightarrow> bool" where
  "evolves r r' \<longleftrightarrow>
     (registry_inv r \<longrightarrow> registry_inv r') \<and> reg_refs r' = reg_refs r \<and>
     (\<forall>i. rel_option same_identity (od_get (reg_devices r) i) (od_get (reg_devices r') i))"

lemma same_identity_refl [simp]: "same_identity d d"
  by (simp add: same_identity_def)

lemma evolves_refl [simp]: "evolves r r"
  by (simp add: evolves_def option.rel_refl)

lemma evolves_trans: "evolves r r1 \<Longrightarrow> evolves r1 r2 \<Longrightarrow> evolves r r2"
proof -
  assume a: "evolves r r1" and b: "evolves r1 r2"
  have "rel_option same_identity (od_get (reg_devices r) i) (od_get (reg_devices r2) i)" for i
  proof -
    have "rel_option same_identity (od_get (reg_devices r) i) (od_get (reg_devices r1) i)"
      and "rel_option same_identity (od_get (reg_devices r1) i) (od_get (reg_devices r2) i)"
      using a b by (simp_all add: evolves_def)
    then show ?thesis by (auto simp: option_rel_Some1 same_identity_def elim!: option.rel_cases)
  qed
  with a b show ?thesis by (simp add: evolves_def)
qed

lemma ingest_evolves:
  assumes inv: "registry_inv (gw_registry g)" and ok: "device_state_ok (ps_state st)"
  shows "evolves (gw_registry g) (gw_registry (snd (ingest ref st src corr g)))"
  using inv
proof (cases rule: ingest_cases[of g ref st src corr])
  case unknown
  then show ?thesis by simp
next
  case (known j before state g1 after)
  have "od_get (reg_devices (gw_registry (snd (ingest ref st src corr g)))) =
      (od_get (reg_devices (gw_registry g)))(j \<mapsto> after)"
    using known by (simp add: od_get_set)
  moreover have "same_identity before after" by (simp add: known(5) same_identity_def)
  moreover have "rel_option same_identity x x" for x by (simp add: option.rel_refl)
  ultimately show ?thesis
    using ingest_inv[OF inv ok, of ref src corr] ingest_frame(9)[OF inv, of ref st src corr] known(2)
    by (simp add: evolves_def)
qed

subsection \<open>When the pump last started\<close>

text \<open>
  What "last filtered" means, over the reported pump state and the time of each report: the
  time of the last report that showed the pump running after it was not known to run.
\<close>

type_synonym pump_view = "bool option \<times> datetime option"

fun pump_step :: "bool option \<times> datetime \<Rightarrow> pump_view \<Rightarrow> pump_view" where
  "pump_step (reported, t) (pump, last_start) =
     (overlay reported pump,
      if reported = Some True \<and> pump \<noteq> Some True then Some t else last_start)"

definition pump_view :: "device_state \<Rightarrow> pump_view" where
  "pump_view s = (ds_filter_pump s, ds_filter_last_started_at s)"

primrec ingest_all :: "provider_device_ref \<Rightarrow> state_source \<Rightarrow> provider_state list \<Rightarrow> gateway \<Rightarrow> gateway" where
  "ingest_all ref src [] g = g"
| "ingest_all ref src (st # sts) g = ingest_all ref src sts (snd (ingest ref st src None g))"

primrec report_times ::
  "provider_device_ref \<Rightarrow> state_source \<Rightarrow> provider_state list \<Rightarrow> gateway \<Rightarrow> datetime list"
where
  "report_times ref src [] g = []"
| "report_times ref src (st # sts) g =
     gw_clock g (gw_ticks g) # report_times ref src sts (snd (ingest ref st src None g))"

lemma with_derived_pump:
  assumes "ds_filter_last_started_at s = None"
  shows "pump_view (merged_with (dev_state before) (fst (with_derived before s g))) =
    pump_step (ds_filter_pump s, gw_clock g (gw_ticks g)) (pump_view (dev_state before))"
  using assms
  by (simp add: pump_view_def with_derived_def Let_def split_beta)

lemma ingest_all_pump:
  assumes "registry_inv (gw_registry g)" and "id_for_ref ref (gw_registry g) = Some i"
    and "od_get (reg_devices (gw_registry g)) i = Some d"
    and "\<forall>st \<in> set sts. ds_filter_last_started_at (ps_state st) = None \<and> device_state_ok (ps_state st)"
  shows "\<exists>d'. od_get (reg_devices (gw_registry (ingest_all ref src sts g))) i = Some d' \<and>
    pump_view (dev_state d') =
      fold pump_step (zip (map (ds_filter_pump \<circ> ps_state) sts) (report_times ref src sts g))
        (pump_view (dev_state d))"
  using assms
proof (induction sts arbitrary: g d)
  case Nil
  then show ?case by simp
next
  case (Cons st sts)
  let ?g = "snd (ingest ref st src None g)"
  let ?d = "applied d (fst (with_derived d (ps_state st) g)) (ps_availability st) (ps_observed_at st) src"
  have inv: "registry_inv (gw_registry ?g)" using Cons.prems(1,4) by (simp add: ingest_inv)
  have ref: "id_for_ref ref (gw_registry ?g) = Some i"
    using Cons.prems(1,2) by (simp add: id_for_ref_def ingest_frame)
  have dev: "od_get (reg_devices (gw_registry ?g)) i = Some ?d"
    using ingest_devices(2)[OF Cons.prems(1-3)] by simp
  have "pump_view (dev_state ?d) =
      pump_step (ds_filter_pump (ps_state st), gw_clock g (gw_ticks g)) (pump_view (dev_state d))"
    using Cons.prems(4) by (simp add: with_derived_pump)
  with Cons.IH[OF inv ref dev] Cons.prems(4) show ?case by simp
qed

subsection \<open>Discovery\<close>

text \<open>The registry as discovery leaves it, for references whose identifiers do not collide.\<close>

definition discovery_inv :: "hmac \<Rightarrow> provider_device_ref set \<Rightarrow> device_registry \<Rightarrow> bool" where
  "discovery_inv h refs r \<longleftrightarrow>
     registry_inv r \<and> registry_keyed h r \<and> snd ` set (reg_refs r) \<subseteq> refs"

lemma discovery_inv_register:
  assumes inv: "discovery_inv h refs r" and inj: "inj_on (id_of_ref h (reg_id_salt r)) refs"
    and pd: "pd_ref pd \<in> refs" and ok: "device_state_ok (ps_state st)"
    and reg: "register h pd st r = (d, r')"
  shows "discovery_inv h refs r' \<and> reg_id_salt r' = reg_id_salt r"
proof -
  note sel = register_sel[OF reg]
  have own: "dev_id d = id_of_ref h (reg_id_salt r) (pd_ref pd)"
    using register_id[of h pd st r] reg by (simp add: id_of_ref_def)
  have key: "registry_keyed h r" and r: "registry_inv r"
    using inv by (simp_all add: discovery_inv_def)
  have wf: "od_wf (reg_refs r)" using r unfolding registry_inv_def by blast
  have fresh: "ref = pd_ref pd" if "od_get (reg_refs r) (dev_id d) = Some ref" for ref
  proof (rule inj_onD[OF inj _ _ pd])
    show "ref \<in> refs" using inv that by (force simp: discovery_inv_def dest: od_get_in)
    have "od_get (reg_id_by_ref r) (ref_key ref) = Some (dev_id d)"
      using registry_invD(3)[OF r that] .
    then show "id_of_ref h (reg_id_salt r) ref = id_of_ref h (reg_id_salt r) (pd_ref pd)"
      using key own by (simp add: registry_keyed_def)
  qed
  have "registry_inv r'" by (rule registry_inv_register[OF r ok reg fresh key])
  moreover have "registry_keyed h r'" by (rule registry_keyed_register[OF key reg])
  moreover have "snd ` set (reg_refs r') \<subseteq> refs"
    using inv pd wf by (auto simp: sel set_od_set discovery_inv_def)
  ultimately show ?thesis by (simp add: discovery_inv_def sel)
qed

text \<open>The references that the adapters hand out in a run of \<open>bootstrap\<close>.\<close>

primrec discovered :: "hmac \<Rightarrow> 'w device_provider list \<Rightarrow> gateway \<times> 'w \<Rightarrow> provider_device_ref set" where
  "discovered h [] gw = {}"
| "discovered h (p # ps) gw =
     (let (g, w) = gw in
      case dp_discover_devices p w of
        (Inl e, w1) \<Rightarrow> {}
      | (Inr pds, w1) \<Rightarrow>
          pd_ref ` set pds \<union>
          (case bootstrap_devices h p pds (g, w1) of
             (Inl e, gw2) \<Rightarrow> {}
           | (Inr _, gw2) \<Rightarrow> discovered h ps gw2))"

context adapter_contract
begin

lemma bootstrap_devices_world: "world_ok w \<Longrightarrow> world_ok (snd (snd (bootstrap_devices h p pds (g, w))))"
proof (induction pds arbitrary: g w)
  case (Cons pd pds)
  obtain res w1 where get: "dp_get_state p (pd_ref pd) w = (res, w1)" by fastforce
  then have "world_ok w1" using get_keeps[OF Cons.prems, of "pd_ref pd"] by simp
  with Cons.IH get show ?case by (cases res) (simp_all add: Let_def split_beta)
qed simp

lemma bootstrap_devices_inv:
  assumes "discovery_inv h known (gw_registry g)" and "pd_ref ` set pds \<subseteq> known"
    and "inj_on (id_of_ref h (reg_id_salt (gw_registry g))) known"
    and "world_ok w" and "bootstrap_devices h p pds (g, w) = (r, g', w')"
  shows "discovery_inv h known (gw_registry g') \<and> reg_id_salt (gw_registry g') = reg_id_salt (gw_registry g)"
  using assms
proof (induction pds arbitrary: g w)
  case Nil
  then show ?case by simp
next
  case (Cons pd pds)
  show ?case
  proof (cases "dp_get_state p (pd_ref pd) w")
    case (Pair res w1)
    have w1: "world_ok w1" using get_keeps[OF Cons.prems(4), of "pd_ref pd"] Pair by simp
    show ?thesis
    proof (cases res)
      case (Inl e)
      with Pair Cons.prems show ?thesis by simp
    next
      case (Inr st)
      obtain d reg where reg: "register h pd st (gw_registry g) = (d, reg)" by fastforce
      have "device_state_ok (ps_state st)" using state_ok[OF Cons.prems(4), of "pd_ref pd" st] Pair Inr by simp
      then have step: "discovery_inv h known reg \<and> reg_id_salt reg = reg_id_salt (gw_registry g)"
        using Cons.prems reg by (intro discovery_inv_register[of h known "gw_registry g" pd st d]) auto
      obtain t g1 where tick: "clock_now (g\<lparr>gw_registry := reg\<rparr>) = (t, g1)" by fastforce
      let ?g2 = "emit (device_event DEVICE_DISCOVERED t (dev_id d) None) g1"
      have "gw_registry ?g2 = reg" using tick by (auto simp: clock_now_def)
      moreover have "bootstrap_devices h p pds (?g2, w1) = (r, g', w')"
        using Cons.prems(5) Pair Inr reg tick by simp
      ultimately show ?thesis using Cons.IH[of ?g2 w1] Cons.prems(2,3) w1 step by simp
    qed
  qed
qed

end

lemma bootstrap_inv:
  assumes "\<forall>p \<in> set ps. adapter_contract p refs world_ok"
    and "discovery_inv h known (gw_registry g)"
    and "inj_on (id_of_ref h (reg_id_salt (gw_registry g))) known" and "discovered h ps (g, w) \<subseteq> known"
    and "world_ok w" and "bootstrap h ps (g, w) = (r, g', w')"
  shows "discovery_inv h known (gw_registry g') \<and> world_ok w' \<and> discovered h ps (g, w) \<subseteq> refs"
  using assms
proof (induction ps arbitrary: g w)
  case Nil
  then show ?case by simp
next
  case (Cons p ps)
  have p: "adapter_contract p refs world_ok" using Cons.prems(1) by simp
  obtain res w1 where disc: "dp_discover_devices p w = (res, w1)" by fastforce
  have w1: "world_ok w1" using adapter_contract.discover_keeps[OF p Cons.prems(5)] disc by simp
  show ?case
  proof (cases res)
    case (Inl e)
    with disc Cons.prems w1 show ?thesis by simp
  next
    case (Inr pds)
    obtain r2 g2 w2 where dev: "bootstrap_devices h p pds (g, w1) = (r2, g2, w2)"
      by (cases "bootstrap_devices h p pds (g, w1)") auto
    have refs: "pd_ref ` set pds \<subseteq> refs"
      using adapter_contract.discover_refs[OF p Cons.prems(5), of pds] disc Inr by simp
    have "pd_ref ` set pds \<subseteq> known" using Cons.prems(4) disc Inr by simp
    note step = adapter_contract.bootstrap_devices_inv[OF p Cons.prems(2) this Cons.prems(3) w1 dev]
    have w2: "world_ok w2" using adapter_contract.bootstrap_devices_world[OF p w1, of h pds g] dev by simp
    show ?thesis
    proof (cases r2)
      case (Inl e)
      with disc Inr dev Cons.prems(6) step w2 refs show ?thesis by auto
    next
      case (Inr u)
      have "discovery_inv h known (gw_registry g') \<and> world_ok w' \<and> discovered h ps (g2, w2) \<subseteq> refs"
        using Cons.prems disc \<open>res = Inr pds\<close> dev Inr step w2 by (intro Cons.IH[of g2 w2]) auto
      with disc \<open>res = Inr pds\<close> dev Inr refs show ?thesis by simp
    qed
  qed
qed

end
