(* ===== verification/Client_Auth.thy ===== *)
theory Client_Auth
  imports Domain_Errors Ordered_Dict
begin

section \<open>Registered clients and WebSocket tickets\<close>

text \<open>
  \<open>auth/models.py\<close>, \<open>auth/registry.py\<close> and \<open>auth/tickets.py\<close>. The SHA-256 hex digest is a
  parameter \<open>digest\<close>; the random ticket that \<open>secrets.token_urlsafe\<close> returns is an argument
  of \<open>issue\<close>. Both loops that walk every candidate are folds over all of them, as written.
\<close>

record principal =
  pr_user_id :: uuid
  pr_client_id :: uuid
  pr_display_name :: string

record registered_client =
  rc_client_id :: uuid
  rc_user_id :: uuid
  rc_display_name :: string
  rc_token_sha256 :: string
  rc_revoked :: bool

definition client_principal :: "registered_client \<Rightarrow> principal" where
  "client_principal c =
     \<lparr>pr_user_id = rc_user_id c, pr_client_id = rc_client_id c,
      pr_display_name = rc_display_name c\<rparr>"

definition or_empty :: "string option \<Rightarrow> string" where
  "or_empty s = (case s of None \<Rightarrow> [] | Some t \<Rightarrow> t)"

definition matching_client ::
  "string \<Rightarrow> registered_client list \<Rightarrow> registered_client option"
where
  "matching_client d clients =
     fold (\<lambda>c m. if d = rc_token_sha256 c \<and> \<not> rc_revoked c then Some c else m) clients None"

definition client_authenticate ::
  "(string \<Rightarrow> string) \<Rightarrow> registered_client list \<Rightarrow> string option \<Rightarrow> failure + principal"
where
  "client_authenticate digest clients presented_token =
     (let d = digest (or_empty presented_token) in
      (case matching_client d clients of
         None \<Rightarrow> Inl (raise_kind UnauthenticatedError)
       | Some c \<Rightarrow>
           if truthy_str presented_token then Inr (client_principal c)
           else Inl (raise_kind UnauthenticatedError)))"

subsection \<open>Tickets\<close>

definition TICKET_TTL_SECONDS :: int where "TICKET_TTL_SECONDS = 30"
definition max_outstanding :: nat where "max_outstanding = 64"
definition protocol_prefix :: string where "protocol_prefix = ''homeflow.ticket.''"

record issued =
  is_principal :: principal
  is_expires_at :: datetime

definition ticket_protocol :: "string \<Rightarrow> string" where
  "ticket_protocol ticket = protocol_prefix @ ticket"

definition ticket_from_protocol :: "string \<Rightarrow> string option" where
  "ticket_from_protocol protocol =
     (if \<not> starts_with protocol_prefix protocol then None
      else
        (let rest = drop (length protocol_prefix) protocol in
         if rest = [] then None else Some rest))"

record ticket_store =
  ts_ttl :: timedelta
  ts_tickets :: "(string, issued) odict"

definition new_ticket_store :: "int \<Rightarrow> ticket_store" where
  "new_ticket_store ttl_seconds =
     \<lparr>ts_ttl = ttl_seconds * usec_per_sec, ts_tickets = []\<rparr>"

definition prune :: "datetime \<Rightarrow> (string, issued) odict \<Rightarrow> (string, issued) odict" where
  "prune now ts =
     fold od_del (map fst (filter (\<lambda>(k, i). is_expires_at i \<le> now) ts)) ts"

definition issue ::
  "(string \<Rightarrow> string) \<Rightarrow> principal \<Rightarrow> string \<Rightarrow> datetime \<Rightarrow> ticket_store \<Rightarrow> ticket_store"
where
  "issue digest p ticket now s =
     (let live = prune now (ts_tickets s);
          room = od_evict max_outstanding live
      in s\<lparr>ts_tickets :=
            od_set (digest ticket)
              \<lparr>is_principal = p, is_expires_at = now + ts_ttl s\<rparr> room\<rparr>)"

definition find_ticket ::
  "string \<Rightarrow> (string, issued) odict \<Rightarrow> (string \<times> issued) option"
where
  "find_ticket d ts = fold (\<lambda>(k, i) m. if d = k then Some (k, i) else m) ts None"

definition ticket_refused :: failure where
  "ticket_refused =
     raise_detail UnauthenticatedError
       (Authored ''The WebSocket ticket is invalid or has expired.'')"

definition redeem ::
  "(string \<Rightarrow> string) \<Rightarrow> string option \<Rightarrow> datetime \<Rightarrow> ticket_store
     \<Rightarrow> (failure + principal) \<times> ticket_store"
where
  "redeem digest ticket now s =
     (let live = prune now (ts_tickets s); d = digest (or_empty ticket);
          s1 = s\<lparr>ts_tickets := live\<rparr>
      in (case find_ticket d live of
            None \<Rightarrow> (Inl ticket_refused, s1)
          | Some (key, found) \<Rightarrow>
              if \<not> truthy_str ticket then (Inl ticket_refused, s1)
              else
                (let s2 = s\<lparr>ts_tickets := od_del key live\<rparr> in
                 if is_expires_at found \<le> now then (Inl ticket_refused, s2)
                 else (Inr (is_principal found), s2))))"

subsection \<open>Lemmas on clients\<close>

lemma fold_last_match:
  "fold (\<lambda>c m. if P c then Some c else m) cs m =
     (case filter P cs of [] \<Rightarrow> m | _ \<Rightarrow> Some (last (filter P cs)))"
  by (induction cs arbitrary: m) (auto split: list.splits)

lemma matching_client_eq:
  "matching_client d cs =
     (case filter (\<lambda>c. d = rc_token_sha256 c \<and> \<not> rc_revoked c) cs of
        [] \<Rightarrow> None | x # xs \<Rightarrow> Some (last (x # xs)))"
  unfolding matching_client_def
  by (subst fold_last_match) (simp split: list.splits)

lemma matching_client_Some:
  assumes "matching_client d cs = Some c"
  shows "c \<in> set cs \<and> rc_token_sha256 c = d \<and> \<not> rc_revoked c"
proof -
  let ?f = "filter (\<lambda>c. d = rc_token_sha256 c \<and> \<not> rc_revoked c) cs"
  have "?f \<noteq> []" "c = last ?f"
    using assms by (auto simp: matching_client_eq split: list.splits)
  then have "c \<in> set ?f" by (metis last_in_set)
  then show ?thesis by simp
qed

lemma matching_client_None:
  "matching_client d cs = None \<longleftrightarrow> (\<forall>c \<in> set cs. rc_token_sha256 c = d \<longrightarrow> rc_revoked c)"
proof -
  have "matching_client d cs = None \<longleftrightarrow>
      filter (\<lambda>c. d = rc_token_sha256 c \<and> \<not> rc_revoked c) cs = []"
    by (simp add: matching_client_eq split: list.splits)
  then show ?thesis by (auto simp: filter_empty_conv)
qed

subsection \<open>Lemmas on tickets\<close>

lemma find_ticket_get: "od_wf ts \<Longrightarrow> find_ticket d ts = map_option (Pair d) (od_get ts d)"
proof -
  have gen: "fold (\<lambda>(k, i) m. if d = k then Some (k, i) else m) ts m =
      (case od_get ts d of None \<Rightarrow> m | Some i \<Rightarrow> Some (d, i))"
    if "od_wf ts" for m :: "(string \<times> issued) option" and ts
    using that
  proof (induction ts arbitrary: m)
    case (Cons x ts)
    obtain k i where x: "x = (k, i)" by (cases x)
    from Cons.prems have "od_wf ts" by (simp add: od_wf_def)
    moreover have "od_get ts d = None" if "k = d"
      using Cons.prems that by (auto simp: x od_wf_def od_get_None_iff)
    ultimately show ?case
      using Cons.IH by (auto simp: x od_get_def)
  qed simp
  assume "od_wf ts"
  then show ?thesis by (simp add: find_ticket_def gen split: option.splits)
qed

lemma od_get_fold_del:
  "od_get (fold od_del ks d) k = (if k \<in> set ks then None else od_get d k)"
  by (induction ks arbitrary: d) (auto simp: od_get_del)

lemma od_wf_fold_del: "od_wf d \<Longrightarrow> od_wf (fold od_del ks d)"
  by (induction ks arbitrary: d) auto

lemma length_fold_del: "length (fold od_del ks d) \<le> length d"
proof (induction ks arbitrary: d)
  case (Cons k ks)
  show ?case using Cons[of "od_del k d"] length_od_del_le[of k d] by simp
qed simp

lemma od_wf_prune [simp]: "od_wf ts \<Longrightarrow> od_wf (prune now ts)"
  by (simp add: prune_def od_wf_fold_del)

lemma length_prune: "length (prune now ts) \<le> length ts"
  by (simp add: prune_def length_fold_del)

text \<open>Pruning removes exactly the tickets that have expired.\<close>

lemma od_get_prune:
  "od_wf ts \<Longrightarrow> od_get (prune now ts) k = Some i \<longleftrightarrow> od_get ts k = Some i \<and> now < is_expires_at i"
proof -
  assume wf: "od_wf ts"
  have "k \<in> fst ` {x \<in> set ts. case x of (k, i) \<Rightarrow> is_expires_at i \<le> now} \<longleftrightarrow>
      (\<exists>i. od_get ts k = Some i \<and> is_expires_at i \<le> now)"
    using wf by (auto simp: od_get_iff image_iff)
  then show ?thesis
    by (auto simp: prune_def od_get_fold_del)
qed

definition tickets_inv :: "ticket_store \<Rightarrow> bool" where
  "tickets_inv s \<longleftrightarrow> od_wf (ts_tickets s) \<and> length (ts_tickets s) \<le> max_outstanding"

lemma tickets_inv_new: "tickets_inv (new_ticket_store n)"
  by (simp add: tickets_inv_def new_ticket_store_def)

text \<open>Issuing is a put on the bounded store of outstanding tickets.\<close>

definition put_ticket ::
  "datetime \<Rightarrow> string \<Rightarrow> issued \<Rightarrow> (string, issued) odict \<Rightarrow> (string, issued) odict"
where
  "put_ticket now k i ts = od_set k i (od_evict max_outstanding (prune now ts))"

interpretation outstanding:
  bounded_store od_get "put_ticket now" length od_wf max_outstanding for now
proof (unfold_locales, goal_cases)
  case (3 s j k v w)
  then have "od_get (od_evict max_outstanding (prune now s)) j = Some w"
    by (simp add: put_ticket_def)
  then have "od_get (prune now s) j = Some w"
    using 3 by (blast intro: od_get_evict od_wf_prune)
  with 3 show ?case by (simp add: od_get_prune)
next
  case (4 s k v)
  have "length (od_evict max_outstanding (prune now s)) < max_outstanding"
    using 4 length_prune[of now s] by (intro length_od_evict) (simp_all add: max_outstanding_def)
  then show ?case by (simp add: put_ticket_def length_od_set)
qed (simp_all add: put_ticket_def)

lemma ts_tickets_issue:
  "ts_tickets (issue digest p t now s) =
     put_ticket now (digest t) \<lparr>is_principal = p, is_expires_at = now + ts_ttl s\<rparr> (ts_tickets s)"
  by (simp add: issue_def put_ticket_def Let_def)

lemma tickets_inv_issue: "tickets_inv s \<Longrightarrow> tickets_inv (issue digest p t now s)"
  by (simp add: tickets_inv_def ts_tickets_issue outstanding.inv_put outstanding.size_put)

lemma ts_ttl_ops [simp]:
  "ts_ttl (issue digest p t now s) = ts_ttl s"
  "ts_ttl (snd (redeem digest tk now s)) = ts_ttl s"
  by (auto simp: issue_def redeem_def Let_def split: option.splits)

lemma redeem_cases:
  assumes "tickets_inv s"
  shows "redeem digest tk now s =
    (case od_get (ts_tickets s) (digest (or_empty tk)) of
       Some i \<Rightarrow>
         if now < is_expires_at i \<and> truthy_str tk
         then (Inr (is_principal i),
               s\<lparr>ts_tickets := od_del (digest (or_empty tk)) (prune now (ts_tickets s))\<rparr>)
         else (Inl ticket_refused, s\<lparr>ts_tickets := prune now (ts_tickets s)\<rparr>)
     | None \<Rightarrow> (Inl ticket_refused, s\<lparr>ts_tickets := prune now (ts_tickets s)\<rparr>))"
proof -
  let ?d = "digest (or_empty tk)" and ?live = "prune now (ts_tickets s)"
  have wf: "od_wf (ts_tickets s)" using assms by (simp add: tickets_inv_def)
  have f: "find_ticket ?d ?live = map_option (Pair ?d) (od_get ?live ?d)"
    using wf by (simp add: find_ticket_get)
  show ?thesis
  proof (cases "od_get ?live ?d")
    case None
    then have "\<not> (\<exists>i. od_get (ts_tickets s) ?d = Some i \<and> now < is_expires_at i)"
      using od_get_prune[OF wf, of now ?d] by auto
    then show ?thesis
      using None f by (auto simp: redeem_def Let_def split: option.splits)
  next
    case (Some i)
    then have "od_get (ts_tickets s) ?d = Some i" "now < is_expires_at i"
      using od_get_prune[OF wf, of now ?d] by auto
    then show ?thesis
      using Some f by (auto simp: redeem_def Let_def)
  qed
qed

lemma tickets_inv_redeem: "tickets_inv s \<Longrightarrow> tickets_inv (snd (redeem digest tk now s))"
proof -
  assume inv: "tickets_inv s"
  let ?live = "prune now (ts_tickets s)"
  have "length ?live \<le> max_outstanding" "length (od_del k ?live) \<le> max_outstanding" for k
    using inv length_prune[of now "ts_tickets s"] length_od_del_le[of k ?live]
    by (simp_all add: tickets_inv_def)
  with inv show ?thesis
    by (auto simp: redeem_cases[OF inv] tickets_inv_def split: option.splits)
qed

subsection \<open>Runs of the ticket store\<close>

datatype ticket_op = Issue principal string datetime | Redeem "string option" datetime

text \<open>The successful redemptions of a run: the ticket, the principal, the time.\<close>

fun ticket_run ::
  "(string \<Rightarrow> string) \<Rightarrow> ticket_store \<Rightarrow> ticket_op list
     \<Rightarrow> (string option \<times> principal \<times> datetime) list \<times> ticket_store"
where
  "ticket_run digest s [] = ([], s)"
| "ticket_run digest s (Issue p t now # ops) = ticket_run digest (issue digest p t now s) ops"
| "ticket_run digest s (Redeem tk now # ops) =
     (let (r, s1) = redeem digest tk now s; (rs, s2) = ticket_run digest s1 ops in
      (case r of Inl _ \<Rightarrow> rs | Inr p \<Rightarrow> (tk, p, now) # rs, s2))"

definition issues_of :: "string \<Rightarrow> ticket_op list \<Rightarrow> (principal \<times> datetime) list" where
  "issues_of t ops = List.map_filter
     (\<lambda>op. case op of Issue p u now \<Rightarrow> if u = t then Some (p, now) else None | _ \<Rightarrow> None) ops"

lemma issues_of_simps [simp]:
  "issues_of t [] = []"
  "issues_of t (Issue p u now # ops) = (if u = t then [(p, now)] else []) @ issues_of t ops"
  "issues_of t (Redeem tk now # ops) = issues_of t ops"
  by (simp_all add: issues_of_def List.map_filter_simps)

text \<open>
  A redemption of \<open>t\<close> is backed by the ticket already in the store, or by an issue in the
  run, unexpired; and there are never more redemptions of \<open>t\<close> than backings.
\<close>

definition backing ::
  "(string \<Rightarrow> string) \<Rightarrow> ticket_store \<Rightarrow> string \<Rightarrow> (principal \<times> datetime) list"
where
  "backing digest s t =
     (case od_get (ts_tickets s) (digest t) of
        None \<Rightarrow> [] | Some i \<Rightarrow> [(is_principal i, is_expires_at i - ts_ttl s)])"

definition redemptions ::
  "string \<Rightarrow> (string option \<times> principal \<times> datetime) list \<Rightarrow> (principal \<times> datetime) list"
where
  "redemptions t rs = map snd (filter (\<lambda>(tk, p, now). tk = Some t) rs)"

lemma backing_issue:
  assumes "tickets_inv s" and "u \<noteq> t \<Longrightarrow> digest u \<noteq> digest t"
  shows "set (backing digest (issue digest p u now s) t) \<subseteq>
      set (if u = t then [(p, now)] else backing digest s t)"
    and "length (backing digest (issue digest p u now s) t) \<le>
      (if u = t then 1 else length (backing digest s t))"
proof -
  have wf: "od_wf (ts_tickets s)" using assms(1) by (simp add: tickets_inv_def)
  have old: "od_get (ts_tickets s) (digest t) = Some i"
    if "od_get (ts_tickets (issue digest p u now s)) (digest t) = Some i" "u \<noteq> t" for i
  proof -
    have "digest t \<noteq> digest u" using that(2) assms(2) by auto
    with that(1) wf show ?thesis
      unfolding ts_tickets_issue by (blast intro: outstanding.fetch_put_other)
  qed
  have new: "od_get (ts_tickets (issue digest p t now s)) (digest t) =
      Some \<lparr>is_principal = p, is_expires_at = now + ts_ttl s\<rparr>"
    using wf unfolding ts_tickets_issue by (rule outstanding.fetch_put_same)
  show "set (backing digest (issue digest p u now s) t) \<subseteq>
      set (if u = t then [(p, now)] else backing digest s t)"
  proof (cases "u = t")
    case True
    with new show ?thesis by (simp add: backing_def)
  next
    case False
    then show ?thesis
      using old
      by (cases "od_get (ts_tickets (issue digest p u now s)) (digest t)") (simp_all add: backing_def)
  qed
  show "length (backing digest (issue digest p u now s) t) \<le>
      (if u = t then 1 else length (backing digest s t))"
    using old
    by (cases "od_get (ts_tickets (issue digest p u now s)) (digest t)") (simp_all add: backing_def)
qed

lemma backing_redeem:
  assumes inv: "tickets_inv s" and r: "redeem digest tk now s = (r, s')"
  shows "set (backing digest s' t) \<subseteq> set (backing digest s t)"
    and "\<And>p. r = Inr p \<Longrightarrow> \<exists>u from. tk = Some u \<and> backing digest s u = [(p, from)] \<and>
      now < from + ts_ttl s \<and> backing digest s' u = []"
    and "length (backing digest s' t) \<le> length (backing digest s t)"
proof -
  let ?d = "digest (or_empty tk)"
  have wf: "od_wf (ts_tickets s)" using inv by (simp add: tickets_inv_def)
  have s': "ts_ttl s' = ts_ttl s" using ts_ttl_ops(2)[of digest tk now s] r by simp
  have sub: "od_get (ts_tickets s) k = Some i" if "od_get (ts_tickets s') k = Some i" for k i
    using r that od_get_prune[OF wf, of now k i]
    by (auto simp: redeem_cases[OF inv] od_get_del split: option.splits if_splits)
  then show "set (backing digest s' t) \<subseteq> set (backing digest s t)"
    and "length (backing digest s' t) \<le> length (backing digest s t)"
    by (cases "od_get (ts_tickets s') (digest t)"; simp add: backing_def s')+
  fix p
  assume "r = Inr p"
  with r obtain i where i: "od_get (ts_tickets s) ?d = Some i" "now < is_expires_at i"
    "truthy_str tk" "p = is_principal i" "s' = s\<lparr>ts_tickets := od_del ?d (prune now (ts_tickets s))\<rparr>"
    by (auto simp: redeem_cases[OF inv] split: option.splits if_splits)
  then obtain u where "tk = Some u" by (cases tk) auto
  with i show "\<exists>u from. tk = Some u \<and> backing digest s u = [(p, from)] \<and>
      now < from + ts_ttl s \<and> backing digest s' u = []"
    by (auto simp: backing_def or_empty_def od_get_del)
qed

fun issued_tickets :: "ticket_op list \<Rightarrow> string set" where
  "issued_tickets [] = {}"
| "issued_tickets (Issue p u now # ops) = insert u (issued_tickets ops)"
| "issued_tickets (Redeem tk now # ops) = issued_tickets ops"

text \<open>Every redemption of a ticket is covered by an issue, or by what the store held before.\<close>

definition covered :: "(string \<Rightarrow> string) \<Rightarrow> ticket_store \<Rightarrow> string \<Rightarrow> ticket_op list \<Rightarrow>
    (string option \<times> principal \<times> datetime) list \<Rightarrow> bool" where
  "covered digest s t ops rs \<longleftrightarrow>
     length (redemptions t rs) \<le> length (backing digest s t) + length (issues_of t ops) \<and>
     (\<forall>(p, now) \<in> set (redemptions t rs).
       \<exists>from. (p, from) \<in> set (backing digest s t) \<union> set (issues_of t ops) \<and> now < from + ts_ttl s)"

lemma covered_issue:
  assumes "tickets_inv s" and "u \<noteq> t \<Longrightarrow> digest u \<noteq> digest t"
    and "covered digest (issue digest p u now s) t ops rs"
  shows "covered digest s t (Issue p u now # ops) rs"
  using assms(3) backing_issue[where digest = digest, OF assms(1,2), of p now]
  unfolding covered_def by (auto split: if_splits) fastforce+

lemma covered_redeem:
  assumes inv: "tickets_inv s" and r: "redeem digest tk now s = (r, s1)"
    and "covered digest s1 t ops rs1" and rs: "rs = (case r of Inl _ \<Rightarrow> rs1 | Inr p \<Rightarrow> (tk, p, now) # rs1)"
  shows "covered digest s t (Redeem tk now # ops) rs"
proof -
  note br = backing_redeem[OF inv r]
  have ttl: "ts_ttl s1 = ts_ttl s" using ts_ttl_ops(2)[of digest tk now s] r by simp
  show ?thesis
  proof (cases "\<exists>p. r = Inr p \<and> tk = Some t")
    case True
    then obtain p where p: "r = Inr p" "tk = Some t" by blast
    with br(2)[OF p(1)] obtain f where f: "backing digest s t = [(p, f)]"
      "now < f + ts_ttl s" "backing digest s1 t = []" by auto
    with assms(3) p show ?thesis by (auto simp: covered_def rs redemptions_def ttl)
  next
    case False
    then have "redemptions t rs = redemptions t rs1" by (cases r) (auto simp: rs redemptions_def)
    with assms(3) br(1)[of t] br(3)[of t] show ?thesis by (fastforce simp: covered_def ttl)
  qed
qed

lemma ticket_run_redemptions:
  assumes "tickets_inv s" and "inj_on digest (insert t (issued_tickets ops))"
    and "ticket_run digest s ops = (rs, s')"
  shows "covered digest s t ops rs"
  using assms
proof (induction ops arbitrary: s rs)
  case Nil
  then show ?case by (simp add: covered_def redemptions_def)
next
  case (Cons oper ops)
  show ?case
  proof (cases oper)
    case (Issue p u now)
    have inj: "inj_on digest (insert t (issued_tickets ops))"
      using Cons.prems(2) Issue by (auto intro: inj_on_subset)
    have "u \<noteq> t \<Longrightarrow> digest u \<noteq> digest t" using inj_onD[OF Cons.prems(2), of u t] Issue by auto
    moreover have "ticket_run digest (issue digest p u now s) ops = (rs, s')" using Cons.prems(3) Issue by simp
    ultimately show ?thesis
      unfolding Issue using Cons.IH[OF tickets_inv_issue[OF Cons.prems(1)] inj] Cons.prems(1)
      by (intro covered_issue) auto
  next
    case (Redeem tk now)
    obtain r s1 where r: "redeem digest tk now s = (r, s1)" by fastforce
    obtain rs1 where run: "ticket_run digest s1 ops = (rs1, s')"
      and rs: "rs = (case r of Inl _ \<Rightarrow> rs1 | Inr p \<Rightarrow> (tk, p, now) # rs1)"
      using Cons.prems(3) by (auto simp: Redeem r split: prod.splits)
    have "tickets_inv s1" using tickets_inv_redeem[OF Cons.prems(1), of digest tk now] r by simp
    moreover have "inj_on digest (insert t (issued_tickets ops))" using Cons.prems(2) Redeem by simp
    ultimately show ?thesis unfolding Redeem by (intro covered_redeem[OF Cons.prems(1) r Cons.IH[OF _ _ run] rs])
  qed
qed

subsection \<open>Properties\<close>

text \<open>
  C13. A ticket is good for one connection, for its principal, for its lifetime. In any run
  of issues and redemptions a ticket is redeemed at most as often as it was issued, and every
  redemption returns the principal of an issue that has not expired by then.
\<close>

theorem ticket_single_use:
  assumes "inj_on digest (insert t (issued_tickets ops))"
    and "ticket_run digest (new_ticket_store ttl) ops = (rs, s')"
  shows "length (redemptions t rs) \<le> length (issues_of t ops) \<and>
    (\<forall>(p, now) \<in> set (redemptions t rs).
       \<exists>from. (p, from) \<in> set (issues_of t ops) \<and> now < from + ttl * usec_per_sec)"
proof -
  have "backing digest (new_ticket_store ttl) t = []"
    and "ts_ttl (new_ticket_store ttl) = ttl * usec_per_sec"
    by (simp_all add: backing_def new_ticket_store_def)
  with ticket_run_redemptions[OF tickets_inv_new assms] show ?thesis by (simp add: covered_def)
qed

theorem ticket_single_use_witness:
  "length (redemptions ''t'' (fst (ticket_run (\<lambda>s. s) (new_ticket_store 30)
     [Issue \<lparr>pr_user_id = 1, pr_client_id = 2, pr_display_name = ''Phone''\<rparr> ''t'' 0,
      Redeem (Some ''t'') 5, Redeem (Some ''t'') 6]))) \<le> 1"
  using ticket_single_use[where digest = "\<lambda>s. s" and t = "''t''" and ttl = 30 and ops =
      "[Issue \<lparr>pr_user_id = 1, pr_client_id = 2, pr_display_name = ''Phone''\<rparr> ''t'' 0,
        Redeem (Some ''t'') 5, Redeem (Some ''t'') 6]"]
  by (cases "ticket_run (\<lambda>s. s) (new_ticket_store 30)
     [Issue \<lparr>pr_user_id = 1, pr_client_id = 2, pr_display_name = ''Phone''\<rparr> ''t'' 0,
      Redeem (Some ''t'') 5, Redeem (Some ''t'') 6]") simp

text \<open>
  Authentication succeeds exactly for a presented, non-empty token whose digest belongs
  to a registered client that is not revoked, and answers with that client's principal.
\<close>

lemma authenticate_sound:
  "case client_authenticate digest clients tok of
     Inr p \<Rightarrow> \<exists>c \<in> set clients. \<not> rc_revoked c \<and> p = client_principal c \<and>
       (\<exists>s. tok = Some s \<and> s \<noteq> [] \<and> rc_token_sha256 c = digest s)
   | Inl e \<Rightarrow> failure_kind e = Some UnauthenticatedError \<and>
       (\<forall>s. tok = Some s \<and> s \<noteq> [] \<longrightarrow>
          (\<forall>c \<in> set clients. rc_token_sha256 c = digest s \<longrightarrow> rc_revoked c))"
proof (cases "matching_client (digest (or_empty tok)) clients")
  case None
  then have "\<forall>c \<in> set clients. rc_token_sha256 c = digest (or_empty tok) \<longrightarrow> rc_revoked c"
    by (simp add: matching_client_None)
  moreover from None have "client_authenticate digest clients tok = Inl (raise_kind UnauthenticatedError)"
    by (simp add: client_authenticate_def Let_def)
  ultimately show ?thesis by (auto simp: or_empty_def)
next
  case (Some c)
  then show ?thesis
    using matching_client_Some[OF Some]
    by (cases tok) (auto simp: client_authenticate_def Let_def or_empty_def)
qed

definition sample_client :: registered_client where
  "sample_client =
     \<lparr>rc_client_id = 2, rc_user_id = 1, rc_display_name = ''Phone'', rc_token_sha256 = ''secret'',
      rc_revoked = False\<rparr>"

end
