(* ===== verification/Command_Service.thy ===== *)
theory Command_Service
  imports Device_Service Client_Auth
begin

section \<open>The command pipeline\<close>

text \<open>
  \<open>commands/service.py\<close>: the one way a device is written to. A handler is a function over
  the gateway and the world \<open>'w\<close> the adapters act on. \<open>asyncio.timeout\<close> around an adapter call
  is the adapter's result \<open>TimeoutError\<close>: the call was cancelled, and the world may or may not
  have changed. The time budgets themselves are therefore not part of the model.
\<close>

definition COMMAND_TTL :: timedelta where "COMMAND_TTL = 120 * usec_per_sec"
definition MAX_TRACKED_COMMANDS :: nat where "MAX_TRACKED_COMMANDS = 500"
definition MAX_DEVICE_LOCKS :: nat where "MAX_DEVICE_LOCKS = 256"

fun COMPLETION_EVENTS :: "command_status \<Rightarrow> event_type option" where
  "COMPLETION_EVENTS command_status.SUCCEEDED = Some COMMAND_SUCCEEDED"
| "COMPLETION_EVENTS command_status.FAILED = Some COMMAND_FAILED"
| "COMPLETION_EVENTS command_status.UNKNOWN = Some COMMAND_TIMED_OUT"
| "COMPLETION_EVENTS _ = None"

fun status_value :: "command_status \<Rightarrow> string" where
  "status_value command_status.PENDING = ''PENDING''"
| "status_value command_status.RUNNING = ''RUNNING''"
| "status_value command_status.SUCCEEDED = ''SUCCEEDED''"
| "status_value command_status.FAILED = ''FAILED''"
| "status_value command_status.TIMED_OUT = ''TIMED_OUT''"
| "status_value command_status.CANCELLED = ''CANCELLED''"
| "status_value command_status.SUPERSEDED = ''SUPERSEDED''"
| "status_value command_status.UNKNOWN = ''UNKNOWN''"

fun action_value :: "action \<Rightarrow> string" where
  "action_value SET_POWER = ''SET_POWER''"
| "action_value SET_BRIGHTNESS = ''SET_BRIGHTNESS''"
| "action_value SET_VOLUME = ''SET_VOLUME''"
| "action_value SET_PLAYBACK = ''SET_PLAYBACK''"
| "action_value SET_TARGET_TEMPERATURE = ''SET_TARGET_TEMPERATURE''"
| "action_value SET_HEATER = ''SET_HEATER''"
| "action_value SET_FILTER = ''SET_FILTER''"
| "action_value SET_BUBBLES = ''SET_BUBBLES''"
| "action_value SET_CONTROL_PANEL_LOCK = ''SET_CONTROL_PANEL_LOCK''"
| "action_value SET_LOCK_STATE = ''SET_LOCK_STATE''"
| "action_value action.UNLATCH = ''UNLATCH''"

subsection \<open>The parts of the pipeline\<close>

definition get_command :: "uuid \<Rightarrow> gateway \<Rightarrow> failure + command" where
  "get_command i g =
     (case od_get (gw_commands g) i of
        None \<Rightarrow> Inl (raise_kind CommandNotFoundError) | Some c \<Rightarrow> Inr c)"

definition validate_params ::
  "coercions \<Rightarrow> action \<Rightarrow> (string, json) odict \<Rightarrow> failure + command_params"
where
  "validate_params co a raw =
     (case od_get ACTION_SPECS a of
        None \<Rightarrow> Inl (raise_kind CapabilityNotSupportedError)
      | Some spec \<Rightarrow>
          (case model_validate co (as_params_model spec) raw of
             None \<Rightarrow> Inl (raise_kind InvalidParametersError) | Some p \<Rightarrow> Inr p))"

text \<open>\<open>None\<close> is the plain return; \<open>Some\<close> the exception.\<close>

fun check_constraints :: "device \<Rightarrow> command_params \<Rightarrow> failure option" where
  "check_constraints d (TargetTemperatureParams celsius) =
     (case (dc_target_temperature_min_c (dev_constraints d),
            dc_target_temperature_max_c (dev_constraints d)) of
        (Some minimum, Some maximum) \<Rightarrow>
          (if minimum \<le> celsius \<and> celsius \<le> maximum then None
           else Some (raise_detail ParameterOutOfRangeError (TemperatureRange minimum maximum)))
      | _ \<Rightarrow> Some (raise_detail ParameterOutOfRangeError
          (Authored
            ''The device has no verified temperature range, so setpoints are refused.'')))"
| "check_constraints d _ = None"

definition remember_command :: "command \<Rightarrow> gateway \<Rightarrow> gateway" where
  "remember_command c g =
     g\<lparr>gw_commands :=
         od_trim MAX_TRACKED_COMMANDS (od_move_to_end (cmd_id c) (od_set (cmd_id c) c (gw_commands g)))\<rparr>"

definition command_event :: "event_type \<Rightarrow> command \<Rightarrow> datetime \<Rightarrow> domain_event" where
  "command_event ty c t =
     \<lparr>ev_type = ty, ev_occurred_at = t, ev_device_id = Some (cmd_device_id c),
      ev_command_id = Some (cmd_id c), ev_correlation_id = Some (cmd_correlation_id c),
      ev_payload = [(''status'', JStr (status_value (cmd_status c))),
                    (''action'', JStr (action_value (cmd_action c)))]\<rparr>"

definition publish_command :: "event_type \<Rightarrow> command \<Rightarrow> gateway \<Rightarrow> gateway" where
  "publish_command ty c g = (let (t, g1) = clock_now g in emit (command_event ty c t) g1)"

definition audit_denied ::
  "principal \<Rightarrow> device \<Rightarrow> action \<Rightarrow> string \<Rightarrow> string \<Rightarrow> gateway \<Rightarrow> gateway"
where
  "audit_denied pr d a corr reason g =
     (let (t, g1) = clock_now g in
      log_entry ((blank_entry t ''command.denied'')
        \<lparr>ae_actor_user_id := Some (pr_user_id pr), ae_actor_client_id := Some (pr_client_id pr),
         ae_device_id := Some (dev_id d), ae_action := Some a, ae_outcome := Some reason,
         ae_correlation_id := Some corr\<rparr>) g1)"

text \<open>The lock object of a device: an old one is evicted to make room, whoever holds it.\<close>

definition device_lock :: "uuid \<Rightarrow> gateway \<Rightarrow> nat \<times> gateway" where
  "device_lock d g =
     (case od_get (gw_locks g) d of
        Some l \<Rightarrow> (l, g\<lparr>gw_locks := od_move_to_end d (gw_locks g)\<rparr>)
      | None \<Rightarrow>
          (let locks = od_evict MAX_DEVICE_LOCKS (gw_locks g); l = gw_next_lock g in
           (l, g\<lparr>gw_locks := od_move_to_end d (od_set d l locks), gw_next_lock := Suc l\<rparr>)))"

definition new_command ::
  "uuid \<Rightarrow> principal \<Rightarrow> device \<Rightarrow> action \<Rightarrow> command_params \<Rightarrow> risk_class \<Rightarrow> string \<Rightarrow> datetime \<Rightarrow> command"
where
  "new_command i pr d a params risk corr t =
     \<lparr>cmd_id = i, cmd_device_id = dev_id d, cmd_requested_by_user_id = pr_user_id pr,
      cmd_requested_by_client_id = pr_client_id pr, cmd_action = a,
      cmd_parameters = params_dump params, cmd_risk_class = risk, cmd_correlation_id = corr,
      cmd_created_at = t, cmd_expires_at = t + COMMAND_TTL, cmd_started_at = None,
      cmd_completed_at = None, cmd_status = command_status.PENDING, cmd_failure_code = None\<rparr>"

definition requested_entry :: "principal \<Rightarrow> command \<Rightarrow> datetime \<Rightarrow> audit_entry" where
  "requested_entry pr c t =
     (blank_entry t ''command.requested'')
       \<lparr>ae_actor_user_id := Some (pr_user_id pr), ae_actor_client_id := Some (pr_client_id pr),
        ae_device_id := Some (cmd_device_id c), ae_command_id := Some (cmd_id c),
        ae_action := Some (cmd_action c), ae_risk_class := Some (cmd_risk_class c),
        ae_correlation_id := Some (cmd_correlation_id c), ae_context := cmd_parameters c\<rparr>"

definition create_command ::
  "principal \<Rightarrow> device \<Rightarrow> action \<Rightarrow> command_params \<Rightarrow> risk_class \<Rightarrow> string \<Rightarrow> gateway
     \<Rightarrow> command \<times> gateway"
where
  "create_command pr d a params risk corr g =
     (let (t, g1) = clock_now g;
          (i, g2) = uuid4 g1;
          c = new_command i pr d a params risk corr t;
          g3 = log_entry (requested_entry pr c t) (remember_command c g2)
      in (c, publish_command COMMAND_REQUESTED c g3))"

definition completed_entry :: "command \<Rightarrow> datetime \<Rightarrow> audit_entry" where
  "completed_entry c t =
     (blank_entry t ''command.completed'')
       \<lparr>ae_actor_user_id := Some (cmd_requested_by_user_id c),
        ae_actor_client_id := Some (cmd_requested_by_client_id c),
        ae_device_id := Some (cmd_device_id c), ae_command_id := Some (cmd_id c),
        ae_action := Some (cmd_action c), ae_risk_class := Some (cmd_risk_class c),
        ae_outcome := Some (status_value (cmd_status c)),
        ae_correlation_id := Some (cmd_correlation_id c),
        ae_context :=
          (case cmd_failure_code c of
             None \<Rightarrow> []
           | Some f \<Rightarrow> if f = [] then [] else [(''failure_code'', JStr f)])\<rparr>"

definition finish_command ::
  "command \<Rightarrow> command_status \<Rightarrow> string option \<Rightarrow> gateway \<Rightarrow> command \<times> gateway"
where
  "finish_command c status failure g =
     (let (t, g1) = clock_now g;
          finished = with_status c status t failure;
          g2 = log_entry (completed_entry finished t) (remember_command finished g1)
      in (finished,
          case COMPLETION_EVENTS status of
            None \<Rightarrow> g2 | Some ty \<Rightarrow> publish_command ty finished g2))"

definition start_command :: "command \<Rightarrow> gateway \<Rightarrow> command \<times> gateway" where
  "start_command c g =
     (let (t, g1) = clock_now g; running = with_status c command_status.RUNNING t None in
      (running, publish_command COMMAND_STARTED running (remember_command running g1)))"

text \<open>The part of \<open>submit\<close> before anything is created: every refusal, in the order of the code.\<close>

definition admit ::
  "coercions \<Rightarrow> principal \<Rightarrow> uuid \<Rightarrow> action \<Rightarrow> (string, json) odict \<Rightarrow> string \<Rightarrow> gateway
     \<Rightarrow> (failure + device \<times> command_params \<times> risk_class) \<times> gateway"
where
  "admit co pr i a raw corr g =
     (case svc_get i g of
        Inl e \<Rightarrow> (Inl e, g)
      | Inr d \<Rightarrow>
     (case validate_params co a raw of
        Inl e \<Rightarrow> (Inl e, g)
      | Inr params \<Rightarrow>
     (case required_capability_for a params of
        None \<Rightarrow> (Inl (Crashed ''required_capability_for''), g)
      | Some capability \<Rightarrow>
      if \<not> supports d capability then
        (Inl (raise_kind CapabilityNotSupportedError),
         audit_denied pr d a corr ''capability_not_supported'' g)
      else
     (case check_constraints d params of
        Some e \<Rightarrow> (Inl e, g)
      | None \<Rightarrow>
     (case classify a params of
        None \<Rightarrow> (Inl (Crashed ''classify''), g)
      | Some risk \<Rightarrow>
      if risk = HIGH then
        (Inl (raise_kind ActionAuthorizationRequiredError),
         audit_denied pr d a corr ''action_authorization_required'' g)
      else if dev_availability d = availability.OFFLINE then
        (Inl (raise_kind DeviceUnavailableError),
         audit_denied pr d a corr ''device_unavailable'' g)
      else (Inr (d, params, risk), g))))))"

text \<open>What the result of \<open>provider.execute\<close> settles the command to.\<close>

fun outcome_status :: "command_outcome \<Rightarrow> command_status" where
  "outcome_status APPLIED = command_status.SUCCEEDED"
| "outcome_status REJECTED = command_status.FAILED"
| "outcome_status command_outcome.UNKNOWN = command_status.UNKNOWN"

definition outcome_failure :: "provider_command_result \<Rightarrow> string option" where
  "outcome_failure res =
     (case pcr_outcome res of
        APPLIED \<Rightarrow> None
      | REJECTED \<Rightarrow>
          (if truthy_str (pcr_failure_code res) then pcr_failure_code res else Some ''rejected'')
      | command_outcome.UNKNOWN \<Rightarrow> pcr_failure_code res)"

definition conclude ::
  "command \<Rightarrow> provider_device_ref \<Rightarrow> provider_command_result \<Rightarrow> gateway \<Rightarrow> (failure + command) \<times> gateway"
where
  "conclude c ref res g =
     (case (case pcr_state res of
              None \<Rightarrow> (Inr None, g)
            | Some st \<Rightarrow> ingest ref st COMMAND_RESULT (Some (cmd_correlation_id c)) g) of
        (Inl e, g1) \<Rightarrow> (Inl e, g1)
      | (Inr _, g1) \<Rightarrow>
          (let (c', g2) =
             finish_command c (outcome_status (pcr_outcome res)) (outcome_failure res) g1
           in (Inr c', g2)))"

text \<open>\<open>_reconcile\<close>, before and after the read-back.\<close>

definition readback ::
  "command \<Rightarrow> provider_device_ref \<Rightarrow> command_params \<Rightarrow> adapter_exn + provider_state \<Rightarrow> gateway
     \<Rightarrow> (failure + command) \<times> gateway"
where
  "readback c ref params res g =
     (case res of
        Inl e \<Rightarrow>
          (let (c', g1) =
             finish_command c command_status.UNKNOWN (Some ''reconciliation_failed'') g
           in (Inr c', g1))
      | Inr observed \<Rightarrow>
          (case ingest ref observed PROVIDER_SNAPSHOT (Some (cmd_correlation_id c)) g of
             (Inl e, g1) \<Rightarrow> (Inl e, g1)
           | (Inr _, g1) \<Rightarrow>
               (let (c', g2) =
                  (if desired_matches (cmd_action c) params (ps_state observed) = Some True
                   then finish_command c command_status.SUCCEEDED None g1
                   else finish_command c command_status.UNKNOWN
                     (Some ''device_response_timeout'') g1)
                in (Inr c', g2))))"

definition reconcile ::
  "command \<Rightarrow> 'w device_provider \<Rightarrow> provider_device_ref \<Rightarrow> command_params \<Rightarrow> gateway \<times> 'w
     \<Rightarrow> (failure + command) \<times> gateway \<times> 'w"
where
  "reconcile c p ref params gw =
     (let g1 = publish_command COMMAND_TIMED_OUT c (fst gw);
          (res, w1) = dp_get_state p ref (snd gw);
          (r, g2) = readback c ref params res g1
      in (r, g2, w1))"

definition failed_code :: "adapter_exn \<Rightarrow> string" where
  "failed_code e = (case e of Provider pe \<Rightarrow> failure_code pe | _ \<Rightarrow> ''internal_error'')"

definition execute_command ::
  "(string \<Rightarrow> 'w device_provider option) \<Rightarrow> command \<Rightarrow> device \<Rightarrow> command_params \<Rightarrow> gateway \<times> 'w
     \<Rightarrow> (failure + command) \<times> gateway \<times> 'w"
where
  "execute_command provs c d params gw =
     (let (g, w) = gw in
      case ref_for (dev_id d) (gw_registry g) of
        Inl e \<Rightarrow> (Inl e, g, w)
      | Inr ref \<Rightarrow>
     (case provs (ref_provider ref) of
        None \<Rightarrow>
          (let (c', g1) = finish_command c command_status.FAILED (Some ''provider_unavailable'') g
           in (Inr c', g1, w))
      | Some p \<Rightarrow>
          (let (running, g1) = start_command c g;
               (lock, g2) = device_lock (dev_id d) g1
           in case dp_execute p ref \<lparr>pc_action = cmd_action c, pc_params = params\<rparr> w of
                (Inl TimeoutError, w1) \<Rightarrow> reconcile running p ref params (g2, w1)
              | (Inl e, w1) \<Rightarrow>
                  (let (c', g3) =
                     finish_command running command_status.FAILED (Some (failed_code e)) g2
                   in (Inr c', g3, w1))
              | (Inr res, w1) \<Rightarrow>
                  (let (r, g3) = conclude running ref res g2 in (r, g3, w1)))))"

definition submit ::
  "coercions \<Rightarrow> (string \<Rightarrow> 'w device_provider option) \<Rightarrow> principal \<Rightarrow> uuid \<Rightarrow> action
     \<Rightarrow> (string, json) odict \<Rightarrow> string \<Rightarrow> gateway \<times> 'w \<Rightarrow> (failure + command) \<times> gateway \<times> 'w"
where
  "submit co provs pr i a raw corr gw =
     (case admit co pr i a raw corr (fst gw) of
        (Inl e, g1) \<Rightarrow> (Inl e, g1, snd gw)
      | (Inr (d, params, risk), g1) \<Rightarrow>
          (let (c, g2) = create_command pr d a params risk corr g1
           in execute_command provs c d params (g2, snd gw)))"

subsection \<open>What each part does\<close>

text \<open>The clock reading and the identifier a part starts from.\<close>

abbreviation (input) now_of :: "gateway \<Rightarrow> datetime" where
  "now_of g \<equiv> gw_clock g (gw_ticks g)"

lemma remember_command_frame [simp, frame_simps]:
  "gw_clock (remember_command c g) = gw_clock g"
  "gw_ticks (remember_command c g) = gw_ticks g"
  "gw_uuids (remember_command c g) = gw_uuids g"
  "gw_issued (remember_command c g) = gw_issued g"
  "gw_bus (remember_command c g) = gw_bus g"
  "gw_audit (remember_command c g) = gw_audit g"
  "gw_registry (remember_command c g) = gw_registry g"
  "gw_commands (remember_command c g) = od_trim MAX_TRACKED_COMMANDS (od_move_to_end (cmd_id c) (od_set (cmd_id c) c (gw_commands g)))"
  "gw_locks (remember_command c g) = gw_locks g"
  "gw_next_lock (remember_command c g) = gw_next_lock g"
  "gw_schedules (remember_command c g) = gw_schedules g"
  by (simp_all add: remember_command_def)

lemma publish_command_frame [simp, frame_simps]:
  "gw_clock (publish_command ty c g) = gw_clock g"
  "gw_ticks (publish_command ty c g) = Suc (gw_ticks g)"
  "gw_uuids (publish_command ty c g) = gw_uuids g"
  "gw_issued (publish_command ty c g) = gw_issued g"
  "gw_bus (publish_command ty c g) = bus_publish (command_event ty c (now_of g)) (gw_bus g)"
  "gw_audit (publish_command ty c g) = gw_audit g"
  "gw_registry (publish_command ty c g) = gw_registry g"
  "gw_commands (publish_command ty c g) = gw_commands g"
  "gw_locks (publish_command ty c g) = gw_locks g"
  "gw_next_lock (publish_command ty c g) = gw_next_lock g"
  "gw_schedules (publish_command ty c g) = gw_schedules g"
  by (simp_all add: publish_command_def split_beta)

lemma audit_denied_frame [simp, frame_simps]:
  "gw_clock (audit_denied pr d a corr reason g) = gw_clock g"
  "gw_ticks (audit_denied pr d a corr reason g) = Suc (gw_ticks g)"
  "gw_uuids (audit_denied pr d a corr reason g) = gw_uuids g"
  "gw_issued (audit_denied pr d a corr reason g) = Suc (gw_issued g)"
  "gw_bus (audit_denied pr d a corr reason g) = gw_bus g"
  "gw_registry (audit_denied pr d a corr reason g) = gw_registry g"
  "gw_commands (audit_denied pr d a corr reason g) = gw_commands g"
  "gw_locks (audit_denied pr d a corr reason g) = gw_locks g"
  "gw_next_lock (audit_denied pr d a corr reason g) = gw_next_lock g"
  "gw_schedules (audit_denied pr d a corr reason g) = gw_schedules g"
  by (simp_all add: audit_denied_def split_beta)

lemma device_lock_frame [simp, frame_simps]:
  "gw_clock (snd (device_lock d g)) = gw_clock g"
  "gw_ticks (snd (device_lock d g)) = gw_ticks g"
  "gw_uuids (snd (device_lock d g)) = gw_uuids g"
  "gw_issued (snd (device_lock d g)) = gw_issued g"
  "gw_bus (snd (device_lock d g)) = gw_bus g"
  "gw_audit (snd (device_lock d g)) = gw_audit g"
  "gw_registry (snd (device_lock d g)) = gw_registry g"
  "gw_commands (snd (device_lock d g)) = gw_commands g"
  "gw_schedules (snd (device_lock d g)) = gw_schedules g"
  by (simp_all add: device_lock_def Let_def split: option.splits)

lemma start_command_frame [simp, frame_simps]:
  "gw_clock (snd (start_command c g)) = gw_clock g"
  "gw_ticks (snd (start_command c g)) = Suc (Suc (gw_ticks g))"
  "gw_uuids (snd (start_command c g)) = gw_uuids g"
  "gw_issued (snd (start_command c g)) = gw_issued g"
  "gw_audit (snd (start_command c g)) = gw_audit g"
  "gw_registry (snd (start_command c g)) = gw_registry g"
  "gw_locks (snd (start_command c g)) = gw_locks g"
  "gw_next_lock (snd (start_command c g)) = gw_next_lock g"
  "gw_schedules (snd (start_command c g)) = gw_schedules g"
  by (simp_all add: start_command_def Let_def split_beta)

lemma create_command_frame [simp, frame_simps]:
  "gw_clock (snd (create_command pr d a params risk corr g)) = gw_clock g"
  "gw_ticks (snd (create_command pr d a params risk corr g)) = Suc (Suc (gw_ticks g))"
  "gw_uuids (snd (create_command pr d a params risk corr g)) = gw_uuids g"
  "gw_issued (snd (create_command pr d a params risk corr g)) = Suc (Suc (gw_issued g))"
  "gw_registry (snd (create_command pr d a params risk corr g)) = gw_registry g"
  "gw_locks (snd (create_command pr d a params risk corr g)) = gw_locks g"
  "gw_next_lock (snd (create_command pr d a params risk corr g)) = gw_next_lock g"
  "gw_schedules (snd (create_command pr d a params risk corr g)) = gw_schedules g"
  by (simp_all add: create_command_def Let_def split_beta)

lemma finish_command_frame [simp, frame_simps]:
  "gw_clock (snd (finish_command c st f g)) = gw_clock g"
  "gw_uuids (snd (finish_command c st f g)) = gw_uuids g"
  "gw_issued (snd (finish_command c st f g)) = Suc (gw_issued g)"
  "gw_registry (snd (finish_command c st f g)) = gw_registry g"
  "gw_locks (snd (finish_command c st f g)) = gw_locks g"
  "gw_next_lock (snd (finish_command c st f g)) = gw_next_lock g"
  "gw_schedules (snd (finish_command c st f g)) = gw_schedules g"
  by (simp_all add: finish_command_def Let_def split_beta split: option.splits)

text \<open>The command each part returns, and what it leaves in the store and the log.\<close>

lemma create_command_fst:
  "fst (create_command pr d a params risk corr g) =
     new_command (gw_uuids g (gw_issued g)) pr d a params risk corr (now_of g)"
  by (simp add: create_command_def Let_def split_beta)

lemma start_command_fst [simp]:
  "fst (start_command c g) = with_status c command_status.RUNNING (now_of g) None"
  by (simp add: start_command_def Let_def split_beta)

lemma finish_command_fst [simp]: "fst (finish_command c st f g) = with_status c st (now_of g) f"
  by (simp add: finish_command_def Let_def split_beta)

definition store_command :: "command \<Rightarrow> (uuid, command) odict \<Rightarrow> (uuid, command) odict" where
  "store_command c d = od_trim MAX_TRACKED_COMMANDS (od_move_to_end (cmd_id c) (od_set (cmd_id c) c d))"

lemma command_store_steps:
  "gw_commands (snd (create_command pr d a params risk corr g)) =
     store_command (fst (create_command pr d a params risk corr g)) (gw_commands g)"
  "gw_commands (snd (start_command c g)) = store_command (fst (start_command c g)) (gw_commands g)"
  "gw_commands (snd (finish_command c st f g)) =
     store_command (fst (finish_command c st f g)) (gw_commands g)"
  by (simp_all add: store_command_def create_command_def start_command_def finish_command_def
      Let_def split_beta split: option.splits)

lemma command_audit_steps:
  "gw_audit (snd (create_command pr d a params risk corr g)) =
     audit_record
       ((requested_entry pr (fst (create_command pr d a params risk corr g)) (now_of g))
         \<lparr>ae_id := gw_uuids g (Suc (gw_issued g))\<rparr>) (gw_audit g)"
  "gw_audit (snd (finish_command c st f g)) =
     audit_record
       ((completed_entry (fst (finish_command c st f g)) (now_of g))
         \<lparr>ae_id := gw_uuids g (gw_issued g)\<rparr>) (gw_audit g)"
  by (simp_all add: create_command_def finish_command_def Let_def split_beta split: option.splits)

subsection \<open>The store of commands\<close>

definition command_store_inv :: "(uuid, command) odict \<Rightarrow> bool" where
  "command_store_inv d \<longleftrightarrow>
     od_wf d \<and> length d \<le> MAX_TRACKED_COMMANDS \<and> (\<forall>i c. od_get d i = Some c \<longrightarrow> cmd_id c = i)"

text \<open>The store keeps the contract of a bounded store, with the identifier as the key.\<close>

interpretation tracked: bounded_store od_get
  "\<lambda>k c d. od_trim MAX_TRACKED_COMMANDS (od_move_to_end k (od_set k c d))"
  length od_wf MAX_TRACKED_COMMANDS
  using recent_store.bounded_store_axioms[of 499] by (simp add: MAX_TRACKED_COMMANDS_def)

lemma store_command_get: "od_wf d \<Longrightarrow> od_get (store_command c d) (cmd_id c) = Some c"
  unfolding store_command_def by (rule tracked.fetch_put_same)

lemma store_command_other:
  "od_wf d \<Longrightarrow> i \<noteq> cmd_id c \<Longrightarrow> od_get (store_command c d) i = Some c' \<Longrightarrow> od_get d i = Some c'"
  unfolding store_command_def by (rule tracked.fetch_put_other)

lemma store_command_wf: "od_wf d \<Longrightarrow> od_wf (store_command c d)"
  unfolding store_command_def by (rule tracked.inv_put)

lemma store_command_size:
  "od_wf d \<Longrightarrow> length d \<le> MAX_TRACKED_COMMANDS \<Longrightarrow> length (store_command c d) \<le> MAX_TRACKED_COMMANDS"
  unfolding store_command_def by (rule tracked.size_put)

lemma store_command_inv:
  assumes "command_store_inv d"
  shows "command_store_inv (store_command c d)"
proof -
  have wf: "od_wf d" using assms by (simp add: command_store_inv_def)
  have "cmd_id c' = i" if "od_get (store_command c d) i = Some c'" for i c'
  proof (cases "i = cmd_id c")
    case True
    with that store_command_get[OF wf, of c] show ?thesis by simp
  next
    case False
    with that wf have "od_get d i = Some c'" by (blast dest: store_command_other)
    with assms show ?thesis by (simp add: command_store_inv_def)
  qed
  then show ?thesis
    using assms by (simp add: command_store_inv_def store_command_wf store_command_size)
qed

subsection \<open>Admission\<close>

lemma validate_params_Inr:
  "validate_params co a raw = Inr params \<longleftrightarrow>
     (\<exists>spec. od_get ACTION_SPECS a = Some spec \<and> model_validate co (as_params_model spec) raw = Some params)"
  by (auto simp: validate_params_def split: option.splits)

lemma validate_params_fit: "validate_params co a raw = Inr params \<Longrightarrow> params_fit a params"
  by (auto simp: validate_params_Inr intro: model_validate_fit)

lemma validate_params_Inl:
  "validate_params co a raw = Inl e \<Longrightarrow> e = raise_kind InvalidParametersError"
  using ACTION_SPECS_total[of a] by (auto simp: validate_params_def split: option.splits)

lemma check_constraints_kind:
  "check_constraints d params = Some e \<Longrightarrow> failure_kind e = Some ParameterOutOfRangeError"
  by (cases params) (auto split: option.splits if_splits)

lemma check_constraints_None:
  "check_constraints d (TargetTemperatureParams t) = None \<longleftrightarrow>
     (\<exists>lo hi. dc_target_temperature_min_c (dev_constraints d) = Some lo \<and>
              dc_target_temperature_max_c (dev_constraints d) = Some hi \<and> lo \<le> t \<and> t \<le> hi)"
  by (auto split: option.splits)

text \<open>What a command is let through on, all of it and nothing else.\<close>

definition admissible ::
  "coercions \<Rightarrow> uuid \<Rightarrow> action \<Rightarrow> (string, json) odict \<Rightarrow> gateway \<Rightarrow> device \<Rightarrow> command_params \<Rightarrow> bool"
where
  "admissible co i a raw g d params \<longleftrightarrow>
     svc_get i g = Inr d \<and> validate_params co a raw = Inr params \<and>
     (\<exists>c. required_capability_for a params = Some c \<and> supports d c) \<and>
     check_constraints d params = None \<and> classify a params \<noteq> Some HIGH \<and> is_reachable d"

lemma admit_Inr_iff:
  "admit co pr i a raw corr g = (Inr (d, params, risk), g') \<longleftrightarrow>
     g' = g \<and> admissible co i a raw g d params \<and> classify a params = Some risk"
  by (auto simp: admit_def admissible_def is_reachable_def split: sum.splits option.splits)

lemma admit_Inl:
  assumes "admit co pr i a raw corr g = (Inl e, g')"
  shows "failure_kind e \<in> Some ` {DeviceNotFoundError, InvalidParametersError,
      CapabilityNotSupportedError, ParameterOutOfRangeError, ActionAuthorizationRequiredError,
      DeviceUnavailableError}"
proof (cases "svc_get i g")
  case (Inl e')
  with assms show ?thesis
    by (auto simp: admit_def svc_get_def reg_require_def split: option.splits)
next
  case (Inr d)
  show ?thesis
  proof (cases "validate_params co a raw")
    case (Inl e')
    with assms \<open>svc_get i g = Inr d\<close> show ?thesis
      by (auto simp: admit_def dest!: validate_params_Inl)
  next
    case (Inr params)
    then have fit: "params_fit a params" by (rule validate_params_fit)
    obtain c where "required_capability_for a params = Some c"
      using required_capability_fit[OF fit] by blast
    moreover obtain r where "classify a params = Some r" using classify_fit[OF fit] by blast
    ultimately show ?thesis
      using assms \<open>svc_get i g = Inr d\<close> Inr
      by (auto simp: admit_def dest: check_constraints_kind split: option.splits if_splits)
  qed
qed

text \<open>A refusal changes nothing but the audit log, by at most one entry.\<close>

lemma admit_snd:
  "snd (admit co pr i a raw corr g) = g \<or>
   (\<exists>d reason. svc_get i g = Inr d \<and>
      snd (admit co pr i a raw corr g) = audit_denied pr d a corr reason g)"
proof (cases "svc_get i g")
  case (Inl e)
  then show ?thesis by (simp add: admit_def)
next
  case (Inr d)
  show ?thesis
  proof (cases "validate_params co a raw")
    case (Inl e)
    with Inr show ?thesis by (simp add: admit_def)
  next
    case (Inr p)
    with \<open>svc_get i g = Inr d\<close> show ?thesis
      by (simp add: admit_def split: option.split) blast
  qed
qed

lemma admit_frame [frame_simps]:
  fixes co pr i a raw corr g
  defines "g' \<equiv> snd (admit co pr i a raw corr g)"
  shows "gw_registry g' = gw_registry g" "gw_commands g' = gw_commands g" "gw_bus g' = gw_bus g"
    and "gw_locks g' = gw_locks g" "gw_next_lock g' = gw_next_lock g"
    and "gw_schedules g' = gw_schedules g" "gw_clock g' = gw_clock g" "gw_uuids g' = gw_uuids g"
  using admit_snd[of co pr i a raw corr g] by (elim disjE exE; simp add: g'_def)+

subsection \<open>Execution\<close>

text \<open>
  What a write comes to: the status and the failure code, and the world afterwards. This is
  the pipeline's contract with a provider, without the gateway's own bookkeeping.
\<close>

definition verdict ::
  "'w device_provider \<Rightarrow> provider_device_ref \<Rightarrow> action \<Rightarrow> command_params \<Rightarrow> 'w
     \<Rightarrow> (command_status \<times> string option) \<times> 'w"
where
  "verdict p ref a params w =
     (case dp_execute p ref \<lparr>pc_action = a, pc_params = params\<rparr> w of
        (Inr res, w1) \<Rightarrow> ((outcome_status (pcr_outcome res), outcome_failure res), w1)
      | (Inl TimeoutError, w1) \<Rightarrow>
          (case dp_get_state p ref w1 of
             (Inr observed, w2) \<Rightarrow>
               (if desired_matches a params (ps_state observed) = Some True
                then (command_status.SUCCEEDED, None)
                else (command_status.UNKNOWN, Some ''device_response_timeout''), w2)
           | (Inl _, w2) \<Rightarrow> ((command_status.UNKNOWN, Some ''reconciliation_failed''), w2))
      | (Inl e, w1) \<Rightarrow> ((command_status.FAILED, Some (failed_code e)), w1))"

text \<open>\<open>quiet g g'\<close>: nothing happened but observations, events and the passing of time.\<close>

definition quiet :: "gateway \<Rightarrow> gateway \<Rightarrow> bool" where
  "quiet g g' \<longleftrightarrow>
     gw_commands g' = gw_commands g \<and> gw_locks g' = gw_locks g \<and>
     gw_next_lock g' = gw_next_lock g \<and> gw_schedules g' = gw_schedules g \<and>
     gw_audit g' = gw_audit g \<and> gw_uuids g' = gw_uuids g \<and> gw_issued g' = gw_issued g \<and>
     gw_clock g' = gw_clock g \<and> reg_refs (gw_registry g') = reg_refs (gw_registry g) \<and>
     reg_id_by_ref (gw_registry g') = reg_id_by_ref (gw_registry g)"

lemma quiet_refl [simp]: "quiet g g"
  by (simp add: quiet_def)

lemma quiet_trans: "quiet g g1 \<Longrightarrow> quiet g1 g2 \<Longrightarrow> quiet g g2"
  by (simp add: quiet_def)

lemma quiet_ingest: "registry_inv (gw_registry g) \<Longrightarrow> quiet g (snd (ingest ref st src corr g))"
  by (simp add: quiet_def ingest_frame)

lemma quiet_publish_command: "quiet g (publish_command ty c g)"
  by (simp add: quiet_def)

text \<open>Both ends of an execution settle the command, after nothing but an observation.\<close>

definition settles ::
  "command \<Rightarrow> command_status \<times> string option \<Rightarrow> gateway \<Rightarrow> (failure + command) \<times> gateway \<Rightarrow> bool"
where
  "settles c v g out \<longleftrightarrow>
     (\<exists>g1. quiet g g1 \<and>
        out = (let (c', g2) = finish_command c (fst v) (snd v) g1 in (Inr c', g2)))"

lemma conclude_settles:
  assumes "registry_inv (gw_registry g)"
  shows "settles c (outcome_status (pcr_outcome res), outcome_failure res) g (conclude c ref res g)"
proof (cases "pcr_state res")
  case None
  then show ?thesis
    unfolding settles_def by (intro exI[of _ g]) (simp add: conclude_def)
next
  case (Some st)
  obtain r g1 where ing: "ingest ref st COMMAND_RESULT (Some (cmd_correlation_id c)) g = (Inr r, g1)"
    using ingest_total[OF assms] by (metis prod.collapse)
  then have "quiet g g1" using quiet_ingest[OF assms] by (metis snd_conv)
  with Some ing show ?thesis
    unfolding settles_def by (intro exI[of _ g1]) (simp add: conclude_def)
qed

lemma readback_settles:
  assumes "registry_inv (gw_registry g)"
  shows "settles c
     (case res of
        Inl _ \<Rightarrow> (command_status.UNKNOWN, Some ''reconciliation_failed'')
      | Inr observed \<Rightarrow>
          if desired_matches (cmd_action c) params (ps_state observed) = Some True
          then (command_status.SUCCEEDED, None)
          else (command_status.UNKNOWN, Some ''device_response_timeout''))
     g (readback c ref params res g)"
proof (cases res)
  case (Inl e)
  then show ?thesis
    unfolding settles_def by (intro exI[of _ g]) (simp add: readback_def)
next
  case (Inr st)
  obtain r g1 where ing: "ingest ref st PROVIDER_SNAPSHOT (Some (cmd_correlation_id c)) g = (Inr r, g1)"
    using ingest_total[OF assms] by (metis prod.collapse)
  then have "quiet g g1" using quiet_ingest[OF assms] by (metis snd_conv)
  with Inr ing show ?thesis
    unfolding settles_def by (intro exI[of _ g1]) (simp add: readback_def)
qed

lemma settles_quiet: "quiet g g1 \<Longrightarrow> settles c v g1 out \<Longrightarrow> settles c v g out"
  unfolding settles_def by (blast intro: quiet_trans)

text \<open>A write that ran into the deadline is judged by one read.\<close>

lemma reconcile_settles:
  assumes inv: "registry_inv (gw_registry g)"
    and ex: "dp_execute p ref \<lparr>pc_action = cmd_action c, pc_params = params\<rparr> w = (Inl TimeoutError, w1)"
  defines "v \<equiv> verdict p ref (cmd_action c) params w"
  shows "\<exists>out g'. reconcile c p ref params (g, w1) = (out, g', snd v) \<and> settles c (fst v) g (out, g')"
proof -
  let ?g2 = "publish_command COMMAND_TIMED_OUT c g"
  obtain obs w2 where get: "dp_get_state p ref w1 = (obs, w2)" by fastforce
  have "settles c (fst v) ?g2 (readback c ref params obs ?g2)"
    using readback_settles[of ?g2 c params obs ref] inv ex get
    by (cases obs) (simp_all add: v_def verdict_def)
  then have "settles c (fst v) g (readback c ref params obs ?g2)"
    by (rule settles_quiet[OF quiet_publish_command])
  moreover have "snd v = w2" using ex get by (cases obs) (simp_all add: v_def verdict_def)
  ultimately show ?thesis using get by (simp add: reconcile_def split_beta Let_def)
qed

text \<open>An admitted command runs to a verdict: one write, at most one read, no second write.\<close>

lemma execute_command_run:
  fixes c params w
  assumes inv: "registry_inv (gw_registry g)"
    and ref: "ref_for (dev_id d) (gw_registry g) = Inr ref"
    and prov: "provs (ref_provider ref) = Some p"
  defines "g1 \<equiv> snd (device_lock (dev_id d) (snd (start_command c g)))"
    and "v \<equiv> verdict p ref (cmd_action c) params w"
  shows "\<exists>out g'. execute_command provs c d params (g, w) = (out, g', snd v) \<and>
    settles (fst (start_command c g)) (fst v) g1 (out, g')"
proof -
  let ?r = "fst (start_command c g)"
  obtain res w1 where ex: "dp_execute p ref \<lparr>pc_action = cmd_action c, pc_params = params\<rparr> w = (res, w1)"
    by fastforce
  have reg1: "registry_inv (gw_registry g1)" using inv by (simp add: g1_def)
  have unfold: "execute_command provs c d params (g, w) =
      (case res of
         Inl TimeoutError \<Rightarrow> reconcile ?r p ref params (g1, w1)
       | Inl e \<Rightarrow>
           (let (c', g3) = finish_command ?r command_status.FAILED (Some (failed_code e)) g1 in (Inr c', g3, w1))
       | Inr res \<Rightarrow> (let (r, g3) = conclude ?r ref res g1 in (r, g3, w1)))"
    by (simp add: execute_command_def ref prov ex g1_def split_beta split: sum.splits adapter_exn.splits)
  show ?thesis
  proof (cases res)
    case (Inr pr)
    have "settles ?r (fst v) g1 (conclude ?r ref pr g1)" and "snd v = w1"
      using conclude_settles[OF reg1] ex Inr by (simp_all add: v_def verdict_def)
    with unfold Inr show ?thesis
      by (cases "conclude ?r ref pr g1") (simp add: split_beta)
  next
    case (Inl e)
    show ?thesis
    proof (cases "e = TimeoutError")
      case True
      have "cmd_action ?r = cmd_action c" by simp
      with reconcile_settles[OF reg1, of p ref ?r params w w1] ex Inl True show ?thesis
        by (simp add: unfold v_def)
    next
      case False
      then have v: "v = ((command_status.FAILED, Some (failed_code e)), w1)"
        using ex Inl by (cases e) (simp_all add: v_def verdict_def)
      then have "settles ?r (fst v) g1
          (let (c', g2) = finish_command ?r (fst (fst v)) (snd (fst v)) g1 in (Inr c', g2))"
        unfolding settles_def by (intro exI[of _ g1]) simp
      with unfold Inl False v show ?thesis by (cases e) (simp_all add: split_beta Let_def)
    qed
  qed
qed

text \<open>The whole handler. A refusal leaves the world alone; an admitted command runs to a verdict.\<close>

lemma submit_refused:
  assumes "fst (admit co pr i a raw corr g) = Inl e"
  shows "submit co provs pr i a raw corr (g, w) = (Inl e, snd (admit co pr i a raw corr g), w)"
  using assms by (cases "admit co pr i a raw corr g") (simp add: submit_def)

lemma admit_cases:
  obtains (refused) e where "fst (admit co pr i a raw corr g) = Inl e"
  | (admitted) d params risk where "admit co pr i a raw corr g = (Inr (d, params, risk), g)"
      "admissible co i a raw g d params" "classify a params = Some risk"
proof (cases "admit co pr i a raw corr g")
  case (Pair r g')
  show thesis
  proof (cases r)
    case (Inl e)
    with Pair refused show thesis by simp
  next
    case (Inr x)
    obtain d params risk where x: "x = (d, params, risk)" by (cases x)
    with Pair Inr have "admit co pr i a raw corr g = (Inr (d, params, risk), g')" by simp
    with admitted show thesis using admit_Inr_iff by metis
  qed
qed

lemma admissible_device:
  "admissible co i a raw g d params \<Longrightarrow> od_get (reg_devices (gw_registry g)) i = Some d"
  by (simp add: admissible_def svc_get_Inr)

text \<open>The bookkeeping of one admitted command, from creation to settlement.\<close>

definition created :: "principal \<Rightarrow> device \<Rightarrow> action \<Rightarrow> command_params \<Rightarrow> risk_class \<Rightarrow> string \<Rightarrow> gateway \<Rightarrow> command" where
  "created pr d a params risk corr g =
     new_command (gw_uuids g (gw_issued g)) pr d a params risk corr (now_of g)"

lemma submit_admitted:
  assumes inv: "registry_inv (gw_registry g)"
    and adm: "admit co pr i a raw corr g = (Inr (d, params, risk), g)"
    and ref: "ref_for i (gw_registry g) = Inr ref"
    and prov: "provs (ref_provider ref) = Some p"
  shows "\<exists>c t0 t g1 g'.
     submit co provs pr i a raw corr (g, w) = (Inr c, g', snd (verdict p ref a params w)) \<and>
     c = with_status (with_status (created pr d a params risk corr g) command_status.RUNNING t0 None)
           (fst (fst (verdict p ref a params w))) t (snd (fst (verdict p ref a params w))) \<and>
     quiet (snd (device_lock i (snd (start_command (created pr d a params risk corr g)
              (snd (create_command pr d a params risk corr g)))))) g1 \<and>
     t = now_of g1 \<and>
     g' = snd (finish_command
            (with_status (created pr d a params risk corr g) command_status.RUNNING t0 None)
            (fst (fst (verdict p ref a params w))) (snd (fst (verdict p ref a params w))) g1)"
proof -
  let ?c = "created pr d a params risk corr g"
  let ?g = "snd (create_command pr d a params risk corr g)"
  have c: "create_command pr d a params risk corr g = (?c, ?g)"
    by (metis create_command_fst created_def prod.collapse)
  have act: "cmd_action ?c = a" by (simp add: created_def new_command_def)
  have "od_get (reg_devices (gw_registry g)) i = Some d"
    using adm by (auto simp: admit_Inr_iff admissible_device)
  then have i: "dev_id d = i" by (rule registry_invD(2)[OF inv])
  have "registry_inv (gw_registry ?g)" "ref_for (dev_id d) (gw_registry ?g) = Inr ref"
    using inv ref i by simp_all
  from execute_command_run[where g = ?g and d = d and ref = ref and provs = provs and p = p
      and c = ?c and params = params and w = w, OF this prov]
  obtain out g' where ex: "execute_command provs ?c d params (?g, w) = (out, g', snd (verdict p ref a params w))"
    and st: "settles (fst (start_command ?c ?g)) (fst (verdict p ref a params w))
      (snd (device_lock (dev_id d) (snd (start_command ?c ?g)))) (out, g')"
    by (auto simp only: act)
  from st obtain g1 where q: "quiet (snd (device_lock i (snd (start_command ?c ?g)))) g1"
    and fin: "(out, g') = (let (c', g2) = finish_command (fst (start_command ?c ?g))
      (fst (fst (verdict p ref a params w))) (snd (fst (verdict p ref a params w))) g1 in (Inr c', g2))"
    unfolding settles_def i by blast
  have "submit co provs pr i a raw corr (g, w) = (out, g', snd (verdict p ref a params w))"
    using adm ex by (simp add: submit_def split_beta create_command_fst flip: created_def)
  with q fin show ?thesis
    by (intro exI[of _ "now_of ?g"] exI[of _ "now_of g1"] exI[of _ g1] exI[of _ g'] exI)
      (auto simp: split_beta)
qed

subsection \<open>What a submission never touches\<close>

text \<open>\<open>untouched g g'\<close>: the timers and the streams are as before; identifiers are only consumed.\<close>

definition untouched :: "gateway \<Rightarrow> gateway \<Rightarrow> bool" where
  "untouched g g' \<longleftrightarrow>
     gw_schedules g' = gw_schedules g \<and> gw_uuids g' = gw_uuids g \<and> gw_clock g' = gw_clock g \<and>
     gw_issued g \<le> gw_issued g'"

lemma untouched_refl [simp]: "untouched g g"
  by (simp add: untouched_def)

lemma untouched_trans: "untouched g g1 \<Longrightarrow> untouched g1 g2 \<Longrightarrow> untouched g g2"
  by (auto simp: untouched_def)

lemma untouched_steps [simp]:
  "untouched g (snd (finish_command c st f g))" "untouched g (snd (start_command c g))"
  "untouched g (snd (device_lock d g))" "untouched g (snd (create_command pr dev a params risk corr g))"
  "untouched g (publish_command ty c g)" "untouched g (snd (ingest ref ps src ci g))"
  "untouched g (audit_denied pr dev a corr reason g)"
  by (simp_all add: untouched_def)

lemma untouched_finish: "untouched g g1 \<Longrightarrow> untouched g (snd (finish_command c st f g1))"
  by (erule untouched_trans) simp

lemma untouched_conclude [simp]: "untouched g (snd (conclude c ref res g))"
proof -
  let ?x = "case pcr_state res of None \<Rightarrow> (Inr None, g)
    | Some st \<Rightarrow> ingest ref st COMMAND_RESULT (Some (cmd_correlation_id c)) g"
  have "untouched g (snd ?x)" by (simp split: option.split)
  then show ?thesis
    by (simp add: conclude_def split_beta untouched_finish split: prod.split sum.split)
qed

lemma untouched_readback [simp]: "untouched g (snd (readback c ref params res g))"
proof (cases res)
  case (Inr st)
  have "untouched g (snd (ingest ref st PROVIDER_SNAPSHOT (Some (cmd_correlation_id c)) g))" by simp
  with Inr show ?thesis
    by (simp add: readback_def split_beta untouched_finish split: prod.split sum.split)
qed (simp add: readback_def split_beta)

lemma untouched_execute: "untouched g (fst (snd (execute_command provs c d params (g, w))))"
proof -
  let ?g = "snd (device_lock (dev_id d) (snd (start_command c g)))"
  have g: "untouched g ?g" by (rule untouched_trans[of _ "snd (start_command c g)"]) simp_all
  note via = untouched_trans[OF g]
  have fin: "untouched g (snd (finish_command c' st f ?g))" for c' st f by (rule via) simp
  have con: "untouched g (snd (conclude c' ref res ?g))" for c' ref res by (rule via) simp
  have pub: "untouched g (publish_command ty c' ?g)" for ty c' by (rule via) simp
  have rec: "untouched g (snd (readback c' ref params res (publish_command ty c' ?g)))" for c' ref res ty
    by (rule untouched_trans[OF pub[of ty c']]) simp
  show ?thesis
    by (simp add: execute_command_def reconcile_def Let_def split_beta fin con rec
        split: sum.split option.split prod.split adapter_exn.split)
qed

lemma untouched_submit: "untouched (fst gw) (fst (snd (submit co provs pr i a raw corr gw)))"
proof (cases gw)
  case (Pair g w)
  show ?thesis
  proof (cases rule: admit_cases[of co pr i a raw corr g])
    case (refused e)
    with Pair admit_snd[of co pr i a raw corr g] show ?thesis by (auto simp: submit_refused)
  next
    case (admitted d params risk)
    have "untouched g (snd (create_command pr d a params risk corr g))" by simp
    from untouched_trans[OF this untouched_execute] admitted(1) Pair show ?thesis
      by (simp add: submit_def split_beta)
  qed
qed

text \<open>
  The protocol \<open>CommandSubmitter\<close> of \<open>schedules/service.py\<close>, the one way a timer reaches a
  device, with what the timers rely on: a submission leaves them alone.
\<close>

type_synonym 'g submitter =
  "principal \<Rightarrow> uuid \<Rightarrow> action \<Rightarrow> (string, json) odict \<Rightarrow> string \<Rightarrow> 'g \<Rightarrow> (failure + command) \<times> 'g"

locale command_submitter =
  fixes submitter :: "(gateway \<times> 'w) submitter"
  assumes leaves_timers: "untouched (fst gw) (fst (snd (submitter pr d a raw corr gw)))"

interpretation pipeline: command_submitter "submit co provs" for co provs
  by unfold_locales (rule untouched_submit)

end
