(* ===== verification/Sample_Gateway.thy ===== *)
theory Sample_Gateway
  imports Command_Service
begin

section \<open>A small household\<close>

text \<open>
  One pool behind one adapter, as a concrete input for the theorems about the gateway. The
  adapter's world is the heater and a count of the writes it received. Switching works,
  a new target temperature is never answered, any other write is rejected.
\<close>

definition sample_ref :: provider_device_ref where
  "sample_ref = \<lparr>ref_provider = ''pool'', ref_provider_device_id = ''1''\<rparr>"

definition sample_state :: "bool \<Rightarrow> provider_state" where
  "sample_state heater =
     \<lparr>ps_state = empty_state\<lparr>ds_heater := Some heater, ds_target_temperature_c := Some 36\<rparr>,
      ps_availability = availability.ONLINE, ps_observed_at = 5\<rparr>"

definition sample_provider :: "(bool \<times> nat) device_provider" where
  "sample_provider =
     \<lparr>dp_name = ''pool'',
      dp_discover_devices = (\<lambda>w. (Inr [], w)),
      dp_get_state = (\<lambda>ref w. (Inr (sample_state (fst w)), w)),
      dp_execute = (\<lambda>ref c w.
        case pc_params c of
          OnOffParams b \<Rightarrow>
            (Inr \<lparr>pcr_outcome = APPLIED, pcr_state = Some (sample_state b), pcr_failure_code = None\<rparr>,
             (b, Suc (snd w)))
        | TargetTemperatureParams t \<Rightarrow> (Inl TimeoutError, (fst w, Suc (snd w)))
        | _ \<Rightarrow> (Inl (Provider ProviderRejectedError), w))\<rparr>"

definition sample_providers :: "string \<Rightarrow> (bool \<times> nat) device_provider option" where
  "sample_providers = [''pool'' \<mapsto> sample_provider]"

definition sample_device :: device where
  "sample_device =
     \<lparr>dev_id = 1, dev_display_name = ''Pool'', dev_kind = POOL, dev_room_id = None,
      dev_room_name = None, dev_capabilities = [HEATING, FILTER, TARGET_TEMPERATURE],
      dev_availability = availability.ONLINE, dev_state = empty_state,
      dev_constraints = no_constraints\<lparr>dc_target_temperature_min_c := Some 20,
        dc_target_temperature_max_c := Some 40\<rparr>,
      dev_state_observed_at = 0, dev_last_seen_at = 0, dev_state_source = PROVIDER_SNAPSHOT\<rparr>"

definition sample_registry :: device_registry where
  "sample_registry =
     \<lparr>reg_id_salt = ''salt'', reg_devices = [(1, sample_device)], reg_refs = [(1, sample_ref)],
      reg_id_by_ref = [(ref_key sample_ref, 1)]\<rparr>"

definition sample_gateway :: gateway where
  "sample_gateway =
     (new_gateway (\<lambda>n. int n * usec_per_sec) (\<lambda>n. of_nat n + 100) ''salt'' 8 50)
       \<lparr>gw_registry := sample_registry\<rparr>"

definition sample_principal :: principal where
  "sample_principal =
     \<lparr>pr_user_id = 7, pr_client_id = 8, pr_display_name = ''Phone''\<rparr>"

definition sample_coercions :: coercions where
  "sample_coercions =
     \<lparr>co_bool = (\<lambda>j. case j of JBool b \<Rightarrow> Some b | _ \<Rightarrow> None),
      co_int = (\<lambda>j. case j of JInt n \<Rightarrow> Some n | _ \<Rightarrow> None),
      co_float = (\<lambda>j. case j of JFloat q \<Rightarrow> Some q | JInt n \<Rightarrow> Some (of_int n) | _ \<Rightarrow> None)\<rparr>"

lemmas sample_defs =
  sample_ref_def sample_state_def sample_provider_def sample_providers_def sample_device_def
  sample_registry_def sample_gateway_def sample_principal_def sample_coercions_def

lemma sample_coercions_exact: "coercions_exact sample_coercions"
  by (simp add: coercions_exact_def sample_coercions_def)

lemma sample_registry_inv: "registry_inv sample_registry"
  by (auto simp: registry_inv_def sample_registry_def sample_device_def od_wf_def od_get_def)

lemma sample_gateway_sel [simp]:
  "gw_registry sample_gateway = sample_registry" "gw_commands sample_gateway = []"
  "gw_schedules sample_gateway = []" "gw_locks sample_gateway = []"
  "gw_next_lock sample_gateway = 0" "gw_issued sample_gateway = 0" "gw_ticks sample_gateway = 0"
  "gw_clock sample_gateway n = int n * usec_per_sec" "gw_uuids sample_gateway n = of_nat n + 100"
  "gw_audit sample_gateway = new_audit_log 50" "gw_bus sample_gateway = new_bus 8"
  by (simp_all add: sample_gateway_def new_gateway_def)

lemma sample_device_get [simp]: "od_get (reg_devices sample_registry) 1 = Some sample_device"
  by (simp add: sample_registry_def od_get_def)

lemma sample_ref_for [simp]: "ref_for 1 sample_registry = Inr sample_ref"
  by (simp add: sample_registry_def od_get_def ref_for_def)

lemma sample_provider_get [simp]: "sample_providers (ref_provider sample_ref) = Some sample_provider"
  by (simp add: sample_providers_def sample_ref_def)

lemma sample_device_sel [simp]:
  "dev_id sample_device = 1" "dev_kind sample_device = POOL"
  "dev_capabilities sample_device = [HEATING, FILTER, TARGET_TEMPERATURE]"
  "dev_availability sample_device = availability.ONLINE" "dev_state sample_device = empty_state"
  "dc_target_temperature_min_c (dev_constraints sample_device) = Some 20"
  "dc_target_temperature_max_c (dev_constraints sample_device) = Some 40"
  by (simp_all add: sample_device_def)

text \<open>Two requests: one that is carried out, one that is never answered.\<close>

lemma sample_admit_heater:
  "admit sample_coercions sample_principal 1 SET_HEATER [(''on'', JBool True)] ''c1'' sample_gateway =
     (Inr (sample_device, OnOffParams True, MEDIUM), sample_gateway)"
  by (simp add: admit_def svc_get_def reg_require_def validate_params_def ACTION_SPECS_def od_get_def
      only_field_def sample_coercions_def required_capability_for_def supports_def classify_def
      sample_registry_def)

lemma sample_admit_target:
  "admit sample_coercions sample_principal 1 SET_TARGET_TEMPERATURE [(''celsius'', JFloat 36)] ''c1''
     sample_gateway =
     (Inr (sample_device, TargetTemperatureParams 36, MEDIUM), sample_gateway)"
  by (simp add: admit_def svc_get_def reg_require_def validate_params_def ACTION_SPECS_def od_get_def
      only_field_def sample_coercions_def required_capability_for_def supports_def classify_def
      sample_registry_def)

lemma sample_verdict:
  "verdict sample_provider ref SET_HEATER (OnOffParams True) (False, 0) =
     ((command_status.SUCCEEDED, None), (True, 1))"
  "verdict sample_provider ref SET_TARGET_TEMPERATURE (TargetTemperatureParams 36) (False, 0) =
     ((command_status.SUCCEEDED, None), (False, 1))"
  by (simp_all add: verdict_def sample_provider_def outcome_failure_def desired_matches_def
      sample_state_def temperature_epsilon_c_def)

lemma sample_contract: "adapter_contract sample_provider {sample_ref} (\<lambda>w. True)"
  by unfold_locales
    (auto simp: sample_provider_def sample_state_def device_state_ok_def empty_state_def opt_between_def
      split: command_params.splits)

end
