(* ===== verification/Command_Properties.thy ===== *)
theory Command_Properties
  imports Sample_Gateway
begin

section \<open>What the command pipeline guarantees\<close>

text \<open>
  The properties of \<open>CommandService.submit\<close>: what it refuses, what it does to the world, what
  it reports, and what it writes down. The lemmas of \<open>Command_Service\<close> carry the proofs; the
  witnesses run the household of \<open>Sample_Gateway\<close>.
\<close>

text \<open>Every provider a registered reference names is wired up, as \<open>container.py\<close> does it.\<close>

definition wired :: "(string \<Rightarrow> 'w device_provider option) \<Rightarrow> gateway \<Rightarrow> bool" where
  "wired provs g \<longleftrightarrow>
     (\<forall>(i, ref) \<in> set (reg_refs (gw_registry g)). provs (ref_provider ref) \<noteq> None)"

lemma wired_provider:
  "wired provs g \<Longrightarrow> ref_for i (gw_registry g) = Inr ref \<Longrightarrow> \<exists>p. provs (ref_provider ref) = Some p"
  by (fastforce simp: wired_def ref_for_def dest: od_get_in split: option.splits)

lemma device_lock_commands [simp]: "gw_commands (snd (device_lock d g)) = gw_commands g"
  by simp

lemma created_sel [simp]:
  "cmd_device_id (created pr d a params risk corr g) = dev_id d"
  "cmd_action (created pr d a params risk corr g) = a"
  "cmd_risk_class (created pr d a params risk corr g) = risk"
  "cmd_parameters (created pr d a params risk corr g) = params_dump params"
  "cmd_correlation_id (created pr d a params risk corr g) = corr"
  "cmd_requested_by_user_id (created pr d a params risk corr g) = pr_user_id pr"
  "cmd_requested_by_client_id (created pr d a params risk corr g) = pr_client_id pr"
  "cmd_created_at (created pr d a params risk corr g) = now_of g"
  "cmd_id (created pr d a params risk corr g) = gw_uuids g (gw_issued g)"
  by (simp_all add: created_def new_command_def)

text \<open>A run stores its command three times, under one identifier.\<close>

lemma stored_elsewhere:
  assumes "od_wf d" and "cmd_id c1 = cmd_id c" "cmd_id c0 = cmd_id c" and "j \<noteq> cmd_id c"
    and "od_get (store_command c (store_command c1 (store_command c0 d))) j = Some c'"
  shows "od_get d j = Some c'"
proof -
  have wf: "od_wf (store_command c0 d)" "od_wf (store_command c1 (store_command c0 d))"
    using assms(1) by (simp_all add: store_command_wf)
  have "od_get (store_command c1 (store_command c0 d)) j = Some c'"
    by (rule store_command_other[OF wf(2) assms(4,5)])
  then have "od_get (store_command c0 d) j = Some c'" using store_command_other[OF wf(1)] assms(2,4) by metis
  then show ?thesis using store_command_other[OF assms(1)] assms(3,4) by metis
qed

text \<open>The shape of every run of an admitted command, as one lemma the properties select from.\<close>

lemma submit_effects:
  assumes inv: "registry_inv (gw_registry g)" and wf: "command_store_inv (gw_commands g)"
    and wired: "wired provs g"
    and adm: "admit co pr i a raw corr g = (Inr (d, params, risk), g)"
  obtains ref p c g' t where
    "ref_for i (gw_registry g) = Inr ref" "provs (ref_provider ref) = Some p"
    "submit co provs pr i a raw corr (g, w) = (Inr c, g', snd (verdict p ref a params w))"
    "(cmd_status c, cmd_failure_code c) = fst (verdict p ref a params w)"
    "cmd_device_id c = i" "cmd_action c = a" "cmd_parameters c = params_dump params"
    "cmd_risk_class c = risk" "cmd_correlation_id c = corr"
    "cmd_requested_by_user_id c = pr_user_id pr" "cmd_requested_by_client_id c = pr_client_id pr"
    "cmd_id c = gw_uuids g (gw_issued g)" "cmd_created_at c = now_of g"
    "od_get (gw_commands g') (cmd_id c) = Some c" "command_store_inv (gw_commands g')"
    "gw_audit g' =
       audit_record ((completed_entry c t)\<lparr>ae_id := gw_uuids g (Suc (Suc (gw_issued g)))\<rparr>)
         (audit_record ((requested_entry pr c (now_of g))\<lparr>ae_id := gw_uuids g (Suc (gw_issued g))\<rparr>)
           (gw_audit g))"
    "gw_schedules g' = gw_schedules g" "gw_uuids g' = gw_uuids g"
    "gw_issued g' = Suc (Suc (Suc (gw_issued g)))"
    "\<And>j c'. j \<noteq> cmd_id c \<Longrightarrow> od_get (gw_commands g') j = Some c' \<Longrightarrow> od_get (gw_commands g) j = Some c'"
proof -
  have dev: "od_get (reg_devices (gw_registry g)) i = Some d"
    using adm by (auto simp: admit_Inr_iff admissible_device)
  then have i: "dev_id d = i" by (rule registry_invD(2)[OF inv])
  obtain ref where ref: "ref_for i (gw_registry g) = Inr ref"
    using ref_for_known[OF inv dev] by blast
  obtain p where prov: "provs (ref_provider ref) = Some p" using wired_provider[OF wired ref] by blast
  let ?v = "verdict p ref a params w" and ?c = "created pr d a params risk corr g"
  obtain c t0 t g1 g' where
    sub: "submit co provs pr i a raw corr (g, w) = (Inr c, g', snd ?v)"
    and c: "c = with_status (with_status ?c command_status.RUNNING t0 None) (fst (fst ?v)) t (snd (fst ?v))"
    and q: "quiet (snd (device_lock i (snd (start_command ?c (snd (create_command pr d a params risk corr g)))))) g1"
    and t: "t = now_of g1"
    and g': "g' = snd (finish_command (with_status ?c command_status.RUNNING t0 None)
        (fst (fst ?v)) (snd (fst ?v)) g1)"
    using submit_admitted[where provs = provs and p = p and w = w, OF inv adm ref prov] by blast
  have store: "command_store_inv (gw_commands g1)"
    using q wf by (simp add: quiet_def command_store_steps store_command_inv)
  have cmds: "gw_commands g' = store_command c (gw_commands g1)"
    unfolding g' by (simp add: command_store_steps c t)
  have runs: "gw_commands g1 = store_command (fst (start_command ?c (snd (create_command pr d a params risk corr g))))
      (store_command ?c (gw_commands g))"
    using q by (simp add: quiet_def command_store_steps create_command_fst flip: created_def)
  have wf0: "od_wf (gw_commands g)" using wf by (simp add: command_store_inv_def)
  have id: "cmd_id (fst (start_command ?c (snd (create_command pr d a params risk corr g)))) = cmd_id c" "cmd_id ?c = cmd_id c"
    by (simp_all add: start_command_fst c)
  have other: "od_get (gw_commands g) j = Some c'"
    if "j \<noteq> cmd_id c" "od_get (gw_commands g') j = Some c'" for j c'
    by (rule stored_elsewhere[OF wf0 id that(1) that(2)[unfolded cmds runs]])
  have req: "requested_entry pr ?c u = requested_entry pr c u" for u
    by (simp add: requested_entry_def c)
  show thesis
  proof (rule that[OF ref prov sub])
    show "(cmd_status c, cmd_failure_code c) = fst ?v" by (simp add: c)
    show "od_get (gw_commands g') (cmd_id c) = Some c"
      unfolding cmds using store by (intro store_command_get) (simp add: command_store_inv_def)
    show "command_store_inv (gw_commands g')" unfolding cmds by (rule store_command_inv[OF store])
    show "gw_audit g' =
      audit_record ((completed_entry c t)\<lparr>ae_id := gw_uuids g (Suc (Suc (gw_issued g)))\<rparr>)
        (audit_record ((requested_entry pr c (now_of g))\<lparr>ae_id := gw_uuids g (Suc (gw_issued g))\<rparr>)
          (gw_audit g))"
      unfolding g' using q
      by (simp add: command_audit_steps quiet_def create_command_fst req c t flip: created_def)
    show "od_get (gw_commands g) j = Some c'" if "j \<noteq> cmd_id c" "od_get (gw_commands g') j = Some c'" for j c'
      using that by (rule other)
  qed (use q in \<open>simp_all add: c i g' quiet_def\<close>)
qed

subsection \<open>What a submission leaves of the devices\<close>

lemma conclude_evolves:
  assumes inv: "registry_inv (gw_registry g)"
    and ok: "\<And>st. pcr_state res = Some st \<Longrightarrow> device_state_ok (ps_state st)"
  shows "evolves (gw_registry g) (gw_registry (snd (conclude c ref res g)))"
proof (cases "pcr_state res")
  case None
  then show ?thesis by (simp add: conclude_def split_beta)
next
  case (Some st)
  with ingest_evolves[OF inv ok[OF Some], of ref COMMAND_RESULT "Some (cmd_correlation_id c)"]
  show ?thesis by (auto simp: conclude_def split_beta split: prod.split sum.split)
qed

lemma readback_evolves:
  assumes inv: "registry_inv (gw_registry g)"
    and ok: "\<And>st. res = Inr st \<Longrightarrow> device_state_ok (ps_state st)"
  shows "evolves (gw_registry g) (gw_registry (snd (readback c ref params res g)))"
proof (cases res)
  case (Inl e)
  then show ?thesis by (simp add: readback_def split_beta)
next
  case (Inr st)
  with ingest_evolves[OF inv ok[OF Inr], of ref PROVIDER_SNAPSHOT "Some (cmd_correlation_id c)"]
  show ?thesis by (auto simp: readback_def split_beta split: prod.split sum.split)
qed

context adapter_contract
begin

lemma reconcile_evolves:
  assumes inv: "registry_inv (gw_registry g)" and w: "world_ok w"
  shows "evolves (gw_registry g) (gw_registry (fst (snd (reconcile c p ref params (g, w))))) \<and>
    world_ok (snd (snd (reconcile c p ref params (g, w))))"
proof -
  let ?g = "publish_command COMMAND_TIMED_OUT c g"
  obtain obs w1 where get: "dp_get_state p ref w = (obs, w1)" by fastforce
  have "evolves (gw_registry ?g) (gw_registry (snd (readback c ref params obs ?g)))"
    using state_ok[OF w, of ref] get inv by (intro readback_evolves) auto
  moreover have "world_ok w1" using get_keeps[OF w, of ref] get by simp
  ultimately show ?thesis using get by (simp add: reconcile_def split_beta Let_def)
qed

lemma concluded_evolves:
  assumes inv: "registry_inv (gw_registry g)" and w: "world_ok w" and fit: "params_fit (pc_action c) (pc_params c)"
    and ex: "dp_execute p ref c w = (Inr res, w1)"
  shows "evolves (gw_registry g) (gw_registry (snd (conclude cmd ref res g)))"
  using result_ok[OF w fit, of ref res] ex by (intro conclude_evolves[OF inv]) simp

end

lemma execute_evolves:
  assumes inv: "registry_inv (gw_registry g)"
    and con: "\<And>n p. provs n = Some p \<Longrightarrow> adapter_contract p refs world_ok"
    and w: "world_ok w" and fit: "params_fit (cmd_action c) params"
  shows "evolves (gw_registry g) (gw_registry (fst (snd (execute_command provs c d params (g, w))))) \<and>
    world_ok (snd (snd (execute_command provs c d params (g, w))))"
proof (cases "ref_for (dev_id d) (gw_registry g)")
  case (Inl e)
  with w show ?thesis by (simp add: execute_command_def)
next
  case (Inr ref)
  show ?thesis
  proof (cases "provs (ref_provider ref)")
    case None
    with Inr w show ?thesis by (simp add: execute_command_def split_beta)
  next
    case (Some p)
    let ?g = "snd (device_lock (dev_id d) (snd (start_command c g)))" and ?r = "fst (start_command c g)"
    let ?c = "\<lparr>pc_action = cmd_action c, pc_params = params\<rparr>"
    obtain res w1 where ex: "dp_execute p ref ?c w = (res, w1)" by fastforce
    note run = execute_command_def Inr Some ex split_beta Let_def
    have fit': "params_fit (pc_action ?c) (pc_params ?c)" using fit by simp
    have w1: "world_ok w1" using adapter_contract.execute_keeps[OF con[OF Some] w fit', of ref] ex by simp
    consider pr where "res = Inr pr" | "res = Inl TimeoutError" | e where "res = Inl e" "e \<noteq> TimeoutError"
      by (cases res) auto
    then show ?thesis
    proof cases
      case (1 pr)
      with adapter_contract.concluded_evolves[OF con[OF Some] _ w fit' ex[unfolded 1], of ?g ?r] inv w1
      show ?thesis by (simp add: run)
    next
      case 2
      with adapter_contract.reconcile_evolves[OF con[OF Some] _ w1, of ?g ?r ref params] inv
      show ?thesis by (simp add: run)
    next
      case (3 e)
      with w1 show ?thesis by (cases e) (simp_all add: run)
    qed
  qed
qed

lemma submit_evolves:
  assumes inv: "registry_inv (gw_registry g)"
    and con: "\<And>n p. provs n = Some p \<Longrightarrow> adapter_contract p refs world_ok" and w: "world_ok w"
  shows "evolves (gw_registry g) (gw_registry (fst (snd (submit co provs pr i a raw corr (g, w))))) \<and>
    world_ok (snd (snd (submit co provs pr i a raw corr (g, w))))"
proof (cases rule: admit_cases[of co pr i a raw corr g])
  case (refused e)
  with w show ?thesis by (simp add: submit_refused admit_frame)
next
  case (admitted d params risk)
  then have "params_fit a params" by (auto simp: admissible_def dest: validate_params_fit)
  then have "params_fit (cmd_action (fst (create_command pr d a params risk corr g))) params"
    by (simp add: create_command_fst flip: created_def)
  with admitted execute_evolves[where provs = provs and g = "snd (create_command pr d a params risk corr g)" and
    c = "fst (create_command pr d a params risk corr g)" and params = params and d = d, OF _ con w] inv
  show ?thesis by (simp add: submit_def split_beta)
qed

subsection \<open>Properties\<close>

text \<open>
  C1. The world changes only through an admitted command: a submission that had any effect
  on a device was for a known, reachable device with the capability for that request, with
  valid parameters inside the device's own limits, and not of the highest risk class.
\<close>

theorem submit_gated:
  assumes "submit co provs pr i a raw corr (g, w) = (r, g', w')" and "w' \<noteq> w"
  shows "\<exists>d params capability risk.
    svc_get i g = Inr d \<and> dev_availability d \<noteq> availability.OFFLINE \<and>
    validate_params co a raw = Inr params \<and> params_fit a params \<and>
    required_capability_for a params = Some capability \<and> supports d capability \<and>
    (\<forall>t. params = TargetTemperatureParams t \<longrightarrow>
       (\<exists>lo hi. dc_target_temperature_min_c (dev_constraints d) = Some lo \<and>
          dc_target_temperature_max_c (dev_constraints d) = Some hi \<and> lo \<le> t \<and> t \<le> hi)) \<and>
    classify a params = Some risk \<and> risk < HIGH"
proof (cases rule: admit_cases[of co pr i a raw corr g])
  case (refused e)
  with assms show ?thesis by (simp add: submit_refused)
next
  case (admitted d params risk)
  then have "risk \<noteq> HIGH" by (auto simp: admissible_def)
  then have "risk < HIGH" by (simp add: less_le)
  with admitted(2,3) show ?thesis
    using validate_params_fit[of co a raw params] check_constraints_None[of d]
    unfolding admissible_def is_reachable_def by blast
qed

theorem submit_gated_witness:
  "\<exists>d. svc_get 1 sample_gateway = Inr d \<and> dev_availability d \<noteq> availability.OFFLINE"
proof -
  have adm: "admit sample_coercions sample_principal 1 SET_HEATER [(''on'', JBool True)] ''c1'' sample_gateway =
     (Inr (sample_device, OnOffParams True, MEDIUM), sample_gateway)" by (rule sample_admit_heater)
  obtain r g' where run: "submit sample_coercions sample_providers sample_principal 1 SET_HEATER
      [(''on'', JBool True)] ''c1'' (sample_gateway, (False, 0)) = (r, g', (True, 1))"
    using submit_admitted[where provs = sample_providers and p = sample_provider and w = "(False, 0)",
        OF _ adm] sample_registry_inv
    by (auto simp: sample_verdict)
  show ?thesis using submit_gated[OF run] by auto
qed

text \<open>
  C2. An admitted command comes to exactly the verdict of one write to its provider: the
  world afterwards is the one after that single \<open>execute\<close>, and after a single read-back if
  the write timed out. There is no retry. The returned command carries that verdict.
\<close>

theorem submit_verdict:
  assumes "registry_inv (gw_registry g)" and "command_store_inv (gw_commands g)"
    and "wired provs g" and "admissible co i a raw g d params"
  shows "\<exists>ref p c g'.
    ref_for i (gw_registry g) = Inr ref \<and> provs (ref_provider ref) = Some p \<and>
    submit co provs pr i a raw corr (g, w) = (Inr c, g', snd (verdict p ref a params w)) \<and>
    (cmd_status c, cmd_failure_code c) = fst (verdict p ref a params w) \<and>
    cmd_device_id c = i \<and> cmd_action c = a \<and> cmd_parameters c = params_dump params \<and>
    cmd_requested_by_client_id c = pr_client_id pr"
proof -
  obtain risk where "admit co pr i a raw corr g = (Inr (d, params, risk), g)"
    using assms(4) classify_fit[OF validate_params_fit]
    by (metis admissible_def admit_Inr_iff)
  from submit_effects[OF assms(1-3) this, of w] show ?thesis by metis
qed

lemma sample_wired: "wired sample_providers sample_gateway"
  by (simp add: wired_def sample_registry_def)

lemma sample_admissible:
  "admissible sample_coercions 1 SET_HEATER [(''on'', JBool True)] sample_gateway sample_device
     (OnOffParams True)"
  "admissible sample_coercions 1 SET_TARGET_TEMPERATURE [(''celsius'', JFloat 36)] sample_gateway
     sample_device (TargetTemperatureParams 36)"
  using sample_admit_heater sample_admit_target by (simp_all add: admit_Inr_iff)

lemma sample_store_inv [simp]: "command_store_inv []"
  by (simp add: command_store_inv_def)

theorem submit_verdict_witness:
  "\<exists>c g'. submit sample_coercions sample_providers sample_principal 1 SET_HEATER
      [(''on'', JBool True)] ''c1'' (sample_gateway, (False, 0)) = (Inr c, g', (True, 1)) \<and>
    cmd_status c = command_status.SUCCEEDED"
  using submit_verdict[OF _ _ sample_wired sample_admissible(1), of sample_principal "''c1''" "(False, 0)"]
    sample_registry_inv
  by (auto simp: sample_verdict)

text \<open>
  C3. A door is never opened: a request to unlatch, or to unlock a lock, is refused before
  any provider is called, whoever asks, whatever the device declares.
\<close>

theorem submit_never_opens_door:
  assumes "submit co provs pr i a raw corr (g, w) = (r, g', w')"
    and "a = action.UNLATCH \<or>
      a = SET_LOCK_STATE \<and> validate_params co a raw = Inr (LockStateParams UNLOCKED)"
  shows "w' = w \<and> gw_commands g' = gw_commands g \<and> (\<exists>e. r = Inl e)"
proof (cases rule: admit_cases[of co pr i a raw corr g])
  case (refused e)
  with assms(1) show ?thesis by (auto simp: submit_refused admit_frame)
next
  case (admitted d params risk)
  then have valid: "validate_params co a raw = Inr params" and "classify a params \<noteq> Some HIGH"
    by (simp_all add: admissible_def)
  with classify_HIGH_iff[OF validate_params_fit[OF valid]] assms(2) have False by auto
  then show ?thesis ..
qed

theorem submit_never_opens_door_witness:
  "snd (snd (submit sample_coercions sample_providers sample_principal 1 SET_LOCK_STATE
      [(''desired'', JStr ''UNLOCKED'')] ''c1'' (sample_gateway, (False, 0)))) = (False, 0)"
proof -
  obtain r g' w' where run: "submit sample_coercions sample_providers sample_principal 1 SET_LOCK_STATE
      [(''desired'', JStr ''UNLOCKED'')] ''c1'' (sample_gateway, (False, 0)) = (r, g', w')"
    by (metis prod.collapse)
  have "validate_params sample_coercions SET_LOCK_STATE [(''desired'', JStr ''UNLOCKED'')] =
      Inr (LockStateParams UNLOCKED)"
    by (simp add: validate_params_def ACTION_SPECS_def od_get_def only_field_def)
  then show ?thesis using submit_never_opens_door[OF run] run by simp
qed

text \<open>
  C4. A write that was not answered in time is never reported as failed. The command
  succeeded exactly when the one read-back shows the requested value, and is otherwise of
  unknown outcome.
\<close>

theorem submit_timeout:
  assumes "registry_inv (gw_registry g)" and "command_store_inv (gw_commands g)"
    and "wired provs g" and "admissible co i a raw g d params"
    and "ref_for i (gw_registry g) = Inr ref" and "provs (ref_provider ref) = Some p"
    and "dp_execute p ref \<lparr>pc_action = a, pc_params = params\<rparr> w = (Inl TimeoutError, w1)"
  shows "\<exists>c g'. submit co provs pr i a raw corr (g, w) = (Inr c, g', snd (dp_get_state p ref w1)) \<and>
    cmd_status c =
      (case fst (dp_get_state p ref w1) of
         Inr observed \<Rightarrow>
           if desired_matches a params (ps_state observed) = Some True
           then command_status.SUCCEEDED else command_status.UNKNOWN
       | Inl _ \<Rightarrow> command_status.UNKNOWN)"
proof -
  obtain risk where adm: "admit co pr i a raw corr g = (Inr (d, params, risk), g)"
    using assms(4) classify_fit[OF validate_params_fit]
    by (metis admissible_def admit_Inr_iff)
  obtain c g' where sub: "submit co provs pr i a raw corr (g, w) = (Inr c, g', snd (verdict p ref a params w))"
    and st: "(cmd_status c, cmd_failure_code c) = fst (verdict p ref a params w)"
    using submit_effects[OF assms(1-3) adm, of w] assms(5,6) by (metis option.inject sum.inject(2))
  obtain obs w2 where get: "dp_get_state p ref w1 = (obs, w2)" by fastforce
  have "snd (verdict p ref a params w) = w2"
    using assms(7) get by (cases obs) (simp_all add: verdict_def)
  moreover have "cmd_status c = fst (fst (verdict p ref a params w))"
    using st by (metis fst_conv)
  ultimately show ?thesis
    using sub assms(7) get by (cases obs) (simp_all add: verdict_def)
qed

theorem submit_timeout_witness:
  "\<exists>c g'. submit sample_coercions sample_providers sample_principal 1 SET_TARGET_TEMPERATURE
      [(''celsius'', JFloat 36)] ''c1'' (sample_gateway, (False, 0)) = (Inr c, g', (False, 1)) \<and>
    cmd_status c = command_status.SUCCEEDED"
proof -
  have ex: "dp_execute sample_provider sample_ref
      \<lparr>pc_action = SET_TARGET_TEMPERATURE, pc_params = TargetTemperatureParams 36\<rparr> (False, 0) =
      (Inl TimeoutError, (False, 1))"
    by (simp add: sample_provider_def)
  have inv: "registry_inv (gw_registry sample_gateway)" using sample_registry_inv by simp
  have st: "command_store_inv (gw_commands sample_gateway)" by simp
  have ref: "ref_for 1 (gw_registry sample_gateway) = Inr sample_ref" by simp
  show ?thesis
    using submit_timeout[OF inv st sample_wired sample_admissible(2) ref sample_provider_get ex]
    by (simp add: sample_provider_def sample_state_def desired_matches_def temperature_epsilon_c_def)
qed

text \<open>
  C5. A submission always returns: a refusal is one of the six documented problem types, and
  an accepted command comes back settled as succeeded, failed or unknown, with the time of
  its completion. No assertion of the pipeline fails.
\<close>

theorem submit_total:
  assumes "registry_inv (gw_registry g)" and "command_store_inv (gw_commands g)" and "wired provs g"
  shows "case fst (submit co provs pr i a raw corr (g, w)) of
      Inl e \<Rightarrow> failure_kind e \<in> Some ` {DeviceNotFoundError, InvalidParametersError,
        CapabilityNotSupportedError, ParameterOutOfRangeError, ActionAuthorizationRequiredError,
        DeviceUnavailableError}
    | Inr c \<Rightarrow> cmd_status c \<in>
        {command_status.SUCCEEDED, command_status.FAILED, command_status.UNKNOWN}"
proof (cases rule: admit_cases[of co pr i a raw corr g])
  case (refused e)
  then have "admit co pr i a raw corr g = (Inl e, snd (admit co pr i a raw corr g))"
    by (metis prod.collapse)
  from admit_Inl[OF this] refused show ?thesis by (simp add: submit_refused)
next
  case (admitted d params risk)
  obtain p ref c g' where
    sub: "submit co provs pr i a raw corr (g, w) = (Inr c, g', snd (verdict p ref a params w))"
    and st: "(cmd_status c, cmd_failure_code c) = fst (verdict p ref a params w)"
    using submit_effects[OF assms admitted(1), of w] by metis
  have "fst (fst (verdict p ref a params w)) \<in>
      {command_status.SUCCEEDED, command_status.FAILED, command_status.UNKNOWN}"
    by (auto simp: verdict_def split: prod.split sum.split adapter_exn.split
        intro: command_outcome.exhaust[of "pcr_outcome _"])
      (metis outcome_status.simps command_outcome.exhaust)+
  with st sub show ?thesis by (metis fst_conv sum.case(2))
qed

theorem submit_total_witness:
  "case fst (submit sample_coercions sample_providers sample_principal 2 SET_HEATER
        [(''on'', JBool True)] ''c1'' (sample_gateway, (False, 0))) of
      Inl e \<Rightarrow> failure_kind e \<noteq> None
    | Inr c \<Rightarrow> False"
  using submit_total[OF _ _ sample_wired, of sample_coercions sample_principal 2 SET_HEATER
      "[(''on'', JBool True)]" "''c1''" "(False, 0)"] sample_registry_inv
  by (auto simp: submit_def admit_def svc_get_def reg_require_def sample_registry_def od_get_def)

subsection \<open>What is written down\<close>

definition audited_kinds :: "error_kind set" where
  "audited_kinds =
     {CapabilityNotSupportedError, ActionAuthorizationRequiredError, DeviceUnavailableError}"

text \<open>The refusals after the parameters were accepted, and within the limits of the device.\<close>

lemma admit_denied:
  assumes "admit co pr i a raw corr g = (Inl e, g')"
    and "svc_get i g = Inr d" "validate_params co a raw = Inr params" "required_capability_for a params = Some c"
    and free: "\<not> (supports d c \<and> check_constraints d params \<noteq> None)"
  shows "\<exists>k \<in> audited_kinds. e = raise_kind k \<and> g' = audit_denied pr d a corr (problem_type k) g"
proof -
  let ?refusal = "\<lambda>k. e = raise_kind k \<and> g' = audit_denied pr d a corr (problem_type k) g"
  obtain r where risk: "classify a params = Some r"
    using classify_fit[OF validate_params_fit[OF assms(3)]] by blast
  have "?refusal CapabilityNotSupportedError \<or> ?refusal ActionAuthorizationRequiredError \<or>
      ?refusal DeviceUnavailableError"
  proof (cases "supports d c")
    case False
    with assms show ?thesis by (simp add: admit_def)
  next
    case True
    with free have "check_constraints d params = None" by simp
    with True assms risk show ?thesis
      by (cases "r = HIGH"; cases "dev_availability d = availability.OFFLINE") (simp_all add: admit_def)
  qed
  then show ?thesis unfolding audited_kinds_def by blast
qed

lemma admit_refusal:
  assumes "admit co pr i a raw corr g = (Inl e, g')"
  shows "\<exists>k. failure_kind e = Some k \<and>
    (if k \<in> audited_kinds
     then \<exists>d. svc_get i g = Inr d \<and> g' = audit_denied pr d a corr (problem_type k) g
     else g' = g)"
proof (cases "svc_get i g")
  case (Inl e')
  then have "e' = raise_kind DeviceNotFoundError"
    by (auto simp: svc_get_def reg_require_def split: option.splits)
  moreover have "e = e'" and "g' = g" using Inl assms by (simp_all add: admit_def)
  ultimately show ?thesis by (intro exI[of _ DeviceNotFoundError]) (simp add: audited_kinds_def)
next
  case (Inr d)
  note d = Inr
  show ?thesis
  proof (cases "validate_params co a raw")
    case (Inl e')
    then have "e' = raise_kind InvalidParametersError" by (rule validate_params_Inl)
    moreover have "e = e'" and "g' = g" using Inl assms d by (simp_all add: admit_def)
    ultimately show ?thesis by (intro exI[of _ InvalidParametersError]) (simp add: audited_kinds_def)
  next
    case (Inr params)
    obtain c where cap: "required_capability_for a params = Some c"
      using required_capability_fit[OF validate_params_fit[OF Inr]] by blast
    show ?thesis
    proof (cases "supports d c \<and> check_constraints d params \<noteq> None")
      case True
      then obtain e' where "check_constraints d params = Some e'" by blast
      with True assms d Inr cap show ?thesis
        using check_constraints_kind[of d params e'] by (simp add: admit_def audited_kinds_def)
    next
      case False
      from admit_denied[OF assms d Inr cap False] d show ?thesis by (metis failure_kind_raise(1))
    qed
  qed
qed

definition denied_entry :: "principal \<Rightarrow> uuid \<Rightarrow> action \<Rightarrow> string \<Rightarrow> string \<Rightarrow> datetime \<Rightarrow> audit_entry" where
  "denied_entry pr i a corr reason t =
     (blank_entry t ''command.denied'')
       \<lparr>ae_actor_user_id := Some (pr_user_id pr), ae_actor_client_id := Some (pr_client_id pr),
        ae_device_id := Some i, ae_action := Some a, ae_outcome := Some reason,
        ae_correlation_id := Some corr\<rparr>"

lemma audit_denied_audit:
  "gw_audit (audit_denied pr d a corr reason g) =
     audit_record ((denied_entry pr (dev_id d) a corr reason (now_of g))\<lparr>ae_id := gw_uuids g (gw_issued g)\<rparr>)
       (gw_audit g)"
  by (simp add: audit_denied_def denied_entry_def split_beta)

text \<open>
  C6. Every submission is accounted for. An accepted command leaves exactly two entries, its
  request and its completion with the outcome the caller was given. A refusal for a missing
  capability, a missing authorisation or an unreachable device leaves one entry naming the
  client and the reason; a refusal of the request itself (unknown device, invalid or out of
  range parameters) leaves none.
\<close>

theorem submit_audited:
  assumes "registry_inv (gw_registry g)" and "command_store_inv (gw_commands g)" and "wired provs g"
  shows "case submit co provs pr i a raw corr (g, w) of
      (Inr c, g', _) \<Rightarrow>
        (\<exists>t n m. gw_audit g' =
           audit_record ((completed_entry c t)\<lparr>ae_id := n\<rparr>)
             (audit_record ((requested_entry pr c (cmd_created_at c))\<lparr>ae_id := m\<rparr>) (gw_audit g)))
    | (Inl e, g', _) \<Rightarrow>
        (\<exists>k. failure_kind e = Some k \<and>
          (if k \<in> {CapabilityNotSupportedError, ActionAuthorizationRequiredError,
                   DeviceUnavailableError}
           then \<exists>t n. gw_audit g' =
             audit_record ((denied_entry pr i a corr (problem_type k) t)\<lparr>ae_id := n\<rparr>) (gw_audit g)
           else gw_audit g' = gw_audit g))"
proof (cases rule: admit_cases[of co pr i a raw corr g])
  case (refused e)
  let ?g' = "snd (admit co pr i a raw corr g)"
  have "admit co pr i a raw corr g = (Inl e, ?g')" using refused by (metis prod.collapse)
  from admit_refusal[OF this] obtain k where k: "failure_kind e = Some k"
    and g': "if k \<in> audited_kinds
      then \<exists>d. svc_get i g = Inr d \<and> ?g' = audit_denied pr d a corr (problem_type k) g
      else ?g' = g" by blast
  have "if k \<in> audited_kinds
      then \<exists>t n. gw_audit ?g' =
        audit_record ((denied_entry pr i a corr (problem_type k) t)\<lparr>ae_id := n\<rparr>) (gw_audit g)
      else gw_audit ?g' = gw_audit g"
    using g' registry_invD(2)[OF assms(1)] by (auto simp: audit_denied_audit svc_get_Inr split: if_splits) blast
  with k refused show ?thesis by (simp add: submit_refused audited_kinds_def)
next
  case (admitted d params risk)
  obtain p ref c g' t where
    "submit co provs pr i a raw corr (g, w) = (Inr c, g', snd (verdict p ref a params w))"
    and "cmd_created_at c = now_of g"
    and "gw_audit g' =
       audit_record ((completed_entry c t)\<lparr>ae_id := gw_uuids g (Suc (Suc (gw_issued g)))\<rparr>)
         (audit_record ((requested_entry pr c (now_of g))\<lparr>ae_id := gw_uuids g (Suc (gw_issued g))\<rparr>)
           (gw_audit g))"
    using submit_effects[OF assms admitted(1), of w] by metis
  then show ?thesis by auto
qed

theorem submit_audited_witness:
  "\<exists>t n. gw_audit (fst (snd (submit sample_coercions sample_providers sample_principal 1 SET_BUBBLES
      [(''on'', JBool True)] ''c1'' (sample_gateway, (False, 0))))) =
    audit_record ((denied_entry sample_principal 1 SET_BUBBLES ''c1'' ''capability_not_supported'' t)\<lparr>ae_id := n\<rparr>)
      (new_audit_log 50)"
proof -
  have adm: "admit sample_coercions sample_principal 1 SET_BUBBLES [(''on'', JBool True)] ''c1'' sample_gateway =
      (Inl (raise_kind CapabilityNotSupportedError),
       audit_denied sample_principal sample_device SET_BUBBLES ''c1'' ''capability_not_supported'' sample_gateway)"
    by (simp add: admit_def svc_get_def reg_require_def validate_params_def ACTION_SPECS_def od_get_def
      only_field_def sample_coercions_def required_capability_for_def supports_def sample_registry_def)
  have inv: "registry_inv (gw_registry sample_gateway)" using sample_registry_inv by simp
  have st: "command_store_inv (gw_commands sample_gateway)" by simp
  show ?thesis
    using submit_audited[where co = sample_coercions and pr = sample_principal and i = 1 and a = SET_BUBBLES
        and raw = "[(''on'', JBool True)]" and corr = "''c1''" and w = "(False, 0)",
        OF inv st sample_wired]
    by (simp add: submit_def adm)
qed

text \<open>
  A command can be read back under its identifier as the caller was given it, and the
  store of commands never holds more than its bound, whatever was submitted before.
\<close>

lemma submit_tracked:
  assumes "registry_inv (gw_registry g)" and "command_store_inv (gw_commands g)" and "wired provs g"
    and "submit co provs pr i a raw corr (g, w) = (r, g', w')"
  shows "command_store_inv (gw_commands g') \<and> length (gw_commands g') \<le> 500 \<and>
    (\<forall>c. r = Inr c \<longrightarrow> get_command (cmd_id c) g' = Inr c)"
proof -
  have "command_store_inv (gw_commands g') \<and> (\<forall>c. r = Inr c \<longrightarrow> get_command (cmd_id c) g' = Inr c)"
  proof (cases rule: admit_cases[of co pr i a raw corr g])
    case (refused e)
    with assms show ?thesis by (auto simp: submit_refused admit_frame)
  next
    case (admitted d params risk)
    obtain p ref c g2 where
      "submit co provs pr i a raw corr (g, w) = (Inr c, g2, snd (verdict p ref a params w))"
      and "od_get (gw_commands g2) (cmd_id c) = Some c" and "command_store_inv (gw_commands g2)"
      using submit_effects[OF assms(1-3) admitted(1), of w] by metis
    with assms(4) show ?thesis by (auto simp: get_command_def)
  qed
  then show ?thesis by (simp add: command_store_inv_def MAX_TRACKED_COMMANDS_def)
qed

text \<open>
  A command is well typed when its stored parameters are the dump of a value of the model its
  action expects, which the validation reads back as that value, and its risk is that of the value.
\<close>

definition typed_command :: "coercions \<Rightarrow> command \<Rightarrow> bool" where
  "typed_command co c \<longleftrightarrow>
     (\<exists>p. params_fit (cmd_action c) p \<and> cmd_parameters c = params_dump p \<and>
        validate_params co (cmd_action c) (cmd_parameters c) = Inr p \<and>
        classify (cmd_action c) p = Some (cmd_risk_class c) \<and> cmd_risk_class c \<noteq> HIGH)"

definition commands_typed :: "coercions \<Rightarrow> gateway \<Rightarrow> bool" where
  "commands_typed co g \<longleftrightarrow> (\<forall>i c. od_get (gw_commands g) i = Some c \<longrightarrow> typed_command co c)"

lemma validate_dump:
  assumes "coercions_exact co" and "params_fit a p"
  shows "validate_params co a (params_dump p) = Inr p"
proof -
  obtain spec where "od_get ACTION_SPECS a = Some spec" using ACTION_SPECS_total[of a] by auto
  with params_dump_roundtrip[OF assms this] show ?thesis by (auto simp: validate_params_Inr)
qed

text \<open>
  C7. Commands are well typed. For a validation library that reads back exact values, a submission
  keeps every stored command well typed and returns only well-typed commands: the parameters a
  client sees in a command are of its action's model, within the model's bounds, read back as the
  value that was carried out, and never of the highest risk class.
\<close>

theorem submit_keeps_types:
  assumes "registry_inv (gw_registry g)" and "command_store_inv (gw_commands g)" and "wired provs g"
    and "coercions_exact co" and "commands_typed co g"
    and "submit co provs pr i a raw corr (g, w) = (r, g', w')"
  shows "commands_typed co g' \<and> (\<forall>c. r = Inr c \<longrightarrow> typed_command co c)"
proof (cases rule: admit_cases[of co pr i a raw corr g])
  case (refused e)
  with assms show ?thesis by (auto simp: submit_refused commands_typed_def admit_frame)
next
  case (admitted d params risk)
  obtain ref p c g2 where run: "submit co provs pr i a raw corr (g, w) = (Inr c, g2, snd (verdict p ref a params w))"
    and sel: "cmd_action c = a" "cmd_parameters c = params_dump params" "cmd_risk_class c = risk"
    and c: "od_get (gw_commands g2) (cmd_id c) = Some c"
    and other: "\<And>j c'. j \<noteq> cmd_id c \<Longrightarrow> od_get (gw_commands g2) j = Some c' \<Longrightarrow> od_get (gw_commands g) j = Some c'"
    by (rule submit_effects[OF assms(1-3) admitted(1), of w]) blast
  have ok: "admissible co i a raw g d params" "classify a params = Some risk"
    using admitted(1) by (auto simp: admit_Inr_iff)
  then have fit: "params_fit a params" "risk \<noteq> HIGH" by (auto simp: admissible_def validate_params_fit)
  then have "typed_command co c"
    using validate_dump[OF assms(4) fit(1)] ok(2) by (auto simp: typed_command_def sel)
  moreover have "typed_command co c'" if "od_get (gw_commands g2) j = Some c'" for j c'
    using that other[of j c'] c calculation assms(5) by (cases "j = cmd_id c") (auto simp: commands_typed_def)
  ultimately show ?thesis using assms(6) run by (auto simp: commands_typed_def)
qed

theorem submit_keeps_types_witness:
  "commands_typed sample_coercions (fst (snd (submit sample_coercions sample_providers sample_principal 1 SET_HEATER
      [(''on'', JBool True)] ''c1'' (sample_gateway, (False, 0)))))"
proof -
  obtain r g' w' where run: "submit sample_coercions sample_providers sample_principal 1 SET_HEATER
      [(''on'', JBool True)] ''c1'' (sample_gateway, (False, 0)) = (r, g', w')" by (metis prod.exhaust)
  have "commands_typed sample_coercions sample_gateway"
    by (simp add: commands_typed_def sample_gateway_def new_gateway_def)
  moreover have "registry_inv (gw_registry sample_gateway)" "command_store_inv (gw_commands sample_gateway)"
    using sample_registry_inv sample_store_inv by simp_all
  ultimately show ?thesis
    using submit_keeps_types[OF _ _ sample_wired sample_coercions_exact _ run] run by simp
qed

text \<open>
  A submission never changes what a device is: identity, capabilities, limits and the
  provider behind it stay as discovery declared them, and the registry stays consistent,
  for adapters that hand over valid states.
\<close>

lemma submit_keeps_devices:
  assumes "registry_inv (gw_registry g)"
    and "\<forall>n p. provs n = Some p \<longrightarrow> adapter_contract p refs world_ok" and "world_ok w"
    and "submit co provs pr i a raw corr (g, w) = (r, g', w')"
  shows "registry_inv (gw_registry g') \<and> reg_refs (gw_registry g') = reg_refs (gw_registry g) \<and>
    (\<forall>j. rel_option same_identity (od_get (reg_devices (gw_registry g)) j)
            (od_get (reg_devices (gw_registry g')) j)) \<and>
    world_ok w'"
  using submit_evolves[where provs = provs and refs = refs and world_ok = world_ok and w = w, OF assms(1), of co pr i a raw corr] assms
  by (simp add: evolves_def)

end
