(* ===== verification/Device_Properties.thy ===== *)
theory Device_Properties
  imports Sample_Gateway
begin

section \<open>What the device service guarantees\<close>

text \<open>
  The properties of discovery and of \<open>DeviceService.ingest\<close>: the registry stays a consistent
  mapping, an observation touches one device and only what it reports, and the derived
  "last filtered" time is the one its definition asks for.
\<close>

text \<open>
  When an event of each type is due, from the two views of the device alone: the documented
  meaning of the event types, each on its own.
\<close>

fun due_event :: "device \<Rightarrow> device \<Rightarrow> event_type \<Rightarrow> bool" where
  "due_event b a DEVICE_AVAILABILITY_CHANGED \<longleftrightarrow> dev_availability b \<noteq> dev_availability a"
| "due_event b a DEVICE_STATE_CHANGED \<longleftrightarrow> dev_state b \<noteq> dev_state a"
| "due_event b a POOL_TEMPERATURE_CHANGED \<longleftrightarrow> dev_kind a = POOL \<and>
     ds_current_temperature_c (dev_state b) \<noteq> ds_current_temperature_c (dev_state a)"
| "due_event b a POOL_TARGET_TEMPERATURE_CHANGED \<longleftrightarrow> dev_kind a = POOL \<and>
     ds_target_temperature_c (dev_state b) \<noteq> ds_target_temperature_c (dev_state a)"
| "due_event b a APPLIANCE_PROGRAM_STARTED \<longleftrightarrow> dev_kind a \<in> {WASHING_MACHINE, DISHWASHER} \<and>
     ds_program (dev_state b) \<noteq> Some program_state.RUNNING \<and> ds_program (dev_state a) = Some program_state.RUNNING"
| "due_event b a APPLIANCE_PROGRAM_FINISHED \<longleftrightarrow> dev_kind a \<in> {WASHING_MACHINE, DISHWASHER} \<and>
     ds_program (dev_state b) \<noteq> Some FINISHED \<and> ds_program (dev_state a) = Some FINISHED"
| "due_event b a _ \<longleftrightarrow> False"

lemma transition_types_due:
  "transition_types before after =
     filter (due_event before after)
       [DEVICE_AVAILABILITY_CHANGED, DEVICE_STATE_CHANGED, POOL_TEMPERATURE_CHANGED,
        POOL_TARGET_TEMPERATURE_CHANGED, APPLIANCE_PROGRAM_STARTED, APPLIANCE_PROGRAM_FINISHED]"
  by (auto simp: transition_types_def Let_def)

text \<open>
  C15. An observation updates exactly the device it is about. The reported fields overlay the
  held ones, the availability is the reported one, the freshness times advance only with an
  online report. It publishes, in this order and each at most once: a change of availability, a
  change of state, and with it a change of a pool's temperature or setpoint and the start or end of an
  appliance's program, each exactly if the two views of the device differ in that respect. The
  adapter must not itself report when the pump started, which none does.
\<close>

theorem ingest_updates_one:
  assumes "registry_inv (gw_registry g)" and "id_for_ref ref (gw_registry g) = Some i"
    and "svc_get i g = Inr before" and "ds_filter_last_started_at (ps_state st) = None"
    and "ingest ref st src corr g = (r, g')"
  shows "\<exists>after t. r = Inr (Some after) \<and> svc_get i g' = Inr after \<and>
    (\<forall>j. j \<noteq> i \<longrightarrow> svc_get j g' = svc_get j g) \<and>
    same_identity before after \<and> dev_availability after = ps_availability st \<and>
    (dev_state after)\<lparr>ds_filter_last_started_at := None\<rparr> =
      merged_with ((dev_state before)\<lparr>ds_filter_last_started_at := None\<rparr>) (ps_state st) \<and>
    dev_state_observed_at after =
      (if ps_availability st = availability.ONLINE then ps_observed_at st
       else dev_state_observed_at before) \<and>
    gw_bus g' = fold bus_publish
      (map (\<lambda>ty. device_event ty t i corr)
        (filter (due_event before after)
          [DEVICE_AVAILABILITY_CHANGED, DEVICE_STATE_CHANGED, POOL_TEMPERATURE_CHANGED,
           POOL_TARGET_TEMPERATURE_CHANGED, APPLIANCE_PROGRAM_STARTED, APPLIANCE_PROGRAM_FINISHED])) (gw_bus g)"
proof -
  have dev: "od_get (reg_devices (gw_registry g)) i = Some before"
    using assms(3) by (simp add: svc_get_Inr)
  let ?after = "applied before (fst (with_derived before (ps_state st) g)) (ps_availability st)
    (ps_observed_at st) src"
  note facts = ingest_devices[OF assms(1,2) dev, of st src corr]
  have r: "r = Inr (Some ?after)" and g': "g' = snd (ingest ref st src corr g)"
    using facts(1) assms(5) by simp_all
  have other: "svc_get j g' = svc_get j g" if "j \<noteq> i" for j
    using that facts(2) by (simp add: g' svc_get_def reg_require_def)
  have self: "svc_get i g' = Inr ?after" using facts(2) by (simp add: g' svc_get_Inr)
  have state: "(dev_state ?after)\<lparr>ds_filter_last_started_at := None\<rparr> =
      merged_with ((dev_state before)\<lparr>ds_filter_last_started_at := None\<rparr>) (ps_state st)"
    using assms(4)
    by (simp add: with_derived_def Let_def split_beta merged_with_def)
  have seen: "dev_state_observed_at ?after =
      (if ps_availability st = availability.ONLINE then ps_observed_at st
       else dev_state_observed_at before)"
    by (simp add: applied_def Let_def)
  show ?thesis
    by (intro exI[of _ ?after]
        exI[of _ "gw_clock g (gw_ticks (snd (with_derived before (ps_state st) g)))"])
      (use r self other state seen facts(3) in
        \<open>simp add: g' same_identity_def del: filter.simps flip: transition_types_due\<close>)
qed

lemma sample_id_for_ref: "id_for_ref sample_ref sample_registry = Some 1"
  by (simp add: id_for_ref_def sample_registry_def od_get_def)

theorem ingest_updates_one_witness:
  "\<exists>after t. svc_get 1 (snd (ingest sample_ref (sample_state True) PROVIDER_EVENT None sample_gateway)) = Inr after \<and>
    dev_state_observed_at after = 5 \<and> ds_heater (dev_state after) = Some True \<and>
    gw_bus (snd (ingest sample_ref (sample_state True) PROVIDER_EVENT None sample_gateway)) =
      bus_publish (device_event POOL_TARGET_TEMPERATURE_CHANGED t 1 None)
        (bus_publish (device_event DEVICE_STATE_CHANGED t 1 None) (new_bus 8))"
proof -
  have inv: "registry_inv (gw_registry sample_gateway)" using sample_registry_inv by simp
  have ref: "id_for_ref sample_ref (gw_registry sample_gateway) = Some 1"
    using sample_id_for_ref by simp
  have dev: "svc_get 1 sample_gateway = Inr sample_device" by (simp add: svc_get_Inr)
  obtain r g' where run: "ingest sample_ref (sample_state True) PROVIDER_EVENT None sample_gateway = (r, g')"
    by fastforce
  have no: "ds_filter_last_started_at (ps_state (sample_state True)) = None"
    by (simp add: sample_state_def empty_state_def)
  let ?all = "[DEVICE_AVAILABILITY_CHANGED, DEVICE_STATE_CHANGED, POOL_TEMPERATURE_CHANGED,
    POOL_TARGET_TEMPERATURE_CHANGED, APPLIANCE_PROGRAM_STARTED, APPLIANCE_PROGRAM_FINISHED]"
  obtain after t where a: "svc_get 1 g' = Inr after" "same_identity sample_device after"
      "dev_availability after = ps_availability (sample_state True)"
      "(dev_state after)\<lparr>ds_filter_last_started_at := None\<rparr> =
        merged_with ((dev_state sample_device)\<lparr>ds_filter_last_started_at := None\<rparr>) (ps_state (sample_state True))"
      "dev_state_observed_at after =
        (if ps_availability (sample_state True) = availability.ONLINE then ps_observed_at (sample_state True)
         else dev_state_observed_at sample_device)"
      "gw_bus g' = fold bus_publish (map (\<lambda>ty. device_event ty t 1 None)
        (filter (due_event sample_device after) ?all)) (gw_bus sample_gateway)"
    using ingest_updates_one[OF inv ref dev no run] by blast
  have "(dev_state after)\<lparr>ds_filter_last_started_at := None\<rparr> =
      empty_state\<lparr>ds_heater := Some True, ds_target_temperature_c := Some 36\<rparr>"
    unfolding a(4) by (simp add: sample_state_def merged_with_def empty_state_def)
  then have st: "ds_heater (dev_state after) = Some True" "ds_target_temperature_c (dev_state after) = Some 36"
      "ds_current_temperature_c (dev_state after) = None"
    by (cases "dev_state after"; simp add: empty_state_def)+
  have "ds_heater empty_state = None" by (simp add: empty_state_def)
  with st(1) have ne: "empty_state \<noteq> dev_state after" by auto
  have "filter (due_event sample_device after) ?all = [DEVICE_STATE_CHANGED, POOL_TARGET_TEMPERATURE_CHANGED]"
    using st a(2,3) ne by (simp add: sample_state_def same_identity_def) (simp add: empty_state_def)
  with a run st show ?thesis by (auto simp: sample_state_def)
qed

text \<open>
  "Last filtered" is the time of the last observation that saw the pump come on: over any
  sequence of observations of a device, by an adapter that does not report that time itself,
  the gateway's view of the pump is what the specification \<open>pump_step\<close> computes from the
  reported pump states and the clock readings.
\<close>

lemma last_filtered_refines:
  assumes "registry_inv (gw_registry g)" and "id_for_ref ref (gw_registry g) = Some i"
    and "svc_get i g = Inr d"
    and "\<forall>st \<in> set sts. ds_filter_last_started_at (ps_state st) = None \<and> device_state_ok (ps_state st)"
  shows "\<exists>d'. svc_get i (ingest_all ref src sts g) = Inr d' \<and>
    pump_view (dev_state d') =
      fold pump_step (zip (map (ds_filter_pump \<circ> ps_state) sts) (report_times ref src sts g))
        (pump_view (dev_state d))"
  using ingest_all_pump[OF assms(1,2) _ assms(4), of d src] assms(3) by (simp add: svc_get_Inr)

definition pump_report :: "bool \<Rightarrow> provider_state" where
  "pump_report b =
     \<lparr>ps_state = empty_state\<lparr>ds_filter_pump := Some b\<rparr>, ps_availability = availability.ONLINE,
      ps_observed_at = 9\<rparr>"

text \<open>
  What the carry-forward of \<open>_with_derived\<close> adds: nothing, since merging already keeps a field
  that an observation leaves out.
\<close>

lemma carry_forward_redundant:
  assumes "\<not> (filtering s \<and> \<not> filtering (dev_state before))"
  shows "merged_with (dev_state before) (fst (with_derived before s g)) = merged_with (dev_state before) s"
  unfolding with_derived_def if_not_P[OF assms] by (simp add: Let_def merged_with_def)

text \<open>
  C16. Discovery leaves a consistent registry: every registered reference leads to its device
  and back, under the identifier derived from it, for adapters that keep their contract, if
  the references they hand out do not collide, also when an adapter fails half way.
\<close>

theorem bootstrap_consistent:
  assumes "\<forall>p \<in> set ps. adapter_contract p refs world_ok" and "world_ok w"
    and "inj_on (id_of_ref h salt) (discovered h ps (g, w))"
    and "gw_registry g = new_registry salt"
    and "bootstrap h ps (g, w) = (r, g', w')"
  shows "world_ok w' \<and> registry_inv (gw_registry g') \<and> registry_keyed h (gw_registry g') \<and>
    (\<forall>i d. svc_get i g' = Inr d \<longrightarrow> dev_id d = i \<and>
       (\<exists>ref \<in> refs. ref_for i (gw_registry g') = Inr ref \<and> id_for_ref ref (gw_registry g') = Some i))"
proof -
  let ?known = "discovered h ps (g, w)"
  have start: "discovery_inv h ?known (gw_registry g)"
    by (simp add: assms(4) discovery_inv_def registry_inv_new registry_keyed_new)
      (simp add: new_registry_def)
  have inj: "inj_on (id_of_ref h (reg_id_salt (gw_registry g))) ?known"
    using assms(3,4) by (simp add: new_registry_def)
  have inv: "discovery_inv h ?known (gw_registry g')" and world: "world_ok w'" and known: "?known \<subseteq> refs"
    using bootstrap_inv[OF assms(1) start inj order.refl assms(2,5)] by blast+
  from inv have reg: "registry_inv (gw_registry g')" by (simp add: discovery_inv_def)
  have "dev_id d = i \<and> (\<exists>ref \<in> refs. ref_for i (gw_registry g') = Inr ref \<and> id_for_ref ref (gw_registry g') = Some i)"
    if "svc_get i g' = Inr d" for i d
  proof -
    have dev: "od_get (reg_devices (gw_registry g')) i = Some d" using that by (simp add: svc_get_Inr)
    obtain ref where ref: "ref_for i (gw_registry g') = Inr ref" "id_for_ref ref (gw_registry g') = Some i"
      using ref_for_known[OF reg dev] by blast
    then have "(i, ref) \<in> set (reg_refs (gw_registry g'))"
      by (auto simp: ref_for_def dest: od_get_in split: option.splits)
    then have "ref \<in> refs" using inv known by (force simp: discovery_inv_def)
    with ref registry_invD(2)[OF reg dev] show ?thesis by blast
  qed
  with inv world show ?thesis by (simp add: discovery_inv_def)
qed

definition sample_discovery :: "(bool \<times> nat) device_provider" where
  "sample_discovery = sample_provider\<lparr>dp_discover_devices := (\<lambda>w. (Inr
     [\<lparr>pd_ref = sample_ref, pd_suggested_name = ''Pool'', pd_kind = POOL,
       pd_capabilities = [HEATING], pd_room_hint = Some ''Garden'', pd_constraints = no_constraints\<rparr>], w))\<rparr>"

theorem bootstrap_consistent_witness:
  "registry_inv (gw_registry (fst (snd (bootstrap (\<lambda>salt m. map of_char m) [sample_discovery]
     (new_gateway (\<lambda>n. 0) (\<lambda>n. 1) ''salt'' 8 50, (False, 0))))))"
proof -
  have con: "\<forall>p \<in> set [sample_discovery]. adapter_contract p {sample_ref} (\<lambda>w. True)"
    using sample_contract by (simp add: adapter_contract_def sample_discovery_def)
  obtain r g' w' where run: "bootstrap (\<lambda>salt m. map of_char m) [sample_discovery]
     (new_gateway (\<lambda>n. 0) (\<lambda>n. 1) ''salt'' 8 50, (False, 0)) = (r, g', w')"
    by (metis prod.collapse)
  have "gw_registry (new_gateway (\<lambda>n. 0) (\<lambda>n. 1) ''salt'' 8 50) = new_registry ''salt''"
    by (simp add: new_gateway_def)
  moreover have "discovered (\<lambda>salt m. map of_char m) [sample_discovery]
      (new_gateway (\<lambda>n. 0) (\<lambda>n. 1) ''salt'' 8 50, (False, 0)) \<subseteq> {sample_ref}"
    by (auto simp: sample_discovery_def split: prod.split sum.split)
  then have "inj_on (id_of_ref (\<lambda>salt m. map of_char m) ''salt'') (discovered (\<lambda>salt m. map of_char m) [sample_discovery]
      (new_gateway (\<lambda>n. 0) (\<lambda>n. 1) ''salt'' 8 50, (False, 0)))"
    by (rule inj_on_subset[rotated]) simp
  ultimately show ?thesis using bootstrap_consistent[OF con _ _ _ run] run by simp
qed

text \<open>
  One adapter that fails while it is asked stops discovery: the exception leaves \<open>bootstrap\<close>,
  and the adapters after it are never reached.
\<close>

lemma bootstrap_stops_at_failure:
  "dp_discover_devices p w = (Inl e, w1) \<Longrightarrow> bootstrap h (p # ps) (g, w) = (Inl e, g, w1)"
  by simp

end
