(* ===== verification/Rate_Limiter.thy ===== *)
theory Rate_Limiter
  imports Ordered_Dict
begin

section \<open>Token-bucket rate limiting\<close>

text \<open>
  \<open>ratelimit.py\<close>. The clock reading is an argument, in microseconds; the buckets count
  seconds, as \<open>datetime.timestamp()\<close> does. A key keeps its position at the end of the
  dictionary on every use, so the least recently used key is the one evicted.
\<close>

record bucket =
  bk_tokens :: rat
  bk_updated_at :: rat

record rate_limiter =
  rl_rate_per_second :: rat
  rl_burst :: rat
  rl_max_keys :: nat
  rl_buckets :: "(string, bucket) odict"

definition timestamp :: "datetime \<Rightarrow> rat" where
  "timestamp t = of_int t / of_int usec_per_sec"

definition new_rate_limiter :: "int \<Rightarrow> int option \<Rightarrow> nat \<Rightarrow> rate_limiter" where
  "new_rate_limiter rate_per_minute burst max_keys =
     \<lparr>rl_rate_per_second = of_int rate_per_minute / 60,
      rl_burst = of_int (case burst of None \<Rightarrow> rate_per_minute | Some b \<Rightarrow> b),
      rl_max_keys = max_keys,
      rl_buckets = []\<rparr>"

text \<open>The bucket of \<open>key\<close> before the request is charged, and the dictionary that holds it.\<close>

definition refill :: "rate_limiter \<Rightarrow> rat \<Rightarrow> bucket \<Rightarrow> bucket" where
  "refill rl now b =
     (let elapsed = max 0 (now - bk_updated_at b) in
      \<lparr>bk_tokens = min (rl_burst rl) (bk_tokens b + elapsed * rl_rate_per_second rl),
       bk_updated_at = now\<rparr>)"

definition touch :: "rate_limiter \<Rightarrow> rat \<Rightarrow> string \<Rightarrow> bucket \<times> (string, bucket) odict" where
  "touch rl now key =
     (case od_get (rl_buckets rl) key of
        None \<Rightarrow>
          (let b = \<lparr>bk_tokens = rl_burst rl, bk_updated_at = now\<rparr> in
           (b, od_set key b (od_evict (rl_max_keys rl) (rl_buckets rl))))
      | Some old \<Rightarrow>
          (let b = refill rl now old in
           (b, od_set key b (od_move_to_end key (rl_buckets rl)))))"

definition allow :: "rate_limiter \<Rightarrow> string \<Rightarrow> datetime \<Rightarrow> bool \<times> rate_limiter" where
  "allow rl key clock_now =
     (let (b, bs) = touch rl (timestamp clock_now) key in
      if bk_tokens b < 1 then (False, rl\<lparr>rl_buckets := bs\<rparr>)
      else
        (True,
         rl\<lparr>rl_buckets := od_set key (b\<lparr>bk_tokens := bk_tokens b - 1\<rparr>) bs\<rparr>))"

text \<open>A sequence of requests, each with its key and clock reading.\<close>

fun allow_all ::
  "rate_limiter \<Rightarrow> (string \<times> datetime) list \<Rightarrow> bool list \<times> rate_limiter"
where
  "allow_all rl [] = ([], rl)"
| "allow_all rl ((k, t) # rs) =
     (let (ok, rl1) = allow rl k t; (oks, rl2) = allow_all rl1 rs in (ok # oks, rl2))"

subsection \<open>Invariant\<close>

definition rate_limiter_inv :: "rate_limiter \<Rightarrow> bool" where
  "rate_limiter_inv rl \<longleftrightarrow>
     od_wf (rl_buckets rl) \<and> length (rl_buckets rl) \<le> rl_max_keys rl \<and>
     0 < rl_max_keys rl \<and> 0 \<le> rl_burst rl \<and> 0 \<le> rl_rate_per_second rl \<and>
     (\<forall>(k, b) \<in> set (rl_buckets rl). 0 \<le> bk_tokens b \<and> bk_tokens b \<le> rl_burst rl)"

lemma rate_limiter_inv_new:
  "0 \<le> rate \<Longrightarrow> (case burst of None \<Rightarrow> True | Some b \<Rightarrow> 0 \<le> b) \<Longrightarrow> 0 < n \<Longrightarrow>
     rate_limiter_inv (new_rate_limiter rate burst n)"
  by (auto simp: rate_limiter_inv_def new_rate_limiter_def split: option.splits)

lemma allow_config [simp]:
  "rl_rate_per_second (snd (allow rl k t)) = rl_rate_per_second rl"
  "rl_burst (snd (allow rl k t)) = rl_burst rl"
  "rl_max_keys (snd (allow rl k t)) = rl_max_keys rl"
  by (simp_all add: allow_def split: prod.splits)

lemma refill_bounds:
  "0 \<le> bk_tokens b \<Longrightarrow> 0 \<le> rl_burst rl \<Longrightarrow> 0 \<le> rl_rate_per_second rl \<Longrightarrow>
     0 \<le> bk_tokens (refill rl now b) \<and> bk_tokens (refill rl now b) \<le> rl_burst rl"
  by (simp add: refill_def Let_def)

lemma touch_inv:
  assumes "rate_limiter_inv rl" and "touch rl now key = (b, bs)"
  shows "od_wf bs \<and> length bs \<le> rl_max_keys rl \<and> od_get bs key = Some b \<and>
     0 \<le> bk_tokens b \<and> bk_tokens b \<le> rl_burst rl \<and>
     (\<forall>(k, b) \<in> set bs. 0 \<le> bk_tokens b \<and> bk_tokens b \<le> rl_burst rl)"
proof (cases "od_get (rl_buckets rl) key")
  case None
  let ?e = "od_evict (rl_max_keys rl) (rl_buckets rl)"
  have len: "length ?e < rl_max_keys rl"
    using assms(1) by (intro length_od_evict) (auto simp: rate_limiter_inv_def)
  have sub: "set ?e \<subseteq> set (rl_buckets rl)" by (rule set_od_evict)
  have wf: "od_wf ?e" using assms(1) by (simp add: rate_limiter_inv_def)
  from None assms(2) have eq: "b = \<lparr>bk_tokens = rl_burst rl, bk_updated_at = now\<rparr>"
    "bs = od_set key b ?e" by (auto simp: touch_def Let_def)
  show ?thesis
    using assms(1) len sub wf
    by (auto simp: eq rate_limiter_inv_def set_od_set length_od_set)
next
  case (Some old)
  let ?m = "od_move_to_end key (rl_buckets rl)"
  from Some assms(2) have eq: "b = refill rl now old" "bs = od_set key b ?m"
    by (auto simp: touch_def Let_def)
  have inv: "od_wf (rl_buckets rl)" using assms(1) by (simp add: rate_limiter_inv_def)
  have old: "(key, old) \<in> set (rl_buckets rl)" using Some by (rule od_get_in)
  then have "0 \<le> bk_tokens b \<and> bk_tokens b \<le> rl_burst rl"
    using assms(1) unfolding eq by (intro refill_bounds) (auto simp: rate_limiter_inv_def)
  moreover have "key \<in> fst ` set ?m" using old inv by force
  ultimately show ?thesis
    using assms(1) inv by (auto simp: eq(2) rate_limiter_inv_def set_od_set length_od_set)
qed

lemma allow_inv: "rate_limiter_inv rl \<Longrightarrow> rate_limiter_inv (snd (allow rl k t))"
proof -
  assume inv: "rate_limiter_inv rl"
  obtain b bs where t: "touch rl (timestamp t) k = (b, bs)" by fastforce
  note ti = touch_inv[OF inv t]
  then have "k \<in> fst ` set bs" by (force dest: od_get_in)
  with ti inv show ?thesis
    by (auto simp: allow_def t rate_limiter_inv_def Let_def set_od_set length_od_set)
qed

text \<open>What a request does to the bucket of its own key and to the others.\<close>

lemma allow_bucket:
  assumes "rate_limiter_inv rl" and "allow rl k t = (ok, rl')"
    and "touch rl (timestamp t) k = (b, bs)"
  shows "ok \<longleftrightarrow> 1 \<le> bk_tokens b"
    and "od_get (rl_buckets rl') k =
      Some (b\<lparr>bk_tokens := bk_tokens b - (if ok then 1 else 0)\<rparr>)"
  using assms touch_inv[OF assms(1,3)]
  by (auto simp: allow_def Let_def od_get_set split: if_splits)

lemma allow_other:
  assumes "rate_limiter_inv rl" and "j \<noteq> k"
    and "length (rl_buckets rl) < rl_max_keys rl \<or> od_get (rl_buckets rl) k \<noteq> None"
  shows "od_get (rl_buckets (snd (allow rl k t))) j = od_get (rl_buckets rl) j"
  using assms
  by (auto simp: allow_def touch_def Let_def od_get_set od_evict_def rate_limiter_inv_def
      split: option.splits)

text \<open>Every use of the limiter is a put on the bounded store of buckets.\<close>

interpretation buckets:
  bounded_store od_get
    "\<lambda>k b d. od_set k b (case od_get d k of None \<Rightarrow> od_evict (Suc n) d | Some _ \<Rightarrow> od_move_to_end k d)"
    length od_wf "Suc n" for n
proof (unfold_locales, goal_cases)
  case (3 s j k v w)
  then show ?case by (auto dest: od_get_evict split: option.splits)
next
  case (4 s k v)
  show ?case
  proof (cases "od_get s k")
    case None
    with 4 length_od_evict[of "Suc n" s] show ?thesis by (simp add: length_od_set)
  next
    case (Some b)
    then have "(k, b) \<in> set s" by (rule od_get_in)
    then have "k \<in> fst ` set s" by force
    with 4 Some show ?thesis by (simp add: length_od_set)
  qed
qed (auto split: option.splits)

subsection \<open>The budget of one key\<close>

text \<open>
  Along a run in which the clock does not go back and no bucket is evicted, the requests of
  a key that pass are covered by what the key could spend at the start plus what time
  refilled. \<open>potential rl k t\<close> is what \<open>k\<close> may spend at time \<open>t\<close>, before the cap.
\<close>

definition potential :: "rate_limiter \<Rightarrow> string \<Rightarrow> datetime \<Rightarrow> rat" where
  "potential rl k t =
     (case od_get (rl_buckets rl) k of
        None \<Rightarrow> rl_burst rl
      | Some b \<Rightarrow>
          bk_tokens b + rl_rate_per_second rl * (timestamp t - bk_updated_at b))"

text \<open>The bucket of \<open>k\<close> was last written no later than \<open>t\<close>.\<close>

definition not_ahead :: "rate_limiter \<Rightarrow> string \<Rightarrow> datetime \<Rightarrow> bool" where
  "not_ahead rl k t =
     (case od_get (rl_buckets rl) k of None \<Rightarrow> True | Some b \<Rightarrow> bk_updated_at b \<le> timestamp t)"

text \<open>There is room for every key of the run.\<close>

definition roomy :: "rate_limiter \<Rightarrow> string list \<Rightarrow> bool" where
  "roomy rl ks \<longleftrightarrow> card (fst ` set (rl_buckets rl) \<union> set ks) \<le> rl_max_keys rl"

definition spent :: "string \<Rightarrow> (string \<times> datetime) list \<Rightarrow> bool list \<Rightarrow> nat" where
  "spent k rs oks = length (filter (\<lambda>((j, t), ok). j = k \<and> ok) (zip rs oks))"

fun times_from :: "datetime \<Rightarrow> (string \<times> datetime) list \<Rightarrow> bool" where
  "times_from t [] = True"
| "times_from t ((k, u) # rs) = (t \<le> u \<and> times_from u rs)"

definition last_time :: "datetime \<Rightarrow> (string \<times> datetime) list \<Rightarrow> datetime" where
  "last_time t rs = (if rs = [] then t else snd (last rs))"

lemma timestamp_mono: "t \<le> u \<Longrightarrow> timestamp t \<le> timestamp u"
  by (simp add: timestamp_def usec_per_sec_def divide_right_mono)

lemma od_wf_length: "od_wf d \<Longrightarrow> length d = card (fst ` set d)"
  by (metis distinct_card length_map list.set_map od_wf_def)

lemma roomy_no_evict:
  assumes "rate_limiter_inv rl" and "roomy rl ks" and "j \<in> set ks"
  shows "length (rl_buckets rl) < rl_max_keys rl \<or> od_get (rl_buckets rl) j \<noteq> None"
proof (rule disjCI)
  assume "\<not> od_get (rl_buckets rl) j \<noteq> None"
  then have new: "j \<notin> fst ` set (rl_buckets rl)" by (simp add: od_get_None_iff)
  have "card (insert j (fst ` set (rl_buckets rl))) \<le> card (fst ` set (rl_buckets rl) \<union> set ks)"
    using assms(3) by (intro card_mono) auto
  with new assms show "length (rl_buckets rl) < rl_max_keys rl"
    by (simp add: roomy_def rate_limiter_inv_def od_wf_length)
qed

lemma allow_keys:
  assumes "rate_limiter_inv rl"
    and "length (rl_buckets rl) < rl_max_keys rl \<or> od_get (rl_buckets rl) k \<noteq> None"
  shows "fst ` set (rl_buckets (snd (allow rl k t))) = insert k (fst ` set (rl_buckets rl))"
  using assms
  by (auto simp: allow_def touch_def Let_def keys_od_set od_evict_def rate_limiter_inv_def
      split: option.splits)

lemma roomy_allow:
  assumes "rate_limiter_inv rl" and "roomy rl (k # ks)"
  shows "roomy (snd (allow rl k t)) ks"
proof -
  have "fst ` set (rl_buckets (snd (allow rl k t))) = insert k (fst ` set (rl_buckets rl))"
    by (rule allow_keys[OF assms(1) roomy_no_evict[OF assms]]) simp
  with assms(2) show ?thesis by (simp add: roomy_def)
qed

text \<open>One request: what the key spends is paid by its potential.\<close>

lemma allow_potential:
  assumes inv: "rate_limiter_inv rl" and room: "roomy rl (j # ks)"
    and ahead: "not_ahead rl k t" and tu: "t \<le> u" and al: "allow rl j u = (ok, rl')"
  shows "of_bool (j = k \<and> ok) + potential rl' k u
      \<le> potential rl k t + rl_rate_per_second rl * (timestamp u - timestamp t)"
    and "not_ahead rl' k u"
proof -
  let ?r = "rl_rate_per_second rl"
  have le: "timestamp t \<le> timestamp u" using tu by (rule timestamp_mono)
  have r: "0 \<le> ?r" using inv by (simp add: rate_limiter_inv_def)
  have cfg: "rl_rate_per_second rl' = ?r" "rl_burst rl' = rl_burst rl"
    using allow_config[of rl j u] al by simp_all
  have other: "od_get (rl_buckets rl') k = od_get (rl_buckets rl) k" if "j \<noteq> k"
    using allow_other[OF inv that[symmetric] roomy_no_evict[OF inv room], of u] al by simp
  obtain b bs where tb: "touch rl (timestamp u) j = (b, bs)" by fastforce
  note bk = allow_bucket[OF inv al tb]
  have upd: "bk_updated_at b = timestamp u"
    using tb by (auto simp: touch_def refill_def Let_def split: option.splits)
  have tok: "bk_tokens b \<le> potential rl k t + ?r * (timestamp u - timestamp t)" if "j = k"
  proof (cases "od_get (rl_buckets rl) k")
    case None
    with tb that r le show ?thesis by (auto simp: touch_def Let_def potential_def)
  next
    case (Some old)
    then have "bk_updated_at old \<le> timestamp u"
      using ahead le by (simp add: not_ahead_def)
    with Some tb that show ?thesis
      by (auto simp: touch_def refill_def Let_def potential_def algebra_simps)
  qed
  show "of_bool (j = k \<and> ok) + potential rl' k u
      \<le> potential rl k t + ?r * (timestamp u - timestamp t)"
  proof (cases "j = k")
    case True
    with bk tok upd show ?thesis by (simp add: potential_def)
  next
    case False
    moreover have "?r * timestamp t \<le> ?r * timestamp u" using le r by (rule mult_left_mono)
    ultimately show ?thesis using other
      by (auto simp: potential_def cfg algebra_simps split: option.splits)
  qed
  show "not_ahead rl' k u"
    using bk upd other ahead le
    by (cases "j = k") (auto simp: not_ahead_def split: option.splits)
qed

lemma allow_all_budget:
  assumes "rate_limiter_inv rl" and "roomy rl (map fst rs)" and "not_ahead rl k t"
    and "times_from t rs" and "allow_all rl rs = (oks, rl')"
  shows "of_nat (spent k rs oks)
      \<le> potential rl k t + rl_rate_per_second rl * (timestamp (last_time t rs) - timestamp t)"
  using assms
proof (induction rs arbitrary: rl t oks)
  case Nil
  then show ?case
    by (auto simp: spent_def potential_def not_ahead_def last_time_def rate_limiter_inv_def
        mult_nonneg_nonneg dest!: od_get_in split: option.splits)
next
  case (Cons r rs)
  obtain j u where r: "r = (j, u)" by (cases r)
  obtain ok rl1 where al: "allow rl j u = (ok, rl1)" by fastforce
  obtain oks1 where rest: "allow_all rl1 rs = (oks1, rl')" and oks: "oks = ok # oks1"
    using Cons.prems(5) by (auto simp: r al split: prod.splits)
  have room: "roomy rl (j # map fst rs)" using Cons.prems(2) by (simp add: r)
  have tu: "t \<le> u" and tr: "times_from u rs" using Cons.prems(4) by (simp_all add: r)
  note step = allow_potential[OF Cons.prems(1) room Cons.prems(3) tu al]
  have inv1: "rate_limiter_inv rl1" using allow_inv[OF Cons.prems(1), of j u] al by simp
  have room1: "roomy rl1 (map fst rs)" using roomy_allow[OF Cons.prems(1) room, of u] al by simp
  have rate: "rl_rate_per_second rl1 = rl_rate_per_second rl"
    using allow_config(1)[of rl j u] al by simp
  have lt: "last_time t (r # rs) = last_time u rs" by (simp add: last_time_def r)
  have "of_nat (spent k (r # rs) oks) = of_bool (j = k \<and> ok) + (of_nat (spent k rs oks1) :: rat)"
    by (simp add: spent_def r oks)
  with Cons.IH[OF inv1 room1 step(2) tr rest] step(1) show ?case
    by (simp add: lt rate algebra_simps)
qed

subsection \<open>Property\<close>

text \<open>
  C14. No client gets more requests than its budget, as long as nobody is forgotten. Over any sequence
  of requests from at most as many keys as the limiter tracks, with a clock that does not go back, the
  requests it lets through for one key are at most the burst plus the rate times the elapsed
  time. Both conditions are needed: a key that is pushed out by others comes back with a full
  bucket (\<open>evicted_key_is_full\<close>).
\<close>

theorem rate_budget:
  assumes "0 \<le> rate" and "0 \<le> (case burst of None \<Rightarrow> rate | Some b \<Rightarrow> b)" and "0 < max_keys"
    and "card (set (map fst rs)) \<le> max_keys" and "times_from t rs"
    and "allow_all (new_rate_limiter rate burst max_keys) rs = (oks, rl')"
  shows "of_nat (spent k rs oks) \<le>
      of_int (case burst of None \<Rightarrow> rate | Some b \<Rightarrow> b) +
      of_int rate / 60 * (timestamp (last_time t rs) - timestamp t)"
proof -
  let ?rl = "new_rate_limiter rate burst max_keys"
  have "rate_limiter_inv ?rl" using assms(1-3) by (intro rate_limiter_inv_new) (auto split: option.splits)
  moreover have "roomy ?rl (map fst rs)" using assms(4) by (simp add: roomy_def new_rate_limiter_def)
  moreover have "not_ahead ?rl k t" by (simp add: not_ahead_def new_rate_limiter_def)
  ultimately have "of_nat (spent k rs oks) \<le> potential ?rl k t +
      rl_rate_per_second ?rl * (timestamp (last_time t rs) - timestamp t)"
    using assms(5,6) by (rule allow_all_budget)
  then show ?thesis by (simp add: potential_def new_rate_limiter_def)
qed

theorem rate_budget_witness:
  "spent ''a'' [(''a'', 0), (''a'', 0), (''b'', 0), (''a'', 0)]
     (fst (allow_all (new_rate_limiter 2 None 5) [(''a'', 0), (''a'', 0), (''b'', 0), (''a'', 0)])) \<le> 2"
proof -
  let ?rs = "[(''a'', 0), (''a'', 0), (''b'', 0), (''a'', 0)]"
  obtain oks rl' where run: "allow_all (new_rate_limiter 2 None 5) ?rs = (oks, rl')" by fastforce
  have "of_nat (spent ''a'' ?rs oks) \<le> (2::rat)"
    using rate_budget[OF _ _ _ _ _ run, of 0 "''a''"] by (simp add: last_time_def card_insert_if)
  then show ?thesis using run by simp
qed

text \<open>
  A key the limiter does not track has a full bucket; and a full limiter forgets a key, however much
  it has just spent, when a new one comes: with room for one key, two keys that take turns
  are never refused.
\<close>

lemma untracked_key_is_full:
  "od_get (rl_buckets rl) k = None \<Longrightarrow> fst (allow rl k t) \<longleftrightarrow> 1 \<le> rl_burst rl"
  by (auto simp: allow_def touch_def Let_def)

lemma evicted_key_is_full:
  "fst (allow_all (new_rate_limiter 1 None 1) [(''a'', 0), (''b'', 0), (''a'', 0), (''b'', 0)]) = [True, True, True, True]"
  "fst (allow_all (new_rate_limiter 1 None 2) [(''a'', 0), (''b'', 0), (''a'', 0), (''b'', 0)]) = [True, True, False, False]"
  by code_simp+

end
