(* ===== verification/Settings.thy ===== *)
theory Settings
  imports Client_Auth Identity "HOL-Library.List_Lexorder" "HOL-Library.Char_ord"
begin

section \<open>Configuration\<close>

text \<open>
  \<open>config/settings.py\<close>: the typed settings, the bounds their fields declare, the splitting of
  comma-separated lists, and the validator that refuses an unsafe combination at startup.
  Secrets are strings. \<open>auth/registry.py\<close> builds the client registry from the settings.
\<close>

definition DEMO_ID_SALT :: string where
  "DEMO_ID_SALT = ''homeflow-demo-mode-public-salt''"

definition RELEASABLE_DOMAINS :: "string list" where
  "RELEASABLE_DOMAINS = [''light'', ''switch'', ''media_player'', ''climate'']"

datatype environment = DEVELOPMENT | TEST | PRODUCTION

record settings =
  st_env :: environment
  st_demo_mode :: bool
  st_api_host :: string
  st_api_port :: int
  st_log_level :: string
  st_allowed_hosts :: "string list"
  st_id_salt :: "string option"
  st_dev_client_token :: "string option"
  st_command_timeout_seconds :: rat
  st_reconcile_timeout_seconds :: rat
  st_stale_after_seconds :: int
  st_command_rate_limit_per_minute :: int
  st_websocket_rate_limit_per_minute :: int
  st_event_queue_size :: int
  st_web_client_dir :: "string option"
  st_home_assistant_enabled :: bool
  st_home_assistant_base_url :: "string option"
  st_home_assistant_token :: "string option"
  st_home_assistant_timeout_seconds :: rat
  st_home_assistant_write_enabled :: "string list"
  st_schedule_max_hours :: rat
  st_schedule_tick_seconds :: rat
  st_weather_enabled :: bool
  st_weather_latitude :: "rat option"
  st_weather_longitude :: "rat option"
  st_weather_poll_seconds :: rat
  st_weather_display_name :: string
  st_bestway_enabled :: bool
  st_bestway_host :: "string option"
  st_bestway_port :: int
  st_bestway_poll_seconds :: rat
  st_bestway_profile :: string
  st_bestway_profile_path :: "string option"
  st_bestway_trust_profile :: bool
  st_bestway_write_enabled :: "string list"
  st_demo_tick_seconds :: rat
  st_demo_failure_rate :: rat

definition default_settings :: settings where
  "default_settings =
     \<lparr>st_env = DEVELOPMENT, st_demo_mode = True, st_api_host = ''127.0.0.1'', st_api_port = 8000,
      st_log_level = ''INFO'', st_allowed_hosts = [''*''], st_id_salt = None,
      st_dev_client_token = None, st_command_timeout_seconds = 8,
      st_reconcile_timeout_seconds = 4, st_stale_after_seconds = 120,
      st_command_rate_limit_per_minute = 60, st_websocket_rate_limit_per_minute = 120,
      st_event_queue_size = 256, st_web_client_dir = None, st_home_assistant_enabled = False,
      st_home_assistant_base_url = None, st_home_assistant_token = None,
      st_home_assistant_timeout_seconds = 10, st_home_assistant_write_enabled = [],
      st_schedule_max_hours = 24, st_schedule_tick_seconds = 20, st_weather_enabled = False,
      st_weather_latitude = None, st_weather_longitude = None, st_weather_poll_seconds = 900,
      st_weather_display_name = ''Outdoor'', st_bestway_enabled = False, st_bestway_host = None,
      st_bestway_port = 12416, st_bestway_poll_seconds = 15,
      st_bestway_profile = ''airjet-candidate'', st_bestway_profile_path = None,
      st_bestway_trust_profile = False, st_bestway_write_enabled = [],
      st_demo_tick_seconds = 2, st_demo_failure_rate = 0\<rparr>"

text \<open>The bounds the fields declare.\<close>

definition opt_within :: "rat \<Rightarrow> rat \<Rightarrow> rat option \<Rightarrow> bool" where
  "opt_within lo hi x = (case x of None \<Rightarrow> True | Some v \<Rightarrow> lo \<le> v \<and> v \<le> hi)"

definition fields_ok :: "settings \<Rightarrow> bool" where
  "fields_ok s \<longleftrightarrow>
     1 \<le> st_api_port s \<and> st_api_port s \<le> 65535 \<and>
     0 < st_command_timeout_seconds s \<and> st_command_timeout_seconds s \<le> 60 \<and>
     0 < st_reconcile_timeout_seconds s \<and> st_reconcile_timeout_seconds s \<le> 30 \<and>
     5 \<le> st_stale_after_seconds s \<and> 1 \<le> st_command_rate_limit_per_minute s \<and>
     1 \<le> st_websocket_rate_limit_per_minute s \<and> 8 \<le> st_event_queue_size s \<and>
     0 < st_home_assistant_timeout_seconds s \<and> st_home_assistant_timeout_seconds s \<le> 60 \<and>
     0 < st_schedule_max_hours s \<and> st_schedule_max_hours s \<le> 48 \<and>
     1 \<le> st_schedule_tick_seconds s \<and> st_schedule_tick_seconds s \<le> 300 \<and>
     opt_within (- 90) 90 (st_weather_latitude s) \<and> opt_within (- 180) 180 (st_weather_longitude s) \<and>
     300 \<le> st_weather_poll_seconds s \<and> st_weather_poll_seconds s \<le> 21600 \<and>
     1 \<le> st_bestway_port s \<and> st_bestway_port s \<le> 65535 \<and>
     2 \<le> st_bestway_poll_seconds s \<and> st_bestway_poll_seconds s \<le> 300 \<and>
     0 < st_demo_tick_seconds s \<and> 0 \<le> st_demo_failure_rate s \<and> st_demo_failure_rate s \<le> 1"

text \<open>\<open>value.split(",")\<close>, and the entries that are left when blanks are stripped.\<close>

fun split_on :: "char \<Rightarrow> string \<Rightarrow> string list" where
  "split_on c [] = [[]]"
| "split_on c (x # xs) =
     (if x = c then [] # split_on c xs
      else (case split_on c xs of [] \<Rightarrow> [[x]] | w # ws \<Rightarrow> (x # w) # ws))"

definition split_list :: "string \<Rightarrow> string list" where
  "split_list v = map py_strip (filter (\<lambda>item. py_strip item \<noteq> []) (split_on (CHR '','') v))"

text \<open>Each refusal of the validator, in the order of its checks.\<close>

datatype refusal =
    DemoModeInProduction
  | DevTokenInProduction
  | WildcardHostInProduction
  | WeatherWithoutLocation
  | HomeAssistantIncomplete
  | UnreleasableDomains "string list"
  | DemoModeWithHomeAssistant
  | BestwayWithoutHost
  | BestwayWriteWithoutTrust
  | DemoModeWithBestway
  | SaltMissing

definition unreleasable :: "settings \<Rightarrow> string list" where
  "unreleasable s =
     sort (remdups (filter (\<lambda>d. d \<notin> set RELEASABLE_DOMAINS) (st_home_assistant_write_enabled s)))"

definition fail_closed :: "settings \<Rightarrow> refusal option" where
  "fail_closed s =
     (if st_env s = PRODUCTION \<and> st_demo_mode s then Some DemoModeInProduction
      else if st_env s = PRODUCTION \<and> st_dev_client_token s \<noteq> None then Some DevTokenInProduction
      else if st_env s = PRODUCTION \<and> ''*'' \<in> set (st_allowed_hosts s)
      then Some WildcardHostInProduction
      else if st_weather_enabled s \<and>
        (st_weather_latitude s = None \<or> st_weather_longitude s = None)
      then Some WeatherWithoutLocation
      else if st_home_assistant_enabled s \<and>
        \<not> (truthy_str (st_home_assistant_base_url s) \<and> truthy_str (st_home_assistant_token s))
      then Some HomeAssistantIncomplete
      else if unreleasable s \<noteq> [] then Some (UnreleasableDomains (unreleasable s))
      else if st_home_assistant_enabled s \<and> st_demo_mode s then Some DemoModeWithHomeAssistant
      else if st_bestway_enabled s \<and> \<not> truthy_str (st_bestway_host s) then Some BestwayWithoutHost
      else if st_bestway_write_enabled s \<noteq> [] \<and> \<not> st_bestway_trust_profile s
      then Some BestwayWriteWithoutTrust
      else if st_bestway_enabled s \<and> st_demo_mode s then Some DemoModeWithBestway
      else if \<not> st_demo_mode s \<and> st_id_salt s = None then Some SaltMissing
      else None)"

text \<open>A process that runs has these settings: construction succeeded.\<close>

definition settings_valid :: "settings \<Rightarrow> bool" where
  "settings_valid s \<longleftrightarrow> fields_ok s \<and> fail_closed s = None"

definition effective_id_salt :: "settings \<Rightarrow> string" where
  "effective_id_salt s = (case st_id_salt s of Some salt \<Rightarrow> salt | None \<Rightarrow> DEMO_ID_SALT)"

text \<open>\<open>build_client_registry\<close> of \<open>auth/registry.py\<close>.\<close>

definition build_client_registry ::
  "hmac \<Rightarrow> (string \<Rightarrow> string) \<Rightarrow> settings \<Rightarrow> registered_client list"
where
  "build_client_registry h digest s =
     (case st_dev_client_token s of
        None \<Rightarrow> []
      | Some token \<Rightarrow>
          if st_env s = PRODUCTION then []
          else
            (let salt = effective_id_salt s in
             [\<lparr>rc_client_id = derive_uuid h salt [''client'', ''development''],
               rc_user_id = derive_uuid h salt [''user'', ''development''],
               rc_display_name = ''Development client'', rc_token_sha256 = digest token,
               rc_revoked = False\<rparr>]))"

subsection \<open>Lemmas\<close>

lemma default_settings_valid: "settings_valid default_settings"
  by (simp add: settings_valid_def fields_ok_def fail_closed_def default_settings_def opt_within_def
      unreleasable_def)

lemma split_on_ne [simp]: "split_on c s \<noteq> []"
  by (cases s) (auto split: list.splits)

lemma split_on_word: "c \<notin> set w \<Longrightarrow> split_on c w = [w]"
  by (induction w) auto

lemma split_on_app: "c \<notin> set w \<Longrightarrow> split_on c (w @ c # s) = w # split_on c s"
  by (induction w) auto

lemma split_on_join: "ws \<noteq> [] \<Longrightarrow> \<forall>w \<in> set ws. c \<notin> set w \<Longrightarrow> split_on c (py_join [c] ws) = ws"
proof (induction ws)
  case (Cons w ws)
  then show ?case by (cases ws) (simp_all add: split_on_word split_on_app)
qed simp

definition clean_item :: "string \<Rightarrow> bool" where
  "clean_item w \<longleftrightarrow> w \<noteq> [] \<and> py_strip w = w \<and> CHR '','' \<notin> set w"

lemma unreleasable_Nil: "unreleasable s = [] \<longleftrightarrow> set (st_home_assistant_write_enabled s) \<subseteq> set RELEASABLE_DOMAINS"
proof -
  have "unreleasable s = [] \<longleftrightarrow> set (unreleasable s) = {}" by simp
  also have "\<dots> \<longleftrightarrow> set (st_home_assistant_write_enabled s) \<subseteq> set RELEASABLE_DOMAINS"
    by (auto simp: unreleasable_def)
  finally show ?thesis .
qed

text \<open>What a validator that refuses nothing has seen, one check at a time.\<close>

lemma if_Some_None: "(if b then Some x else r) = None \<longleftrightarrow> \<not> b \<and> r = None"
  by simp

lemma fail_closed_None:
  assumes "fail_closed s = None"
  shows "st_env s = PRODUCTION \<Longrightarrow> \<not> st_demo_mode s"
    and "st_env s = PRODUCTION \<Longrightarrow> st_dev_client_token s = None"
    and "st_env s = PRODUCTION \<Longrightarrow> ''*'' \<notin> set (st_allowed_hosts s)"
    and "unreleasable s = []"
    and "\<not> (st_home_assistant_enabled s \<and> st_demo_mode s)"
    and "\<not> (st_bestway_enabled s \<and> st_demo_mode s)"
    and "st_bestway_write_enabled s \<noteq> [] \<Longrightarrow> st_bestway_trust_profile s"
    and "\<not> st_demo_mode s \<Longrightarrow> st_id_salt s \<noteq> None"
proof -
  note checks = assms[unfolded fail_closed_def if_Some_None]
  show "st_env s = PRODUCTION \<Longrightarrow> \<not> st_demo_mode s" using checks by (elim conjE) simp
  show "st_env s = PRODUCTION \<Longrightarrow> st_dev_client_token s = None" using checks by (elim conjE) simp
  show "st_env s = PRODUCTION \<Longrightarrow> ''*'' \<notin> set (st_allowed_hosts s)" using checks by (elim conjE) simp
  show "unreleasable s = []" using checks by (elim conjE) simp
  show "\<not> (st_home_assistant_enabled s \<and> st_demo_mode s)" using checks by (elim conjE)
  show "\<not> (st_bestway_enabled s \<and> st_demo_mode s)" using checks by (elim conjE)
  show "st_bestway_write_enabled s \<noteq> [] \<Longrightarrow> st_bestway_trust_profile s" using checks by (elim conjE) simp
  show "\<not> st_demo_mode s \<Longrightarrow> st_id_salt s \<noteq> None" using checks by (elim conjE) simp
qed

subsection \<open>Properties\<close>

text \<open>
  C20. Configuration fails closed. A process that starts never serves synthetic devices, a
  development credential or a wildcard host in production; never reaches real hardware in
  demo mode; never releases a door domain or an unverified layout for writing; and never
  derives public identifiers of real devices from the public demo salt.
\<close>

theorem settings_fail_closed:
  assumes "settings_valid s"
  shows "(st_env s = PRODUCTION \<longrightarrow>
      \<not> st_demo_mode s \<and> st_dev_client_token s = None \<and> ''*'' \<notin> set (st_allowed_hosts s) \<and>
      build_client_registry h digest s = []) \<and>
    (st_demo_mode s \<longrightarrow> \<not> st_home_assistant_enabled s \<and> \<not> st_bestway_enabled s) \<and>
    set (st_home_assistant_write_enabled s) \<subseteq> set RELEASABLE_DOMAINS \<and>
    (st_bestway_write_enabled s \<noteq> [] \<longrightarrow> st_bestway_trust_profile s) \<and>
    (\<not> st_demo_mode s \<longrightarrow> st_id_salt s = Some (effective_id_salt s))"
proof -
  have none: "fail_closed s = None" using assms by (simp add: settings_valid_def)
  note refused = fail_closed_None[OF none]
  have "build_client_registry h digest s = []" if "st_env s = PRODUCTION"
    using that refused(2) by (simp add: build_client_registry_def)
  then show ?thesis
    using refused unreleasable_Nil[of s] by (auto simp: effective_id_salt_def)
qed

definition production_settings :: settings where
  "production_settings =
     default_settings\<lparr>st_env := PRODUCTION, st_demo_mode := False,
       st_allowed_hosts := [''homeflow.internal''], st_id_salt := Some ''secret'',
       st_home_assistant_enabled := True, st_home_assistant_base_url := Some ''http://ha'',
       st_home_assistant_token := Some ''token'', st_home_assistant_write_enabled := [''light'']\<rparr>"

lemma production_settings_valid: "settings_valid production_settings"
  by (simp add: settings_valid_def fields_ok_def fail_closed_def production_settings_def
      default_settings_def opt_within_def unreleasable_def RELEASABLE_DOMAINS_def)

theorem settings_fail_closed_witness:
  "build_client_registry (\<lambda>salt m. []) (\<lambda>t. t) production_settings = []"
  using settings_fail_closed[OF production_settings_valid, of "\<lambda>salt m. []" "\<lambda>t. t"]
  by (simp add: production_settings_def)

text \<open>
  A comma-separated list reads back as its items: for any items without commas and
  without blanks at their ends, splitting their joined text gives exactly them, in order.
\<close>

lemma split_list_roundtrip:
  assumes "\<forall>w \<in> set ws. clean_item w"
  shows "split_list (py_join '','' ws) = ws"
proof (cases ws)
  case Nil
  then show ?thesis by (simp add: split_list_def py_strip_def)
next
  case (Cons w vs)
  then have "split_on (CHR '','') (py_join '','' ws) = ws"
    using assms by (intro split_on_join) (auto simp: clean_item_def)
  with assms show ?thesis
    by (simp add: split_list_def clean_item_def filter_id_conv map_idI)
qed

end
