(* ===== verification/Text_Format.thy ===== *)
theory Text_Format
  imports Prelude
begin

unbundle bit_operations_syntax

section \<open>Textual forms of identifiers and times\<close>

text \<open>
  What the standard library writes for \<open>str(uuid)\<close> and \<open>datetime.isoformat()\<close>, which the
  services put into event payloads and audit entries. A time is counted in microseconds from
  1970-01-01T00:00:00+00:00.
\<close>

definition digit_char :: "nat \<Rightarrow> char" where
  "digit_char n = char_of (if n < 10 then 48 + n else 87 + n)"

text \<open>\<open>w\<close> digits of \<open>n\<close> to the base \<open>b\<close>, most significant first.\<close>

fun digits :: "nat \<Rightarrow> nat \<Rightarrow> nat \<Rightarrow> string" where
  "digits b 0 n = []"
| "digits b (Suc w) n = digits b w (n div b) @ [digit_char (n mod b)]"

text \<open>The 32 hexadecimal digits of an identifier, from its nibbles.\<close>

definition nibble :: "nat \<Rightarrow> uuid \<Rightarrow> uuid" where
  "nibble k u = drop_bit (4 * k) u AND 15"

definition uuid_hex :: "uuid \<Rightarrow> string" where
  "uuid_hex u = map (\<lambda>k. digit_char (unat (nibble (31 - k) u))) [0..<32]"

definition uuid_str :: "uuid \<Rightarrow> string" where
  "uuid_str u =
     (let h = uuid_hex u in
      take 8 h @ ''-'' @ take 4 (drop 8 h) @ ''-'' @ take 4 (drop 12 h) @ ''-'' @
      take 4 (drop 16 h) @ ''-'' @ drop 20 h)"

text \<open>The proleptic Gregorian date of a day count: year, month, day.\<close>

definition civil_from_days :: "int \<Rightarrow> int \<times> int \<times> int" where
  "civil_from_days days =
     (let z = days + 719468;
          era = z div 146097; doe = z mod 146097;
          yoe = (doe - doe div 1460 + doe div 36524 - doe div 146096) div 365;
          doy = doe - (365 * yoe + yoe div 4 - yoe div 100);
          mp = (5 * doy + 2) div 153;
          d = doy - (153 * mp + 2) div 5 + 1;
          m = (if mp < 10 then mp + 3 else mp - 9)
      in (yoe + era * 400 + (if m \<le> 2 then 1 else 0), m, d))"

definition isoformat :: "datetime \<Rightarrow> string" where
  "isoformat t =
     (let (y, m, d) = civil_from_days (t div 86400000000);
          us = t mod 86400000000; secs = us div usec_per_sec; frac = us mod usec_per_sec
      in digits 10 4 (nat y) @ ''-'' @ digits 10 2 (nat m) @ ''-'' @ digits 10 2 (nat d) @ ''T'' @
         digits 10 2 (nat (secs div 3600)) @ '':'' @ digits 10 2 (nat (secs div 60 mod 60)) @ '':'' @
         digits 10 2 (nat (secs mod 60)) @
         (if frac = 0 then [] else ''.'' @ digits 10 6 (nat frac)) @ ''+00:00'')"

lemma length_digits [simp]: "length (digits b w n) = w"
  by (induction w arbitrary: n) auto

lemma digit_char_inject: "m < 16 \<Longrightarrow> n < 16 \<Longrightarrow> digit_char m = digit_char n \<longleftrightarrow> m = n"
  by (auto simp: digit_char_def dest: arg_cong[where f = "of_char :: char \<Rightarrow> nat"])

text \<open>Two identifiers never share their textual form.\<close>

lemma nibble_less: "unat (nibble k u) < 16"
proof -
  have "nibble k u = take_bit 4 (drop_bit (4 * k) u)"
    by (simp add: nibble_def take_bit_eq_mask mask_eq_exp_minus_1)
  then have "unat (nibble k u) = take_bit 4 (unat (drop_bit (4 * k) u))"
    by (simp add: unsigned_take_bit_eq)
  also have "\<dots> < 16" using take_bit_nat_less_exp[of 4 "unat (drop_bit (4 * k) u)"] by simp
  finally show ?thesis .
qed

lemma nibble_bit: "bit (nibble k u) j \<longleftrightarrow> j < 4 \<and> bit u (4 * k + j)"
proof -
  have "nibble k u = take_bit 4 (drop_bit (4 * k) u)"
    by (simp add: nibble_def take_bit_eq_mask mask_eq_exp_minus_1)
  then show ?thesis by (auto simp: bit_simps)
qed

lemma uuid_hex_inject: "uuid_hex u = uuid_hex v \<Longrightarrow> u = v"
proof (rule bit_word_eqI)
  fix i :: nat
  assume eq: "uuid_hex u = uuid_hex v" and i: "i < LENGTH(128)"
  have "i div 4 < 32" using i by simp
  then have k: "31 - (31 - i div 4) = i div 4" "31 - i div 4 < 32" by simp_all
  have "uuid_hex u ! (31 - i div 4) = uuid_hex v ! (31 - i div 4)" using eq by simp
  then have "digit_char (unat (nibble (i div 4) u)) = digit_char (unat (nibble (i div 4) v))"
    using k by (simp add: uuid_hex_def)
  then have "nibble (i div 4) u = nibble (i div 4) v"
    by (simp add: digit_char_inject nibble_less word_unat_eq_iff)
  then have "bit (nibble (i div 4) u) (i mod 4) = bit (nibble (i div 4) v) (i mod 4)" by simp
  then show "bit u i = bit v i" by (simp add: nibble_bit)
qed

lemma uuid_str_inject: "uuid_str u = uuid_str v \<longleftrightarrow> u = v"
proof
  assume eq: "uuid_str u = uuid_str v"
  have split: "h = take 8 h @ take 4 (drop 8 h) @ take 4 (drop 12 h) @ take 4 (drop 16 h) @ drop 20 h"
    for h :: string
  proof -
    have "drop 8 h = take 4 (drop 8 h) @ drop 12 h" "drop 12 h = take 4 (drop 12 h) @ drop 16 h"
      "drop 16 h = take 4 (drop 16 h) @ drop 20 h"
      using append_take_drop_id[of 4 "drop 8 h"] append_take_drop_id[of 4 "drop 12 h"]
        append_take_drop_id[of 4 "drop 16 h"] by simp_all
    then show ?thesis by (metis append_take_drop_id)
  qed
  have len: "length (uuid_hex w) = 32" for w by (simp add: uuid_hex_def)
  have "take 8 (uuid_hex u) = take 8 (uuid_hex v) \<and>
      take 4 (drop 8 (uuid_hex u)) = take 4 (drop 8 (uuid_hex v)) \<and>
      take 4 (drop 12 (uuid_hex u)) = take 4 (drop 12 (uuid_hex v)) \<and>
      take 4 (drop 16 (uuid_hex u)) = take 4 (drop 16 (uuid_hex v)) \<and>
      drop 20 (uuid_hex u) = drop 20 (uuid_hex v)"
    using eq by (simp add: uuid_str_def Let_def append_eq_append_conv len)
  then have "uuid_hex u = uuid_hex v" using split[of "uuid_hex u"] split[of "uuid_hex v"] by metis
  then show "u = v" by (rule uuid_hex_inject)
qed simp

end
