(* ===== verification/Schedule_Service.thy ===== *)
theory Schedule_Service
  imports Command_Properties Settings Text_Format
begin

section \<open>One-shot timers\<close>

text \<open>
  \<open>schedules/service.py\<close>: arming, cancelling and firing timers. The one way a timer reaches a
  device is the protocol \<open>CommandSubmitter\<close>, an argument of every operation that uses it; the
  locale \<open>command_submitter\<close> states what the service relies on, and \<open>CommandService.submit\<close>
  interprets it.
\<close>

definition TIMED_ACTIONS :: "action set" where
  "TIMED_ACTIONS = {SET_HEATER, SET_FILTER}"

definition STEP_HOURS :: rat where "STEP_HOURS = 1 / 2"
definition MIN_HOURS :: rat where "MIN_HOURS = 1 / 2"
definition MAX_TRACKED :: nat where "MAX_TRACKED = 200"

subsection \<open>Reading\<close>

definition get_schedule :: "uuid \<Rightarrow> gateway \<Rightarrow> failure + schedule" where
  "get_schedule i g =
     (case od_get (gw_schedules g) i of
        None \<Rightarrow> Inl (raise_kind ScheduleNotFoundError) | Some s \<Rightarrow> Inr s)"

definition armed :: "gateway \<Rightarrow> schedule list" where
  "armed g = filter (\<lambda>s. sc_status s = ARMED) (map snd (gw_schedules g))"

definition for_device :: "uuid \<Rightarrow> gateway \<Rightarrow> schedule list" where
  "for_device d g = sort_key sc_due_at (filter (\<lambda>s. sc_device_id s = d) (armed g))"

subsection \<open>Bookkeeping\<close>

definition schedule_entry :: "schedule \<Rightarrow> string \<Rightarrow> principal option \<Rightarrow> datetime \<Rightarrow> audit_entry" where
  "schedule_entry s event actor t =
     (blank_entry t event)
       \<lparr>ae_actor_user_id := Some (case actor of Some p \<Rightarrow> pr_user_id p
                                 | None \<Rightarrow> sc_requested_by_user_id s),
        ae_actor_client_id := Some (case actor of Some p \<Rightarrow> pr_client_id p
                                   | None \<Rightarrow> sc_requested_by_client_id s),
        ae_device_id := Some (sc_device_id s), ae_command_id := sc_command_id s,
        ae_action := Some (sc_action s), ae_risk_class := Some MEDIUM,
        ae_outcome := Some (schedule_status_value (sc_status s)),
        ae_correlation_id := Some (sc_correlation_id s),
        ae_context := [(''kind'', JStr (schedule_kind_value (sc_kind s))),
                       (''desired'', JBool (sc_desired s)),
                       (''dueAt'', JStr (isoformat (sc_due_at s)))]\<rparr>"

definition record_schedule :: "schedule \<Rightarrow> string \<Rightarrow> principal option \<Rightarrow> gateway \<Rightarrow> gateway" where
  "record_schedule s event actor g =
     (let (t, g1) = clock_now g in log_entry (schedule_entry s event actor t) g1)"

definition publish_schedule :: "schedule \<Rightarrow> event_type \<Rightarrow> gateway \<Rightarrow> gateway" where
  "publish_schedule s ty g =
     (let (t, g1) = clock_now g in
      emit \<lparr>ev_type = ty, ev_occurred_at = t, ev_device_id = Some (sc_device_id s),
            ev_command_id = None, ev_correlation_id = Some (sc_correlation_id s),
            ev_payload = [(''scheduleId'', JStr (uuid_str (sc_id s))),
                          (''status'', JStr (schedule_status_value (sc_status s)))]\<rparr> g1)"

definition schedule_denied ::
  "principal \<Rightarrow> uuid \<Rightarrow> action \<Rightarrow> string \<Rightarrow> string \<Rightarrow> gateway \<Rightarrow> gateway"
where
  "schedule_denied pr d a corr reason g =
     (let (t, g1) = clock_now g in
      log_entry ((blank_entry t ''schedule.denied'')
        \<lparr>ae_actor_user_id := Some (pr_user_id pr), ae_actor_client_id := Some (pr_client_id pr),
         ae_device_id := Some d, ae_action := Some a, ae_outcome := Some reason,
         ae_correlation_id := Some corr\<rparr>) g1)"

text \<open>\<open>_settle\<close>, with its assertion.\<close>

definition settle ::
  "schedule \<Rightarrow> schedule_status \<Rightarrow> string option \<Rightarrow> uuid option \<Rightarrow> principal option \<Rightarrow> gateway
     \<Rightarrow> (failure + schedule) \<times> gateway"
where
  "settle s status failure cmd actor g =
     (if status \<notin> SETTLED then (Inl (Crashed ''AssertionError''), g)
      else
        (let s' = settled s status failure cmd;
             g1 = g\<lparr>gw_schedules := od_set (sc_id s') s' (gw_schedules g)\<rparr>;
             g2 = record_schedule s'
                    (''schedule.'' @ py_casefold (schedule_status_value status)) actor g1
         in (Inr s', publish_schedule s' SCHEDULE_SETTLED g2)))"

text \<open>\<open>_remember\<close>: only timers that are not armed are evicted.\<close>

definition first_settled :: "(uuid, schedule) odict \<Rightarrow> uuid option" where
  "first_settled d = map_option fst (List.find (\<lambda>(i, s). sc_status s \<noteq> ARMED) d)"

lemma first_settled_key: "first_settled d = Some i \<Longrightarrow> i \<in> fst ` set d"
  by (auto simp: first_settled_def find_Some_iff) (metis fst_conv image_eqI nth_mem)

lemma length_od_del_less: "k \<in> fst ` set d \<Longrightarrow> length (od_del k d) < length d"
proof (induction d)
  case (Cons p d)
  then show ?case
    using length_od_del_le[of k d] by (cases p) (auto simp: od_del_def le_imp_less_Suc)
qed simp

function trim_schedules :: "(uuid, schedule) odict \<Rightarrow> (uuid, schedule) odict" where
  "trim_schedules d =
     (if MAX_TRACKED < length d then
        (case first_settled d of None \<Rightarrow> d | Some i \<Rightarrow> trim_schedules (od_del i d))
      else d)"
  by pat_completeness auto
termination
  by (relation "measure length") (auto simp: length_od_del_less first_settled_key)

declare trim_schedules.simps [simp del]

definition remember_schedule :: "schedule \<Rightarrow> gateway \<Rightarrow> gateway" where
  "remember_schedule s g =
     g\<lparr>gw_schedules := trim_schedules (od_set (sc_id s) s (gw_schedules g))\<rparr>"

subsection \<open>Arming and cancelling\<close>

definition validate_hours :: "settings \<Rightarrow> rat \<Rightarrow> failure + timedelta" where
  "validate_hours st hours =
     (let maximum = st_schedule_max_hours st;
          rounded = of_int (py_round (hours / STEP_HOURS)) * STEP_HOURS
      in if rounded < MIN_HOURS \<or> maximum < rounded \<or> 1 / 10 ^ 9 < \<bar>rounded - hours\<bar>
         then Inl (raise_detail ParameterOutOfRangeError (TimerRange MIN_HOURS maximum STEP_HOURS))
         else Inr (py_round (rounded * 3600 * of_int usec_per_sec)))"

primrec supersede ::
  "action \<Rightarrow> schedule list \<Rightarrow> gateway \<Rightarrow> failure option \<times> gateway"
where
  "supersede a [] g = (None, g)"
| "supersede a (s # ss) g =
     (if sc_action s = a then
        (case settle s schedule_status.SUPERSEDED None None None g of
           (Inl e, g1) \<Rightarrow> (Some e, g1) | (Inr _, g1) \<Rightarrow> supersede a ss g1)
      else supersede a ss g)"

definition new_schedule ::
  "uuid \<Rightarrow> principal \<Rightarrow> uuid \<Rightarrow> action \<Rightarrow> schedule_kind \<Rightarrow> bool \<Rightarrow> timedelta \<Rightarrow> string
     \<Rightarrow> uuid option \<Rightarrow> datetime \<Rightarrow> schedule"
where
  "new_schedule i pr d a kind desired delay corr cmd t =
     \<lparr>sc_id = i, sc_device_id = d, sc_kind = kind, sc_action = a, sc_desired = desired,
      sc_requested_by_user_id = pr_user_id pr, sc_requested_by_client_id = pr_client_id pr,
      sc_requested_by_display_name = pr_display_name pr, sc_created_at = t,
      sc_due_at = t + delay, sc_correlation_id = corr, sc_status = ARMED,
      sc_failure_code = None, sc_command_id = cmd\<rparr>"

text \<open>\<open>create\<close> from the reading of the clock on.\<close>

definition arm ::
  "principal \<Rightarrow> uuid \<Rightarrow> action \<Rightarrow> schedule_kind \<Rightarrow> bool \<Rightarrow> timedelta \<Rightarrow> string \<Rightarrow> uuid option
     \<Rightarrow> gateway \<Rightarrow> (failure + schedule) \<times> gateway"
where
  "arm pr d a kind desired delay corr cmd g =
     (let (t, g1) = clock_now g; (i, g2) = uuid4 g1;
          s = new_schedule i pr d a kind desired delay corr cmd t
      in case supersede a (for_device d g2) g2 of
           (Some e, g3) \<Rightarrow> (Inl e, g3)
         | (None, g3) \<Rightarrow>
             (Inr s,
              publish_schedule s SCHEDULE_ARMED
                (record_schedule s ''schedule.created'' None (remember_schedule s g3))))"

definition create_schedule ::
  "settings \<Rightarrow> (gateway \<times> 'w) submitter \<Rightarrow> principal \<Rightarrow> uuid \<Rightarrow> action \<Rightarrow> schedule_kind \<Rightarrow> rat
     \<Rightarrow> string \<Rightarrow> gateway \<times> 'w \<Rightarrow> (failure + schedule) \<times> gateway \<times> 'w"
where
  "create_schedule st sub pr d a kind hours corr gw =
     (let (g, w) = gw in
      case svc_get d g of
        Inl e \<Rightarrow> (Inl e, g, w)
      | Inr dev \<Rightarrow>
      if a \<notin> TIMED_ACTIONS then
        (Inl (raise_detail CapabilityNotSupportedError
           (Authored ''Only the pool heater and filter pump can be put on a timer.'')),
         schedule_denied pr d a corr ''not_schedulable'' g, w)
      else
     (case validate_hours st hours of
        Inl e \<Rightarrow> (Inl e, g, w)
      | Inr delay \<Rightarrow>
     (let desired = (kind = DELAYED_START); params = OnOffParams desired in
      case required_capability_for a params of
        None \<Rightarrow> (Inl (Crashed ''required_capability_for''), g, w)
      | Some capability \<Rightarrow>
      if \<not> supports dev capability then
        (Inl (raise_kind CapabilityNotSupportedError),
         schedule_denied pr d a corr ''capability_not_supported'' g, w)
      else
     (case classify a params of
        None \<Rightarrow> (Inl (Crashed ''classify''), g, w)
      | Some risk \<Rightarrow>
      if risk = HIGH then (Inl (raise_kind ActionAuthorizationRequiredError), g, w)
      else if kind = RUN_FOR then
        (case sub pr d a [(''on'', JBool True)] corr (g, w) of
           (Inl e, gw1) \<Rightarrow> (Inl e, gw1)
         | (Inr c, gw1) \<Rightarrow>
             if cmd_status c \<notin> {command_status.SUCCEEDED, command_status.UNKNOWN} then
               (Inl (raise_detail DeviceUnavailableError
                  (Authored ''The function could not be started, so no timer was set.'')), gw1)
             else
               (let (r, g2) = arm pr d a kind desired delay corr (Some (cmd_id c)) (fst gw1)
                in (r, g2, snd gw1)))
      else
        (let (r, g2) = arm pr d a kind desired delay corr None g in (r, g2, w))))))"

definition cancel_schedule ::
  "principal \<Rightarrow> uuid \<Rightarrow> gateway \<Rightarrow> (failure + schedule) \<times> gateway"
where
  "cancel_schedule pr i g =
     (case get_schedule i g of
        Inl e \<Rightarrow> (Inl e, g)
      | Inr s \<Rightarrow>
          if sc_status s \<noteq> ARMED then (Inr s, g)
          else settle s schedule_status.CANCELLED None None (Some pr) g)"

subsection \<open>Firing\<close>

definition due :: "gateway \<Rightarrow> schedule list \<times> gateway" where
  "due g = (let (t, g1) = clock_now g in (filter (\<lambda>s. sc_due_at s \<le> t) (armed g1), g1))"

text \<open>What a command settles the timer to.\<close>

definition fired_status :: "command_status \<Rightarrow> schedule_status" where
  "fired_status cs =
     (if cs = command_status.SUCCEEDED then COMPLETED
      else if cs = command_status.UNKNOWN then schedule_status.UNKNOWN
      else schedule_status.FAILED)"

definition schedule_principal :: "schedule \<Rightarrow> principal" where
  "schedule_principal s =
     \<lparr>pr_user_id = sc_requested_by_user_id s, pr_client_id = sc_requested_by_client_id s,
      pr_display_name = sc_requested_by_display_name s\<rparr>"

text \<open>\<open>except HomeFlowError\<close> catches the hierarchy, and nothing else.\<close>

definition fire ::
  "(gateway \<times> 'w) submitter \<Rightarrow> schedule \<Rightarrow> gateway \<times> 'w \<Rightarrow> (failure + unit) \<times> gateway \<times> 'w"
where
  "fire sub s gw =
     (case sub (schedule_principal s) (sc_device_id s) (sc_action s)
             [(''on'', JBool (sc_desired s))] (sc_correlation_id s) gw of
        (Inl (Crashed m), gw1) \<Rightarrow> (Inl (Crashed m), gw1)
      | (Inl (Raised e), gw1) \<Rightarrow>
          (case settle s schedule_status.FAILED (Some (problem_type (he_kind e))) None None (fst gw1) of
             (Inl f, g2) \<Rightarrow> (Inl f, g2, snd gw1)
           | (Inr _, g2) \<Rightarrow> (Inr (), g2, snd gw1))
      | (Inr c, gw1) \<Rightarrow>
          (case settle s (fired_status (cmd_status c)) (cmd_failure_code c) (Some (cmd_id c)) None
                  (fst gw1) of
             (Inl f, g2) \<Rightarrow> (Inl f, g2, snd gw1)
           | (Inr _, g2) \<Rightarrow> (Inr (), g2, snd gw1)))"

text \<open>One timer of the loop body of \<open>run\<close>: any other exception settles it as failed.\<close>

definition fire_guarded ::
  "(gateway \<times> 'w) submitter \<Rightarrow> schedule \<Rightarrow> gateway \<times> 'w \<Rightarrow> gateway \<times> 'w"
where
  "fire_guarded sub s gw =
     (case fire sub s gw of
        (Inr _, gw1) \<Rightarrow> gw1
      | (Inl _, gw1) \<Rightarrow>
          (snd (settle s schedule_status.FAILED (Some ''internal_error'') None None (fst gw1)),
           snd gw1))"

text \<open>One pass of the loop: the due timers are listed once, then fired one after the other.\<close>

definition run_once :: "(gateway \<times> 'w) submitter \<Rightarrow> gateway \<times> 'w \<Rightarrow> gateway \<times> 'w" where
  "run_once sub gw =
     (let (ss, g1) = due (fst gw) in fold (fire_guarded sub) ss (g1, snd gw))"

end
