(* ===== verification/Schedule_Properties.thy ===== *)
theory Schedule_Properties
  imports Schedule_Service
begin

section \<open>What the timers guarantee\<close>

text \<open>
  The invariant of the timer store, and that each operation keeps it; creating a timer and a pass
  of the loop in one piece here, cut at their awaits in \<open>Schedule_Stages\<close>.
\<close>

subsection \<open>Settling, evicting, superseding\<close>

lemma settle_run:
  assumes "status \<noteq> ARMED"
  shows "fst (settle s status f c ac g) = Inr (settled s status f c)"
    and "gw_schedules (snd (settle s status f c ac g)) =
      od_set (sc_id s) (settled s status f c) (gw_schedules g)"
    and "gw_uuids (snd (settle s status f c ac g)) = gw_uuids g"
    and "gw_clock (snd (settle s status f c ac g)) = gw_clock g"
    and "gw_issued (snd (settle s status f c ac g)) = Suc (gw_issued g)"
    and "gw_registry (snd (settle s status f c ac g)) = gw_registry g"
  using assms
  by (simp_all add: settle_def Let_def record_schedule_def publish_schedule_def split_beta)

lemma first_settled_None: "first_settled d = None \<Longrightarrow> \<forall>(i, s) \<in> set d. sc_status s = ARMED"
  by (auto simp: first_settled_def find_None_iff)

lemma first_settled_status:
  assumes "od_wf d" and "first_settled d = Some j" and "od_get d j = Some t"
  shows "sc_status t \<noteq> ARMED"
proof -
  obtain k where k: "k < length d" "sc_status (snd (d ! k)) \<noteq> ARMED" "fst (d ! k) = j"
    using assms(2) by (auto simp: first_settled_def find_Some_iff split_beta) (metis fst_conv)
  then have "(j, snd (d ! k)) \<in> set d" by (metis nth_mem prod.collapse)
  with assms(1,3) have "t = snd (d ! k)" by (metis od_get_iff option.inject)
  with k show ?thesis by simp
qed

lemma trim_schedules_rule:
  assumes "P d" and "\<And>d i. P d \<Longrightarrow> first_settled d = Some i \<Longrightarrow> P (od_del i d)"
  shows "P (trim_schedules d)"
  using assms(1)
proof (induction d rule: trim_schedules.induct)
  case (1 d)
  then show ?case
    by (subst trim_schedules.simps) (auto split: option.split intro: assms(2))
qed

lemma trim_schedules_end:
  "length (trim_schedules d) \<le> MAX_TRACKED \<or> (\<forall>(i, s) \<in> set (trim_schedules d). sc_status s = ARMED)"
proof (induction d rule: trim_schedules.induct)
  case (1 d)
  show ?case
  proof (cases "MAX_TRACKED < length d")
    case True
    then show ?thesis
      using 1 first_settled_None[of d]
      by (cases "first_settled d") (simp_all add: trim_schedules.simps[of d])
  next
    case False
    then show ?thesis by (simp add: trim_schedules.simps[of d])
  qed
qed

text \<open>Trimming forgets settled timers only, and invents nothing.\<close>

definition keeps_armed :: "(uuid, schedule) odict \<Rightarrow> (uuid, schedule) odict \<Rightarrow> bool" where
  "keeps_armed d d' \<longleftrightarrow>
     od_wf d' \<and> (\<forall>i s. od_get d' i = Some s \<longrightarrow> od_get d i = Some s) \<and>
     (\<forall>i s. od_get d i = Some s \<longrightarrow> sc_status s = ARMED \<longrightarrow> od_get d' i = Some s)"

lemma trim_schedules_keeps: "od_wf d \<Longrightarrow> keeps_armed d (trim_schedules d)"
proof (rule trim_schedules_rule[where P = "keeps_armed d"])
  assume "od_wf d"
  then show "keeps_armed d d" by (simp add: keeps_armed_def)
next
  fix d' j
  assume k: "keeps_armed d d'" and j: "first_settled d' = Some j"
  have kept: "od_get d' i = Some s" if "od_get d i = Some s" "sc_status s = ARMED" for i s
    using k that unfolding keeps_armed_def by blast
  have wf: "od_wf d'" and old: "\<And>i s. od_get d' i = Some s \<Longrightarrow> od_get d i = Some s"
    using k unfolding keeps_armed_def by blast+
  have "od_get (od_del j d') i = Some s" if "od_get d i = Some s" "sc_status s = ARMED" for i s
  proof -
    have "i \<noteq> j" using kept[OF that] first_settled_status[OF wf j] that(2) by blast
    with kept[OF that] show ?thesis by (simp add: od_get_del)
  qed
  moreover have "od_get d i = Some s" if "od_get (od_del j d') i = Some s" for i s
    using that old by (auto simp: od_get_del split: if_splits)
  ultimately show "keeps_armed d (od_del j d')"
    unfolding keeps_armed_def using od_wf_del[OF wf] by blast
qed

text \<open>What superseding does to the entry of every timer.\<close>

definition retire :: "action \<Rightarrow> schedule list \<Rightarrow> uuid \<Rightarrow> schedule \<Rightarrow> schedule" where
  "retire a ss i s =
     (if \<exists>t \<in> set ss. sc_id t = i \<and> sc_action t = a
      then settled s schedule_status.SUPERSEDED None None else s)"

definition superseded :: "action \<Rightarrow> schedule list \<Rightarrow> gateway \<Rightarrow> gateway \<Rightarrow> bool" where
  "superseded a ss g g' \<longleftrightarrow>
     (\<forall>i. od_get (gw_schedules g') i = map_option (retire a ss i) (od_get (gw_schedules g) i)) \<and>
     (od_wf (gw_schedules g) \<longrightarrow> od_wf (gw_schedules g')) \<and>
     untouched (g\<lparr>gw_schedules := gw_schedules g'\<rparr>) g' \<and> gw_registry g' = gw_registry g"

lemma retire_cases:
  "retire a [] i = (\<lambda>s. s)" "sc_action s \<noteq> a \<Longrightarrow> retire a (s # ss) i = retire a ss i"
  by (auto simp: retire_def fun_eq_iff)

lemma superseded_refl: "superseded a [] g g"
  by (simp add: superseded_def retire_cases option.map_ident untouched_def)

lemma superseded_skip: "sc_action s \<noteq> a \<Longrightarrow> superseded a ss g g' \<Longrightarrow> superseded a (s # ss) g g'"
  unfolding superseded_def by (simp add: retire_cases)

lemma superseded_settle:
  assumes "od_get (gw_schedules g) (sc_id s) = Some s" and "sc_id s \<notin> sc_id ` set ss" and "sc_action s = a"
    and "superseded a ss (snd (settle s schedule_status.SUPERSEDED None None None g)) g'"
  shows "superseded a (s # ss) g g'"
proof -
  let ?g = "snd (settle s schedule_status.SUPERSEDED None None None g)"
  have sch: "gw_schedules ?g = od_set (sc_id s) (settled s schedule_status.SUPERSEDED None None) (gw_schedules g)"
    by (simp add: settle_run)
  have ih: "od_get (gw_schedules g') i = map_option (retire a ss i) (od_get (gw_schedules ?g) i)" for i
    using assms(4) unfolding superseded_def by blast
  have "od_get (gw_schedules g') i = map_option (retire a (s # ss) i) (od_get (gw_schedules g) i)" for i
  proof (cases "i = sc_id s")
    case True
    then have "\<not> (\<exists>t \<in> set ss. sc_id t = i \<and> sc_action t = a)" using assms(2) by (auto simp: image_iff)
    with True assms(1,3) show ?thesis by (auto simp: ih sch retire_def)
  next
    case False
    then show ?thesis by (auto simp: ih sch retire_def intro!: option.map_cong)
  qed
  with assms(4) show ?thesis by (simp add: superseded_def settle_run untouched_def)
qed

lemma supersede_superseded:
  assumes "\<forall>s \<in> set ss. od_get (gw_schedules g) (sc_id s) = Some s" and "distinct (map sc_id ss)"
  shows "fst (supersede a ss g) = None \<and> superseded a ss g (snd (supersede a ss g))"
  using assms
proof (induction ss arbitrary: g)
  case Nil
  then show ?case by (simp add: superseded_refl)
next
  case (Cons s ss)
  show ?case
  proof (cases "sc_action s = a")
    case False
    with Cons superseded_skip[of s a ss g] show ?thesis by simp
  next
    case True
    let ?g = "snd (settle s schedule_status.SUPERSEDED None None None g)"
    have new: "sc_id s \<notin> sc_id ` set ss" using Cons.prems(2) by simp
    then have "\<forall>t \<in> set ss. od_get (gw_schedules ?g) (sc_id t) = Some t"
      using Cons.prems(1) by (auto simp: settle_run image_iff)
    with Cons have "fst (supersede a ss ?g) = None \<and> superseded a ss ?g (snd (supersede a ss ?g))" by simp
    moreover have "supersede a (s # ss) g = supersede a ss ?g"
      using True by (simp add: case_prod_unfold settle_run)
    ultimately show ?thesis using superseded_settle[of g s ss a] Cons.prems(1) new True by simp
  qed
qed

lemma supersede_run:
  assumes "\<forall>s \<in> set ss. od_get (gw_schedules g) (sc_id s) = Some s" and "distinct (map sc_id ss)"
  shows "fst (supersede a ss g) = None"
    and "od_get (gw_schedules (snd (supersede a ss g))) i =
      map_option (retire a ss i) (od_get (gw_schedules g) i)"
    and "od_wf (gw_schedules g) \<Longrightarrow> od_wf (gw_schedules (snd (supersede a ss g)))"
    and "untouched (g\<lparr>gw_schedules := gw_schedules (snd (supersede a ss g))\<rparr>) (snd (supersede a ss g))"
    and "gw_registry (snd (supersede a ss g)) = gw_registry g"
  using supersede_superseded[OF assms, of a] unfolding superseded_def by blast+

subsection \<open>The invariant of the timers\<close>

definition issued :: "gateway \<Rightarrow> uuid \<Rightarrow> bool" where
  "issued g i \<longleftrightarrow> (\<exists>n < gw_issued g. gw_uuids g n = i)"

definition timer_ok :: "gateway \<Rightarrow> uuid \<Rightarrow> schedule \<Rightarrow> bool" where
  "timer_ok g i s \<longleftrightarrow>
     sc_id s = i \<and> sc_action s \<in> TIMED_ACTIONS \<and> (sc_desired s \<longleftrightarrow> sc_kind s = DELAYED_START) \<and>
     issued g i"

definition same_function :: "schedule \<Rightarrow> schedule \<Rightarrow> bool" where
  "same_function s t \<longleftrightarrow> sc_device_id s = sc_device_id t \<and> sc_action s = sc_action t"

definition timers_inv :: "gateway \<Rightarrow> bool" where
  "timers_inv g \<longleftrightarrow>
     od_wf (gw_schedules g) \<and>
     (\<forall>i s. od_get (gw_schedules g) i = Some s \<longrightarrow> timer_ok g i s) \<and>
     (\<forall>i j s t. od_get (gw_schedules g) i = Some s \<longrightarrow> od_get (gw_schedules g) j = Some t \<longrightarrow>
        sc_status s = ARMED \<longrightarrow> sc_status t = ARMED \<longrightarrow> same_function s t \<longrightarrow> i = j)"

lemma timers_invD:
  assumes "timers_inv g"
  shows "od_wf (gw_schedules g)"
    and "od_get (gw_schedules g) i = Some s \<Longrightarrow> timer_ok g i s"
    and "od_get (gw_schedules g) i = Some s \<Longrightarrow> od_get (gw_schedules g) j = Some t \<Longrightarrow>
      sc_status s = ARMED \<Longrightarrow> sc_status t = ARMED \<Longrightarrow> same_function s t \<Longrightarrow> i = j"
  using assms unfolding timers_inv_def by blast+

lemma issued_mono: "gw_uuids g' = gw_uuids g \<Longrightarrow> gw_issued g \<le> gw_issued g' \<Longrightarrow> issued g i \<Longrightarrow> issued g' i"
  unfolding issued_def by (metis less_le_trans)

lemma timer_ok_mono:
  "gw_uuids g' = gw_uuids g \<Longrightarrow> gw_issued g \<le> gw_issued g' \<Longrightarrow> timer_ok g i s \<Longrightarrow> timer_ok g' i s"
  by (auto simp: timer_ok_def intro: issued_mono)

text \<open>
  A new store keeps the invariant if every entry is an old one, possibly settled, or one of
  a family \<open>fresh\<close> of new entries, at most one of them armed.
\<close>

lemma timers_inv_intro:
  assumes inv: "timers_inv g" and wf: "od_wf (gw_schedules g')"
    and sup: "gw_uuids g' = gw_uuids g" "gw_issued g \<le> gw_issued g'"
    and old: "\<And>i s. od_get (gw_schedules g') i = Some s \<Longrightarrow> sc_status s = ARMED \<Longrightarrow>
      od_get (gw_schedules g) i = Some s"
    and ok: "\<And>i s. od_get (gw_schedules g') i = Some s \<Longrightarrow> timer_ok g' i s"
  shows "timers_inv g'"
  unfolding timers_inv_def using wf ok old timers_invD(3)[OF inv] by blast

lemma timers_inv_untouched:
  assumes inv: "timers_inv g" and "untouched g g'"
  shows "timers_inv g'"
proof -
  have same: "gw_schedules g' = gw_schedules g" "gw_uuids g' = gw_uuids g" "gw_issued g \<le> gw_issued g'"
    using assms(2) by (simp_all add: untouched_def)
  show ?thesis
  proof (rule timers_inv_intro[OF inv])
    show "timer_ok g' i s" if "od_get (gw_schedules g') i = Some s" for i s
      using that timers_invD(2)[OF inv] timer_ok_mono same by metis
  qed (simp_all add: same timers_invD(1)[OF inv])
qed

lemma timers_inv_settle:
  assumes inv: "timers_inv g" and ok: "timer_ok g (sc_id s) s" and st: "status \<noteq> ARMED"
  shows "timers_inv (snd (settle s status f c ac g))"
proof (rule timers_inv_intro[OF inv])
  note run = settle_run[OF st, of s f c ac g]
  show "od_wf (gw_schedules (snd (settle s status f c ac g)))"
    using timers_invD(1)[OF inv] by (simp add: run)
  show "gw_uuids (snd (settle s status f c ac g)) = gw_uuids g"
    "gw_issued g \<le> gw_issued (snd (settle s status f c ac g))" by (simp_all add: run)
  fix i t
  assume t: "od_get (gw_schedules (snd (settle s status f c ac g))) i = Some t"
  show "od_get (gw_schedules g) i = Some t" if "sc_status t = ARMED"
    using t that st by (auto simp: run od_get_set split: if_splits)
  show "timer_ok (snd (settle s status f c ac g)) i t"
  proof (cases "i = sc_id s")
    case True
    with t have "t = settled s status f c" by (simp add: run)
    with True ok timer_ok_mono[OF run(3) _ ok] run(5) show ?thesis by (simp add: timer_ok_def)
  next
    case False
    with t have "od_get (gw_schedules g) i = Some t" by (simp add: run)
    then have "timer_ok g i t" by (rule timers_invD(2)[OF inv])
    then show ?thesis by (rule timer_ok_mono[OF run(3), rotated]) (simp add: run)
  qed
qed

lemma for_device_iff:
  assumes "timers_inv g"
  shows "t \<in> set (for_device d g) \<longleftrightarrow>
    od_get (gw_schedules g) (sc_id t) = Some t \<and> sc_status t = ARMED \<and> sc_device_id t = d"
proof -
  have "(\<exists>i. (i, t) \<in> set (gw_schedules g)) \<longleftrightarrow> od_get (gw_schedules g) (sc_id t) = Some t"
    using timers_invD(1,2)[OF assms] by (metis od_get_iff timer_ok_def)
  then show ?thesis by (force simp: for_device_def armed_def)
qed

lemma for_device_distinct:
  assumes "timers_inv g"
  shows "distinct (map sc_id (for_device d g))"
proof -
  have "inj_on sc_id (set (for_device d g))"
    by (rule inj_onI) (metis assms for_device_iff option.inject)
  moreover have "distinct (map snd (gw_schedules g))"
  proof -
    have "map sc_id (map snd (gw_schedules g)) = map fst (gw_schedules g)"
      using timers_invD(1,2)[OF assms] by (auto simp: od_get_iff timer_ok_def)
    with timers_invD(1)[OF assms] have "distinct (map sc_id (map snd (gw_schedules g)))"
      unfolding od_wf_def by metis
    then show ?thesis unfolding distinct_map by blast
  qed
  ultimately show ?thesis by (simp add: distinct_map for_device_def armed_def)
qed

lemma retire_for_device:
  assumes "timers_inv g" and "od_get (gw_schedules g) j = Some s"
  shows "retire a (for_device d g) j s =
    (if sc_status s = ARMED \<and> sc_device_id s = d \<and> sc_action s = a
     then settled s schedule_status.SUPERSEDED None None else s)"
proof -
  have "sc_id s = j" using timers_invD(2)[OF assms] by (simp add: timer_ok_def)
  then have "(\<exists>t \<in> set (for_device d g). sc_id t = j \<and> sc_action t = a) \<longleftrightarrow>
      sc_status s = ARMED \<and> sc_device_id s = d \<and> sc_action s = a"
    using assms by (auto simp: for_device_iff)
  then show ?thesis by (simp add: retire_def)
qed

lemma for_device_cong: "gw_schedules g = gw_schedules g' \<Longrightarrow> for_device d g = for_device d g'"
  by (simp add: for_device_def armed_def)

text \<open>The store after superseding, remembering the new timer and trimming.\<close>

lemma armed_store:
  assumes inv: "timers_inv g" and armed: "sc_status s = ARMED" and new: "od_get (gw_schedules g) (sc_id s) = None"
    and wf: "od_wf d3"
    and get3: "\<And>j. od_get d3 j = map_option (retire a (for_device d g) j) (od_get (gw_schedules g) j)"
  defines "D \<equiv> trim_schedules (od_set (sc_id s) s d3)"
  shows "od_wf D" and "od_get D (sc_id s) = Some s"
    and "od_get D j = Some t \<Longrightarrow> sc_status t = ARMED \<Longrightarrow> j \<noteq> sc_id s \<Longrightarrow>
      od_get (gw_schedules g) j = Some t \<and> \<not> (sc_device_id t = d \<and> sc_action t = a)"
    and "od_get D j = Some t \<Longrightarrow> j \<noteq> sc_id s \<Longrightarrow>
      \<exists>u. od_get (gw_schedules g) j = Some u \<and> (t = u \<or> t = settled u schedule_status.SUPERSEDED None None)"
    and "od_get (gw_schedules g) j = Some t \<Longrightarrow> sc_status t = ARMED \<Longrightarrow>
      \<not> (sc_device_id t = d \<and> sc_action t = a) \<Longrightarrow> od_get D j = Some t"
proof -
  let ?ss = "for_device d g" and ?d = "od_set (sc_id s) s d3"
  have keep: "keeps_armed ?d D" unfolding D_def by (rule trim_schedules_keeps) (simp add: wf)
  show "od_wf D" using keep by (simp add: keeps_armed_def)
  have "od_get ?d (sc_id s) = Some s" by simp
  with keep armed show "od_get D (sc_id s) = Some s" unfolding keeps_armed_def by blast
  have origin: "\<exists>u. od_get (gw_schedules g) j = Some u \<and> t = retire a ?ss j u"
    if "od_get D j = Some t" "j \<noteq> sc_id s" for j t
  proof -
    have "od_get ?d j = Some t" using that(1) keep unfolding keeps_armed_def by blast
    with that(2) show ?thesis by (auto simp: get3)
  qed
  show "\<exists>u. od_get (gw_schedules g) j = Some u \<and> (t = u \<or> t = settled u schedule_status.SUPERSEDED None None)"
    if "od_get D j = Some t" "j \<noteq> sc_id s"
    using origin[OF that] retire_for_device[OF inv] by metis
  show "od_get (gw_schedules g) j = Some t \<and> \<not> (sc_device_id t = d \<and> sc_action t = a)"
    if t: "od_get D j = Some t" "sc_status t = ARMED" "j \<noteq> sc_id s"
  proof -
    obtain u where u: "od_get (gw_schedules g) j = Some u" "t = retire a ?ss j u"
      using origin[OF t(1,3)] by blast
    with retire_for_device[OF inv u(1), of a d] t(2) show ?thesis by (auto split: if_splits)
  qed
  show "od_get D j = Some t"
    if t: "od_get (gw_schedules g) j = Some t" "sc_status t = ARMED" "\<not> (sc_device_id t = d \<and> sc_action t = a)"
  proof -
    have "j \<noteq> sc_id s" using new t(1) by auto
    moreover have "retire a ?ss j t = t" using retire_for_device[OF inv t(1), of a d] t(3) by auto
    ultimately have "od_get ?d j = Some t" by (simp add: get3 t(1))
    with keep t(2) show ?thesis unfolding keeps_armed_def by blast
  qed
qed

lemma arm_run:
  assumes inv: "timers_inv g" and fresh: "\<not> issued g (gw_uuids g (gw_issued g))"
    and arm: "arm pr d a kind desired delay corr cmd g = (r, g')"
  defines "s \<equiv> new_schedule (gw_uuids g (gw_issued g)) pr d a kind desired delay corr cmd (now_of g)"
  shows "r = Inr s" and "untouched (g\<lparr>gw_schedules := gw_schedules g'\<rparr>) g'"
    and "od_wf (gw_schedules g')" and "od_get (gw_schedules g') (sc_id s) = Some s"
    and "od_get (gw_schedules g') j = Some t \<Longrightarrow> sc_status t = ARMED \<Longrightarrow> j \<noteq> sc_id s \<Longrightarrow>
      od_get (gw_schedules g) j = Some t \<and> \<not> (sc_device_id t = d \<and> sc_action t = a)"
    and "od_get (gw_schedules g') j = Some t \<Longrightarrow> j \<noteq> sc_id s \<Longrightarrow>
      \<exists>u. od_get (gw_schedules g) j = Some u \<and> (t = u \<or> t = settled u schedule_status.SUPERSEDED None None)"
    and "od_get (gw_schedules g) j = Some t \<Longrightarrow> sc_status t = ARMED \<Longrightarrow>
      \<not> (sc_device_id t = d \<and> sc_action t = a) \<Longrightarrow> od_get (gw_schedules g') j = Some t"
    and "length (gw_schedules g') \<le> MAX_TRACKED \<or> (\<forall>(i, s) \<in> set (gw_schedules g'). sc_status s = ARMED)"
proof -
  let ?g2 = "snd (uuid4 (snd (clock_now g)))"
  let ?g3 = "snd (supersede a (for_device d g) ?g2)"
  have ss: "for_device d ?g2 = for_device d g" by (rule for_device_cong) simp
  have pre: "\<forall>s \<in> set (for_device d g). od_get (gw_schedules ?g2) (sc_id s) = Some s"
    using for_device_iff[OF inv] by simp
  note sup = supersede_run[OF pre for_device_distinct[OF inv], of a]
  have new: "od_get (gw_schedules g) (sc_id s) = None"
  proof (cases "od_get (gw_schedules g) (sc_id s)")
    case (Some u)
    then have "issued g (sc_id s)" using timers_invD(2)[OF inv] by (simp add: timer_ok_def)
    with fresh show ?thesis by (simp add: s_def new_schedule_def)
  qed simp
  have wf3: "od_wf (gw_schedules ?g3)" using sup(3) timers_invD(1)[OF inv] by simp
  have fin: "arm pr d a kind desired delay corr cmd g =
      (Inr s, publish_schedule s SCHEDULE_ARMED
        (record_schedule s ''schedule.created'' None (remember_schedule s ?g3)))"
    using sup(1) by (simp add: arm_def split_beta Let_def ss s_def)
  have r: "r = Inr s" and g': "gw_schedules g' = trim_schedules (od_set (sc_id s) s (gw_schedules ?g3))"
    and rest: "gw_uuids g' = gw_uuids g" "gw_clock g' = gw_clock g" "gw_issued g \<le> gw_issued g'"
    using arm sup(4) unfolding fin
    by (auto simp: publish_schedule_def record_schedule_def remember_schedule_def split_beta untouched_def)
  show "r = Inr s" by (rule r)
  show "untouched (g\<lparr>gw_schedules := gw_schedules g'\<rparr>) g'" by (simp add: untouched_def rest)
  show "length (gw_schedules g') \<le> MAX_TRACKED \<or> (\<forall>(i, s) \<in> set (gw_schedules g'). sc_status s = ARMED)"
    unfolding g' by (rule trim_schedules_end)
  have armed: "sc_status s = ARMED" by (simp add: s_def new_schedule_def)
  have get3: "od_get (gw_schedules ?g3) j = map_option (retire a (for_device d g) j) (od_get (gw_schedules g) j)" for j
    using sup(2)[of j] by simp
  note store = armed_store[OF inv armed new wf3 get3, folded g']
  show "od_wf (gw_schedules g')" by (rule store)
  show "od_get (gw_schedules g') (sc_id s) = Some s" by (rule store)
  show "od_get (gw_schedules g') j = Some t \<Longrightarrow> sc_status t = ARMED \<Longrightarrow> j \<noteq> sc_id s \<Longrightarrow>
      od_get (gw_schedules g) j = Some t \<and> \<not> (sc_device_id t = d \<and> sc_action t = a)" by (rule store)
  show "od_get (gw_schedules g') j = Some t \<Longrightarrow> j \<noteq> sc_id s \<Longrightarrow>
      \<exists>u. od_get (gw_schedules g) j = Some u \<and> (t = u \<or> t = settled u schedule_status.SUPERSEDED None None)"
    by (rule store)
  show "od_get (gw_schedules g) j = Some t \<Longrightarrow> sc_status t = ARMED \<Longrightarrow>
      \<not> (sc_device_id t = d \<and> sc_action t = a) \<Longrightarrow> od_get (gw_schedules g') j = Some t" by (rule store)
qed

lemma arm_issued:
  assumes "timers_inv g"
  shows "gw_issued g < gw_issued (snd (arm pr d a kind desired delay corr cmd g))"
    and "gw_uuids (snd (arm pr d a kind desired delay corr cmd g)) = gw_uuids g"
proof -
  let ?g2 = "snd (uuid4 (snd (clock_now g)))"
  have ss: "for_device d ?g2 = for_device d g" by (rule for_device_cong) simp
  have pre: "\<forall>s \<in> set (for_device d g). od_get (gw_schedules ?g2) (sc_id s) = Some s"
    using for_device_iff[OF assms] by simp
  note sup = supersede_run[OF pre for_device_distinct[OF assms], of a]
  show "gw_issued g < gw_issued (snd (arm pr d a kind desired delay corr cmd g))"
    and "gw_uuids (snd (arm pr d a kind desired delay corr cmd g)) = gw_uuids g"
    using sup(1,4)
    by (auto simp: arm_def split_beta Let_def ss untouched_def publish_schedule_def
        record_schedule_def remember_schedule_def)
qed

lemma untouched_schedule_denied [simp]: "untouched g (schedule_denied pr d a corr reason g)"
  by (simp add: untouched_def schedule_denied_def split_beta)

subsection \<open>Operations in one piece\<close>

text \<open>Over any submitter that leaves the timers alone, creating and firing keep the invariant.\<close>

context command_submitter
begin

lemma fire_guarded_run:
  assumes "timers_inv (fst gw)" and "timer_ok (fst gw) (sc_id s) s"
  defines "sent \<equiv> submitter (schedule_principal s) (sc_device_id s) (sc_action s)
    [(''on'', JBool (sc_desired s))] (sc_correlation_id s) gw"
  shows "\<exists>status f c g1. status \<noteq> ARMED \<and> untouched (fst gw) g1 \<and>
    fire_guarded submitter s gw = (snd (settle s status f c None g1), snd (snd sent))"
proof -
  have u: "untouched (fst gw) (fst (snd sent))" unfolding sent_def by (rule leaves_timers)
  have fired: "fired_status cs \<noteq> ARMED" for cs by (simp add: fired_status_def)
  show ?thesis
  proof (cases "fst sent")
    case (Inr c)
    then have "fire_guarded submitter s gw =
        (snd (settle s (fired_status (cmd_status c)) (cmd_failure_code c) (Some (cmd_id c)) None
           (fst (snd sent))), snd (snd sent))"
      by (cases sent)
        (simp add: fire_guarded_def fire_def sent_def[symmetric] case_prod_unfold settle_run(1)[OF fired])
    with fired u show ?thesis by blast
  next
    case (Inl f)
    show ?thesis
    proof (cases f)
      case (Raised e)
      with Inl have "fire_guarded submitter s gw =
          (snd (settle s schedule_status.FAILED (Some (problem_type (he_kind e))) None None
             (fst (snd sent))), snd (snd sent))"
        by (cases sent)
          (simp add: fire_guarded_def fire_def sent_def[symmetric] case_prod_unfold settle_run(1))
      with u show ?thesis by blast
    next
      case (Crashed m)
      with Inl have "fire_guarded submitter s gw =
          (snd (settle s schedule_status.FAILED (Some ''internal_error'') None None
             (fst (snd sent))), snd (snd sent))"
        by (cases sent) (simp add: fire_guarded_def fire_def sent_def[symmetric])
      with u show ?thesis by blast
    qed
  qed
qed

lemma create_checked:
  assumes "create_schedule st submitter pr d a kind hours corr (g, w) = (r, gw')"
    and valid: "svc_get d g = Inr dev" "a \<in> TIMED_ACTIONS" "validate_hours st hours = Inr delay"
  shows "(\<exists>e. r = Inl e \<and> untouched g (fst gw')) \<or>
    (\<exists>g1 cmd. untouched g g1 \<and> arm pr d a kind (kind = DELAYED_START) delay corr cmd g1 = (r, fst gw'))"
proof -
  let ?sent = "submitter pr d a [(''on'', JBool True)] corr (g, w)"
  have u: "untouched g (fst (snd ?sent))" using leaves_timers[of "(g, w)"] by simp
  consider e where "kind = RUN_FOR" "fst ?sent = Inl e" | c where "kind = RUN_FOR" "fst ?sent = Inr c" | "kind \<noteq> RUN_FOR"
    by (cases "fst ?sent") auto
  then show ?thesis
  proof cases
    case 1
    with assms u show ?thesis
      by (auto simp: create_schedule_def Let_def case_prod_unfold split: option.splits if_splits)
  next
    case (2 c)
    with assms u have "arm pr d a kind (kind = DELAYED_START) delay corr (Some (cmd_id c)) (fst (snd ?sent)) = (r, fst gw') \<or>
        (\<exists>e. r = Inl e \<and> untouched g (fst gw'))"
      by (auto simp: create_schedule_def Let_def case_prod_unfold split: option.splits if_splits)
    with u show ?thesis by metis
  next
    case 3
    with assms have "arm pr d a kind (kind = DELAYED_START) delay corr None g = (r, fst gw') \<or>
        (\<exists>e. r = Inl e \<and> untouched g (fst gw'))"
      by (auto simp: create_schedule_def Let_def case_prod_unfold split: option.splits if_splits)
    then show ?thesis using untouched_refl by metis
  qed
qed

lemma create_cases:
  assumes "create_schedule st submitter pr d a kind hours corr gw = (r, gw')"
  obtains (refused) e where "r = Inl e" "untouched (fst gw) (fst gw')"
  | (armed) g1 delay cmd where "untouched (fst gw) g1" "a \<in> TIMED_ACTIONS"
      "validate_hours st hours = Inr delay"
      "arm pr d a kind (kind = DELAYED_START) delay corr cmd g1 = (r, fst gw')"
proof (cases gw)
  case (Pair g w)
  consider e where "svc_get d g = Inl e" | "a \<notin> TIMED_ACTIONS" | e where "validate_hours st hours = Inl e"
    | dev delay where "svc_get d g = Inr dev" "a \<in> TIMED_ACTIONS" "validate_hours st hours = Inr delay"
    by (metis obj_sumE)
  then show thesis
  proof cases
    case (4 dev delay)
    with create_checked[OF assms[unfolded Pair] 4] Pair show thesis by (auto intro: refused armed)
  qed (use assms Pair refused in \<open>auto simp: create_schedule_def split: sum.splits if_splits\<close>)
qed

end

text \<open>Identifiers that are drawn do not repeat, up to the \<open>N\<close>-th.\<close>

definition distinct_supply :: "gateway \<Rightarrow> nat \<Rightarrow> bool" where
  "distinct_supply g N \<longleftrightarrow> inj_on (gw_uuids g) {..<N}"

lemma supply_fresh:
  assumes "distinct_supply g N" and "gw_issued g < N"
  shows "\<not> issued g (gw_uuids g (gw_issued g))"
proof
  assume "issued g (gw_uuids g (gw_issued g))"
  then obtain n where "n < gw_issued g" "gw_uuids g n = gw_uuids g (gw_issued g)"
    by (auto simp: issued_def)
  with assms inj_onD[of "gw_uuids g" "{..<N}" n "gw_issued g"] show False
    by (auto simp: distinct_supply_def)
qed

text \<open>After arming, the new timer has no rival, and the others had none before.\<close>

lemma arm_unique:
  assumes inv: "timers_inv g" and fresh: "\<not> issued g (gw_uuids g (gw_issued g))"
    and arm: "arm pr d a kind (kind = DELAYED_START) delay corr cmd g = (r, g')"
    and timers: "od_get (gw_schedules g') i = Some t" "od_get (gw_schedules g') j = Some u"
      "sc_status t = ARMED" "sc_status u = ARMED" "same_function t u"
  shows "i = j"
proof -
  let ?s = "new_schedule (gw_uuids g (gw_issued g)) pr d a kind (kind = DELAYED_START) delay corr cmd (now_of g)"
  note run = arm_run[OF inv fresh arm]
  have s: "sc_device_id ?s = d" "sc_action ?s = a" by (simp_all add: new_schedule_def)
  show ?thesis
  proof (cases "i = sc_id ?s")
    case True
    with timers(1) run(4) have "t = ?s" by simp
    with timers run(5)[OF timers(2,4)] s True show ?thesis by (auto simp: same_function_def)
  next
    case False
    note old = run(5)[OF timers(1,3) False]
    show ?thesis
    proof (cases "j = sc_id ?s")
      case True
      with timers(2) run(4) have "u = ?s" by simp
      with timers(5) old s show ?thesis by (auto simp: same_function_def)
    next
      case False
      from run(5)[OF timers(2,4) False] old show ?thesis
        using timers_invD(3)[OF inv _ _ timers(3,4,5)] by blast
    qed
  qed
qed

lemma timers_inv_arm:
  assumes inv: "timers_inv g" and a: "a \<in> TIMED_ACTIONS"
    and fresh: "\<not> issued g (gw_uuids g (gw_issued g))"
    and arm: "arm pr d a kind (kind = DELAYED_START) delay corr cmd g = (r, g')"
  shows "timers_inv g'"
proof -
  let ?s = "new_schedule (gw_uuids g (gw_issued g)) pr d a kind (kind = DELAYED_START) delay corr cmd (now_of g)"
  note run = arm_run[OF inv fresh arm]
  have drawn: "gw_uuids g' = gw_uuids g" "gw_issued g < gw_issued g'"
    using arm_issued[OF inv, of pr d a kind "kind = DELAYED_START" delay corr cmd] arm by simp_all
  have new: "timer_ok g' (sc_id ?s) ?s"
    using a drawn by (auto simp: timer_ok_def new_schedule_def issued_def)
  have ok: "timer_ok g' i t" if "od_get (gw_schedules g') i = Some t" for i t
  proof (cases "i = sc_id ?s")
    case True
    with that run(4) new show ?thesis by simp
  next
    case False
    from run(6)[OF that False] obtain u where u: "od_get (gw_schedules g) i = Some u"
      "t = u \<or> t = settled u schedule_status.SUPERSEDED None None" by blast
    have "timer_ok g' i u"
      using timer_ok_mono[OF drawn(1) _ timers_invD(2)[OF inv u(1)]] drawn(2) by simp
    with u(2) show ?thesis by (auto simp: timer_ok_def)
  qed
  show ?thesis unfolding timers_inv_def using run(3) ok arm_unique[OF inv fresh arm] by blast
qed

lemma cancel_cases:
  assumes "cancel_schedule pr i g = (r, g')"
  obtains "g' = g"
  | s where "od_get (gw_schedules g) i = Some s" "sc_status s = ARMED"
      "g' = snd (settle s schedule_status.CANCELLED None None (Some pr) g)"
  using assms by (auto simp: cancel_schedule_def get_schedule_def split: option.splits if_splits)

lemma timers_inv_cancel:
  assumes "timers_inv g" and "cancel_schedule pr i g = (r, g')"
  shows "timers_inv g'"
  using assms(2)
proof (cases rule: cancel_cases)
  case (2 s)
  then have "timer_ok g (sc_id s) s" using timers_invD(2)[OF assms(1)] by (simp add: timer_ok_def)
  with 2 assms(1) show ?thesis by (simp add: timers_inv_settle)
qed (use assms in simp)

lemma untouched_due: "due g = (ss, g') \<Longrightarrow> untouched g g'"
  by (auto simp: due_def untouched_def split_beta)

lemma due_iff:
  assumes "timers_inv g" and "due g = (ss, g')"
  shows "s \<in> set ss \<longleftrightarrow>
      od_get (gw_schedules g) (sc_id s) = Some s \<and> sc_status s = ARMED \<and> sc_due_at s \<le> now_of g"
    and "distinct (map sc_id ss)"
proof -
  have armed: "armed (snd (clock_now g)) = armed g" by (simp add: armed_def)
  have ss: "ss = filter (\<lambda>s. sc_due_at s \<le> now_of g) (armed g)"
    using assms(2) armed by (auto simp: due_def split_beta)
  have mem: "t \<in> set (armed g) \<longleftrightarrow> od_get (gw_schedules g) (sc_id t) = Some t \<and> sc_status t = ARMED" for t
    using for_device_iff[OF assms(1), of t "sc_device_id t"] by (auto simp: for_device_def)
  then show "s \<in> set ss \<longleftrightarrow>
      od_get (gw_schedules g) (sc_id s) = Some s \<and> sc_status s = ARMED \<and> sc_due_at s \<le> now_of g"
    by (auto simp: ss)
  have "map sc_id (map snd (gw_schedules g)) = map fst (gw_schedules g)"
    using timers_invD(1,2)[OF assms(1)] by (auto simp: od_get_iff timer_ok_def)
  then have "distinct (map sc_id (map snd (gw_schedules g)))"
    using timers_invD(1)[OF assms(1)] unfolding od_wf_def by metis
  then show "distinct (map sc_id ss)" unfolding ss armed_def by (intro distinct_map_filter)
qed

context command_submitter
begin

lemma create_inv:
  assumes inv: "timers_inv (fst gw)" and draws: "distinct_supply (fst gw) N"
    and create: "create_schedule st submitter pr d a kind hours corr gw = (r, gw')"
    and bound: "gw_issued (fst gw') \<le> N"
  shows "timers_inv (fst gw')"
  using create
proof (cases rule: create_cases)
  case (refused e)
  with inv show ?thesis by (blast intro: timers_inv_untouched)
next
  case (armed g1 delay cmd)
  have inv1: "timers_inv g1" using inv armed(1) by (rule timers_inv_untouched)
  have "gw_issued g1 < gw_issued (fst gw')"
    using arm_issued(1)[OF inv1, of pr d a kind "kind = DELAYED_START" delay corr cmd] armed(4) by simp
  then have "\<not> issued g1 (gw_uuids g1 (gw_issued g1))"
    using draws bound armed(1)
    by (intro supply_fresh[of g1 N]) (auto simp: distinct_supply_def untouched_def)
  from timers_inv_arm[OF inv1 armed(2) this armed(4)] show ?thesis .
qed

lemma fire_guarded_inv:
  assumes "timers_inv (fst gw)" and "timer_ok (fst gw) (sc_id s) s"
  shows "timers_inv (fst (fire_guarded submitter s gw))"
proof -
  obtain status f c g1 where u: "status \<noteq> ARMED" "untouched (fst gw) g1"
    and run: "fst (fire_guarded submitter s gw) = snd (settle s status f c None g1)"
    using fire_guarded_run[OF assms] by auto
  have "timers_inv g1" using assms(1) u(2) by (rule timers_inv_untouched)
  moreover have "timer_ok g1 (sc_id s) s"
    using assms(2) u(2) by (auto simp: untouched_def intro: timer_ok_mono)
  ultimately show ?thesis using u(1) by (simp add: run timers_inv_settle)
qed

end

text \<open>Identifiers are only ever drawn, whatever happens.\<close>

definition draws_on :: "gateway \<Rightarrow> gateway \<Rightarrow> bool" where
  "draws_on g g' \<longleftrightarrow> gw_uuids g' = gw_uuids g \<and> gw_issued g \<le> gw_issued g'"

lemma draws_on_trans: "draws_on g g1 \<Longrightarrow> draws_on g1 g2 \<Longrightarrow> draws_on g g2"
  by (simp add: draws_on_def)

lemma draws_on_untouched: "untouched g g' \<Longrightarrow> draws_on g g'"
  by (simp add: draws_on_def untouched_def)

lemma draws_on_settle: "draws_on g (snd (settle s status f c ac g))"
  by (simp add: draws_on_def settle_def Let_def record_schedule_def publish_schedule_def split_beta)

lemma draws_on_supersede: "draws_on g (snd (supersede a ss g))"
proof (induction ss arbitrary: g)
  case Nil
  then show ?case by (simp add: draws_on_def)
next
  case (Cons s ss)
  have settled: "draws_on g (snd (settle s schedule_status.SUPERSEDED None None None g))"
    by (rule draws_on_settle)
  show ?case
    using Cons.IH[of g] draws_on_trans[OF settled Cons.IH] settled
    by (auto simp: case_prod_unfold split: sum.split)
qed

lemma draws_on_arm: "draws_on g (snd (arm pr d a kind desired delay corr cmd g))"
proof -
  let ?g2 = "snd (uuid4 (snd (clock_now g)))"
  have "draws_on g ?g2" by (simp add: draws_on_def)
  then have "draws_on g (snd (supersede a (for_device d ?g2) ?g2))"
    by (rule draws_on_trans) (rule draws_on_supersede)
  then show ?thesis
    by (auto simp: arm_def case_prod_unfold Let_def draws_on_def publish_schedule_def
        record_schedule_def remember_schedule_def split: option.split)
qed

lemma draws_on_cancel: "cancel_schedule pr i g = (r, g') \<Longrightarrow> draws_on g g'"
  by (elim cancel_cases) (simp_all add: draws_on_settle, simp add: draws_on_def)

lemma log_kept:
  assumes "issued g i" and "draws_on g g'"
  shows "issued g' i"
  using assms issued_mono by (auto simp: draws_on_def)

lemma timer_ok_draws: "draws_on g g' \<Longrightarrow> timer_ok g i t \<Longrightarrow> timer_ok g' i t"
  using timer_ok_mono by (auto simp: draws_on_def)

context command_submitter
begin

lemma draws_on_create:
  "create_schedule st submitter pr d a kind hours corr gw = (r, gw') \<Longrightarrow> draws_on (fst gw) (fst gw')"
proof (elim create_cases)
  fix g1 delay cmd
  assume "untouched (fst gw) g1"
    and arm: "arm pr d a kind (kind = DELAYED_START) delay corr cmd g1 = (r, fst gw')"
  then show "draws_on (fst gw) (fst gw')"
    using draws_on_arm[of g1 pr d a kind "kind = DELAYED_START" delay corr cmd]
    by (auto dest!: draws_on_untouched intro: draws_on_trans)
qed (rule draws_on_untouched)

lemma draws_on_fire: "draws_on (fst gw) (fst (fire_guarded submitter s gw))"
proof -
  let ?sent = "submitter (schedule_principal s) (sc_device_id s) (sc_action s)
    [(''on'', JBool (sc_desired s))] (sc_correlation_id s) gw"
  have u: "draws_on (fst gw) (fst (snd ?sent))" by (rule draws_on_untouched[OF leaves_timers])
  have one: "draws_on (fst gw) (snd (settle s status f c ac (fst (snd ?sent))))" for status f c ac
    by (rule draws_on_trans[OF u draws_on_settle])
  have two: "draws_on (fst gw) (snd (settle s st2 f2 c2 ac2 (snd (settle s status f c ac (fst (snd ?sent))))))"
    for status f c ac st2 f2 c2 ac2
    by (rule draws_on_trans[OF one draws_on_settle])
  show ?thesis
    by (simp add: fire_guarded_def fire_def case_prod_unfold one two u split: sum.split failure.split)
qed

text \<open>A pass of the loop that nothing interrupts.\<close>

lemma fired_inv:
  assumes "timers_inv (fst gw)" and "\<forall>s \<in> set ss. timer_ok (fst gw) (sc_id s) s"
  shows "timers_inv (fst (fold (fire_guarded submitter) ss gw))"
  using assms
proof (induction ss arbitrary: gw)
  case (Cons s ss)
  have "timers_inv (fst (fire_guarded submitter s gw))" using Cons.prems by (intro fire_guarded_inv) simp_all
  moreover have "\<forall>t \<in> set ss. timer_ok (fst (fire_guarded submitter s gw)) (sc_id t) t"
    using Cons.prems(2) timer_ok_draws[OF draws_on_fire] by simp
  ultimately show ?case using Cons.IH by simp
qed simp

lemma run_once_inv:
  assumes "timers_inv g"
  shows "timers_inv (fst (run_once submitter (g, w)))"
proof -
  obtain ss g1 where due: "due g = (ss, g1)" by (rule prod.exhaust)
  note u = untouched_due[OF due]
  have "timer_ok g1 (sc_id s) s" if "s \<in> set ss" for s
    using due_iff(1)[OF assms due] that timers_invD(2)[OF assms] timer_ok_draws[OF draws_on_untouched[OF u]] by blast
  with timers_inv_untouched[OF assms u] show ?thesis by (simp add: run_once_def due fired_inv)
qed

end

text \<open>With the pipeline of commands as the submitter.\<close>

lemma pass_keeps_timers:
  "timers_inv g \<Longrightarrow> timers_inv (fst (run_once (submit co provs) (g, w)))"
  "timers_inv (fst gw) \<Longrightarrow> distinct_supply (fst gw) N \<Longrightarrow>
   create_schedule st (submit co provs) pr d a kind hours corr gw = (r, gw') \<Longrightarrow>
   gw_issued (fst gw') \<le> N \<Longrightarrow> timers_inv (fst gw')"
  by (rule pipeline.run_once_inv, assumption) (rule pipeline.create_inv, assumption+)

end
