(* ===== verification/Command_Tasks.thy ===== *)
theory Command_Tasks
  imports Command_Service
begin

section \<open>Commands as concurrent tasks\<close>

text \<open>
  \<open>commands/service.py\<close> runs every submission as a task of its own; what keeps two of them from
  writing to one device is the lock \<open>_device_lock\<close> hands out. A task asks for the lock of its
  device, waits until nobody holds it, writes and reconciles while it holds it, and lets go; a task
  that is cancelled while it waits gives up.
  The steps of the tasks interleave in any order; the rest of the gateway may do anything that
  leaves the table of locks alone. The scheduler of \<open>asyncio.Lock\<close> is fair, the relation allows
  any waiting task to be next.
\<close>

datatype task_phase = Waiting nat | Writing nat | Done

record task_world =
  tw_gateway :: gateway
  tw_tasks :: "(uuid \<times> task_phase) list"

definition lock_free :: "nat \<Rightarrow> task_world \<Rightarrow> bool" where
  "lock_free l s \<longleftrightarrow> (\<forall>t \<in> set (tw_tasks s). snd t \<noteq> Writing l)"

inductive task_step :: "uuid set \<Rightarrow> task_world \<Rightarrow> task_world \<Rightarrow> bool" for D where
  enter: "d \<in> D \<Longrightarrow> device_lock d (tw_gateway s) = (l, g') \<Longrightarrow>
    task_step D s (s\<lparr>tw_gateway := g', tw_tasks := tw_tasks s @ [(d, Waiting l)]\<rparr>)"
| acquire: "i < length (tw_tasks s) \<Longrightarrow> tw_tasks s ! i = (d, Waiting l) \<Longrightarrow> lock_free l s \<Longrightarrow>
    task_step D s (s\<lparr>tw_tasks := (tw_tasks s)[i := (d, Writing l)]\<rparr>)"
| release: "i < length (tw_tasks s) \<Longrightarrow> tw_tasks s ! i = (d, Writing l) \<Longrightarrow>
    task_step D s (s\<lparr>tw_tasks := (tw_tasks s)[i := (d, Done)]\<rparr>)"
| give_up: "i < length (tw_tasks s) \<Longrightarrow> tw_tasks s ! i = (d, Waiting l) \<Longrightarrow>
    task_step D s (s\<lparr>tw_tasks := (tw_tasks s)[i := (d, Done)]\<rparr>)"
| elsewhere: "gw_locks g' = gw_locks (tw_gateway s) \<Longrightarrow> gw_next_lock g' = gw_next_lock (tw_gateway s) \<Longrightarrow>
    task_step D s (s\<lparr>tw_gateway := g'\<rparr>)"

text \<open>No two tasks write to one device at the same time.\<close>

definition serialised :: "task_world \<Rightarrow> bool" where
  "serialised s \<longleftrightarrow>
     (\<forall>i j d l m. i < length (tw_tasks s) \<and> j < length (tw_tasks s) \<and>
        tw_tasks s ! i = (d, Writing l) \<and> tw_tasks s ! j = (d, Writing m) \<longrightarrow> i = j)"

definition tasks_start :: "gateway \<Rightarrow> task_world" where
  "tasks_start g = \<lparr>tw_gateway = g, tw_tasks = []\<rparr>"

abbreviation reaches :: "uuid set \<Rightarrow> gateway \<Rightarrow> task_world \<Rightarrow> bool" where
  "reaches D g \<equiv> (task_step D)\<^sup>*\<^sup>* (tasks_start g)"

subsection \<open>Asking for a lock\<close>

lemma device_lock_old:
  "od_get (gw_locks g) d = Some l \<Longrightarrow>
     device_lock d g = (l, g\<lparr>gw_locks := od_move_to_end d (gw_locks g)\<rparr>)"
  by (simp add: device_lock_def)

lemma device_lock_new:
  assumes "od_wf (gw_locks g)" and "od_get (gw_locks g) d = None"
  shows "device_lock d g =
    (gw_next_lock g,
     g\<lparr>gw_locks := od_evict MAX_DEVICE_LOCKS (gw_locks g) @ [(d, gw_next_lock g)],
       gw_next_lock := Suc (gw_next_lock g)\<rparr>)"
proof -
  let ?e = "od_evict MAX_DEVICE_LOCKS (gw_locks g)"
  have none: "d \<notin> fst ` set ?e" using assms(2) set_od_evict[of MAX_DEVICE_LOCKS "gw_locks g"]
    by (auto simp: od_get_None_iff)
  then have set: "od_set d (gw_next_lock g) ?e = ?e @ [(d, gw_next_lock g)]"
    by (simp add: od_set_new od_get_None_iff)
  have "AList.delete d ?e = ?e" using none by (metis delete_id)
  moreover have "map_of (?e @ [(d, gw_next_lock g)]) d = Some (gw_next_lock g)"
    using none by (simp add: map_add_def map_of_eq_None_iff[THEN iffD2])
  ultimately have "od_move_to_end d (?e @ [(d, gw_next_lock g)]) = ?e @ [(d, gw_next_lock g)]"
    by (simp add: od_move_to_end_def AList.delete_eq)
  with set assms(2) show ?thesis by (simp add: device_lock_def Let_def)
qed

subsection \<open>Few devices\<close>

definition mutex :: "(uuid \<times> task_phase) list \<Rightarrow> bool" where
  "mutex ts \<longleftrightarrow>
     (\<forall>i j d e l. i < length ts \<and> j < length ts \<and> ts ! i = (d, Writing l) \<and> ts ! j = (e, Writing l) \<longrightarrow> i = j)"

definition holds_lock :: "(uuid, nat) odict \<Rightarrow> uuid \<times> task_phase \<Rightarrow> bool" where
  "holds_lock locks t \<longleftrightarrow> (\<forall>l. snd t = Waiting l \<or> snd t = Writing l \<longrightarrow> od_get locks (fst t) = Some l)"

definition tasks_inv :: "uuid set \<Rightarrow> task_world \<Rightarrow> bool" where
  "tasks_inv D s \<longleftrightarrow>
     od_wf (gw_locks (tw_gateway s)) \<and> fst ` set (gw_locks (tw_gateway s)) \<subseteq> D \<and>
     mutex (tw_tasks s) \<and> (\<forall>t \<in> set (tw_tasks s). holds_lock (gw_locks (tw_gateway s)) t)"

lemma mutex_snoc: "mutex ts \<Longrightarrow> mutex (ts @ [(d, Waiting l)])"
  unfolding mutex_def
proof (intro allI impI, elim conjE)
  fix a b c e m
  assume old: "\<forall>i j d e l. i < length ts \<and> j < length ts \<and> ts ! i = (d, Writing l) \<and> ts ! j = (e, Writing l) \<longrightarrow> i = j"
    and a: "a < length (ts @ [(d, Waiting l)])" "(ts @ [(d, Waiting l)]) ! a = (c, Writing m)"
    and b: "b < length (ts @ [(d, Waiting l)])" "(ts @ [(d, Waiting l)]) ! b = (e, Writing m)"
  from a have "a < length ts" "ts ! a = (c, Writing m)" by (auto simp: nth_append split: if_splits)
  moreover from b have "b < length ts" "ts ! b = (e, Writing m)" by (auto simp: nth_append split: if_splits)
  ultimately show "a = b" using old by blast
qed

lemma mutex_update:
  assumes "mutex ts" and "\<And>l. p = Writing l \<Longrightarrow> \<forall>t \<in> set ts. snd t \<noteq> Writing l"
  shows "mutex (ts[i := (d, p)])"
  unfolding mutex_def
proof (intro allI impI, elim conjE)
  fix a b c e l
  assume a: "a < length (ts[i := (d, p)])" "ts[i := (d, p)] ! a = (c, Writing l)"
    and b: "b < length (ts[i := (d, p)])" "ts[i := (d, p)] ! b = (e, Writing l)"
  have old: "snd (ts ! k) \<noteq> Writing m" if "p = Writing m" "k < length ts" for k m
    using assms(2)[OF that(1)] that(2) by simp
  show "a = b"
  proof (cases "a = i"; cases "b = i")
    assume ne: "a \<noteq> i" "b \<noteq> i"
    with a b have "ts ! a = (c, Writing l)" "ts ! b = (e, Writing l)" "a < length ts" "b < length ts" by simp_all
    with assms(1) show ?thesis unfolding mutex_def by blast
  next
    assume "a = i" "b \<noteq> i"
    with a b old[of l b] show ?thesis by simp
  next
    assume "a \<noteq> i" "b = i"
    with a b old[of l a] show ?thesis by simp
  qed simp
qed

lemma tasks_inv_serialised: "tasks_inv D s \<Longrightarrow> serialised s"
  unfolding serialised_def
proof (intro allI impI, elim conjE)
  fix i j d l m
  assume inv: "tasks_inv D s" and i: "i < length (tw_tasks s)" and j: "j < length (tw_tasks s)"
    and wi: "tw_tasks s ! i = (d, Writing l)" and wj: "tw_tasks s ! j = (d, Writing m)"
  have held: "holds_lock (gw_locks (tw_gateway s)) (tw_tasks s ! k)" if "k < length (tw_tasks s)" for k
    using inv nth_mem[OF that] by (simp add: tasks_inv_def)
  from held[OF i] held[OF j] wi wj have "l = m" by (simp add: holds_lock_def)
  with inv i j wi wj show "i = j" unfolding tasks_inv_def mutex_def by blast
qed

lemma device_lock_few:
  assumes "od_wf (gw_locks g)" and "fst ` set (gw_locks g) \<subseteq> D" and "d \<in> D"
    and "finite D" and "card D \<le> MAX_DEVICE_LOCKS" and "device_lock d g = (l, g')"
  shows "od_wf (gw_locks g') \<and> fst ` set (gw_locks g') \<subseteq> D \<and> od_get (gw_locks g') d = Some l \<and>
    (\<forall>e m. od_get (gw_locks g) e = Some m \<longrightarrow> od_get (gw_locks g') e = Some m)"
proof (cases "od_get (gw_locks g) d")
  case (Some m)
  have g': "l = m" "g' = g\<lparr>gw_locks := od_move_to_end d (gw_locks g)\<rparr>"
    using assms(6) device_lock_old[OF Some] by simp_all
  have "fst ` set (gw_locks g') = fst ` set (gw_locks g)" using assms(1) g' by simp
  with assms(1,2) g' Some show ?thesis by simp
next
  case None
  then have "d \<notin> fst ` set (gw_locks g)" by (simp add: od_get_None_iff)
  with assms(2,3) have "fst ` set (gw_locks g) \<subset> D" by blast
  with assms(4) have "card (fst ` set (gw_locks g)) < card D" by (rule psubset_card_mono)
  moreover have "length (gw_locks g) = card (fst ` set (gw_locks g))"
    using assms(1) by (metis distinct_card length_map list.set_map od_wf_def)
  ultimately have "od_evict MAX_DEVICE_LOCKS (gw_locks g) = gw_locks g"
    using assms(5) by (simp add: od_evict_def)
  with device_lock_new[OF assms(1) None] assms(6) have g': "gw_locks g' = gw_locks g @ [(d, l)]" by auto
  moreover have "od_wf (gw_locks g @ [(d, l)])"
    using assms(1) \<open>d \<notin> fst ` set (gw_locks g)\<close> by (simp add: od_wf_def)
  ultimately show ?thesis
    using assms(2,3) None by (auto simp: od_get_def map_add_def split: option.splits)
qed

lemma tasks_inv_leave:
  assumes "tasks_inv D s"
  shows "tasks_inv D (s\<lparr>tw_tasks := (tw_tasks s)[i := (d, Done)]\<rparr>)"
proof -
  have "holds_lock (gw_locks (tw_gateway s)) (d, Done)" by (simp add: holds_lock_def)
  then have "\<forall>t \<in> set ((tw_tasks s)[i := (d, Done)]). holds_lock (gw_locks (tw_gateway s)) t"
    using assms set_update_subset_insert[of "tw_tasks s" i "(d, Done)"] unfolding tasks_inv_def by blast
  moreover have "mutex ((tw_tasks s)[i := (d, Done)])"
    using assms by (intro mutex_update) (auto simp: tasks_inv_def)
  ultimately show ?thesis using assms by (simp add: tasks_inv_def)
qed

lemma tasks_inv_step:
  assumes "task_step D s s'" and "tasks_inv D s" and "finite D" and "card D \<le> MAX_DEVICE_LOCKS"
  shows "tasks_inv D s'"
  using assms(1)
proof cases
  case (enter d l g')
  from assms(2) have inv: "od_wf (gw_locks (tw_gateway s))" "fst ` set (gw_locks (tw_gateway s)) \<subseteq> D"
    by (simp_all add: tasks_inv_def)
  note few = device_lock_few[OF inv enter(2) assms(3,4) enter(3)]
  have "holds_lock (gw_locks g') t" if "t \<in> set (tw_tasks s)" for t
    using assms(2) that few by (auto simp: tasks_inv_def holds_lock_def)
  moreover have "holds_lock (gw_locks g') (d, Waiting l)" using few by (simp add: holds_lock_def)
  ultimately show ?thesis
    using assms(2) few unfolding enter(1) by (simp add: tasks_inv_def mutex_snoc)
next
  case (acquire i d l)
  then have "(d, Waiting l) \<in> set (tw_tasks s)" by (metis nth_mem)
  with assms(2) have "holds_lock (gw_locks (tw_gateway s)) (d, Writing l)"
    by (auto simp: tasks_inv_def holds_lock_def)
  then have "\<forall>t \<in> set ((tw_tasks s)[i := (d, Writing l)]). holds_lock (gw_locks (tw_gateway s)) t"
    using assms(2) set_update_subset_insert[of "tw_tasks s" i "(d, Writing l)"] unfolding tasks_inv_def by blast
  moreover have "mutex ((tw_tasks s)[i := (d, Writing l)])"
    using assms(2) acquire(4) by (intro mutex_update) (auto simp: tasks_inv_def lock_free_def)
  ultimately show ?thesis using assms(2) unfolding acquire(1) by (simp add: tasks_inv_def)
next
  case (release i d l)
  with tasks_inv_leave[OF assms(2), of i d] show ?thesis by simp
next
  case (give_up i d l)
  with tasks_inv_leave[OF assms(2), of i d] show ?thesis by simp
next
  case (elsewhere g')
  with assms(2) show ?thesis by (simp add: tasks_inv_def)
qed

lemma few_serialised:
  assumes "reaches D g s" and "gw_locks g = []" and "finite D" and "card D \<le> MAX_DEVICE_LOCKS"
  shows "serialised s"
proof -
  from assms(1) have "tasks_inv D s"
  proof (induction rule: rtranclp_induct)
    case base
    then show ?case using assms(2) by (simp add: tasks_inv_def tasks_start_def mutex_def)
  next
    case (step s s')
    from tasks_inv_step[OF step(2,3) assms(3,4)] show ?case .
  qed
  then show ?thesis by (rule tasks_inv_serialised)
qed

subsection \<open>Many devices\<close>

text \<open>Tasks for new devices, one after the other, while there is room in the table.\<close>

lemma enter_many:
  assumes "distinct ds" and "set ds \<subseteq> D" and "length ds \<le> MAX_DEVICE_LOCKS" and "gw_locks g = []"
  defines "n \<equiv> gw_next_lock g"
  shows "\<exists>s. reaches D g s \<and> gw_locks (tw_gateway s) = zip ds [n..<n + length ds] \<and>
    gw_next_lock (tw_gateway s) = n + length ds \<and>
    tw_tasks s = map2 (\<lambda>d l. (d, Waiting l)) ds [n..<n + length ds]"
  using assms(1-3)
proof (induction ds rule: rev_induct)
  case Nil
  have "reaches D g (tasks_start g)" by simp
  then show ?case using assms(4) by (intro exI[of _ "tasks_start g"]) (simp add: tasks_start_def n_def)
next
  case (snoc d ds)
  then obtain s where s: "reaches D g s" "gw_locks (tw_gateway s) = zip ds [n..<n + length ds]"
    "gw_next_lock (tw_gateway s) = n + length ds"
    "tw_tasks s = map2 (\<lambda>d l. (d, Waiting l)) ds [n..<n + length ds]" by auto
  let ?g = "tw_gateway s"
  have wf: "od_wf (gw_locks ?g)" using snoc.prems(1) s(2) by (simp add: od_wf_def)
  have new: "od_get (gw_locks ?g) d = None"
    using snoc.prems(1) s(2) by (auto simp: od_get_None_iff dest: set_zip_leftD)
  have "od_evict MAX_DEVICE_LOCKS (gw_locks ?g) = gw_locks ?g"
    using snoc.prems(3) s(2) by (simp add: od_evict_def)
  with device_lock_new[OF wf new] s have
    "device_lock d ?g = (n + length ds, ?g\<lparr>gw_locks := zip ds [n..<n + length ds] @ [(d, n + length ds)],
       gw_next_lock := Suc (n + length ds)\<rparr>)" by simp
  note entered = this
  let ?s = "s\<lparr>tw_gateway := ?g\<lparr>gw_locks := zip ds [n..<n + length ds] @ [(d, n + length ds)],
      gw_next_lock := Suc (n + length ds)\<rparr>, tw_tasks := tw_tasks s @ [(d, Waiting (n + length ds))]\<rparr>"
  have "task_step D s ?s" using enter[OF _ entered, of D] snoc.prems(2) by simp
  with s(1) have "reaches D g ?s" by (rule rtranclp.rtrancl_into_rtrancl)
  then show ?case using s(4) by (intro exI[of _ ?s] conjI) simp_all
qed

lemma evicted_lock_reissued:
  assumes "gw_locks g = (d, l) # rest" and "distinct (d # map fst rest)" and "length rest = MAX_DEVICE_LOCKS - 1"
    and "e \<notin> set (d # map fst rest)"
  obtains g2 g3 where "device_lock e g = (gw_next_lock g, g2)" "device_lock d g2 = (Suc (gw_next_lock g), g3)"
proof -
  have wf1: "od_wf (gw_locks g)" and new1: "od_get (gw_locks g) e = None"
    using assms by (auto simp: od_wf_def od_get_None_iff image_iff)
  let ?g2 = "g\<lparr>gw_locks := rest @ [(e, gw_next_lock g)], gw_next_lock := Suc (gw_next_lock g)\<rparr>"
  have "od_evict MAX_DEVICE_LOCKS (gw_locks g) = rest"
    using assms(3) by (simp add: od_evict_def od_popfirst_def assms(1) MAX_DEVICE_LOCKS_def)
  with device_lock_new[OF wf1 new1] have l1: "device_lock e g = (gw_next_lock g, ?g2)" by simp
  have wf2: "od_wf (gw_locks ?g2)" and new2: "od_get (gw_locks ?g2) d = None"
    using assms(2,4) by (auto simp: od_wf_def od_get_None_iff image_iff)
  from device_lock_new[OF wf2 new2] have "device_lock d ?g2 = (Suc (gw_next_lock g), snd (device_lock d ?g2))" by simp
  with l1 show ?thesis by (rule that)
qed

lemma two_writers:
  assumes run: "reaches D g s" and tasks: "tw_tasks s = (d, Waiting l) # rest"
    and locks: "gw_locks (tw_gateway s) = (d, l) # more_locks" "distinct (d # map fst more_locks)"
      "length more_locks = MAX_DEVICE_LOCKS - 1"
    and quiet: "\<And>t k. t \<in> set rest \<Longrightarrow> snd t \<noteq> Writing k"
    and fresh: "l < gw_next_lock (tw_gateway s)" and d: "d \<in> D" and e: "e \<in> D" "e \<notin> set (d # map fst more_locks)"
  shows "\<exists>s. reaches D g s \<and> \<not> serialised s"
proof -
  let ?k = "gw_next_lock (tw_gateway s)"
  obtain g2 g3 where l: "device_lock e (tw_gateway s) = (?k, g2)" "device_lock d g2 = (Suc ?k, g3)"
    using evicted_lock_reissued[OF locks e(2)] by blast
  \<comment> \<open>the first task writes\<close>
  let ?s1 = "s\<lparr>tw_tasks := (d, Writing l) # rest\<rparr>"
  have "task_step D s ?s1"
    using acquire[of 0 s d l D] quiet by (auto simp: tasks lock_free_def)
  with run have r1: "reaches D g ?s1" by (rule rtranclp.rtrancl_into_rtrancl)
  \<comment> \<open>a task for one more device evicts the lock the first one holds\<close>
  let ?s2 = "?s1\<lparr>tw_gateway := g2, tw_tasks := tw_tasks ?s1 @ [(e, Waiting ?k)]\<rparr>"
  have "task_step D ?s1 ?s2" using enter[of e D ?s1] l(1) e(1) by simp
  with r1 have r2: "reaches D g ?s2" by (rule rtranclp.rtrancl_into_rtrancl)
  \<comment> \<open>so a second task for the first device is given a lock of its own\<close>
  let ?s3 = "?s2\<lparr>tw_gateway := g3, tw_tasks := tw_tasks ?s2 @ [(d, Waiting (Suc ?k))]\<rparr>"
  have "task_step D ?s2 ?s3" using enter[of d D ?s2] l(2) d by simp
  with r2 have r3: "reaches D g ?s3" by (rule rtranclp.rtrancl_into_rtrancl)
  let ?i = "Suc (Suc (length rest))"
  let ?s4 = "?s3\<lparr>tw_tasks := (tw_tasks ?s3)[?i := (d, Writing (Suc ?k))]\<rparr>"
  have "lock_free (Suc ?k) ?s3" using quiet fresh by (auto simp: lock_free_def)
  then have "task_step D ?s3 ?s4" by (intro acquire) (simp_all add: nth_append)
  with r3 have r4: "reaches D g ?s4" by (rule rtranclp.rtrancl_into_rtrancl)
  have "tw_tasks ?s4 ! 0 = (d, Writing l)" "tw_tasks ?s4 ! ?i = (d, Writing (Suc ?k))"
    "?i < length (tw_tasks ?s4)" "0 < length (tw_tasks ?s4)" by (simp_all add: nth_append)
  then have "\<not> serialised ?s4" unfolding serialised_def by (metis nat.distinct(1))
  with r4 show ?thesis by blast
qed

lemma many_overlap:
  assumes "finite D" and "MAX_DEVICE_LOCKS < card D" and "gw_locks g = []"
  shows "\<exists>s. reaches D g s \<and> \<not> serialised s"
proof -
  obtain E where "E \<subseteq> D" "card E = Suc MAX_DEVICE_LOCKS" "finite E"
    using assms(1,2) by (metis Suc_leI obtain_subset_with_card_n finite_subset)
  then obtain xs where xs: "set xs \<subseteq> D" "distinct xs" "length xs = Suc MAX_DEVICE_LOCKS"
    by (metis finite_distinct_list distinct_card)
  then obtain ys e where ys: "xs = ys @ [e]" by (cases xs rule: rev_cases) auto
  with xs(3) have "ys \<noteq> []" by (auto simp: MAX_DEVICE_LOCKS_def)
  then obtain d ds where "ys = d # ds" by (cases ys) auto
  with xs ys have ds: "distinct (d # ds)" "set (d # ds) \<subseteq> D" "length (d # ds) = MAX_DEVICE_LOCKS"
    and e: "e \<in> D" "e \<notin> set (d # ds)" by auto
  let ?n = "gw_next_lock g" and ?k = "length (d # ds)"
  let ?locks = "zip ds [Suc ?n..<?n + ?k]" and ?rest = "map2 (\<lambda>d l. (d, Waiting l)) ds [Suc ?n..<?n + ?k]"
  obtain s where s: "reaches D g s" "gw_locks (tw_gateway s) = zip (d # ds) [?n..<?n + ?k]"
    "gw_next_lock (tw_gateway s) = ?n + ?k"
    "tw_tasks s = map2 (\<lambda>d l. (d, Waiting l)) (d # ds) [?n..<?n + ?k]"
    using enter_many[OF ds(1,2) _ assms(3)] ds(3) by auto
  have upt: "[?n..<?n + ?k] = ?n # [Suc ?n..<?n + ?k]" by (simp add: upt_rec)
  show ?thesis
  proof (rule two_writers[OF s(1)])
    show "tw_tasks s = (d, Waiting ?n) # ?rest" and "gw_locks (tw_gateway s) = (d, ?n) # ?locks"
      using s(2,4) upt by simp_all
    show "distinct (d # map fst ?locks)" "length ?locks = MAX_DEVICE_LOCKS - 1" "e \<notin> set (d # map fst ?locks)"
      using ds(1,3) e(2) by simp_all
    show "snd t \<noteq> Writing l" if "t \<in> set ?rest" for t l using that by auto
  qed (use s(3) ds(2) e(1) in auto)
qed

text \<open>
  C36. Writes to one device are serialised for up to 256 devices and not beyond. From a gateway that
  just started, whatever the order in which tasks ask for locks, take them and let go, two tasks
  can be writing to one device at the same time exactly if commands may address more than 256
  devices: a lock that is held can be evicted from the full table, and the next task for its
  device is given a new one.
\<close>

theorem writes_serialised_iff:
  "(\<exists>s. reaches D (new_gateway clk uuids salt queue_size max_entries) s \<and> \<not> serialised s) \<longleftrightarrow> 256 < card D"
proof -
  let ?g = "new_gateway clk uuids salt queue_size max_entries"
  have start: "gw_locks ?g = []" by (simp add: new_gateway_def)
  have fin: "finite D" by simp
  show ?thesis
  proof
    assume "\<exists>s. reaches D ?g s \<and> \<not> serialised s"
    then show "256 < card D"
      using few_serialised[OF _ start fin] by (auto simp: MAX_DEVICE_LOCKS_def not_less[symmetric])
  next
    assume "256 < card D"
    then show "\<exists>s. reaches D ?g s \<and> \<not> serialised s"
      using many_overlap[OF fin _ start] by (simp add: MAX_DEVICE_LOCKS_def)
  qed
qed

end
