(* ===== verification/Command_Stages.thy ===== *)
theory Command_Stages
  imports Command_Properties Command_Tasks
begin

section \<open>Submissions interleaved at their awaits\<close>

text \<open>
  \<open>CommandService.submit\<close> is a coroutine. Between two awaits it runs alone; at an await any other
  task may run: another submission, an adapter stream that delivers an observation, a request that
  reads. \<open>Command_Service\<close> runs a submission in one piece. Here it is cut at its awaits: taking the
  lock of the device, the adapter's write, the read-back after a timeout. What the pieces share is
  the gateway they find when they resume. An adapter call acts on the world in the step that
  delivers its result.
\<close>

record 'w flight =
  fl_command :: command
  fl_provider :: "'w device_provider"
  fl_ref :: provider_device_ref
  fl_params :: command_params

text \<open>
  Up to the first await: \<open>Inl\<close> is a submission that returned or raised without one, \<open>Inr\<close> one that
  asked for the lock of its device.
\<close>

definition begin_execute ::
  "(string \<Rightarrow> 'w device_provider option) \<Rightarrow> command \<Rightarrow> device \<Rightarrow> command_params \<Rightarrow> gateway
     \<Rightarrow> ((failure + command) + nat \<times> 'w flight) \<times> gateway"
where
  "begin_execute provs c d params g =
     (case ref_for (dev_id d) (gw_registry g) of
        Inl e \<Rightarrow> (Inl (Inl e), g)
      | Inr ref \<Rightarrow>
     (case provs (ref_provider ref) of
        None \<Rightarrow>
          (let (c', g1) = finish_command c command_status.FAILED (Some ''provider_unavailable'') g
           in (Inl (Inr c'), g1))
      | Some p \<Rightarrow>
          (let (running, g1) = start_command c g;
               (lock, g2) = device_lock (dev_id d) g1
           in (Inr (lock, \<lparr>fl_command = running, fl_provider = p, fl_ref = ref, fl_params = params\<rparr>), g2))))"

definition begin_submit ::
  "coercions \<Rightarrow> (string \<Rightarrow> 'w device_provider option) \<Rightarrow> principal \<Rightarrow> uuid \<Rightarrow> action
     \<Rightarrow> (string, json) odict \<Rightarrow> string \<Rightarrow> gateway \<Rightarrow> ((failure + command) + nat \<times> 'w flight) \<times> gateway"
where
  "begin_submit co provs pr i a raw corr g =
     (case admit co pr i a raw corr g of
        (Inl e, g1) \<Rightarrow> (Inl (Inl e), g1)
      | (Inr (d, params, risk), g1) \<Rightarrow>
          (let (c, g2) = create_command pr d a params risk corr g1 in begin_execute provs c d params g2))"

text \<open>The write returns; \<open>None\<close> is a timeout, after which the read-back is under way.\<close>

definition write_returns ::
  "'w flight \<Rightarrow> gateway \<times> 'w \<Rightarrow> (failure + command) option \<times> gateway \<times> 'w"
where
  "write_returns f gw =
     (let running = fl_command f; (g, w) = gw in
      case dp_execute (fl_provider f) (fl_ref f)
             \<lparr>pc_action = cmd_action running, pc_params = fl_params f\<rparr> w of
        (Inl TimeoutError, w1) \<Rightarrow> (None, publish_command COMMAND_TIMED_OUT running g, w1)
      | (Inl e, w1) \<Rightarrow>
          (let (c', g1) = finish_command running command_status.FAILED (Some (failed_code e)) g
           in (Some (Inr c'), g1, w1))
      | (Inr res, w1) \<Rightarrow> (let (r, g1) = conclude running (fl_ref f) res g in (Some r, g1, w1)))"

definition read_returns :: "'w flight \<Rightarrow> gateway \<times> 'w \<Rightarrow> (failure + command) \<times> gateway \<times> 'w" where
  "read_returns f gw =
     (let (res, w1) = dp_get_state (fl_provider f) (fl_ref f) (snd gw);
          (r, g1) = readback (fl_command f) (fl_ref f) (fl_params f) res (fst gw)
      in (r, g1, w1))"

text \<open>The pieces put together again, with nothing in between.\<close>

definition uninterrupted ::
  "coercions \<Rightarrow> (string \<Rightarrow> 'w device_provider option) \<Rightarrow> principal \<Rightarrow> uuid \<Rightarrow> action
     \<Rightarrow> (string, json) odict \<Rightarrow> string \<Rightarrow> gateway \<times> 'w \<Rightarrow> (failure + command) \<times> gateway \<times> 'w"
where
  "uninterrupted co provs pr i a raw corr gw =
     (case begin_submit co provs pr i a raw corr (fst gw) of
        (Inl r, g1) \<Rightarrow> (r, g1, snd gw)
      | (Inr (l, f), g1) \<Rightarrow>
          (case write_returns f (g1, snd gw) of
             (Some r, gw2) \<Rightarrow> (r, gw2) | (None, gw2) \<Rightarrow> read_returns f gw2))"

text \<open>The branches of each piece.\<close>

lemma begin_execute_asks:
  assumes "ref_for (dev_id d) (gw_registry g) = Inr ref" and "provs (ref_provider ref) = Some p"
  shows "begin_execute provs c d params g =
    (Inr (fst (device_lock (dev_id d) (snd (start_command c g))),
       \<lparr>fl_command = fst (start_command c g), fl_provider = p, fl_ref = ref, fl_params = params\<rparr>),
     snd (device_lock (dev_id d) (snd (start_command c g))))"
  using assms by (simp add: begin_execute_def split_beta Let_def)

lemma write_returns_timeout:
  assumes "dp_execute (fl_provider f) (fl_ref f)
    \<lparr>pc_action = cmd_action (fl_command f), pc_params = fl_params f\<rparr> w = (Inl TimeoutError, w1)"
  shows "write_returns f (g, w) = (None, publish_command COMMAND_TIMED_OUT (fl_command f) g, w1)"
  using assms by (simp add: write_returns_def)

lemma write_returns_error:
  assumes "dp_execute (fl_provider f) (fl_ref f)
    \<lparr>pc_action = cmd_action (fl_command f), pc_params = fl_params f\<rparr> w = (Inl e, w1)" and "e \<noteq> TimeoutError"
  shows "write_returns f (g, w) =
    (Some (Inr (fst (finish_command (fl_command f) command_status.FAILED (Some (failed_code e)) g))),
     snd (finish_command (fl_command f) command_status.FAILED (Some (failed_code e)) g), w1)"
  using assms by (cases e) (simp_all add: write_returns_def split_beta Let_def)

lemma write_returns_result:
  assumes "dp_execute (fl_provider f) (fl_ref f)
    \<lparr>pc_action = cmd_action (fl_command f), pc_params = fl_params f\<rparr> w = (Inr res, w1)"
  shows "write_returns f (g, w) =
    (Some (fst (conclude (fl_command f) (fl_ref f) res g)), snd (conclude (fl_command f) (fl_ref f) res g), w1)"
  using assms by (simp add: write_returns_def split_beta Let_def)

text \<open>The branches of a write, for case distinctions.\<close>

lemma write_cases:
  obtains (late) w1 where "dp_execute p ref c w = (Inl TimeoutError, w1)"
  | (failed) e w1 where "dp_execute p ref c w = (Inl e, w1)" "e \<noteq> TimeoutError"
  | (result) res w1 where "dp_execute p ref c w = (Inr res, w1)"
  by (cases "dp_execute p ref c w"; cases "fst (dp_execute p ref c w)") auto

lemma execute_in_pieces:
  "execute_command provs c d params (g, w) =
     (case begin_execute provs c d params g of
        (Inl r, g1) \<Rightarrow> (r, g1, w)
      | (Inr (l, f), g1) \<Rightarrow>
          (case write_returns f (g1, w) of (Some r, gw2) \<Rightarrow> (r, gw2) | (None, gw2) \<Rightarrow> read_returns f gw2))"
proof (cases "ref_for (dev_id d) (gw_registry g)")
  case (Inl e)
  then show ?thesis by (simp add: execute_command_def begin_execute_def)
next
  case (Inr ref)
  show ?thesis
  proof (cases "provs (ref_provider ref)")
    case None
    with Inr show ?thesis by (simp add: execute_command_def begin_execute_def split_beta Let_def)
  next
    case (Some p)
    let ?f = "\<lparr>fl_command = fst (start_command c g), fl_provider = p, fl_ref = ref, fl_params = params\<rparr>"
    note start = begin_execute_asks[where provs = provs and params = params and c = c, OF Inr Some]
    have act: "cmd_action (fst (start_command c g)) = cmd_action c" by simp
    note pieces = start execute_command_def Inr Some Let_def split_beta
    show ?thesis
    proof (cases rule: write_cases[of p ref "\<lparr>pc_action = cmd_action (fl_command ?f), pc_params = fl_params ?f\<rparr>" w])
      case (late w1)
      with write_returns_timeout[of ?f w w1] show ?thesis
        by (simp add: pieces reconcile_def read_returns_def)
    next
      case (failed e w1)
      with write_returns_error[of ?f w e w1] show ?thesis by (cases e) (simp_all add: pieces)
    next
      case (result res w1)
      with write_returns_result[of ?f w res w1] show ?thesis by (simp add: pieces)
    qed
  qed
qed

lemma submit_uninterrupted: "submit co provs pr i a raw corr gw = uninterrupted co provs pr i a raw corr gw"
proof (cases "admit co pr i a raw corr (fst gw)")
  case (Pair x g1)
  show ?thesis
  proof (cases x)
    case (Inl e)
    with Pair show ?thesis by (simp add: submit_def uninterrupted_def begin_submit_def)
  next
    case (Inr y)
    obtain d params risk where y: "y = (d, params, risk)" by (cases y)
    obtain c g2 where c: "create_command pr d a params risk corr g1 = (c, g2)" by fastforce
    from Pair Inr y c execute_in_pieces[of provs c d params g2 "snd gw"] show ?thesis
      by (simp add: submit_def uninterrupted_def begin_submit_def)
  qed
qed

subsection \<open>The tasks\<close>

datatype 'w stage =
    Queued nat "'w flight"
  | InWrite nat "'w flight"
  | InRead nat "'w flight"
  | Answered "'w flight" "failure + command"
  | Abandoned "'w flight"

record 'w stage_world =
  sw_gateway :: gateway
  sw_world :: 'w
  sw_tasks :: "'w stage list"
  sw_held :: "nat list"

fun flight_of :: "'w stage \<Rightarrow> 'w flight" where
  "flight_of (Queued l f) = f"
| "flight_of (InWrite l f) = f"
| "flight_of (InRead l f) = f"
| "flight_of (Answered f r) = f"
| "flight_of (Abandoned f) = f"

fun holds :: "nat \<Rightarrow> 'w stage \<Rightarrow> bool" where
  "holds l (InWrite m f) \<longleftrightarrow> m = l"
| "holds l (InRead m f) \<longleftrightarrow> m = l"
| "holds l _ \<longleftrightarrow> False"

fun finished :: "'w stage \<Rightarrow> bool" where
  "finished (Answered f r) = True"
| "finished (Abandoned f) = True"
| "finished _ = False"

text \<open>
  Leaving \<open>async with self._device_lock(...)\<close>, by the end of the block, a return or an exception
  in it: the lock the task had taken is released. A task that still waits for its lock has none.
\<close>

fun release :: "'w stage \<Rightarrow> nat list \<Rightarrow> nat list" where
  "release (InWrite l f) held = remove1 l held"
| "release (InRead l f) held = remove1 l held"
| "release _ held = held"

text \<open>
  A task moves: it takes its lock if no one has taken it, its write returns, its read-back returns.
  The locks that are taken are part of the state; a lock that is not released stays taken.
\<close>

inductive task_moves :: "'w stage_world \<Rightarrow> 'w stage_world \<Rightarrow> bool" where
  takes_lock: "k < length (sw_tasks s) \<Longrightarrow> sw_tasks s ! k = Queued l f \<Longrightarrow> l \<notin> set (sw_held s) \<Longrightarrow>
    task_moves s (s\<lparr>sw_tasks := (sw_tasks s)[k := InWrite l f], sw_held := l # sw_held s\<rparr>)"
| written: "k < length (sw_tasks s) \<Longrightarrow> sw_tasks s ! k = InWrite l f \<Longrightarrow>
    write_returns f (sw_gateway s, sw_world s) = (Some r, g', w') \<Longrightarrow>
    task_moves s (s\<lparr>sw_gateway := g', sw_world := w', sw_tasks := (sw_tasks s)[k := Answered f r],
      sw_held := release (sw_tasks s ! k) (sw_held s)\<rparr>)"
| timed_out: "k < length (sw_tasks s) \<Longrightarrow> sw_tasks s ! k = InWrite l f \<Longrightarrow>
    write_returns f (sw_gateway s, sw_world s) = (None, g', w') \<Longrightarrow>
    task_moves s (s\<lparr>sw_gateway := g', sw_world := w', sw_tasks := (sw_tasks s)[k := InRead l f]\<rparr>)"
| read_back: "k < length (sw_tasks s) \<Longrightarrow> sw_tasks s ! k = InRead l f \<Longrightarrow>
    read_returns f (sw_gateway s, sw_world s) = (r, g', w') \<Longrightarrow>
    task_moves s (s\<lparr>sw_gateway := g', sw_world := w', sw_tasks := (sw_tasks s)[k := Answered f r],
      sw_held := release (sw_tasks s ! k) (sw_held s)\<rparr>)"

text \<open>What the other handlers leave of the state of this service.\<close>

definition grown :: "gateway \<Rightarrow> gateway \<Rightarrow> bool" where
  "grown g g' \<longleftrightarrow>
     gw_uuids g' = gw_uuids g \<and> gw_issued g \<le> gw_issued g' \<and> evolves (gw_registry g) (gw_registry g')"

definition calm :: "gateway \<Rightarrow> gateway \<Rightarrow> bool" where
  "calm g g' \<longleftrightarrow> grown g g' \<and> gw_locks g' = gw_locks g \<and> gw_next_lock g' = gw_next_lock g"

definition bystander :: "gateway \<Rightarrow> gateway \<Rightarrow> bool" where
  "bystander g g' \<longleftrightarrow> calm g g' \<and> gw_commands g' = gw_commands g"

text \<open>
  Any order of moves, submissions, cancellations (at an await, with the adapter's call somewhere on
  its way) and of whatever else the process does.
\<close>

inductive stage_step ::
  "coercions \<Rightarrow> (string \<Rightarrow> 'w device_provider option) \<Rightarrow> ('w \<Rightarrow> bool) \<Rightarrow> 'w stage_world \<Rightarrow> 'w stage_world \<Rightarrow> bool"
  for co provs world_ok
where
  moves: "task_moves s s' \<Longrightarrow> stage_step co provs world_ok s s'"
| enters: "begin_submit co provs pr i a raw corr (sw_gateway s) = (Inr (l, f), g') \<Longrightarrow>
    stage_step co provs world_ok s (s\<lparr>sw_gateway := g', sw_tasks := sw_tasks s @ [Queued l f]\<rparr>)"
| returns_at_once: "begin_submit co provs pr i a raw corr (sw_gateway s) = (Inl r, g') \<Longrightarrow>
    stage_step co provs world_ok s (s\<lparr>sw_gateway := g'\<rparr>)"
| cancelled: "k < length (sw_tasks s) \<Longrightarrow> \<not> finished (sw_tasks s ! k) \<Longrightarrow> world_ok w' \<Longrightarrow>
    stage_step co provs world_ok s
      (s\<lparr>sw_world := w', sw_tasks := (sw_tasks s)[k := Abandoned (flight_of (sw_tasks s ! k))],
         sw_held := release (sw_tasks s ! k) (sw_held s)\<rparr>)"
| elsewhere: "bystander (sw_gateway s) g' \<Longrightarrow> world_ok w' \<Longrightarrow>
    stage_step co provs world_ok s (s\<lparr>sw_gateway := g', sw_world := w'\<rparr>)"

definition stages_start :: "gateway \<Rightarrow> 'w \<Rightarrow> 'w stage_world" where
  "stages_start g w = \<lparr>sw_gateway = g, sw_world = w, sw_tasks = [], sw_held = []\<rparr>"

abbreviation interleaves ::
  "coercions \<Rightarrow> (string \<Rightarrow> 'w device_provider option) \<Rightarrow> ('w \<Rightarrow> bool) \<Rightarrow> 'w stage_world \<Rightarrow> 'w stage_world \<Rightarrow> bool"
where "interleaves co provs world_ok \<equiv> (stage_step co provs world_ok)\<^sup>*\<^sup>*"

subsection \<open>What a piece does to the gateway\<close>

lemma calm_refl [simp]: "calm g g"
  by (simp add: calm_def grown_def)

lemma calm_trans: "calm g g1 \<Longrightarrow> calm g1 g2 \<Longrightarrow> calm g g2"
  using evolves_trans by (auto simp: calm_def grown_def)

lemma calm_locked: "calm g g1 \<Longrightarrow> grown g (snd (device_lock d g1))"
  by (simp add: calm_def grown_def)

lemma calm_steps [simp]:
  "calm g (snd (create_command pr d a params risk corr g))" "calm g (snd (start_command c g))"
  "calm g (snd (finish_command c st fc g))" "calm g (publish_command ty c g)"
  "calm g (audit_denied pr d a corr reason g)"
  by (simp_all add: calm_def grown_def)

lemma calm_quiet: "quiet g g1 \<Longrightarrow> evolves (gw_registry g) (gw_registry g1) \<Longrightarrow> calm g g1"
  by (simp add: calm_def grown_def quiet_def)

text \<open>A piece that settles its command: the verdict is stored, and nothing else of the service moves.\<close>

definition final_status :: "command_status \<Rightarrow> bool" where
  "final_status st \<longleftrightarrow> st \<in> {command_status.SUCCEEDED, command_status.FAILED, command_status.UNKNOWN}"

definition settled_into :: "command \<Rightarrow> gateway \<Rightarrow> failure + command \<Rightarrow> gateway \<Rightarrow> bool" where
  "settled_into c g r g' \<longleftrightarrow> calm g g' \<and>
     (\<exists>st t fc. final_status st \<and> r = Inr (with_status c st t fc) \<and>
        gw_commands g' = store_command (with_status c st t fc) (gw_commands g))"

lemma settled_finish:
  assumes "final_status st"
  shows "settled_into c g (Inr (fst (finish_command c st fc g))) (snd (finish_command c st fc g))"
  using assms unfolding settled_into_def
  by (intro conjI exI[of _ st] exI[of _ "now_of g"] exI[of _ fc]) (simp_all add: command_store_steps)

lemma settled_settles:
  assumes "settles c (st, fc) g out" and "final_status st"
    and ev: "evolves (gw_registry g) (gw_registry (snd out))"
  shows "settled_into c g (fst out) (snd out)"
proof -
  from assms(1) obtain g1 where q: "quiet g g1"
    and out: "fst out = Inr (with_status c st (now_of g1) fc)" "snd out = snd (finish_command c st fc g1)"
    by (auto simp: settles_def split_beta Let_def)
  from ev have "evolves (gw_registry g) (gw_registry g1)" by (simp add: out)
  then have "calm g (snd (finish_command c st fc g1))"
    using calm_trans[OF calm_quiet[OF q] calm_steps(3)] by blast
  moreover have "gw_commands (snd (finish_command c st fc g1)) =
      store_command (with_status c st (now_of g1) fc) (gw_commands g)"
    using q by (simp add: command_store_steps quiet_def)
  ultimately show ?thesis using out assms(2) unfolding settled_into_def by auto
qed

lemma final_outcome: "final_status (outcome_status r)"
  by (cases r) (simp_all add: final_status_def)

context adapter_contract
begin

lemma read_returns_effect:
  assumes inv: "registry_inv (gw_registry g)" and w: "world_ok w" and p: "fl_provider f = p"
    and run: "read_returns f (g, w) = (r, g', w')"
  shows "world_ok w' \<and> settled_into (fl_command f) g r g'"
proof -
  obtain res w1 where get: "dp_get_state p (fl_ref f) w = (res, w1)" by fastforce
  with run p have w': "w' = w1" and
    out: "readback (fl_command f) (fl_ref f) (fl_params f) res g = (r, g')"
    by (simp_all add: read_returns_def split_beta prod_eq_iff)
  have ev: "evolves (gw_registry g) (gw_registry (snd (readback (fl_command f) (fl_ref f) (fl_params f) res g)))"
    using state_ok[OF w, of "fl_ref f"] get by (intro readback_evolves[OF inv]) simp
  obtain st fc where "settles (fl_command f) (st, fc) g (r, g')" "final_status st"
    using readback_settles[OF inv, of "fl_command f" "fl_params f" res "fl_ref f"] out
    by (cases res) (auto simp: final_status_def split: if_splits)
  with ev out have "settled_into (fl_command f) g r g'" using settled_settles by fastforce
  moreover have "world_ok w1" using get_keeps[OF w, of "fl_ref f"] get by simp
  ultimately show ?thesis by (simp add: w')
qed

lemma write_returns_effect:
  assumes inv: "registry_inv (gw_registry g)" and w: "world_ok w" and p: "fl_provider f = p"
    and fit: "params_fit (cmd_action (fl_command f)) (fl_params f)"
    and run: "write_returns f (g, w) = (out, g', w')"
  shows "world_ok w' \<and>
    (case out of None \<Rightarrow> bystander g g' | Some r \<Rightarrow> settled_into (fl_command f) g r g')"
proof -
  let ?c = "\<lparr>pc_action = cmd_action (fl_command f), pc_params = fl_params f\<rparr>"
  have fit': "params_fit (pc_action ?c) (pc_params ?c)" using fit by simp
  have keeps: "world_ok w1" if "dp_execute p (fl_ref f) ?c w = (x, w1)" for x w1
    using execute_keeps[OF w fit', of "fl_ref f"] that by simp
  show ?thesis
  proof (cases rule: write_cases[of "fl_provider f" "fl_ref f" ?c w])
    case (late w1)
    with write_returns_timeout[OF late] run keeps p show ?thesis by (auto simp: bystander_def)
  next
    case (failed e w1)
    with write_returns_error[OF failed] run keeps p settled_finish[of command_status.FAILED] show ?thesis
      by (auto simp: final_status_def)
  next
    case (result res w1)
    have ev: "evolves (gw_registry g) (gw_registry (snd (conclude (fl_command f) (fl_ref f) res g)))"
      using concluded_evolves[OF inv w fit' result[unfolded p]] .
    have "settled_into (fl_command f) g r g'" if "conclude (fl_command f) (fl_ref f) res g = (r, g')" for r g'
      using settled_settles[OF conclude_settles[OF inv] final_outcome ev] that by simp
    with write_returns_result[OF result] run keeps[OF result[unfolded p]] show ?thesis
      by (auto simp: prod_eq_iff)
  qed
qed

end

text \<open>The first piece: a task starts under a fresh identifier, with its command stored as running.\<close>

definition admitted_flight :: "(string \<Rightarrow> 'w device_provider option) \<Rightarrow> gateway \<Rightarrow> 'w flight \<Rightarrow> bool" where
  "admitted_flight provs g f \<longleftrightarrow>
     provs (ref_provider (fl_ref f)) = Some (fl_provider f) \<and>
     params_fit (cmd_action (fl_command f)) (fl_params f) \<and>
     cmd_status (fl_command f) = command_status.RUNNING \<and>
     cmd_id (fl_command f) = gw_uuids g (gw_issued g) \<and>
     od_get (reg_devices (gw_registry g)) (cmd_device_id (fl_command f)) \<noteq> None"

definition stored_twice :: "command \<Rightarrow> gateway \<Rightarrow> gateway \<Rightarrow> bool" where
  "stored_twice c g g' \<longleftrightarrow> cmd_id c = gw_uuids g (gw_issued g) \<and> gw_issued g < gw_issued g' \<and>
     (\<exists>c0. cmd_id c0 = cmd_id c \<and> gw_commands g' = store_command c (store_command c0 (gw_commands g)))"

lemma calm_created: "calm g (snd (start_command c (snd (create_command pr d a params risk corr g))))"
  by (rule calm_trans[OF calm_steps(1) calm_steps(2)])

lemma begin_submit_admitted:
  assumes "admit co pr i a raw corr g = (Inr (d, params, risk), g)"
  shows "begin_submit co provs pr i a raw corr g =
    begin_execute provs (created pr d a params risk corr g) d params (snd (create_command pr d a params risk corr g))"
  using assms by (simp add: begin_submit_def split_beta create_command_fst flip: created_def)

lemma begin_submit_enters:
  assumes inv: "registry_inv (gw_registry g)"
    and run: "begin_submit co provs pr i a raw corr g = (Inr (l, f), g')"
  obtains g1 where "calm g g1" "device_lock (cmd_device_id (fl_command f)) g1 = (l, g')"
    "admitted_flight provs g f" "stored_twice (fl_command f) g g'"
proof (cases rule: admit_cases[of co pr i a raw corr g])
  case (refused e)
  with run show thesis by (simp add: begin_submit_def split: prod.splits)
next
  case (admitted d params risk)
  let ?c = "created pr d a params risk corr g" and ?g = "snd (create_command pr d a params risk corr g)"
  have dev: "od_get (reg_devices (gw_registry g)) i = Some d" using admitted(2) by (rule admissible_device)
  then have i: "dev_id d = i" by (rule registry_invD(2)[OF inv])
  have ex: "begin_execute provs ?c d params ?g = (Inr (l, f), g')"
    using run by (simp add: begin_submit_admitted[OF admitted(1)])
  obtain ref where ref: "ref_for (dev_id d) (gw_registry ?g) = Inr ref"
    using ref_for_known[OF inv dev] i by auto
  have "provs (ref_provider ref) \<noteq> None" using ex ref
    by (cases "provs (ref_provider ref)") (simp_all add: begin_execute_def split_beta Let_def)
  then obtain p where p: "provs (ref_provider ref) = Some p" by blast
  have fit: "params_fit a params" using admitted(2) by (auto simp: admissible_def dest: validate_params_fit)
  from ex[unfolded begin_execute_asks[where provs = provs, OF ref p]]
  have f: "f = \<lparr>fl_command = fst (start_command ?c ?g), fl_provider = p, fl_ref = ref, fl_params = params\<rparr>"
    and l: "device_lock i (snd (start_command ?c ?g)) = (l, g')" by (simp_all add: i prod_eq_iff)
  have g': "g' = snd (device_lock i (snd (start_command ?c ?g)))" using l by simp
  show thesis
  proof (rule that[OF calm_created])
    show "device_lock (cmd_device_id (fl_command f)) (snd (start_command ?c ?g)) = (l, g')"
      using l by (simp add: f i)
    show "admitted_flight provs g f" using fit p dev by (simp add: admitted_flight_def f i)
    show "stored_twice (fl_command f) g g'"
      unfolding stored_twice_def f g'
      by (intro conjI exI[of _ ?c]) (simp_all add: command_store_steps create_command_fst flip: created_def)
  qed
qed

lemma begin_submit_returns:
  assumes inv: "registry_inv (gw_registry g)"
    and run: "begin_submit co provs pr i a raw corr g = (Inl r, g')"
  shows "calm g g' \<and> (gw_commands g' = gw_commands g \<or> (\<exists>c. stored_twice c g g'))"
proof (cases rule: admit_cases[of co pr i a raw corr g])
  case (refused e)
  with run have "g' = snd (admit co pr i a raw corr g)"
    by (cases "admit co pr i a raw corr g") (simp add: begin_submit_def)
  with admit_snd[of co pr i a raw corr g] show ?thesis by auto
next
  case (admitted d params risk)
  let ?c = "created pr d a params risk corr g" and ?g = "snd (create_command pr d a params risk corr g)"
  have ex: "begin_execute provs ?c d params ?g = (Inl r, g')"
    using run by (simp add: begin_submit_admitted[OF admitted(1)])
  have dev: "od_get (reg_devices (gw_registry g)) i = Some d" using admitted(2) by (rule admissible_device)
  then obtain ref where ref: "ref_for (dev_id d) (gw_registry ?g) = Inr ref"
    using ref_for_known[OF inv dev] registry_invD(2)[OF inv dev] by auto
  with ex have "provs (ref_provider ref) = None"
    by (cases "provs (ref_provider ref)") (simp_all add: begin_execute_def split_beta Let_def)
  with ex ref have g': "g' = snd (finish_command ?c command_status.FAILED (Some ''provider_unavailable'') ?g)"
    by (simp add: begin_execute_def split_beta Let_def prod_eq_iff)
  have "stored_twice (fst (finish_command ?c command_status.FAILED (Some ''provider_unavailable'') ?g)) g g'"
    unfolding stored_twice_def g'
    by (intro conjI exI[of _ ?c]) (simp_all add: command_store_steps create_command_fst flip: created_def)
  moreover have "calm g g'" unfolding g' by (rule calm_trans[OF calm_steps(1) calm_steps(3)])
  ultimately show ?thesis by blast
qed

text \<open>No piece touches the timers, and identifiers are only consumed.\<close>

lemma write_returns_untouched: "untouched g (fst (snd (write_returns f (g, w))))"
proof (cases rule: write_cases[of "fl_provider f" "fl_ref f"
    "\<lparr>pc_action = cmd_action (fl_command f), pc_params = fl_params f\<rparr>" w])
  case (late w1)
  then show ?thesis by (simp add: write_returns_timeout)
next
  case (failed e w1)
  then show ?thesis by (simp add: write_returns_error)
next
  case (result res w1)
  then show ?thesis by (simp add: write_returns_result)
qed

lemma read_returns_untouched: "untouched g (fst (snd (read_returns f (g, w))))"
  by (simp add: read_returns_def split_beta Let_def)

lemma begin_execute_untouched: "untouched g (snd (begin_execute provs c d params g))"
proof -
  have "untouched g (snd (device_lock (dev_id d) (snd (start_command c g))))"
    by (rule untouched_trans[of _ "snd (start_command c g)"]) simp_all
  then show ?thesis by (simp add: begin_execute_def split_beta Let_def split: sum.split option.split)
qed

lemma begin_submit_untouched: "untouched g (snd (begin_submit co provs pr i a raw corr g))"
proof (cases rule: admit_cases[of co pr i a raw corr g])
  case (refused e)
  then have "snd (begin_submit co provs pr i a raw corr g) = snd (admit co pr i a raw corr g)"
    by (cases "admit co pr i a raw corr g") (simp add: begin_submit_def)
  with admit_snd[of co pr i a raw corr g] show ?thesis by auto
next
  case (admitted d params risk)
  have "untouched g (snd (create_command pr d a params risk corr g))" by simp
  from untouched_trans[OF this begin_execute_untouched] show ?thesis
    by (simp add: begin_submit_admitted[OF admitted(1)])
qed

end
