(* ===== verification/Stage_Properties.thy ===== *)
theory Stage_Properties
  imports Command_Stages
begin

section \<open>What holds of every interleaving of submissions\<close>

text \<open>
  The properties of \<open>Command_Properties\<close> are about a submission that runs in one piece. This theory
  shows what is left of them when submissions, cancellations, observations and requests interleave
  in any order: what the store holds of each of them, that writes to one device do not overlap, and
  that every submission comes to an end.
\<close>

abbreviation stage_id :: "'w stage \<Rightarrow> uuid" where
  "stage_id t \<equiv> cmd_id (fl_command (flight_of t))"

abbreviation stage_device :: "'w stage \<Rightarrow> uuid" where
  "stage_device t \<equiv> cmd_device_id (fl_command (flight_of t))"

text \<open>Two records of one request: they differ in what \<open>with_status\<close> sets at most.\<close>

definition same_request :: "command \<Rightarrow> command \<Rightarrow> bool" where
  "same_request c c' \<longleftrightarrow>
     c'\<lparr>cmd_status := cmd_status c, cmd_failure_code := cmd_failure_code c,
        cmd_started_at := cmd_started_at c, cmd_completed_at := cmd_completed_at c\<rparr> = c"

lemma same_request_with_status [simp]: "same_request c (with_status c st t fc)"
  by (simp add: same_request_def with_status_def Let_def)

text \<open>What the client of a task was told, and what the store should hold of its command.\<close>

fun reported :: "'w stage \<Rightarrow> bool" where
  "reported (Answered f (Inr c)) \<longleftrightarrow> same_request (fl_command f) c \<and> final_status (cmd_status c)"
| "reported (Answered f (Inl e)) \<longleftrightarrow> False"
| "reported _ \<longleftrightarrow> True"

fun held_as :: "'w stage \<Rightarrow> command" where
  "held_as (Answered f (Inr c)) = c"
| "held_as t = fl_command (flight_of t)"

definition accounted :: "(uuid, command) odict \<Rightarrow> 'w stage \<Rightarrow> bool" where
  "accounted store t \<longleftrightarrow> reported t \<and> cmd_status (fl_command (flight_of t)) = command_status.RUNNING \<and>
     (case od_get store (stage_id t) of None \<Rightarrow> True | Some c \<Rightarrow> c = held_as t)"

definition registered :: "gateway \<Rightarrow> uuid \<Rightarrow> bool" where
  "registered g d \<longleftrightarrow> od_get (reg_devices (gw_registry g)) d \<noteq> None"

definition sound :: "(string \<Rightarrow> 'w device_provider option) \<Rightarrow> gateway \<Rightarrow> 'w stage \<Rightarrow> bool" where
  "sound provs g t \<longleftrightarrow>
     provs (ref_provider (fl_ref (flight_of t))) = Some (fl_provider (flight_of t)) \<and>
     params_fit (cmd_action (fl_command (flight_of t))) (fl_params (flight_of t)) \<and>
     registered g (stage_device t) \<and> (\<exists>n < gw_issued g. stage_id t = gw_uuids g n) \<and>
     accounted (gw_commands g) t"

definition stages_inv ::
  "(string \<Rightarrow> 'w device_provider option) \<Rightarrow> ('w \<Rightarrow> bool) \<Rightarrow> gateway \<Rightarrow> 'w stage_world \<Rightarrow> bool"
where
  "stages_inv provs world_ok g0 s \<longleftrightarrow>
     registry_inv (gw_registry (sw_gateway s)) \<and> evolves (gw_registry g0) (gw_registry (sw_gateway s)) \<and>
     gw_uuids (sw_gateway s) = gw_uuids g0 \<and> od_wf (gw_commands (sw_gateway s)) \<and> world_ok (sw_world s) \<and>
     distinct (map stage_id (sw_tasks s)) \<and> (\<forall>t \<in> set (sw_tasks s). sound provs (sw_gateway s) t)"

text \<open>Which locks are taken does not matter to it.\<close>

lemma stages_inv_held [simp]:
  "stages_inv provs world_ok g0 (sw_held_update h s) = stages_inv provs world_ok g0 s"
  by (simp add: stages_inv_def)

subsection \<open>Steps keep it\<close>

text \<open>\<open>spares i d d'\<close>: of the other commands some may have been forgotten, none has changed.\<close>

definition spares :: "uuid \<Rightarrow> (uuid, command) odict \<Rightarrow> (uuid, command) odict \<Rightarrow> bool" where
  "spares i d d' \<longleftrightarrow> (\<forall>j c. j \<noteq> i \<longrightarrow> od_get d' j = Some c \<longrightarrow> od_get d j = Some c)"

lemma spares_refl [simp]: "spares i d d"
  by (simp add: spares_def)

lemma spares_store: "od_wf d \<Longrightarrow> cmd_id c = i \<Longrightarrow> spares i d (store_command c d)"
  unfolding spares_def using store_command_other by blast

lemma spares_trans: "spares i d d1 \<Longrightarrow> spares i d1 d2 \<Longrightarrow> spares i d d2"
  by (simp add: spares_def)

lemma spares_stored_twice:
  assumes "stored_twice c g g'" and wf: "od_wf (gw_commands g)"
  shows "spares (cmd_id c) (gw_commands g) (gw_commands g')" and "od_wf (gw_commands g')"
    and "od_get (gw_commands g') (cmd_id c) = Some c"
proof -
  from assms(1) obtain c0 where c0: "cmd_id c0 = cmd_id c"
    "gw_commands g' = store_command c (store_command c0 (gw_commands g))" by (auto simp: stored_twice_def)
  have wf0: "od_wf (store_command c0 (gw_commands g))" using wf by (rule store_command_wf)
  show "spares (cmd_id c) (gw_commands g) (gw_commands g')"
    unfolding c0(2) by (rule spares_trans[OF spares_store[OF wf c0(1)] spares_store[OF wf0 refl]])
  show "od_wf (gw_commands g')" "od_get (gw_commands g') (cmd_id c) = Some c"
    using wf0 by (simp_all add: c0(2) store_command_wf store_command_get)
qed

lemma registered_evolves:
  "evolves (gw_registry g) (gw_registry g') \<Longrightarrow> registered g' d \<longleftrightarrow> registered g d"
  by (auto simp: evolves_def registered_def dest!: spec[of _ d] elim: option.rel_cases)

lemma registered_grown: "grown g g' \<Longrightarrow> registered g' d \<longleftrightarrow> registered g d"
  by (simp add: grown_def registered_evolves)

lemma sound_elsewhere:
  assumes "sound provs g t" and grown: "grown g g'"
    and held: "\<And>c. od_get (gw_commands g') (stage_id t) = Some c \<Longrightarrow> od_get (gw_commands g) (stage_id t) = Some c"
  shows "sound provs g' t"
proof -
  have "\<exists>n < gw_issued g'. stage_id t = gw_uuids g' n"
    using assms(1) grown by (auto simp: sound_def grown_def intro: less_le_trans)
  moreover have "accounted (gw_commands g') t"
    using assms(1) held by (auto simp: sound_def accounted_def split: option.splits)
  ultimately show ?thesis using assms(1) registered_grown[OF grown] by (simp add: sound_def)
qed

lemma grown_keeps:
  assumes grown: "grown g g'" and inv: "registry_inv (gw_registry g)"
    and ev: "evolves (gw_registry g0) (gw_registry g)" and ids: "gw_uuids g = gw_uuids g0"
  shows "registry_inv (gw_registry g')" "evolves (gw_registry g0) (gw_registry g')" "gw_uuids g' = gw_uuids g0"
proof -
  have "evolves (gw_registry g) (gw_registry g')" using grown by (simp add: grown_def)
  then show "registry_inv (gw_registry g')" and "evolves (gw_registry g0) (gw_registry g')"
    using inv evolves_trans[OF ev] by (auto simp: evolves_def)
  show "gw_uuids g' = gw_uuids g0" using grown ids by (simp add: grown_def)
qed

text \<open>One task goes on to its next stage.\<close>

lemma stages_inv_update:
  assumes inv: "stages_inv provs world_ok g0 s" and k: "k < length (sw_tasks s)"
    and grown: "grown (sw_gateway s) g'" and wf: "od_wf (gw_commands g')" and w: "world_ok w'"
    and same: "flight_of t = flight_of (sw_tasks s ! k)" and acc: "accounted (gw_commands g') t"
    and sp: "spares (stage_id t) (gw_commands (sw_gateway s)) (gw_commands g')"
  shows "stages_inv provs world_ok g0 (s\<lparr>sw_gateway := g', sw_world := w', sw_tasks := (sw_tasks s)[k := t]\<rparr>)"
proof -
  let ?ts = "sw_tasks s"
  have ids: "map stage_id (?ts[k := t]) = map stage_id ?ts"
    using k same by (simp add: map_update list_update_same_conv)
  have sk: "sound provs (sw_gateway s) (?ts ! k)" using inv k by (simp add: stages_inv_def)
  have t: "sound provs g' t"
    using sk acc grown registered_grown[OF grown] unfolding sound_def same
    by (auto simp: grown_def intro: less_le_trans)
  have other: "sound provs g' (?ts ! j)" if "j < length ?ts" "j \<noteq> k" for j
  proof (rule sound_elsewhere[OF _ grown])
    show "sound provs (sw_gateway s) (?ts ! j)" using inv that(1) by (simp add: stages_inv_def)
    have "distinct (map stage_id ?ts)" using inv by (simp add: stages_inv_def)
    then have "stage_id (?ts ! j) \<noteq> stage_id t"
      using that k same nth_eq_iff_index_eq[of "map stage_id ?ts" j k] by auto
    with sp show "od_get (gw_commands (sw_gateway s)) (stage_id (?ts ! j)) = Some c"
      if "od_get (gw_commands g') (stage_id (?ts ! j)) = Some c" for c
      using that by (simp add: spares_def)
  qed
  have "sound provs g' u" if "u \<in> set (?ts[k := t])" for u
  proof -
    from that obtain j where j: "j < length ?ts" "u = ?ts[k := t] ! j" by (auto simp: in_set_conv_nth)
    with k t other show ?thesis by (cases "j = k") simp_all
  qed
  then show ?thesis
    using inv wf w grown_keeps[OF grown, of g0] unfolding stages_inv_def by (simp add: ids)
qed

text \<open>The stages under way look alike from the store: the command is held as running.\<close>

lemma accounted_under_way:
  assumes "accounted store t" and "\<not> finished t"
    and "t' \<in> {Queued l (flight_of t), InWrite l (flight_of t), InRead l (flight_of t), Abandoned (flight_of t)}"
  shows "accounted store t'"
  using assms by (cases t) (auto simp: accounted_def split: option.splits)

lemma accounted_settled:
  assumes "settled_into (fl_command f) g r g'" and wf: "od_wf (gw_commands g)"
    and "cmd_status (fl_command f) = command_status.RUNNING"
  shows "accounted (gw_commands g') (Answered f r)" and "od_wf (gw_commands g')"
    and "spares (cmd_id (fl_command f)) (gw_commands g) (gw_commands g')"
proof -
  obtain st t fc where st: "final_status st" and r: "r = Inr (with_status (fl_command f) st t fc)"
    and g': "gw_commands g' = store_command (with_status (fl_command f) st t fc) (gw_commands g)"
    using assms(1) by (auto simp: settled_into_def)
  have id: "cmd_id (with_status (fl_command f) st t fc) = cmd_id (fl_command f)" by simp
  have "od_get (gw_commands g') (cmd_id (fl_command f)) = Some (with_status (fl_command f) st t fc)"
    using store_command_get[OF wf, of "with_status (fl_command f) st t fc"] unfolding g' id .
  then show "accounted (gw_commands g') (Answered f r)" using st assms(3) by (simp add: accounted_def r)
  show "od_wf (gw_commands g')" and "spares (cmd_id (fl_command f)) (gw_commands g) (gw_commands g')"
    using wf store_command_wf spares_store[OF wf id] by (simp_all add: g')
qed

lemma stages_inv_task:
  assumes "stages_inv provs world_ok g0 s" and "k < length (sw_tasks s)" and "sw_tasks s ! k = t"
  shows "accounted (gw_commands (sw_gateway s)) t" "od_wf (gw_commands (sw_gateway s))"
    "registry_inv (gw_registry (sw_gateway s))" "world_ok (sw_world s)"
    "cmd_status (fl_command (flight_of t)) = command_status.RUNNING"
    "provs (ref_provider (fl_ref (flight_of t))) = Some (fl_provider (flight_of t))"
    "params_fit (cmd_action (fl_command (flight_of t))) (fl_params (flight_of t))"
  using assms by (auto simp: stages_inv_def sound_def accounted_def)

lemma stages_inv_advance:
  assumes inv: "stages_inv provs world_ok g0 s" and k: "k < length (sw_tasks s)" and "\<not> finished (sw_tasks s ! k)"
    and "bystander (sw_gateway s) g'" and "world_ok w'"
    and t: "t \<in> {Queued l (flight_of (sw_tasks s ! k)), InWrite l (flight_of (sw_tasks s ! k)),
      InRead l (flight_of (sw_tasks s ! k)), Abandoned (flight_of (sw_tasks s ! k))}"
  shows "stages_inv provs world_ok g0 (s\<lparr>sw_gateway := g', sw_world := w', sw_tasks := (sw_tasks s)[k := t]\<rparr>)"
proof (rule stages_inv_update[OF inv k])
  note task = stages_inv_task[OF inv k refl]
  show same: "flight_of t = flight_of (sw_tasks s ! k)" using t by auto
  show "accounted (gw_commands g') t"
    using accounted_under_way[OF task(1) assms(3) t] assms(4) by (simp add: bystander_def)
qed (use assms(4,5) stages_inv_task(2)[OF inv k refl] in \<open>simp_all add: bystander_def calm_def\<close>)

lemma stages_inv_settle:
  assumes inv: "stages_inv provs world_ok g0 s" and k: "k < length (sw_tasks s)"
    and f: "flight_of (sw_tasks s ! k) = f" and st: "settled_into (fl_command f) (sw_gateway s) r g'" and "world_ok w'"
  shows "stages_inv provs world_ok g0 (s\<lparr>sw_gateway := g', sw_world := w', sw_tasks := (sw_tasks s)[k := Answered f r]\<rparr>)"
proof -
  note task = stages_inv_task[OF inv k refl]
  have run: "cmd_status (fl_command f) = command_status.RUNNING" using task(5) f by simp
  note acc = accounted_settled[OF st task(2) run]
  have "grown (sw_gateway s) g'" using st by (simp add: settled_into_def calm_def)
  from stages_inv_update[OF inv k this acc(2) assms(5) _ acc(1)] acc(3) f show ?thesis by simp
qed

lemma bystander_refl [simp]: "bystander g g"
  by (simp add: bystander_def)

lemma stage_world_update:
  "s\<lparr>sw_gateway := sw_gateway s, sw_world := sw_world s, sw_tasks := ts\<rparr> = s\<lparr>sw_tasks := ts\<rparr>"
  "s\<lparr>sw_gateway := sw_gateway s, sw_world := w, sw_tasks := ts\<rparr> = s\<lparr>sw_world := w, sw_tasks := ts\<rparr>"
  by simp_all

lemma stages_inv_moves:
  assumes con: "\<And>n p. provs n = Some p \<Longrightarrow> adapter_contract p refs world_ok"
    and inv: "stages_inv provs world_ok g0 s" and "task_moves s s'"
  shows "stages_inv provs world_ok g0 s'"
  using assms(3)
proof cases
  case (takes_lock k l f)
  have "world_ok (sw_world s)" using inv by (simp add: stages_inv_def)
  from stages_inv_advance[OF inv takes_lock(2) _ bystander_refl this, of "InWrite l f" l]
  show ?thesis using takes_lock by (simp add: stage_world_update)
next
  case (written k l f r g' w')
  note task = stages_inv_task[OF inv written(2) refl, unfolded written(3), simplified]
  from adapter_contract.write_returns_effect[OF con[OF task(6)] task(3,4) refl task(7) written(4)]
  show ?thesis using stages_inv_settle[OF inv written(2), of f r g' w'] written by simp
next
  case (timed_out k l f g' w')
  note task = stages_inv_task[OF inv timed_out(2) refl, unfolded timed_out(3), simplified]
  from adapter_contract.write_returns_effect[OF con[OF task(6)] task(3,4) refl task(7) timed_out(4)]
  show ?thesis using stages_inv_advance[OF inv timed_out(2), of g' w' "InRead l f" l] timed_out by simp
next
  case (read_back k l f r g' w')
  note task = stages_inv_task[OF inv read_back(2) refl, unfolded read_back(3), simplified]
  from adapter_contract.read_returns_effect[OF con[OF task(6)] task(3,4) refl read_back(4)]
  show ?thesis using stages_inv_settle[OF inv read_back(2), of f r g' w'] read_back by simp
qed

lemma stages_inv_bystander:
  assumes inv: "stages_inv provs world_ok g0 s" and grown: "grown (sw_gateway s) g'"
    and same: "gw_commands g' = gw_commands (sw_gateway s)" and w: "world_ok w'"
  shows "stages_inv provs world_ok g0 (s\<lparr>sw_gateway := g', sw_world := w'\<rparr>)"
  using inv grown_keeps[OF grown, of g0] sound_elsewhere[OF _ grown, of provs] same w
  by (simp add: stages_inv_def)

text \<open>A new task comes with a command under an identifier no other task has.\<close>

lemma fresh_id:
  assumes inj: "inj_on (gw_uuids g0) {..<n}" and "gw_issued (sw_gateway s) < n"
    and inv: "stages_inv provs world_ok g0 s" and t: "t \<in> set (sw_tasks s)"
  shows "stage_id t \<noteq> gw_uuids (sw_gateway s) (gw_issued (sw_gateway s))"
proof -
  obtain m where m: "m < gw_issued (sw_gateway s)" "stage_id t = gw_uuids (sw_gateway s) m"
    using inv t by (auto simp: stages_inv_def sound_def)
  have "gw_uuids (sw_gateway s) = gw_uuids g0" using inv by (simp add: stages_inv_def)
  with inj_onD[OF inj, of m "gw_issued (sw_gateway s)"] m assms(2) show ?thesis by auto
qed

lemma stages_inv_stored:
  assumes inj: "inj_on (gw_uuids g0) {..<gw_issued g'}" and inv: "stages_inv provs world_ok g0 s" and grown: "grown (sw_gateway s) g'"
    and st: "stored_twice c (sw_gateway s) g'"
  shows "stages_inv provs world_ok g0 (s\<lparr>sw_gateway := g'\<rparr>)"
proof -
  have wf: "od_wf (gw_commands (sw_gateway s))" using inv by (simp add: stages_inv_def)
  have "sound provs g' t" if "t \<in> set (sw_tasks s)" for t
  proof (rule sound_elsewhere[OF _ grown])
    show "sound provs (sw_gateway s) t" using inv that by (simp add: stages_inv_def)
    have "stage_id t \<noteq> cmd_id c" using fresh_id[OF inj _ inv that] st by (simp add: stored_twice_def)
    then show "od_get (gw_commands (sw_gateway s)) (stage_id t) = Some c'"
      if "od_get (gw_commands g') (stage_id t) = Some c'" for c'
      using that spares_stored_twice(1)[OF st wf] by (simp add: spares_def)
  qed
  then show ?thesis
    using inv grown_keeps[OF grown, of g0] spares_stored_twice(2)[OF st wf] by (simp add: stages_inv_def)
qed

lemma stages_inv_enters:
  assumes inj: "inj_on (gw_uuids g0) {..<gw_issued g'}" and inv: "stages_inv provs world_ok g0 s"
    and run: "begin_submit co provs pr i a raw corr (sw_gateway s) = (Inr (l, f), g')"
  shows "stages_inv provs world_ok g0 (s\<lparr>sw_gateway := g', sw_tasks := sw_tasks s @ [Queued l f]\<rparr>)"
proof -
  have "registry_inv (gw_registry (sw_gateway s))" and wf: "od_wf (gw_commands (sw_gateway s))"
    using inv by (simp_all add: stages_inv_def)
  from begin_submit_enters[OF this(1) run] obtain g1 where calm: "calm (sw_gateway s) g1"
    and lock: "device_lock (cmd_device_id (fl_command f)) g1 = (l, g')"
    and adm: "admitted_flight provs (sw_gateway s) f" and st: "stored_twice (fl_command f) (sw_gateway s) g'" .
  have grown: "grown (sw_gateway s) g'" using calm_locked[OF calm, of "cmd_device_id (fl_command f)"] lock by simp
  have "\<exists>n < gw_issued g'. cmd_id (fl_command f) = gw_uuids g' n"
    using st grown by (auto simp: stored_twice_def grown_def)
  moreover have "accounted (gw_commands g') (Queued l f)"
    using spares_stored_twice(3)[OF st wf] adm by (simp add: accounted_def admitted_flight_def)
  ultimately have new: "sound provs g' (Queued l f)"
    using adm registered_grown[OF grown] by (simp add: sound_def admitted_flight_def registered_def)
  have "cmd_id (fl_command f) = gw_uuids (sw_gateway s) (gw_issued (sw_gateway s))"
    and "gw_issued (sw_gateway s) < gw_issued g'" using st by (simp_all add: stored_twice_def)
  then have "cmd_id (fl_command f) \<notin> stage_id ` set (sw_tasks s)" using fresh_id[OF inj _ inv] by force
  with new stages_inv_stored[OF inj inv grown st] show ?thesis by (auto simp: stages_inv_def)
qed

lemma stages_inv_step:
  assumes con: "\<And>n p. provs n = Some p \<Longrightarrow> adapter_contract p refs world_ok"
    and inj: "inj_on (gw_uuids g0) {..<gw_issued (sw_gateway s')}"
    and inv: "stages_inv provs world_ok g0 s" and step: "stage_step co provs world_ok s s'"
  shows "stages_inv provs world_ok g0 s'"
  using step
proof cases
  case moves
  with con inv show ?thesis by (rule stages_inv_moves)
next
  case (enters pr i a raw corr l f g')
  with stages_inv_enters[OF _ inv] inj show ?thesis by simp
next
  case (returns_at_once pr i a raw corr r g')
  have reg: "registry_inv (gw_registry (sw_gateway s))" using inv by (simp add: stages_inv_def)
  have grown: "grown (sw_gateway s) g'" using begin_submit_returns[OF reg returns_at_once(2)] by (simp add: calm_def)
  show ?thesis
  proof (cases "gw_commands g' = gw_commands (sw_gateway s)")
    case True
    from stages_inv_bystander[OF inv grown True, of "sw_world s"] inv show ?thesis
      using returns_at_once by (simp add: stages_inv_def)
  next
    case False
    with begin_submit_returns[OF reg returns_at_once(2)] obtain c where "stored_twice c (sw_gateway s) g'" by blast
    with stages_inv_stored[OF _ inv grown] inj returns_at_once show ?thesis by simp
  qed
next
  case (cancelled k w')
  from stages_inv_advance[OF inv cancelled(2,3) bystander_refl cancelled(4)] show ?thesis
    using cancelled by (simp add: stage_world_update)
next
  case (elsewhere g' w')
  with stages_inv_bystander[OF inv, of g' w'] show ?thesis by (simp add: bystander_def calm_def)
qed

text \<open>Identifiers are drawn one after the other; the step never goes back.\<close>

lemma stage_step_issued:
  assumes "stage_step co provs world_ok s s'"
  shows "gw_issued (sw_gateway s) \<le> gw_issued (sw_gateway s')"
  using assms
proof cases
  case moves
  then show ?thesis
  proof cases
    case (written k l f r g' w')
    with write_returns_untouched[of "sw_gateway s" f "sw_world s"] show ?thesis by (simp add: untouched_def)
  next
    case (timed_out k l f g' w')
    with write_returns_untouched[of "sw_gateway s" f "sw_world s"] show ?thesis by (simp add: untouched_def)
  next
    case (read_back k l f r g' w')
    with read_returns_untouched[of "sw_gateway s" f "sw_world s"] show ?thesis by (simp add: untouched_def)
  qed simp
next
  case (enters pr i a raw corr l f g')
  with begin_submit_untouched[of "sw_gateway s" co provs pr i a raw corr] show ?thesis by (simp add: untouched_def)
next
  case (returns_at_once pr i a raw corr r g')
  with begin_submit_untouched[of "sw_gateway s" co provs pr i a raw corr] show ?thesis by (simp add: untouched_def)
qed (simp_all add: bystander_def calm_def grown_def)

lemma stages_inv_reached:
  assumes con: "\<And>n p. provs n = Some p \<Longrightarrow> adapter_contract p refs world_ok"
    and start: "registry_inv (gw_registry g)" "od_wf (gw_commands g)" "world_ok w"
    and run: "interleaves co provs world_ok (stages_start g w) s"
    and inj: "inj_on (gw_uuids g) {..<gw_issued (sw_gateway s)}"
  shows "stages_inv provs world_ok g s"
  using run inj
proof (induction rule: rtranclp_induct)
  case base
  with start show ?case by (simp add: stages_inv_def stages_start_def)
next
  case (step s s')
  have "{..<gw_issued (sw_gateway s)} \<subseteq> {..<gw_issued (sw_gateway s')}" using stage_step_issued[OF step(2)] by simp
  from step(3)[OF inj_on_subset[OF step(4) this]] have "stages_inv provs world_ok g s" .
  with con step(4) show ?case using step(2) by (rule stages_inv_step)
qed

subsection \<open>The locks that are taken\<close>

text \<open>Each lock that is taken is held by one task, and each lock a task holds is taken.\<close>

definition locks_right :: "'w stage_world \<Rightarrow> bool" where
  "locks_right s \<longleftrightarrow> distinct (sw_held s) \<and>
     (\<forall>l. length (filter (holds l) (sw_tasks s)) = (if l \<in> set (sw_held s) then 1 else 0))"

lemma filter_update:
  assumes "k < length ts"
  shows "length (filter P (ts[k := t])) + (if P (ts ! k) then 1 else 0) = length (filter P ts) + (if P t then 1 else 0)"
proof -
  have "length (filter P ts) = length (filter P (take k ts)) + (if P (ts ! k) then 1 else 0) + length (filter P (drop (Suc k) ts))"
    by (subst id_take_nth_drop[OF assms]) simp
  then show ?thesis by (simp add: upd_conv_take_nth_drop[OF assms])
qed

lemma holds_release:
  "distinct held \<Longrightarrow> l \<in> set (release t held) \<longleftrightarrow> l \<in> set held \<and> \<not> holds l t" "distinct held \<Longrightarrow> distinct (release t held)"
  by (cases t; auto)+

lemma locks_right_update:
  assumes "locks_right s" and "k < length (sw_tasks s)" and "distinct held"
    and "\<And>l. (if l \<in> set held then 1 else 0) + (if holds l (sw_tasks s ! k) then 1 else 0) =
      (if l \<in> set (sw_held s) then 1 else 0) + (if holds l t then 1 else (0::nat))"
  shows "locks_right (s\<lparr>sw_gateway := g', sw_world := w', sw_tasks := (sw_tasks s)[k := t], sw_held := held\<rparr>)"
proof -
  have "length (filter (holds l) ((sw_tasks s)[k := t])) = (if l \<in> set held then 1 else 0)" for l
  proof -
    have "length (filter (holds l) (sw_tasks s)) = (if l \<in> set (sw_held s) then 1 else 0)"
      using assms(1) unfolding locks_right_def by blast
    then show ?thesis using filter_update[OF assms(2), of "holds l" t] assms(4)[of l] by linarith
  qed
  with assms(3) show ?thesis by (simp add: locks_right_def)
qed

lemma locks_right_holder:
  assumes "locks_right s" and "k < length (sw_tasks s)" and "holds l (sw_tasks s ! k)"
  shows "l \<in> set (sw_held s)"
proof (rule ccontr)
  assume "l \<notin> set (sw_held s)"
  then have "length (filter (holds l) (sw_tasks s)) = 0" using assms(1) by (simp only: locks_right_def if_False)
  then have "filter (holds l) (sw_tasks s) = []" by simp
  with assms(2,3) show False by (auto simp: filter_empty_conv)
qed

text \<open>A task that leaves gives its lock back.\<close>

lemma locks_right_leave:
  assumes "locks_right s" and k: "k < length (sw_tasks s)" and "\<And>l. \<not> holds l t"
  shows "locks_right (s\<lparr>sw_gateway := g', sw_world := w', sw_tasks := (sw_tasks s)[k := t],
    sw_held := release (sw_tasks s ! k) (sw_held s)\<rparr>)"
proof (rule locks_right_update[OF assms(1) k])
  have d: "distinct (sw_held s)" using assms(1) by (simp add: locks_right_def)
  then show "distinct (release (sw_tasks s ! k) (sw_held s))" by (rule holds_release)
  show "(if l \<in> set (release (sw_tasks s ! k) (sw_held s)) then 1 else 0) + (if holds l (sw_tasks s ! k) then 1 else 0) =
      (if l \<in> set (sw_held s) then 1 else 0) + (if holds l t then 1 else (0::nat))" for l
    using holds_release(1)[OF d] locks_right_holder[OF assms(1) k] assms(3) by auto
qed

lemma locks_right_moves:
  assumes "locks_right s" and "task_moves s s'"
  shows "locks_right s'"
  using assms(2)
proof cases
  case (takes_lock k l f)
  have "locks_right (s\<lparr>sw_gateway := sw_gateway s, sw_world := sw_world s,
      sw_tasks := (sw_tasks s)[k := InWrite l f], sw_held := l # sw_held s\<rparr>)"
    using assms(1) takes_lock by (intro locks_right_update) (auto simp: locks_right_def)
  then show ?thesis using takes_lock(1) by simp
next
  case (written k l f r g' w')
  show ?thesis unfolding written(1) using assms(1) written(2) by (rule locks_right_leave) simp
next
  case (timed_out k l f g' w')
  have "locks_right (s\<lparr>sw_gateway := g', sw_world := w', sw_tasks := (sw_tasks s)[k := InRead l f], sw_held := sw_held s\<rparr>)"
    using assms(1) timed_out by (intro locks_right_update) (auto simp: locks_right_def)
  then show ?thesis using timed_out(1) by simp
next
  case (read_back k l f r g' w')
  show ?thesis unfolding read_back(1) using assms(1) read_back(2) by (rule locks_right_leave) simp
qed

lemma locks_right_step:
  assumes "locks_right s" and "stage_step co provs world_ok s s'"
  shows "locks_right s'"
  using assms(2)
proof cases
  case moves
  with assms(1) show ?thesis by (rule locks_right_moves)
next
  case (cancelled k w')
  have "locks_right (s\<lparr>sw_gateway := sw_gateway s, sw_world := w',
      sw_tasks := (sw_tasks s)[k := Abandoned (flight_of (sw_tasks s ! k))], sw_held := release (sw_tasks s ! k) (sw_held s)\<rparr>)"
    using assms(1) cancelled(2) by (rule locks_right_leave) simp
  then show ?thesis using cancelled(1) by simp
qed (use assms(1) in \<open>simp_all add: locks_right_def\<close>)

lemma locks_right_reached:
  assumes "interleaves co provs world_ok (stages_start g w) s"
  shows "locks_right s"
  using assms
proof (induction rule: rtranclp_induct)
  case base
  show ?case by (simp add: locks_right_def stages_start_def)
qed (rule locks_right_step)

subsection \<open>The tasks as users of locks\<close>

text \<open>
  \<open>Command_Tasks\<close> sees of a submission its device and what it does with the lock. Every step of the
  pieces is a sequence of steps there, so what holds of the locks there holds of the submissions.
\<close>

fun lock_phase :: "'w stage \<Rightarrow> task_phase" where
  "lock_phase (Queued l f) = Waiting l"
| "lock_phase (InWrite l f) = Writing l"
| "lock_phase (InRead l f) = Writing l"
| "lock_phase _ = Done"

definition as_task :: "'w stage \<Rightarrow> uuid \<times> task_phase" where
  "as_task t = (stage_device t, lock_phase t)"

definition as_tasks :: "'w stage_world \<Rightarrow> task_world" where
  "as_tasks s = \<lparr>tw_gateway = sw_gateway s, tw_tasks = map as_task (sw_tasks s)\<rparr>"

lemma as_tasks_sel [simp]:
  "tw_gateway (as_tasks s) = sw_gateway s" "tw_tasks (as_tasks s) = map as_task (sw_tasks s)"
  by (simp_all add: as_tasks_def)

lemma as_tasks_held [simp]: "as_tasks (sw_held_update h s) = as_tasks s"
  by (simp add: as_tasks_def)

lemma writing_holds: "lock_phase t = Writing l \<longleftrightarrow> holds l t"
  by (cases t) auto

lemma as_tasks_elsewhere:
  assumes "calm (sw_gateway s) g'"
  shows "task_step D (as_tasks s) (as_tasks (s\<lparr>sw_gateway := g', sw_world := w'\<rparr>))"
  using task_step.elsewhere[of g' "as_tasks s" D] assms by (simp add: calm_def as_tasks_def)

text \<open>A task lets go of the lock it holds or waits for.\<close>

lemma as_tasks_leave:
  assumes k: "k < length (sw_tasks s)" and "\<not> finished (sw_tasks s ! k)" and "finished t"
    and "flight_of t = flight_of (sw_tasks s ! k)"
  shows "task_step D (as_tasks s) (as_tasks (s\<lparr>sw_tasks := (sw_tasks s)[k := t]\<rparr>))"
proof -
  let ?s = "as_tasks s" and ?t = "sw_tasks s ! k"
  have t: "as_task t = (stage_device ?t, Done)" using assms(3,4) by (cases t) (auto simp: as_task_def)
  have s': "as_tasks (s\<lparr>sw_tasks := (sw_tasks s)[k := t]\<rparr>) = ?s\<lparr>tw_tasks := (tw_tasks ?s)[k := (stage_device ?t, Done)]\<rparr>"
    by (simp add: as_tasks_def map_update t)
  have at: "tw_tasks ?s ! k = (stage_device ?t, lock_phase ?t)" using k by (simp add: as_task_def)
  obtain l where "lock_phase ?t = Waiting l \<or> lock_phase ?t = Writing l" using assms(2) by (cases ?t) auto
  then show ?thesis using task_step.give_up[of k ?s _ l D] task_step.release[of k ?s _ l D] at k unfolding s' by auto
qed

lemma as_tasks_settle:
  assumes k: "k < length (sw_tasks s)" "\<not> finished (sw_tasks s ! k)" "flight_of (sw_tasks s ! k) = f"
    and "settled_into c (sw_gateway s) r g'"
  shows "(task_step D)\<^sup>*\<^sup>* (as_tasks s)
    (as_tasks (s\<lparr>sw_gateway := g', sw_world := w', sw_tasks := (sw_tasks s)[k := Answered f r]\<rparr>))"
proof -
  let ?s = "s\<lparr>sw_tasks := (sw_tasks s)[k := Answered f r]\<rparr>"
  have "task_step D (as_tasks s) (as_tasks ?s)" using k by (intro as_tasks_leave) simp_all
  moreover have "task_step D (as_tasks ?s) (as_tasks (?s\<lparr>sw_gateway := g', sw_world := w'\<rparr>))"
    using assms(4) by (intro as_tasks_elsewhere) (simp add: settled_into_def)
  moreover have "?s\<lparr>sw_gateway := g', sw_world := w'\<rparr> =
      (s\<lparr>sw_gateway := g', sw_world := w', sw_tasks := (sw_tasks s)[k := Answered f r]\<rparr>)" by simp
  ultimately show ?thesis by (metis converse_rtranclp_into_rtranclp r_into_rtranclp)
qed

lemma moves_simulated:
  assumes con: "\<And>n p. provs n = Some p \<Longrightarrow> adapter_contract p refs world_ok"
    and inv: "stages_inv provs world_ok g0 s" and "task_moves s s'" and locks: "locks_right s"
  shows "(task_step D)\<^sup>*\<^sup>* (as_tasks s) (as_tasks s')"
  using assms(3)
proof cases
  case (takes_lock k l f)
  have "\<not> holds l (sw_tasks s ! j)" if "j < length (sw_tasks s)" for j
    using locks_right_holder[OF locks that] takes_lock(4) by blast
  then have "lock_free l (as_tasks s)"
    by (auto simp: lock_free_def as_task_def writing_holds in_set_conv_nth)
  then have "task_step D (as_tasks s)
      ((as_tasks s)\<lparr>tw_tasks := (tw_tasks (as_tasks s))[k := (stage_device (Queued l f), Writing l)]\<rparr>)"
    using takes_lock by (intro task_step.acquire) (simp_all add: as_task_def)
  with takes_lock(1) show ?thesis by (simp add: as_tasks_def map_update as_task_def)
next
  case (written k l f r g' w')
  note task = stages_inv_task[OF inv written(2) refl, unfolded written(3), simplified]
  from adapter_contract.write_returns_effect[OF con[OF task(6)] task(3,4) refl task(7) written(4)]
  show ?thesis using as_tasks_settle[OF written(2), of f "fl_command f" r g' D w'] written by simp
next
  case (timed_out k l f g' w')
  note task = stages_inv_task[OF inv timed_out(2) refl, unfolded timed_out(3), simplified]
  from adapter_contract.write_returns_effect[OF con[OF task(6)] task(3,4) refl task(7) timed_out(4)]
  have "calm (sw_gateway s) g'" by (simp add: bystander_def)
  then have "task_step D (as_tasks s) (as_tasks (s\<lparr>sw_gateway := g', sw_world := w'\<rparr>))" by (rule as_tasks_elsewhere)
  moreover have "map as_task ((sw_tasks s)[k := InRead l f]) = map as_task (sw_tasks s)"
    using timed_out(2,3) by (simp add: map_update list_update_same_conv as_task_def)
  ultimately show ?thesis using timed_out(1) by (auto simp: as_tasks_def)
next
  case (read_back k l f r g' w')
  note task = stages_inv_task[OF inv read_back(2) refl, unfolded read_back(3), simplified]
  from adapter_contract.read_returns_effect[OF con[OF task(6)] task(3,4) refl read_back(4)]
  show ?thesis using as_tasks_settle[OF read_back(2), of f "fl_command f" r g' D w'] read_back by simp
qed

lemma enters_simulated:
  assumes inv: "stages_inv provs world_ok g0 s" and D: "{d. registered g0 d} \<subseteq> D"
    and run: "begin_submit co provs pr i a raw corr (sw_gateway s) = (Inr (l, f), g')"
  shows "(task_step D)\<^sup>*\<^sup>* (as_tasks s) (as_tasks (s\<lparr>sw_gateway := g', sw_tasks := sw_tasks s @ [Queued l f]\<rparr>))"
proof -
  have "registry_inv (gw_registry (sw_gateway s))" using inv by (simp add: stages_inv_def)
  from begin_submit_enters[OF this run] obtain g1 where calm: "calm (sw_gateway s) g1"
    and lock: "device_lock (cmd_device_id (fl_command f)) g1 = (l, g')"
    and adm: "admitted_flight provs (sw_gateway s) f" .
  let ?s = "s\<lparr>sw_gateway := g1\<rparr>"
  have "registered (sw_gateway s) (cmd_device_id (fl_command f))"
    using adm by (simp add: admitted_flight_def registered_def)
  then have d: "cmd_device_id (fl_command f) \<in> D"
    using inv D registered_evolves[of g0 "sw_gateway s"] by (auto simp: stages_inv_def)
  have "task_step D (as_tasks s) (as_tasks ?s)" using as_tasks_elsewhere[OF calm, of D "sw_world s"] by simp
  moreover have "task_step D (as_tasks ?s) (as_tasks (s\<lparr>sw_gateway := g', sw_tasks := sw_tasks s @ [Queued l f]\<rparr>))"
    using task_step.enter[OF d, of "as_tasks ?s" l g'] lock by (simp add: as_tasks_def as_task_def)
  ultimately show ?thesis by (metis converse_rtranclp_into_rtranclp r_into_rtranclp)
qed

lemma stages_simulated:
  assumes con: "\<And>n p. provs n = Some p \<Longrightarrow> adapter_contract p refs world_ok"
    and inv: "stages_inv provs world_ok g0 s" and D: "{d. registered g0 d} \<subseteq> D"
    and step: "stage_step co provs world_ok s s'" and locks: "locks_right s"
  shows "(task_step D)\<^sup>*\<^sup>* (as_tasks s) (as_tasks s')"
  using step
proof cases
  case moves
  from con inv this locks show ?thesis by (rule moves_simulated)
next
  case (enters pr i a raw corr l f g')
  with enters_simulated[OF inv D] show ?thesis by simp
next
  case (returns_at_once pr i a raw corr r g')
  have "registry_inv (gw_registry (sw_gateway s))" using inv by (simp add: stages_inv_def)
  with begin_submit_returns returns_at_once(2) have "calm (sw_gateway s) g'" by blast
  from r_into_rtranclp[where r = "task_step D", OF as_tasks_elsewhere[OF this, of D "sw_world s"]] returns_at_once(1) show ?thesis by simp
next
  case (cancelled k w')
  let ?s = "s\<lparr>sw_tasks := (sw_tasks s)[k := Abandoned (flight_of (sw_tasks s ! k))]\<rparr>"
  have "as_tasks s' = as_tasks ?s" using cancelled(1) by (simp add: as_tasks_def)
  with r_into_rtranclp[where r = "task_step D", OF as_tasks_leave[OF cancelled(2,3), of "Abandoned (flight_of (sw_tasks s ! k))" D]]
  show ?thesis by simp
next
  case (elsewhere g' w')
  then have "calm (sw_gateway s) g'" by (simp add: bystander_def)
  from r_into_rtranclp[where r = "task_step D", OF as_tasks_elsewhere[OF this]] elsewhere(1) show ?thesis by simp
qed

lemma interleaving_simulated:
  assumes con: "\<And>n p. provs n = Some p \<Longrightarrow> adapter_contract p refs world_ok"
    and start: "registry_inv (gw_registry g)" "od_wf (gw_commands g)" "world_ok w"
    and run: "interleaves co provs world_ok (stages_start g w) s"
    and inj: "inj_on (gw_uuids g) {..<gw_issued (sw_gateway s)}"
  shows "reaches {d. registered g d} g (as_tasks s)"
  using run inj
proof (induction rule: rtranclp_induct)
  case base
  then show ?case by (simp add: as_tasks_def stages_start_def tasks_start_def)
next
  case (step s s')
  have "{..<gw_issued (sw_gateway s)} \<subseteq> {..<gw_issued (sw_gateway s')}" using stage_step_issued[OF step(2)] by simp
  note inj = inj_on_subset[OF step(4) this]
  have "stages_inv provs world_ok g s" by (rule stages_inv_reached[OF con start step(1) inj])
  from stages_simulated[OF con this subset_refl step(2) locks_right_reached[OF step(1)]] step(3)[OF inj] show ?case
    by (rule rtranclp_trans[rotated])
qed

subsection \<open>Every submission comes to an end\<close>

fun rank :: "'w stage \<Rightarrow> nat" where
  "rank (Queued l f) = 3"
| "rank (InWrite l f) = 2"
| "rank (InRead l f) = 1"
| "rank _ = 0"

definition moves_left :: "'w stage_world \<Rightarrow> nat" where
  "moves_left s = sum_list (map rank (sw_tasks s))"

lemma rank_update:
  assumes "k < length ts" and "rank t < rank (ts ! k)"
  shows "sum_list (map rank (ts[k := t])) < sum_list (map rank ts)"
proof -
  have "sum_list (map rank ts) = rank (ts ! k) + sum_list (map rank (take k ts)) + sum_list (map rank (drop (Suc k) ts))"
    using assms(1) by (subst id_take_nth_drop[OF assms(1)]) simp
  then show ?thesis using assms by (simp add: upd_conv_take_nth_drop)
qed

lemma moves_descend: "task_moves s s' \<Longrightarrow> moves_left s' < moves_left s"
  by (induction rule: task_moves.induct) (auto simp: moves_left_def intro!: rank_update)

lemma moves_bounded: "(task_moves ^^ n) s s' \<Longrightarrow> n + moves_left s' \<le> moves_left s"
proof (induction n arbitrary: s')
  case (Suc n)
  then obtain s1 where "(task_moves ^^ n) s s1" "task_moves s1 s'" by auto
  with Suc.IH[of s1] moves_descend[of s1 s'] show ?case by simp
qed simp

lemma moves_left_le: "moves_left s \<le> 3 * length (sw_tasks s)"
proof -
  have r: "rank t \<le> 3" for t :: "'w stage" by (cases t) auto
  have "sum_list (map rank ts) \<le> 3 * length ts" for ts :: "'w stage list"
  proof (induction ts)
    case (Cons t ts)
    with r[of t] show ?case by simp
  qed simp
  then show ?thesis by (simp add: moves_left_def)
qed

text \<open>As long as a task is under way some task can move: nobody waits for ever for a lock.\<close>

lemma locks_right_taken: "locks_right s \<Longrightarrow> set (sw_held s) = {l. list_ex (holds l) (sw_tasks s)}"
proof -
  assume r: "locks_right s"
  have "l \<in> set (sw_held s) \<longleftrightarrow> filter (holds l) (sw_tasks s) \<noteq> []" for l
  proof -
    have "length (filter (holds l) (sw_tasks s)) = (if l \<in> set (sw_held s) then 1 else 0)"
      using r unfolding locks_right_def by blast
    then show ?thesis by (cases "l \<in> set (sw_held s)") auto
  qed
  then show ?thesis by (auto simp: list_ex_iff filter_empty_conv)
qed

lemma unfinished_moves:
  assumes locks: "locks_right s" and "t \<in> set (sw_tasks s)" and "\<not> finished t"
  shows "\<exists>s'. task_moves s s'"
proof (cases "\<exists>u l. u \<in> set (sw_tasks s) \<and> holds l u")
  case True
  then obtain k l where k: "k < length (sw_tasks s)" "holds l (sw_tasks s ! k)" by (auto simp: in_set_conv_nth)
  then consider f where "sw_tasks s ! k = InWrite l f" | f where "sw_tasks s ! k = InRead l f"
    by (cases "sw_tasks s ! k") auto
  then show ?thesis
  proof cases
    case (1 f)
    obtain out g' w' where "write_returns f (sw_gateway s, sw_world s) = (out, g', w')" by (metis prod.exhaust)
    with task_moves.written[OF k(1) 1] task_moves.timed_out[OF k(1) 1] show ?thesis by (cases out) blast+
  next
    case (2 f)
    obtain r g' w' where "read_returns f (sw_gateway s, sw_world s) = (r, g', w')" by (metis prod.exhaust)
    with task_moves.read_back[OF k(1) 2] show ?thesis by blast
  qed
next
  case False
  obtain k where k: "k < length (sw_tasks s)" "sw_tasks s ! k = t" using assms(2) by (auto simp: in_set_conv_nth)
  have "\<not> holds l t" for l using False assms(2) by blast
  with assms(3) obtain l f where "t = Queued l f" by (cases t) auto
  moreover have "l \<notin> set (sw_held s)" using False by (auto simp: locks_right_taken[OF locks] list_ex_iff)
  ultimately show ?thesis using task_moves.takes_lock[OF k(1)] k(2) by blast
qed

lemma moves_unfinished: "task_moves s s' \<Longrightarrow> \<exists>t \<in> set (sw_tasks s). \<not> finished t"
  by (erule task_moves.cases) (metis finished.simps(3-5) nth_mem)+

subsection \<open>Properties\<close>

text \<open>Two clients switch the heater of the small household at once.\<close>

abbreviation sample_interleaves :: "(bool \<times> nat) stage_world \<Rightarrow> bool" where
  "sample_interleaves \<equiv>
     interleaves sample_coercions sample_providers (\<lambda>w. True) (stages_start sample_gateway (False, 0))"

lemma sample_begin:
  assumes reg: "gw_registry g = sample_registry"
  shows "\<exists>l f g'. begin_submit sample_coercions sample_providers sample_principal 1 SET_HEATER
      [(''on'', JBool True)] ''c1'' g = (Inr (l, f), g') \<and> gw_registry g' = sample_registry \<and>
    gw_issued g' = Suc (Suc (gw_issued g)) \<and> fl_provider f = sample_provider \<and> fl_params f = OnOffParams True"
proof -
  have adm: "admit sample_coercions sample_principal 1 SET_HEATER [(''on'', JBool True)] ''c1'' g =
      (Inr (sample_device, OnOffParams True, MEDIUM), g)"
    by (simp add: admit_def svc_get_def reg_require_def reg validate_params_def ACTION_SPECS_def od_get_def
        only_field_def sample_coercions_def required_capability_for_def supports_def classify_def sample_registry_def)
  let ?g = "snd (create_command sample_principal sample_device SET_HEATER (OnOffParams True) MEDIUM ''c1'' g)"
  have "ref_for (dev_id sample_device) (gw_registry ?g) = Inr sample_ref" by (simp add: reg)
  from begin_execute_asks[where provs = sample_providers, OF this sample_provider_get] show ?thesis
    by (simp add: begin_submit_admitted[OF adm] reg)
qed

lemma sample_interleaving:
  obtains s l f u v where "sample_interleaves s" "sw_tasks s = [InWrite l f, Queued u v]"
    "gw_issued (sw_gateway s) = 4" "fl_provider f = sample_provider" "fl_params f = OnOffParams True"
proof -
  let ?step = "stage_step sample_coercions sample_providers (\<lambda>w. True)"
  let ?s0 = "stages_start sample_gateway (False, 0 :: nat)"
  obtain l f g1 where b1: "begin_submit sample_coercions sample_providers sample_principal 1 SET_HEATER
      [(''on'', JBool True)] ''c1'' (sw_gateway ?s0) = (Inr (l, f), g1)" "gw_registry g1 = sample_registry"
    "gw_issued g1 = 2" and f: "fl_provider f = sample_provider" "fl_params f = OnOffParams True"
    using sample_begin[of sample_gateway] by (auto simp: stages_start_def)
  let ?s1 = "?s0\<lparr>sw_gateway := g1, sw_tasks := sw_tasks ?s0 @ [Queued l f]\<rparr>"
  have g1: "sw_gateway ?s1 = g1" by simp
  obtain u v g2 where b2: "begin_submit sample_coercions sample_providers sample_principal 1 SET_HEATER
      [(''on'', JBool True)] ''c1'' (sw_gateway ?s1) = (Inr (u, v), g2)" "gw_issued g2 = 4"
    using sample_begin[OF b1(2)] b1(3) unfolding g1 by auto
  let ?s2 = "?s1\<lparr>sw_gateway := g2, sw_tasks := sw_tasks ?s1 @ [Queued u v]\<rparr>"
  have ts: "sw_tasks ?s2 = [Queued l f, Queued u v]" by (simp add: stages_start_def)
  let ?s3 = "?s2\<lparr>sw_tasks := (sw_tasks ?s2)[0 := InWrite l f], sw_held := l # sw_held ?s2\<rparr>"
  have "task_moves ?s2 ?s3" using ts by (intro task_moves.takes_lock) (simp_all add: stages_start_def)
  then have "?step ?s2 ?s3" by (rule stage_step.moves)
  with stage_step.enters[OF b1(1)] stage_step.enters[OF b2(1)] have "?step\<^sup>*\<^sup>* ?s0 ?s3"
    by (meson converse_rtranclp_into_rtranclp r_into_rtranclp)
  from that[OF this, of l f u v] show thesis using b2(2) f ts by simp
qed

lemma sample_ids: "inj_on (gw_uuids sample_gateway) {..<4}"
proof -
  have "{..<4::nat} = {0, 1, 2, 3}" by auto
  then show ?thesis by simp
qed

text \<open>
  C8. Whatever interleaves, submissions do not disturb one another. In every state that submissions,
  cancelled requests, observations and reads can reach in any order, the registry is consistent
  and each device still has its identity, capabilities and limits; the tasks have different
  commands; each task that answered has answered with a settled command of its own request, never
  with an error; and what the store holds of a task is exactly that command, the running one
  before it, or the running one for ever if the task was cancelled, or nothing once it was pushed
  out by newer ones. The identifiers drawn so far must not repeat.
\<close>

theorem submissions_accounted:
  assumes "\<forall>n p. provs n = Some p \<longrightarrow> adapter_contract p refs world_ok"
    and "registry_inv (gw_registry g)" and "od_wf (gw_commands g)" and "world_ok w"
    and "interleaves co provs world_ok (stages_start g w) s"
    and "inj_on (gw_uuids g) {..<gw_issued (sw_gateway s)}"
  shows "registry_inv (gw_registry (sw_gateway s)) \<and> evolves (gw_registry g) (gw_registry (sw_gateway s)) \<and>
    world_ok (sw_world s) \<and> distinct (map stage_id (sw_tasks s)) \<and>
    list_all (accounted (gw_commands (sw_gateway s))) (sw_tasks s)"
proof -
  have "stages_inv provs world_ok g s"
    by (rule stages_inv_reached[OF _ assms(2-6)]) (use assms(1) in blast)
  then show ?thesis by (auto simp: stages_inv_def sound_def list_all_iff)
qed

theorem submissions_accounted_witness:
  "\<exists>s. sample_interleaves s \<and> length (sw_tasks s) = 2 \<and> distinct (map stage_id (sw_tasks s)) \<and>
     list_all (accounted (gw_commands (sw_gateway s))) (sw_tasks s)"
proof -
  obtain s l f u v where s: "sample_interleaves s" "sw_tasks s = [InWrite l f, Queued u v]"
    "gw_issued (sw_gateway s) = 4" by (rule sample_interleaving)
  have con: "\<forall>n p. sample_providers n = Some p \<longrightarrow> adapter_contract p {sample_ref} (\<lambda>w. True)"
    using sample_contract by (auto simp: sample_providers_def)
  have "registry_inv (gw_registry sample_gateway)" "od_wf (gw_commands sample_gateway)"
    using sample_registry_inv by simp_all
  from submissions_accounted[OF con this _ s(1)] s sample_ids show ?thesis
    by (intro exI[of _ s]) simp
qed

text \<open>
  C9. Writes to one device never overlap, as long as no more than 256 devices are registered: in
  every interleaving at most one submission for a device is between taking its lock and the end
  of its write and read-back, cancelled requests included.
\<close>

theorem submissions_serialised:
  assumes "\<forall>n p. provs n = Some p \<longrightarrow> adapter_contract p refs world_ok"
    and "registry_inv (gw_registry g)" and "od_wf (gw_commands g)" and "world_ok w"
    and "interleaves co provs world_ok (stages_start g w) s"
    and "inj_on (gw_uuids g) {..<gw_issued (sw_gateway s)}"
    and "gw_locks g = []" and "card {d. registered g d} \<le> 256"
  shows "length (filter (\<lambda>t. stage_device t = d \<and> (\<exists>l. holds l t)) (sw_tasks s)) \<le> 1"
proof -
  let ?P = "\<lambda>t. stage_device t = d \<and> (\<exists>l. holds l t)"
  have con: "adapter_contract p refs world_ok" if "provs n = Some p" for n p using assms(1) that by blast
  have "serialised (as_tasks s)"
    using few_serialised[OF interleaving_simulated[OF con assms(2-6)] assms(7)] assms(8)
    by (simp add: MAX_DEVICE_LOCKS_def)
  then have "i = j" if ij: "i < length (sw_tasks s)" "?P (sw_tasks s ! i)" "j < length (sw_tasks s)" "?P (sw_tasks s ! j)" for i j
  proof -
    from ij obtain l m where "as_task (sw_tasks s ! i) = (d, Writing l)" "as_task (sw_tasks s ! j) = (d, Writing m)"
      by (auto simp: as_task_def writing_holds)
    with \<open>serialised (as_tasks s)\<close> ij(1,3) show "i = j" unfolding serialised_def by fastforce
  qed
  then have "card {i. i < length (sw_tasks s) \<and> ?P (sw_tasks s ! i)} \<le> 1"
    by (auto simp: card_le_Suc0_iff_eq simp del: One_nat_def simp: One_nat_def)
  then show ?thesis by (simp only: length_filter_conv_card)
qed

theorem submissions_serialised_witness:
  "\<exists>s. sample_interleaves s \<and> length (sw_tasks s) = 2 \<and>
     length (filter (\<lambda>t. stage_device t = 1 \<and> (\<exists>l. holds l t)) (sw_tasks s)) \<le> 1"
proof -
  obtain s l f u v where s: "sample_interleaves s" "sw_tasks s = [InWrite l f, Queued u v]"
    "gw_issued (sw_gateway s) = 4" by (rule sample_interleaving)
  have con: "\<forall>n p. sample_providers n = Some p \<longrightarrow> adapter_contract p {sample_ref} (\<lambda>w. True)"
    using sample_contract by (auto simp: sample_providers_def)
  have start: "registry_inv (gw_registry sample_gateway)" "od_wf (gw_commands sample_gateway)"
    using sample_registry_inv by simp_all
  have "{d. registered sample_gateway d} = {1}"
    by (auto simp: registered_def sample_registry_def od_get_def split: if_splits)
  then have few: "card {d. registered sample_gateway d} \<le> 256" by simp
  have "inj_on (gw_uuids sample_gateway) {..<gw_issued (sw_gateway s)}" using sample_ids s(3) by simp
  from submissions_serialised[OF con start _ s(1) this _ few, of 1] s(1,2) show ?thesis
    by (intro exI[of _ s]) simp
qed

text \<open>
  C10. Every submission comes to an end. In every state that submissions, cancelled requests,
  observations and reads can reach, the locks that are taken are those of the tasks at a write
  or a read-back. From there the tasks under way, however they take turns, make at most three
  moves for each task in total; and after any number of moves they can go on exactly as long as
  one of them has not returned: no order of taking and releasing locks leaves tasks waiting for
  one another, or for a lock nobody gives back.
\<close>

theorem submissions_finish:
  assumes "interleaves co provs world_ok (stages_start g w) s" and "(task_moves ^^ n) s s'"
  shows "n \<le> 3 * length (sw_tasks s) \<and>
    set (sw_held s') = {l. list_ex (holds l) (sw_tasks s')} \<and>
    (Domainp task_moves s' \<longleftrightarrow> list_ex (\<lambda>t. \<not> finished t) (sw_tasks s'))"
proof -
  have "interleaves co provs world_ok s s'" using assms(2)
  proof (induction n arbitrary: s')
    case (Suc n)
    then obtain s1 where "(task_moves ^^ n) s s1" "task_moves s1 s'" by auto
    with Suc.IH[of s1] stage_step.moves[of s1 s' co provs world_ok] show ?case by (meson rtranclp.rtrancl_into_rtrancl)
  qed simp
  with assms(1) have locks: "locks_right s'" by (meson locks_right_reached rtranclp_trans)
  have "Domainp task_moves s' \<longleftrightarrow> list_ex (\<lambda>t. \<not> finished t) (sw_tasks s')"
    using unfinished_moves[OF locks] moves_unfinished by (auto simp: Domainp_iff list_ex_iff)
  moreover have "n \<le> 3 * length (sw_tasks s)"
    using moves_bounded[OF assms(2)] moves_left_le[of s] by simp
  ultimately show ?thesis using locks_right_taken[OF locks] by simp
qed

text \<open>Two submissions for one heater, the first of them at its write: the second can still go on.\<close>

theorem submissions_finish_witness:
  "\<exists>s l f u v. sample_interleaves s \<and> sw_tasks s = [InWrite l f, Queued u v] \<and>
     set (sw_held s) = {l} \<and> Domainp task_moves s"
proof -
  obtain s l f u v where s: "sample_interleaves s" "sw_tasks s = [InWrite l f, Queued u v]" by (rule sample_interleaving)
  have "(task_moves ^^ 0) s s" by simp
  from submissions_finish[OF s(1) this] have "set (sw_held s) = {l}" "Domainp task_moves s"
    by (auto simp: s(2))
  with s show ?thesis by blast
qed

end
