(* ===== verification/Schedule_Stages.thy ===== *)
theory Schedule_Stages
  imports Schedule_Properties Stage_Properties
begin

section \<open>Timers interleaved at their awaits\<close>

text \<open>
  Two coroutines of \<open>ScheduleService\<close> wait for \<open>CommandService.submit\<close>: \<open>create\<close>, before it arms
  a timer that runs a function for some time, and \<open>fire\<close>. \<open>Schedule_Service\<close> runs each in one
  piece. Here they are cut at that await, and what they wait for is a task of \<open>Command_Stages\<close>:
  while it is under way clients command, arm and cancel, other timers are created, and the
  device's lock may be taken by others.
\<close>

subsection \<open>The pieces\<close>

text \<open>What a waiting \<open>create\<close> keeps in its frame.\<close>

record creation =
  cr_principal :: principal
  cr_device :: uuid
  cr_action :: action
  cr_kind :: schedule_kind
  cr_delay :: timedelta
  cr_correlation :: string

text \<open>\<open>create\<close> up to the await: \<open>Inl\<close> returned or raised without one, \<open>Inr\<close> submits its command.\<close>

definition begin_create ::
  "settings \<Rightarrow> principal \<Rightarrow> uuid \<Rightarrow> action \<Rightarrow> schedule_kind \<Rightarrow> rat \<Rightarrow> string \<Rightarrow> gateway
     \<Rightarrow> ((failure + schedule) + creation) \<times> gateway"
where
  "begin_create st pr d a kind hours corr g =
     (case svc_get d g of
        Inl e \<Rightarrow> (Inl (Inl e), g)
      | Inr dev \<Rightarrow>
      if a \<notin> TIMED_ACTIONS then
        (Inl (Inl (raise_detail CapabilityNotSupportedError
           (Authored ''Only the pool heater and filter pump can be put on a timer.''))),
         schedule_denied pr d a corr ''not_schedulable'' g)
      else
     (case validate_hours st hours of
        Inl e \<Rightarrow> (Inl (Inl e), g)
      | Inr delay \<Rightarrow>
     (let desired = (kind = DELAYED_START); params = OnOffParams desired in
      case required_capability_for a params of
        None \<Rightarrow> (Inl (Inl (Crashed ''required_capability_for'')), g)
      | Some capability \<Rightarrow>
      if \<not> supports dev capability then
        (Inl (Inl (raise_kind CapabilityNotSupportedError)),
         schedule_denied pr d a corr ''capability_not_supported'' g)
      else
     (case classify a params of
        None \<Rightarrow> (Inl (Inl (Crashed ''classify'')), g)
      | Some risk \<Rightarrow>
      if risk = HIGH then (Inl (Inl (raise_kind ActionAuthorizationRequiredError)), g)
      else if kind = RUN_FOR then
        (Inr \<lparr>cr_principal = pr, cr_device = d, cr_action = a, cr_kind = kind, cr_delay = delay,
              cr_correlation = corr\<rparr>, g)
      else
        (let (r, g1) = arm pr d a kind desired delay corr None g in (Inl r, g1))))))"

text \<open>\<open>create\<close> goes on with what its command came to.\<close>

definition create_resumes :: "creation \<Rightarrow> failure + command \<Rightarrow> gateway \<Rightarrow> (failure + schedule) \<times> gateway" where
  "create_resumes p answer g =
     (case answer of
        Inl e \<Rightarrow> (Inl e, g)
      | Inr c \<Rightarrow>
          if cmd_status c \<notin> {command_status.SUCCEEDED, command_status.UNKNOWN} then
            (Inl (raise_detail DeviceUnavailableError
               (Authored ''The function could not be started, so no timer was set.'')), g)
          else arm (cr_principal p) (cr_device p) (cr_action p) (cr_kind p) (cr_kind p = DELAYED_START)
                 (cr_delay p) (cr_correlation p) (Some (cmd_id c)) g)"

text \<open>\<open>fire\<close> goes on, and the loop that called it: any other exception settles the timer as failed.\<close>

definition fire_resumes :: "schedule \<Rightarrow> failure + command \<Rightarrow> gateway \<Rightarrow> (failure + unit) \<times> gateway" where
  "fire_resumes s answer g =
     (case answer of
        Inl (Crashed m) \<Rightarrow> (Inl (Crashed m), g)
      | Inl (Raised e) \<Rightarrow>
          (case settle s schedule_status.FAILED (Some (problem_type (he_kind e))) None None g of
             (Inl f, g1) \<Rightarrow> (Inl f, g1) | (Inr _, g1) \<Rightarrow> (Inr (), g1))
      | Inr c \<Rightarrow>
          (case settle s (fired_status (cmd_status c)) (cmd_failure_code c) (Some (cmd_id c)) None g of
             (Inl f, g1) \<Rightarrow> (Inl f, g1) | (Inr _, g1) \<Rightarrow> (Inr (), g1)))"

definition loop_resumes :: "schedule \<Rightarrow> failure + command \<Rightarrow> gateway \<Rightarrow> gateway" where
  "loop_resumes s answer g =
     (case fire_resumes s answer g of
        (Inr _, g1) \<Rightarrow> g1
      | (Inl _, g1) \<Rightarrow> snd (settle s schedule_status.FAILED (Some ''internal_error'') None None g1))"

text \<open>Put together with nothing in between they are the operations in one piece.\<close>

lemma create_in_pieces:
  "create_schedule st sub pr d a kind hours corr (g, w) =
     (case begin_create st pr d a kind hours corr g of
        (Inl r, g1) \<Rightarrow> (r, g1, w)
      | (Inr p, g1) \<Rightarrow>
          (let (answer, g2, w2) = sub pr d a [(''on'', JBool True)] corr (g1, w);
               (r, g3) = create_resumes p answer g2 in (r, g3, w2)))"
proof (cases kind)
  case DELAYED_START
  then show ?thesis
    by (simp add: create_schedule_def begin_create_def Let_def case_prod_unfold split: sum.split option.split)
next
  case RUN_FOR
  obtain answer g2 w2 where sub: "sub pr d a [(''on'', JBool True)] corr (g, w) = (answer, g2, w2)"
    by (metis prod.exhaust)
  from RUN_FOR show ?thesis
    by (cases answer)
      (auto simp: create_schedule_def begin_create_def create_resumes_def sub Let_def case_prod_unfold
        split: sum.split option.split)
qed

lemma fire_in_pieces:
  "fire_guarded sub s (g, w) =
     (let (answer, g1, w1) = sub (schedule_principal s) (sc_device_id s) (sc_action s)
            [(''on'', JBool (sc_desired s))] (sc_correlation_id s) (g, w)
      in (loop_resumes s answer g1, w1))"
  by (simp add: fire_guarded_def fire_def loop_resumes_def fire_resumes_def Let_def case_prod_unfold
      split: sum.split failure.split)

subsection \<open>The loop, its clients, and the commands under way\<close>

text \<open>
  The state of \<open>Command_Stages\<close>; the timers that the current pass of the loop has listed and not
  begun to fire; the timer that is being fired, with the task it waits for; the timers fired so
  far, that one included; and the creations that wait for their commands, with these.
\<close>

record 'w timer_world =
  tm_stages :: "'w stage_world"
  tm_listed :: "schedule list"
  tm_firing :: "(schedule \<times> nat) option"
  tm_fired :: "uuid list"
  tm_creating :: "(creation \<times> nat) list"

abbreviation household :: "'w timer_world \<Rightarrow> gateway" where
  "household x \<equiv> sw_gateway (tm_stages x)"

definition with_household :: "gateway \<Rightarrow> 'w timer_world \<Rightarrow> 'w timer_world" where
  "with_household g x = x\<lparr>tm_stages := (tm_stages x)\<lparr>sw_gateway := g\<rparr>\<rparr>"

text \<open>A submission joins the tasks.\<close>

definition joined :: "gateway \<Rightarrow> 'w stage \<Rightarrow> 'w stage_world \<Rightarrow> 'w stage_world" where
  "joined g t s = s\<lparr>sw_gateway := g, sw_tasks := sw_tasks s @ [t]\<rparr>"

text \<open>Task \<open>k\<close> has returned or raised this.\<close>

definition answered :: "nat \<Rightarrow> 'w flight \<Rightarrow> failure + command \<Rightarrow> 'w stage_world \<Rightarrow> bool" where
  "answered k f r s \<longleftrightarrow> k < length (sw_tasks s) \<and> sw_tasks s ! k = Answered f r"

abbreviation fire_submits ::
  "coercions \<Rightarrow> (string \<Rightarrow> 'w device_provider option) \<Rightarrow> schedule \<Rightarrow> gateway
     \<Rightarrow> ((failure + command) + nat \<times> 'w flight) \<times> gateway"
where
  "fire_submits co provs s \<equiv> begin_submit co provs (schedule_principal s) (sc_device_id s) (sc_action s)
     [(''on'', JBool (sc_desired s))] (sc_correlation_id s)"

abbreviation create_submits ::
  "coercions \<Rightarrow> (string \<Rightarrow> 'w device_provider option) \<Rightarrow> creation \<Rightarrow> gateway
     \<Rightarrow> ((failure + command) + nat \<times> 'w flight) \<times> gateway"
where
  "create_submits co provs p \<equiv> begin_submit co provs (cr_principal p) (cr_device p) (cr_action p)
     [(''on'', JBool True)] (cr_correlation p)"

text \<open>
  Steps: a pass lists the due timers; the next of them is fired, and goes on when its command has
  answered; a client creates a timer, which goes on likewise, or cancels one; a step of the
  submissions. A cancelled task never answers, so a cancelled loop or request goes no further. A
  step of \<open>Command_Stages\<close> that is not one of its own pieces must leave the timers alone. Where a
  coroutine of the source goes on without a pause, after its command returned or from one timer
  of a pass to the next, other steps are allowed in between: the relation has every run of the
  program, and more.
\<close>

inductive timer_step ::
  "settings \<Rightarrow> coercions \<Rightarrow> (string \<Rightarrow> 'w device_provider option) \<Rightarrow> ('w \<Rightarrow> bool) \<Rightarrow>
     'w timer_world \<Rightarrow> 'w timer_world \<Rightarrow> bool"
  for st co provs world_ok
where
  step_tick: "tm_listed x = [] \<Longrightarrow> tm_firing x = None \<Longrightarrow> due (household x) = (ss, g) \<Longrightarrow>
    timer_step st co provs world_ok x ((with_household g x)\<lparr>tm_listed := ss\<rparr>)"
| step_fire: "tm_listed x = s # ss \<Longrightarrow> tm_firing x = None \<Longrightarrow>
    fire_submits co provs s (household x) = (Inr (l, f), g) \<Longrightarrow>
    timer_step st co provs world_ok x
      (x\<lparr>tm_stages := joined g (Queued l f) (tm_stages x), tm_listed := ss,
         tm_firing := Some (s, length (sw_tasks (tm_stages x))), tm_fired := sc_id s # tm_fired x\<rparr>)"
| step_fire_at_once: "tm_listed x = s # ss \<Longrightarrow> tm_firing x = None \<Longrightarrow>
    fire_submits co provs s (household x) = (Inl r, g) \<Longrightarrow>
    timer_step st co provs world_ok x
      ((with_household (loop_resumes s r g) x)\<lparr>tm_listed := ss, tm_fired := sc_id s # tm_fired x\<rparr>)"
| step_fired: "tm_firing x = Some (s, k) \<Longrightarrow> answered k f r (tm_stages x) \<Longrightarrow>
    timer_step st co provs world_ok x ((with_household (loop_resumes s r (household x)) x)\<lparr>tm_firing := None\<rparr>)"
| step_create: "begin_create st pr d a kind hours corr (household x) = (Inl r, g) \<Longrightarrow>
    timer_step st co provs world_ok x (with_household g x)"
| step_create_submits: "begin_create st pr d a kind hours corr (household x) = (Inr p, g) \<Longrightarrow>
    create_submits co provs p g = (Inr (l, f), g1) \<Longrightarrow>
    timer_step st co provs world_ok x
      (x\<lparr>tm_stages := joined g1 (Queued l f) (tm_stages x),
         tm_creating := (p, length (sw_tasks (tm_stages x))) # tm_creating x\<rparr>)"
| step_create_at_once: "begin_create st pr d a kind hours corr (household x) = (Inr p, g) \<Longrightarrow>
    create_submits co provs p g = (Inl r, g1) \<Longrightarrow> create_resumes p r g1 = (out, g2) \<Longrightarrow>
    timer_step st co provs world_ok x (with_household g2 x)"
| step_created: "tm_creating x = ps @ (p, k) # qs \<Longrightarrow> answered k f r (tm_stages x) \<Longrightarrow>
    create_resumes p r (household x) = (out, g) \<Longrightarrow>
    timer_step st co provs world_ok x ((with_household g x)\<lparr>tm_creating := ps @ qs\<rparr>)"
| step_cancel: "cancel_schedule pr i (household x) = (r, g) \<Longrightarrow>
    timer_step st co provs world_ok x (with_household g x)"
| step_command: "stage_step co provs world_ok (tm_stages x) s \<Longrightarrow>
    gw_schedules (sw_gateway s) = gw_schedules (household x) \<Longrightarrow>
    timer_step st co provs world_ok x (x\<lparr>tm_stages := s\<rparr>)"

inductive_cases timer_stepE: "timer_step st co provs world_ok x y"

definition timers_start :: "gateway \<Rightarrow> 'w \<Rightarrow> 'w timer_world" where
  "timers_start g w =
     \<lparr>tm_stages = stages_start g w, tm_listed = [], tm_firing = None, tm_fired = [], tm_creating = []\<rparr>"

abbreviation timers_reach ::
  "settings \<Rightarrow> coercions \<Rightarrow> (string \<Rightarrow> 'w device_provider option) \<Rightarrow> ('w \<Rightarrow> bool) \<Rightarrow>
     'w timer_world \<Rightarrow> 'w timer_world \<Rightarrow> bool"
where "timers_reach st co provs world_ok \<equiv> (timer_step st co provs world_ok)\<^sup>*\<^sup>*"

text \<open>The submissions' own pieces always can: they do not touch the timers.\<close>

lemma stage_step_timers:
  assumes "stage_step co provs world_ok s s'"
  shows "untouched (sw_gateway s) (sw_gateway s') \<or> bystander (sw_gateway s) (sw_gateway s')"
  using assms
proof cases
  case moves
  then show ?thesis
  proof cases
    case (written k l f r g' w')
    with write_returns_untouched[of "sw_gateway s" f "sw_world s"] show ?thesis by simp
  next
    case (timed_out k l f g' w')
    with write_returns_untouched[of "sw_gateway s" f "sw_world s"] show ?thesis by simp
  next
    case (read_back k l f r g' w')
    with read_returns_untouched[of "sw_gateway s" f "sw_world s"] show ?thesis by simp
  qed simp
next
  case (enters pr i a raw corr l f g')
  with begin_submit_untouched[of "sw_gateway s" co provs pr i a raw corr] show ?thesis by simp
next
  case (returns_at_once pr i a raw corr r g')
  with begin_submit_untouched[of "sw_gateway s" co provs pr i a raw corr] show ?thesis by simp
qed simp_all

lemma stage_step_draws: "stage_step co provs world_ok s s' \<Longrightarrow> draws_on (sw_gateway s) (sw_gateway s')"
  using stage_step_timers[of co provs world_ok s s']
  by (auto simp: draws_on_def untouched_def bystander_def calm_def grown_def)

subsection \<open>What the pieces keep\<close>

text \<open>A timer that is over: it was created, and is not armed any more.\<close>

definition over :: "gateway \<Rightarrow> uuid \<Rightarrow> bool" where
  "over g i \<longleftrightarrow> issued g i \<and> (\<forall>t. od_get (gw_schedules g) i = Some t \<longrightarrow> sc_status t \<noteq> ARMED)"

text \<open>The invariant of the timers is kept, and what is over stays over.\<close>

definition keeps_timers :: "gateway \<Rightarrow> gateway \<Rightarrow> bool" where
  "keeps_timers g g' \<longleftrightarrow> timers_inv g' \<and> draws_on g g' \<and> (\<forall>i. over g i \<longrightarrow> over g' i)"

lemma keeps_timers_trans: "keeps_timers g g1 \<Longrightarrow> keeps_timers g1 g2 \<Longrightarrow> keeps_timers g g2"
  unfolding keeps_timers_def by (blast intro: draws_on_trans)

lemma keeps_timers_same:
  assumes "timers_inv g" and "gw_schedules g' = gw_schedules g" and d: "draws_on g g'"
  shows "keeps_timers g g'"
proof -
  have "timers_inv g'"
    using assms timers_invD[OF assms(1)] timer_ok_draws[OF d]
    by (intro timers_inv_intro[OF assms(1)]) (auto simp: draws_on_def)
  moreover have "over g' i" if "over g i" for i using that assms(2) log_kept[OF _ d] by (simp add: over_def)
  ultimately show ?thesis using d by (simp add: keeps_timers_def)
qed

lemma keeps_timers_untouched: "timers_inv g \<Longrightarrow> untouched g g' \<Longrightarrow> keeps_timers g g'"
  by (rule keeps_timers_same) (auto simp: untouched_def draws_on_def)

lemma keeps_timers_settle:
  assumes inv: "timers_inv g" and ok: "timer_ok g (sc_id s) s" and st: "status \<noteq> ARMED"
  shows "keeps_timers g (snd (settle s status f c ac g))" and "over (snd (settle s status f c ac g)) (sc_id s)"
proof -
  note run = settle_run[OF st, of s f c ac g]
  have d: "draws_on g (snd (settle s status f c ac g))" by (rule draws_on_settle)
  have "over (snd (settle s status f c ac g)) i" if "over g i \<or> i = sc_id s" for i
    using that ok st log_kept[OF _ d] by (auto simp: over_def run(2) od_get_set timer_ok_def split: if_splits)
  then show "keeps_timers g (snd (settle s status f c ac g))" and "over (snd (settle s status f c ac g)) (sc_id s)"
    using timers_inv_settle[OF inv ok st] d by (auto simp: keeps_timers_def)
qed

lemma keeps_timers_cancel:
  assumes inv: "timers_inv g" and cancel: "cancel_schedule pr i g = (r, g')"
  shows "keeps_timers g g'"
  using cancel
proof (cases rule: cancel_cases)
  case 1
  with inv show ?thesis by (simp add: keeps_timers_untouched)
next
  case (2 s)
  then have "timer_ok g (sc_id s) s" using timers_invD(2)[OF inv] by (simp add: timer_ok_def)
  with 2 keeps_timers_settle(1)[OF inv] show ?thesis by simp
qed

lemma keeps_timers_arm:
  assumes inv: "timers_inv g" and a: "a \<in> TIMED_ACTIONS" and draws: "distinct_supply g N" "gw_issued g' \<le> N"
    and arm: "arm pr d a kind (kind = DELAYED_START) delay corr cmd g = (r, g')"
  shows "keeps_timers g g'"
proof -
  have d: "draws_on g g'" using draws_on_arm[of g pr d a kind "kind = DELAYED_START" delay corr cmd] arm by simp
  have "gw_issued g < gw_issued g'"
    using arm_issued(1)[OF inv, of pr d a kind "kind = DELAYED_START" delay corr cmd] arm by simp
  then have fresh: "\<not> issued g (gw_uuids g (gw_issued g))" using draws by (intro supply_fresh[of g N]) simp_all
  let ?s = "new_schedule (gw_uuids g (gw_issued g)) pr d a kind (kind = DELAYED_START) delay corr cmd (now_of g)"
  have "over g' i" if "over g i" for i
  proof -
    have "i \<noteq> sc_id ?s" using that fresh by (auto simp: over_def new_schedule_def)
    then have "sc_status t \<noteq> ARMED" if "od_get (gw_schedules g') i = Some t" for t
      using arm_run(5)[OF inv fresh arm that] \<open>over g i\<close> by (auto simp: over_def)
    with that log_kept[OF _ d] show ?thesis by (simp add: over_def)
  qed
  with timers_inv_arm[OF inv a fresh arm] d show ?thesis by (simp add: keeps_timers_def)
qed

lemma begin_create_cases:
  assumes "begin_create st pr d a kind hours corr g = (out, g')"
  obtains (refused) e where "out = Inl (Inl e)" "untouched g g'"
  | (armed) delay r where "out = Inl r" "a \<in> TIMED_ACTIONS" "validate_hours st hours = Inr delay"
      "arm pr d a kind (kind = DELAYED_START) delay corr None g = (r, g')"
  | (submits) delay where "kind = RUN_FOR" "a \<in> TIMED_ACTIONS" "validate_hours st hours = Inr delay" "g' = g"
      "out = Inr \<lparr>cr_principal = pr, cr_device = d, cr_action = a, cr_kind = kind, cr_delay = delay, cr_correlation = corr\<rparr>"
proof -
  have u: "untouched g (schedule_denied pr d a corr reason g)" for reason by simp
  consider e where "svc_get d g = Inl e" | "a \<notin> TIMED_ACTIONS" | e where "validate_hours st hours = Inl e"
    | dev delay where "svc_get d g = Inr dev" "a \<in> TIMED_ACTIONS" "validate_hours st hours = Inr delay"
    by (metis obj_sumE)
  then show thesis
  proof cases
    case (4 dev delay)
    then show thesis using assms refused armed submits u
      by (auto simp: begin_create_def Let_def split: option.splits if_splits prod.splits)
  qed (use assms u refused in \<open>auto simp: begin_create_def split: sum.splits if_splits\<close>)
qed

text \<open>Creations under way are of functions that may be timed.\<close>

lemma keeps_timers_begin_create:
  assumes inv: "timers_inv g" and draws: "distinct_supply g N" "gw_issued g' \<le> N"
    and run: "begin_create st pr d a kind hours corr g = (out, g')"
  shows "keeps_timers g g' \<and> (\<forall>p. out = Inr p \<longrightarrow> cr_action p \<in> TIMED_ACTIONS \<and> g' = g)"
  using run
proof (cases rule: begin_create_cases)
  case (armed delay r)
  with keeps_timers_arm[OF inv armed(2) draws armed(4)] show ?thesis by simp
qed (use keeps_timers_untouched[OF inv] in simp_all)

lemma keeps_timers_create_resumes:
  assumes inv: "timers_inv g" and p: "cr_action p \<in> TIMED_ACTIONS"
    and draws: "distinct_supply g N" "gw_issued g' \<le> N" and run: "create_resumes p r g = (out, g')"
  shows "keeps_timers g g'"
proof -
  have same: "keeps_timers g g" using inv by (simp add: keeps_timers_untouched)
  show ?thesis
  proof (cases r)
    case (Inr c)
    with run keeps_timers_arm[OF inv p draws] same show ?thesis by (auto simp: create_resumes_def split: if_splits)
  qed (use run same in \<open>simp add: create_resumes_def\<close>)
qed

lemma loop_resumes_settles:
  obtains status f c where "status \<noteq> ARMED" "loop_resumes s r g = snd (settle s status f c None g)"
proof (cases r)
  case (Inl e)
  have "\<exists>code. loop_resumes s r g = snd (settle s schedule_status.FAILED code None None g)"
    using Inl by (cases e) (simp_all add: loop_resumes_def fire_resumes_def case_prod_unfold settle_run(1), blast+)
  with that show thesis by blast
next
  case (Inr c)
  have st: "fired_status (cmd_status c) \<noteq> ARMED" by (simp add: fired_status_def)
  have "loop_resumes s r g = snd (settle s (fired_status (cmd_status c)) (cmd_failure_code c) (Some (cmd_id c)) None g)"
    using Inr by (simp add: loop_resumes_def fire_resumes_def case_prod_unfold settle_run(1)[OF st])
  with that st show thesis by blast
qed

lemma keeps_timers_resumes:
  assumes "timers_inv g" and "timer_ok g (sc_id s) s"
  shows "keeps_timers g (loop_resumes s r g)" and "over (loop_resumes s r g) (sc_id s)"
  by (rule loop_resumes_settles[of s r g]; simp add: keeps_timers_settle[OF assms])+

subsection \<open>The invariant of the loop\<close>

definition firing_id :: "'w timer_world \<Rightarrow> uuid option" where
  "firing_id x = map_option (\<lambda>(s, k). sc_id s) (tm_firing x)"

definition timer_world_inv :: "'w timer_world \<Rightarrow> bool" where
  "timer_world_inv x \<longleftrightarrow>
     timers_inv (household x) \<and> distinct (tm_fired x) \<and> distinct (map sc_id (tm_listed x)) \<and>
     (\<forall>s \<in> set (tm_listed x). timer_ok (household x) (sc_id s) s \<and> sc_id s \<notin> set (tm_fired x)) \<and>
     (\<forall>s k. tm_firing x = Some (s, k) \<longrightarrow> timer_ok (household x) (sc_id s) s \<and> sc_id s \<in> set (tm_fired x)) \<and>
     (\<forall>i \<in> set (tm_fired x). firing_id x \<noteq> Some i \<longrightarrow> over (household x) i) \<and>
     (\<forall>(p, k) \<in> set (tm_creating x). cr_action p \<in> TIMED_ACTIONS)"

lemma timer_world_invD:
  assumes "timer_world_inv x"
  shows "timers_inv (household x)" "distinct (tm_fired x)" "distinct (map sc_id (tm_listed x))"
    "s \<in> set (tm_listed x) \<Longrightarrow> timer_ok (household x) (sc_id s) s \<and> sc_id s \<notin> set (tm_fired x)"
    "tm_firing x = Some (s, k) \<Longrightarrow> timer_ok (household x) (sc_id s) s \<and> sc_id s \<in> set (tm_fired x)"
    "i \<in> set (tm_fired x) \<Longrightarrow> firing_id x \<noteq> Some i \<Longrightarrow> over (household x) i"
    "(p, k) \<in> set (tm_creating x) \<Longrightarrow> cr_action p \<in> TIMED_ACTIONS"
  using assms unfolding timer_world_inv_def by blast+

text \<open>A step that keeps the timers and neither lists nor fires one.\<close>

lemma timer_world_inv_keeps:
  assumes inv: "timer_world_inv x" and k: "keeps_timers (household x) (household y)"
    and "set (tm_listed y) \<subseteq> set (tm_listed x)" "distinct (map sc_id (tm_listed y))"
    and "tm_firing y = tm_firing x" "tm_fired y = tm_fired x"
    and "\<And>p k. (p, k) \<in> set (tm_creating y) \<Longrightarrow> cr_action p \<in> TIMED_ACTIONS"
  shows "timer_world_inv y"
proof -
  have d: "draws_on (household x) (household y)" and t: "timers_inv (household y)"
    and o: "\<And>i. over (household x) i \<Longrightarrow> over (household y) i"
    using k by (auto simp: keeps_timers_def)
  note old = timer_world_invD[OF inv]
  have "firing_id y = firing_id x" using assms(5) by (simp add: firing_id_def)
  then show ?thesis
    unfolding timer_world_inv_def using t old(2,4,5,6) assms(3-7) timer_ok_draws[OF d] o by auto
qed

lemma with_household_sel [simp]:
  "household (with_household g x) = g" "tm_listed (with_household g x) = tm_listed x"
  "tm_firing (with_household g x) = tm_firing x" "tm_fired (with_household g x) = tm_fired x"
  "tm_creating (with_household g x) = tm_creating x" "firing_id (with_household g x) = firing_id x"
  "sw_tasks (tm_stages (with_household g x)) = sw_tasks (tm_stages x)"
  "sw_world (tm_stages (with_household g x)) = sw_world (tm_stages x)"
  "sw_held (tm_stages (with_household g x)) = sw_held (tm_stages x)"
  by (simp_all add: with_household_def firing_id_def)

lemma joined_sel [simp]:
  "sw_gateway (joined g t s) = g" "sw_tasks (joined g t s) = sw_tasks s @ [t]" "sw_world (joined g t s) = sw_world s"
  "sw_held (joined g t s) = sw_held s"
  by (simp_all add: joined_def)

lemma timer_world_inv_with:
  "timer_world_inv x \<Longrightarrow> keeps_timers (household x) g \<Longrightarrow> timer_world_inv (with_household g x)"
  by (rule timer_world_inv_keeps) (auto dest: timer_world_invD(3,7))

lemma timer_world_inv_tick:
  assumes inv: "timer_world_inv x" and "tm_firing x = None" and due: "due (household x) = (ss, g)"
  shows "timer_world_inv ((with_household g x)\<lparr>tm_listed := ss\<rparr>)"
proof -
  note old = timer_world_invD[OF inv]
  note listed = due_iff[OF old(1) due]
  note u = untouched_due[OF due]
  have idle: "firing_id x = None" using assms(2) by (simp add: firing_id_def)
  have "timer_ok g (sc_id t) t \<and> sc_id t \<notin> set (tm_fired x)" if "t \<in> set ss" for t
  proof
    show "timer_ok g (sc_id t) t"
      using listed(1) that timers_invD(2)[OF old(1)] timer_ok_draws[OF draws_on_untouched[OF u]] by blast
    show "sc_id t \<notin> set (tm_fired x)" using listed(1)[of t] that old(6)[of "sc_id t"] idle by (auto simp: over_def)
  qed
  moreover have "timer_world_inv (with_household g x)"
    by (rule timer_world_inv_with[OF inv keeps_timers_untouched[OF old(1) u]])
  ultimately show ?thesis using listed(2) by (simp add: timer_world_inv_def firing_id_def)
qed

lemma timer_world_inv_fire:
  assumes inv: "timer_world_inv x" and l: "tm_listed x = s # ss" and idle: "tm_firing x = None"
    and k: "keeps_timers (household x) (household y)" and listed: "tm_listed y = ss"
    and fired: "tm_fired y = sc_id s # tm_fired x" and same: "tm_creating y = tm_creating x"
    and fate: "(\<exists>k. tm_firing y = Some (s, k)) \<or> tm_firing y = None \<and> over (household y) (sc_id s)"
  shows "timer_world_inv y"
proof -
  note old = timer_world_invD[OF inv]
  have d: "draws_on (household x) (household y)" and t: "timers_inv (household y)"
    and o: "\<And>i. over (household x) i \<Longrightarrow> over (household y) i"
    using k by (auto simp: keeps_timers_def)
  have s: "timer_ok (household x) (sc_id s) s" "sc_id s \<notin> set (tm_fired x)" using old(4)[of s] by (simp_all add: l)
  have rest: "timer_ok (household y) (sc_id u) u \<and> sc_id u \<notin> set (tm_fired y)" if "u \<in> set ss" for u
  proof -
    have "sc_id u \<noteq> sc_id s" using old(3) that by (auto simp: l image_iff)
    with old(4)[of u] that timer_ok_draws[OF d] show ?thesis by (auto simp: l fired)
  qed
  have "over (household y) i" if "i \<in> set (tm_fired x)" for i
    using o old(6)[OF that] idle by (simp add: firing_id_def)
  then show ?thesis
    unfolding timer_world_inv_def using t old(2,3,7) s rest timer_ok_draws[OF d s(1)] fate
    by (auto simp: l listed fired same firing_id_def)
qed

lemma timer_world_inv_fired:
  assumes inv: "timer_world_inv x" and f: "tm_firing x = Some (s, k)"
  shows "timer_world_inv ((with_household (loop_resumes s r (household x)) x)\<lparr>tm_firing := None\<rparr>)"
proof -
  note old = timer_world_invD[OF inv]
  have ok: "timer_ok (household x) (sc_id s) s" using old(5)[OF f] by simp
  note kept = keeps_timers_resumes[OF old(1) ok, of r]
  have "over (loop_resumes s r (household x)) i" if "i \<in> set (tm_fired x)" for i
  proof (cases "i = sc_id s")
    case False
    with old(6)[OF that] f kept(1) show ?thesis by (simp add: firing_id_def keeps_timers_def)
  qed (simp add: kept(2))
  with timer_world_inv_with[OF inv kept(1)] show ?thesis by (simp add: timer_world_inv_def)
qed

text \<open>Identifiers are only drawn.\<close>

lemma draws_on_begin: "begin_submit co provs pr d a raw corr g = (out, g') \<Longrightarrow> draws_on g g'"
  using draws_on_untouched[OF begin_submit_untouched[of g co provs pr d a raw corr]] by simp

lemma draws_on_resumes: "draws_on g (loop_resumes s r g)"
  by (rule loop_resumes_settles[of s r g]) (simp add: draws_on_settle)

lemma draws_on_create_resumes: "create_resumes p r g = (out, g') \<Longrightarrow> draws_on g g'"
  using draws_on_arm[of g] draws_on_untouched[OF untouched_refl, of g]
  by (auto simp: create_resumes_def prod_eq_iff split: sum.splits if_splits)

lemma draws_on_begin_create: "begin_create st pr d a kind hours corr g = (out, g') \<Longrightarrow> draws_on g g'"
proof (erule begin_create_cases)
  fix delay r
  assume "arm pr d a kind (kind = DELAYED_START) delay corr None g = (r, g')"
  then show "draws_on g g'" using draws_on_arm[of g pr d a kind "kind = DELAYED_START" delay corr None] by simp
qed (simp_all add: draws_on_untouched)

lemma timer_step_draws:
  assumes "timer_step st co provs world_ok x y"
  shows "draws_on (household x) (household y)"
  using assms
proof cases
  case (step_tick ss g)
  then show ?thesis by (simp add: draws_on_untouched[OF untouched_due])
next
  case (step_fire s ss l f g)
  then show ?thesis by (simp add: draws_on_begin)
next
  case (step_fire_at_once s ss r g)
  then show ?thesis using draws_on_trans[OF draws_on_begin draws_on_resumes] by simp
next
  case (step_fired s k f r)
  then show ?thesis by (simp add: draws_on_resumes)
next
  case (step_create pr d a kind hours corr r g)
  then show ?thesis by (simp add: draws_on_begin_create)
next
  case (step_create_submits pr d a kind hours corr p g l f g1)
  then show ?thesis using draws_on_trans[OF draws_on_begin_create draws_on_begin] by simp
next
  case (step_create_at_once pr d a kind hours corr p g r g1 out g2)
  then show ?thesis
    using draws_on_trans[OF draws_on_trans[OF draws_on_begin_create draws_on_begin] draws_on_create_resumes] by simp
next
  case (step_created ps p k qs f r out g)
  then show ?thesis by (simp add: draws_on_create_resumes)
next
  case (step_cancel pr i r g)
  then show ?thesis by (simp add: draws_on_cancel)
next
  case (step_command s)
  then show ?thesis by (simp add: stage_step_draws)
qed

lemma distinct_supply_draws: "draws_on g g' \<Longrightarrow> distinct_supply g' N = distinct_supply g N"
  by (simp add: draws_on_def distinct_supply_def)

lemma timer_step_inv:
  assumes step: "timer_step st co provs world_ok x y" and inv: "timer_world_inv x"
    and draws: "distinct_supply (household x) N" and bound: "gw_issued (household y) \<le> N"
  shows "timer_world_inv y"
  using step
proof cases
  case (step_tick ss g)
  with inv show ?thesis by (simp add: timer_world_inv_tick)
next
  case (step_fire s ss l f g)
  have "keeps_timers (household x) g"
    using keeps_timers_untouched[OF timer_world_invD(1)[OF inv] begin_submit_untouched] step_fire(4) by (metis snd_conv)
  then show ?thesis using timer_world_inv_fire[OF inv step_fire(2,3), of y] step_fire(1) by simp
next
  case (step_fire_at_once s ss r g)
  note tinv = timer_world_invD(1)[OF inv]
  have k: "keeps_timers (household x) g"
    using keeps_timers_untouched[OF tinv begin_submit_untouched] step_fire_at_once(4) by (metis snd_conv)
  have ok: "timer_ok g (sc_id s) s"
    using timer_world_invD(4)[OF inv, of s] step_fire_at_once(2) k timer_ok_draws by (auto simp: keeps_timers_def)
  have g: "timers_inv g" using k by (simp add: keeps_timers_def)
  note r = keeps_timers_resumes[OF g ok, of r]
  from inv step_fire_at_once(2,3) show ?thesis unfolding step_fire_at_once(1)
    by (rule timer_world_inv_fire) (use step_fire_at_once(3) r keeps_timers_trans[OF k r(1)] in simp_all)
next
  case (step_fired s k f r)
  with inv show ?thesis by (simp add: timer_world_inv_fired)
next
  case (step_create pr d a kind hours corr r g)
  then show ?thesis
    using keeps_timers_begin_create[OF timer_world_invD(1)[OF inv] draws _ step_create(2)] bound
      timer_world_inv_with[OF inv] by simp
next
  case (step_create_submits pr d a kind hours corr p g l f g1)
  have "gw_issued g \<le> gw_issued g1" using draws_on_begin[OF step_create_submits(3)] by (simp add: draws_on_def)
  then have "gw_issued g \<le> N" using bound step_create_submits(1) by simp
  note begun = keeps_timers_begin_create[OF timer_world_invD(1)[OF inv] draws this step_create_submits(2)]
  then have g: "timers_inv g" by (auto simp: keeps_timers_def)
  have "keeps_timers g g1"
    using keeps_timers_untouched[OF g begin_submit_untouched] step_create_submits(3) by (metis snd_conv)
  with begun have "keeps_timers (household x) g1" by (blast intro: keeps_timers_trans)
  from timer_world_inv_keeps[OF inv, of y] this begun show ?thesis
    using timer_world_invD(3,7)[OF inv] step_create_submits(1) by auto
next
  case (step_create_at_once pr d a kind hours corr p g r g1 out g2)
  have d: "draws_on g g1" "draws_on g1 g2"
    using draws_on_begin[OF step_create_at_once(3)] draws_on_create_resumes[OF step_create_at_once(4)] .
  then have le: "gw_issued g \<le> N" "gw_issued g2 \<le> N" using bound step_create_at_once(1) by (simp_all add: draws_on_def)
  note begun = keeps_timers_begin_create[OF timer_world_invD(1)[OF inv] draws le(1) step_create_at_once(2)]
  then have g: "timers_inv g" "draws_on (household x) g" by (auto simp: keeps_timers_def)
  have k1: "keeps_timers g g1"
    using keeps_timers_untouched[OF g(1) begin_submit_untouched] step_create_at_once(3) by (metis snd_conv)
  then have "timers_inv g1" by (simp add: keeps_timers_def)
  moreover have "distinct_supply g1 N" using draws g(2) d(1) by (simp add: distinct_supply_draws)
  ultimately have "keeps_timers g1 g2"
    using begun keeps_timers_create_resumes[OF _ _ _ le(2) step_create_at_once(4)] by blast
  with begun k1 have "keeps_timers (household x) g2" by (blast intro: keeps_timers_trans)
  then show ?thesis unfolding step_create_at_once(1) by (rule timer_world_inv_with[OF inv])
next
  case (step_created ps p k qs f r out g)
  have "keeps_timers (household x) g"
    using keeps_timers_create_resumes[OF timer_world_invD(1)[OF inv] _ draws _ step_created(4)]
      timer_world_invD(7)[OF inv, of p k] step_created(1,2) bound by simp
  from timer_world_inv_keeps[OF inv, of y] this show ?thesis
    using timer_world_invD(3,7)[OF inv] step_created(1,2) by auto
next
  case (step_cancel pr i r g)
  then show ?thesis
    using timer_world_inv_with[OF inv keeps_timers_cancel[OF timer_world_invD(1)[OF inv] step_cancel(2)]] by simp
next
  case (step_command s)
  have "keeps_timers (household x) (sw_gateway s)"
    by (rule keeps_timers_same[OF timer_world_invD(1)[OF inv] step_command(3) stage_step_draws[OF step_command(2)]])
  from timer_world_inv_keeps[OF inv, of y] this show ?thesis
    using timer_world_invD(3,7)[OF inv] step_command(1) by auto
qed

lemma timers_reached:
  assumes run: "timers_reach st co provs world_ok (timers_start g w) x"
    and "timers_inv g" and draws: "distinct_supply g N" and "gw_issued (household x) \<le> N"
  shows "timer_world_inv x \<and> draws_on g (household x)"
  using run assms(4)
proof (induction rule: rtranclp_induct)
  case base
  with assms(2) show ?case
    by (simp add: timer_world_inv_def timers_start_def stages_start_def draws_on_def)
next
  case (step x y)
  note d = timer_step_draws[OF step.hyps(2)]
  then have "gw_issued (household x) \<le> N" using step.prems by (simp add: draws_on_def)
  note ih = step.IH[OF this]
  then have "distinct_supply (household x) N" using draws distinct_supply_draws by blast
  from timer_step_inv[OF step.hyps(2) conjunct1[OF ih] this step.prems] ih d draws_on_trans show ?case by blast
qed

end
