(* ===== verification/Schedule_Claims.thy ===== *)
theory Schedule_Claims
  imports Schedule_Stages
begin

section \<open>The properties of the timers\<close>

text \<open>
  The claims about \<open>ScheduleService\<close>, over the command pipeline itself: the lemmas of the
  locale \<open>command_submitter\<close>, read through its interpretation \<open>pipeline\<close>.
\<close>

subsection \<open>A household with one timer\<close>

definition sample_timer :: "uuid \<Rightarrow> schedule" where
  "sample_timer dev =
     \<lparr>sc_id = 100, sc_device_id = dev, sc_kind = DELAYED_START, sc_action = SET_HEATER,
      sc_desired = True, sc_requested_by_user_id = 7, sc_requested_by_client_id = 8,
      sc_requested_by_display_name = ''Phone'', sc_created_at = 0, sc_due_at = 0,
      sc_correlation_id = ''c1'', sc_status = ARMED, sc_failure_code = None, sc_command_id = None\<rparr>"

definition timer_gateway :: "uuid \<Rightarrow> gateway" where
  "timer_gateway dev =
     sample_gateway\<lparr>gw_issued := 1, gw_schedules := [(100, sample_timer dev)]\<rparr>"

lemma timer_gateway_inv: "timers_inv (timer_gateway dev)"
  by (auto simp: timers_inv_def timer_gateway_def sample_timer_def timer_ok_def issued_def
      TIMED_ACTIONS_def od_wf_def od_get_def)

lemma sample_ids_distinct: "n \<le> 1000 \<Longrightarrow> gw_uuids g = (\<lambda>k. of_nat k + 100) \<Longrightarrow> distinct_supply g n"
proof -
  assume n: "n \<le> 1000" and g: "gw_uuids g = (\<lambda>k. of_nat k + 100)"
  have "(of_nat a :: uuid) = of_nat b \<Longrightarrow> a = b" if "a < n" "b < n" for a b
  proof -
    assume eq: "(of_nat a :: uuid) = of_nat b"
    have "a < 2 ^ 128" "b < 2 ^ 128" using that n by simp_all
    then have "unat (of_nat a :: uuid) = a" "unat (of_nat b :: uuid) = b"
      by (simp_all add: unat_of_nat take_bit_eq_mod)
    with eq show "a = b" by metis
  qed
  then have inj: "inj_on (\<lambda>k. of_nat k :: uuid) {..<n}" by (intro inj_onI) simp
  have "inj_on (\<lambda>k. of_nat k + 100 :: uuid) {..<n}"
    by (rule inj_onI) (metis add_right_cancel inj inj_onD)
  then show ?thesis by (simp only: distinct_supply_def g)
qed

text \<open>A timer for a device that is gone: the command is refused and the timer fails.\<close>

lemma sample_refused:
  "submit sample_coercions sample_providers pr 9 a raw corr (timer_gateway dev, w) =
     (Inl (raise_kind DeviceNotFoundError), timer_gateway dev, w)"
  by (simp add: submit_def admit_def svc_get_def reg_require_def timer_gateway_def
      sample_registry_def od_get_def)

text \<open>The commands of the small household answer, and switch the heater on.\<close>

lemma sample_answers:
  assumes k: "k < length (sw_tasks (tm_stages x))" "sw_tasks (tm_stages x) ! k = Queued l f"
    and free: "sw_held (tm_stages x) = []" and f: "fl_provider f = sample_provider" "fl_params f = OnOffParams True"
    and reg: "registry_inv (gw_registry (household x))"
  obtains s c where "timers_reach st co provs (\<lambda>w. True) x (x\<lparr>tm_stages := s\<rparr>)"
    "answered k f (Inr c) s" "cmd_status c = command_status.SUCCEEDED"
    "untouched (household x) (sw_gateway s)" "gw_issued (sw_gateway s) = Suc (gw_issued (household x))"
    "registry_inv (gw_registry (sw_gateway s))" "sw_held s = []"
    "sw_tasks s = (sw_tasks (tm_stages x))[k := Answered f (Inr c)]"
proof -
  let ?s = "tm_stages x"
  let ?s1 = "?s\<lparr>sw_tasks := (sw_tasks ?s)[k := InWrite l f], sw_held := l # sw_held ?s\<rparr>"
  let ?res = "\<lparr>pcr_outcome = APPLIED, pcr_state = Some (sample_state True), pcr_failure_code = None\<rparr>"
  have ex: "dp_execute (fl_provider f) (fl_ref f) \<lparr>pc_action = cmd_action (fl_command f), pc_params = fl_params f\<rparr>
      (sw_world ?s) = (Inr ?res, True, Suc (snd (sw_world ?s)))"
    by (simp add: f sample_provider_def)
  obtain r g where out: "conclude (fl_command f) (fl_ref f) ?res (household x) = (r, g)" by (rule prod.exhaust)
  have "settles (fl_command f) (command_status.SUCCEEDED, outcome_failure ?res) (household x) (r, g)"
    using conclude_settles[OF reg, of "fl_command f" ?res "fl_ref f"] unfolding out by simp
  then obtain g1 fc where "quiet (household x) g1"
    "(r, g) = (let (c', g2) = finish_command (fl_command f) command_status.SUCCEEDED fc g1 in (Inr c', g2))"
    by (auto simp: settles_def)
  then obtain c where r: "r = Inr c" "cmd_status c = command_status.SUCCEEDED" and issued: "gw_issued g = Suc (gw_issued (household x))"
    by (auto simp: quiet_def case_prod_unfold Let_def)
  have wr: "write_returns f (sw_gateway ?s1, sw_world ?s1) = (Some (Inr c), g, True, Suc (snd (sw_world ?s)))"
    using write_returns_result[OF ex, of "household x"] out r(1) by simp
  let ?s2 = "?s1\<lparr>sw_gateway := g, sw_world := (True, Suc (snd (sw_world ?s))), sw_tasks := (sw_tasks ?s1)[k := Answered f (Inr c)],
    sw_held := release (sw_tasks ?s1 ! k) (sw_held ?s1)\<rparr>"
  have u: "untouched (household x) g" using untouched_conclude[of "household x" "fl_command f" "fl_ref f" ?res] out by simp
  have "task_moves ?s ?s1" using k free by (intro task_moves.takes_lock) simp_all
  then have 1: "timer_step st co provs (\<lambda>w. True) x (x\<lparr>tm_stages := ?s1\<rparr>)"
    by (intro step_command stage_step.moves) simp_all
  have "task_moves ?s1 ?s2" using k by (intro task_moves.written[OF _ _ wr]) simp_all
  then have "timer_step st co provs (\<lambda>w. True) (x\<lparr>tm_stages := ?s1\<rparr>) ((x\<lparr>tm_stages := ?s1\<rparr>)\<lparr>tm_stages := ?s2\<rparr>)"
    using u by (intro step_command) (simp_all add: stage_step.moves untouched_def)
  with 1 have "timers_reach st co provs (\<lambda>w. True) x (x\<lparr>tm_stages := ?s2\<rparr>)" by simp
  moreover have "evolves (gw_registry (household x)) (gw_registry g)"
    using conclude_evolves[OF reg, of ?res "fl_command f" "fl_ref f"] out
    by (simp add: sample_state_def device_state_ok_def empty_state_def opt_between_def)
  ultimately show thesis using that[of ?s2 c] k u issued r(2) free reg by (simp add: answered_def evolves_def)
qed

subsection \<open>Properties\<close>

text \<open>
  C17. A timer fires at most once. However the loop, clients that create, cancel and command, and
  the submissions they all wait for interleave at their awaits, no timer is fired twice, for
  identifiers that do not repeat; and a timer that was fired, other than the one that still
  waits for its command, is not armed any more.
\<close>

theorem timer_fires_once:
  assumes "timers_reach st co provs world_ok (timers_start g w) x"
    and "timers_inv g" and "distinct_supply g N" and "gw_issued (household x) \<le> N"
  shows "distinct (tm_fired x) \<and>
    (\<forall>i \<in> set (tm_fired x). (\<forall>s k. tm_firing x = Some (s, k) \<longrightarrow> sc_id s \<noteq> i) \<longrightarrow>
      (\<forall>t. od_get (gw_schedules (household x)) i = Some t \<longrightarrow> sc_status t \<in> SETTLED))"
proof -
  have inv: "timer_world_inv x" using timers_reached[OF assms] by blast
  have "sc_status t \<in> SETTLED" if "i \<in> set (tm_fired x)" "\<forall>s k. tm_firing x = Some (s, k) \<longrightarrow> sc_id s \<noteq> i"
    "od_get (gw_schedules (household x)) i = Some t" for i t
  proof -
    have "firing_id x \<noteq> Some i" using that(2) by (auto simp: firing_id_def)
    with timer_world_invD(6)[OF inv that(1)] that(3) show ?thesis by (simp add: over_def)
  qed
  with timer_world_invD(2)[OF inv] show ?thesis by blast
qed

text \<open>
  A pass finds two timers due: one for a device that is gone, whose command is refused at once,
  and one that switches the heater on, which a client cancels while its command is under way.
\<close>

definition second_timer :: schedule where
  "second_timer = (sample_timer 1)\<lparr>sc_id := 101\<rparr>"

definition two_timers :: gateway where
  "two_timers = sample_gateway\<lparr>gw_issued := 2, gw_schedules := [(100, sample_timer 9), (101, second_timer)]\<rparr>"

lemma two_timers_inv: "timers_inv two_timers"
proof -
  have "issued two_timers 100" "issued two_timers 101"
    unfolding issued_def two_timers_def by (auto intro: exI[of _ 0] exI[of _ 1])
  then show ?thesis
    by (auto simp: timers_inv_def two_timers_def second_timer_def sample_timer_def timer_ok_def issued_def
      TIMED_ACTIONS_def od_wf_def od_get_def same_function_def split: if_splits)
qed

lemma begin_refused:
  "gw_registry g = sample_registry \<Longrightarrow>
     begin_submit sample_coercions sample_providers pr 9 a raw corr g = (Inl (Inl (raise_kind DeviceNotFoundError)), g)"
  by (simp add: begin_submit_def admit_def svc_get_def reg_require_def sample_registry_def od_get_def)

text \<open>What one settlement does to the stored timers.\<close>

lemma loop_resumes_stored:
  obtains t where "sc_status t \<noteq> ARMED" "gw_schedules (loop_resumes s r g) = od_set (sc_id s) t (gw_schedules g)"
    "gw_issued (loop_resumes s r g) = Suc (gw_issued g)" "gw_registry (loop_resumes s r g) = gw_registry g"
proof (rule loop_resumes_settles[of s r g])
  fix status f c
  assume "status \<noteq> ARMED" "loop_resumes s r g = snd (settle s status f c None g)"
  then show thesis using that[of "settled s status f c"] settle_run[of status s f c None g] by simp
qed

text \<open>The pass up to where the second timer waits for its command.\<close>

lemma sample_pass:
  obtains x l f t where
    "timers_reach default_settings sample_coercions sample_providers (\<lambda>w. True) (timers_start two_timers (False, 0)) x"
    "tm_firing x = Some (second_timer, 0)" "tm_fired x = [101, 100]" "tm_listed x = []"
    "sw_tasks (tm_stages x) = [Queued l f]" "sw_held (tm_stages x) = []"
    "fl_provider f = sample_provider" "fl_params f = OnOffParams True" "gw_registry (household x) = sample_registry"
    "gw_schedules (household x) = [(100, t), (101, second_timer)]" "sc_status t \<noteq> ARMED" "gw_issued (household x) = 5"
proof -
  let ?step = "timer_step default_settings sample_coercions sample_providers (\<lambda>w. True)"
  let ?x0 = "timers_start two_timers (False, 0 :: nat)"
  define g1 where "g1 = snd (due two_timers)"
  have g1: "gw_registry g1 = sample_registry" "gw_schedules g1 = gw_schedules two_timers" "gw_issued g1 = 2"
    by (simp_all add: g1_def due_def clock_now_def two_timers_def)
  have "due two_timers = ([sample_timer 9, second_timer], g1)"
    by (simp add: g1_def due_def armed_def two_timers_def second_timer_def sample_timer_def clock_now_def)
  then have d: "due (household ?x0) = ([sample_timer 9, second_timer], g1)" by (simp add: timers_start_def stages_start_def)
  let ?x1 = "(with_household g1 ?x0)\<lparr>tm_listed := [sample_timer 9, second_timer]\<rparr>"
  have 1: "?step ?x0 ?x1" by (rule step_tick[OF _ _ d]) (simp_all add: timers_start_def)
  define g2 where "g2 = loop_resumes (sample_timer 9) (Inl (raise_kind DeviceNotFoundError)) g1"
  obtain t where t: "sc_status t \<noteq> ARMED" "gw_schedules g2 = od_set 100 t (gw_schedules g1)" "gw_issued g2 = 3"
    "gw_registry g2 = sample_registry"
    using loop_resumes_stored[of "sample_timer 9" "Inl (raise_kind DeviceNotFoundError)" g1] g1
    unfolding g2_def by (auto simp: sample_timer_def)
  let ?x2 = "(with_household g2 ?x1)\<lparr>tm_listed := [second_timer], tm_fired := sc_id (sample_timer 9) # tm_fired ?x1\<rparr>"
  have "fire_submits sample_coercions sample_providers (sample_timer 9) (household ?x1) =
      (Inl (Inl (raise_kind DeviceNotFoundError)), g1)"
    using begin_refused[OF g1(1)] by (simp add: sample_timer_def)
  from step_fire_at_once[OF _ _ this] have 2: "?step ?x1 ?x2" by (simp add: g2_def timers_start_def)
  have pr: "schedule_principal second_timer = sample_principal" "sc_device_id second_timer = 1"
    "sc_action second_timer = SET_HEATER" "sc_desired second_timer" "sc_correlation_id second_timer = ''c1''"
    "sc_id second_timer = 101"
    by (simp_all add: second_timer_def sample_timer_def schedule_principal_def sample_principal_def)
  obtain l f g3 where b: "fire_submits sample_coercions sample_providers second_timer g2 = (Inr (l, f), g3)"
    "gw_registry g3 = sample_registry" "gw_issued g3 = 5" "fl_provider f = sample_provider" "fl_params f = OnOffParams True"
    using sample_begin[OF t(4)] t(3) pr by auto
  let ?x3 = "?x2\<lparr>tm_stages := joined g3 (Queued l f) (tm_stages ?x2), tm_listed := [],
    tm_firing := Some (second_timer, length (sw_tasks (tm_stages ?x2))), tm_fired := sc_id second_timer # tm_fired ?x2\<rparr>"
  have "fire_submits sample_coercions sample_providers second_timer (household ?x2) = (Inr (l, f), g3)" using b(1) by simp
  from step_fire[OF _ _ this] have 3: "?step ?x2 ?x3" by (simp add: timers_start_def)
  from 1 2 3 have run: "?step\<^sup>*\<^sup>* ?x0 ?x3" by (meson converse_rtranclp_into_rtranclp r_into_rtranclp)
  have "gw_schedules g3 = gw_schedules g2"
    using begin_submit_untouched[of g2 sample_coercions sample_providers "schedule_principal second_timer"
        "sc_device_id second_timer" "sc_action second_timer" "[(''on'', JBool (sc_desired second_timer))]"
        "sc_correlation_id second_timer"] b(1) by (simp add: untouched_def)
  then have sch: "gw_schedules g3 = [(100, t), (101, second_timer)]"
    by (simp add: t(2) g1(2) two_timers_def od_set_def)
  show thesis
    by (rule that[OF run]) (use b sch t(1) pr in \<open>simp_all add: timers_start_def stages_start_def sample_timer_def\<close>)
qed

theorem timer_fires_once_witness:
  "\<exists>x t u. timers_reach default_settings sample_coercions sample_providers (\<lambda>w. True)
      (timers_start two_timers (False, 0)) x \<and>
    tm_fired x = [101, 100] \<and> distinct (tm_fired x) \<and> tm_firing x = None \<and>
    od_get (gw_schedules (household x)) 100 = Some t \<and> sc_status t \<in> SETTLED \<and>
    od_get (gw_schedules (household x)) 101 = Some u \<and> sc_status u \<in> SETTLED"
proof -
  let ?step = "timer_step default_settings sample_coercions sample_providers (\<lambda>w. True)"
  let ?x0 = "timers_start two_timers (False, 0 :: nat)"
  obtain x l f t where x: "?step\<^sup>*\<^sup>* ?x0 x" "tm_firing x = Some (second_timer, 0)" "tm_fired x = [101, 100]" "tm_listed x = []"
    "sw_tasks (tm_stages x) = [Queued l f]" "sw_held (tm_stages x) = []"
    "fl_provider f = sample_provider" "fl_params f = OnOffParams True" "gw_registry (household x) = sample_registry"
    "gw_schedules (household x) = [(100, t), (101, second_timer)]" "sc_status t \<noteq> ARMED" "gw_issued (household x) = 5"
    by (rule sample_pass)
  have id: "sc_id second_timer = 101" "sc_status second_timer = ARMED" by (simp_all add: second_timer_def sample_timer_def)
  obtain r g where cancel: "cancel_schedule sample_principal 101 (household x) = (r, g)" by (rule prod.exhaust)
  have stored: "od_get (gw_schedules (household x)) 101 = Some second_timer" by (simp add: x(10) od_get_def)
  have g: "g = snd (settle second_timer schedule_status.CANCELLED None None (Some sample_principal) (household x))"
    using cancel id(2) stored by (simp add: cancel_schedule_def get_schedule_def)
  then have g': "gw_registry g = sample_registry" "gw_issued g = 6"
    "gw_schedules g = od_set 101 (settled second_timer schedule_status.CANCELLED None None) (gw_schedules (household x))"
    using x(9,12) id by (simp_all add: settle_run)
  let ?y = "with_household g x"
  have 1: "?step x ?y" by (rule step_cancel[OF cancel])
  obtain s c where y: "?step\<^sup>*\<^sup>* ?y (?y\<lparr>tm_stages := s\<rparr>)" "answered 0 f (Inr c) s"
    "untouched (household ?y) (sw_gateway s)" "gw_issued (sw_gateway s) = Suc (gw_issued (household ?y))"
    by (rule sample_answers[of 0 ?y l f default_settings sample_coercions sample_providers])
      (use x(5-9) g'(1) sample_registry_inv in simp_all)
  let ?z = "?y\<lparr>tm_stages := s\<rparr>"
  let ?e = "(with_household (loop_resumes second_timer (Inr c) (household ?z)) ?z)\<lparr>tm_firing := None\<rparr>"
  have 2: "?step ?z ?e" using y(2) x(2) by (intro step_fired) simp_all
  have run: "?step\<^sup>*\<^sup>* ?x0 ?e" using x(1) 1 y(1) 2 by (meson rtranclp.rtrancl_into_rtrancl rtranclp_trans)
  obtain u where u: "gw_schedules (household ?e) = od_set 101 u (gw_schedules g)" "gw_issued (household ?e) = 8"
    using loop_resumes_stored[of second_timer "Inr c" "sw_gateway s"] y(3,4) g'(2) id(1)
    by (auto simp: untouched_def)
  have two: "od_get (gw_schedules (household ?e)) 100 = Some t" "od_get (gw_schedules (household ?e)) 101 = Some u"
    unfolding u(1) g'(3) x(10) by (simp_all add: od_get_set) (simp add: od_get_def)
  have draws: "distinct_supply two_timers 8" by (rule sample_ids_distinct) (simp_all add: two_timers_def fun_eq_iff)
  note once = timer_fires_once[OF run two_timers_inv draws]
  have fin: "tm_fired ?e = [101, 100]" "tm_firing ?e = None" using x(3) by simp_all
  with once u(2) have "distinct (tm_fired ?e)" "sc_status t \<in> SETTLED" "sc_status u \<in> SETTLED"
    using two by auto
  with run fin two show ?thesis by blast
qed

text \<open>
  A timer is accepted for a whole number of half hours between one half hour and the
  configured maximum, and is then due after exactly that time; anything else is refused as
  out of range.
\<close>

lemma timer_hours:
  assumes "2 * h = of_int k"
  shows "validate_hours st h =
    (if 1 / 2 \<le> h \<and> h \<le> st_schedule_max_hours st then Inr (k * 1800000000)
     else Inl (raise_detail ParameterOutOfRangeError (TimerRange (1 / 2) (st_schedule_max_hours st) (1 / 2))))"
proof -
  have r: "of_int (py_round (h / STEP_HOURS)) * STEP_HOURS = h"
    using assms by (simp add: STEP_HOURS_def mult.commute)
  have "h * 3600 * of_int usec_per_sec = of_int (k * 1800000000)"
    using assms by (simp add: usec_per_sec_def)
  then have d: "py_round (h * 3600 * of_int usec_per_sec) = k * 1800000000"
    by (metis py_round_int)
  show ?thesis
    unfolding validate_hours_def Let_def r d by (auto simp: MIN_HOURS_def STEP_HOURS_def)
qed

text \<open>
  C18. Only the heater and the pump are ever on a timer, never a door, and each function of a
  device has at most one armed timer: in every state the loop, its clients and the submissions
  they wait for can reach by interleaving at their awaits, creations that overlap included, from
  a store where it holds and for identifiers that do not repeat.
\<close>

theorem one_timer_per_function:
  assumes "timers_reach st co provs world_ok (timers_start g w) x"
    and "timers_inv g" and "distinct_supply g N" and "gw_issued (household x) \<le> N"
  shows "(\<forall>i s. od_get (gw_schedules (household x)) i = Some s \<longrightarrow>
      sc_id s = i \<and> sc_action s \<in> {SET_HEATER, SET_FILTER} \<and> sc_desired s = (sc_kind s = DELAYED_START)) \<and>
    (\<forall>s \<in> set (armed (household x)). \<forall>t \<in> set (armed (household x)).
      sc_device_id s = sc_device_id t \<and> sc_action s = sc_action t \<longrightarrow> s = t)"
proof -
  have "timer_world_inv x" using timers_reached[OF assms] by blast
  then have inv: "timers_inv (household x)" by (rule timer_world_invD)
  have mem: "od_get (gw_schedules (household x)) (sc_id s) = Some s \<and> sc_status s = ARMED"
    if "s \<in> set (armed (household x))" for s
    using that for_device_iff[OF inv, of s "sc_device_id s"] by (auto simp: for_device_def)
  have "s = t" if "s \<in> set (armed (household x))" "t \<in> set (armed (household x))"
    "sc_device_id s = sc_device_id t" "sc_action s = sc_action t" for s t
  proof -
    have "same_function s t" by (simp add: same_function_def that(3,4))
    then have "sc_id s = sc_id t"
      using mem[OF that(1)] mem[OF that(2)] timers_invD(3)[OF inv] by blast
    with mem[OF that(1)] mem[OF that(2)] show ?thesis by (metis option.inject)
  qed
  moreover have "sc_id s = i \<and> sc_action s \<in> {SET_HEATER, SET_FILTER} \<and> sc_desired s = (sc_kind s = DELAYED_START)"
    if "od_get (gw_schedules (household x)) i = Some s" for i s
    using timers_invD(2)[OF inv that] by (auto simp: timer_ok_def TIMED_ACTIONS_def)
  ultimately show ?thesis by blast
qed

text \<open>
  Two clients ask for an hour of heating at once: both commands are under way before either timer
  is armed, and the timer armed last is the only one left.
\<close>

definition sample_creation :: creation where
  "sample_creation =
     \<lparr>cr_principal = sample_principal, cr_device = 1, cr_action = SET_HEATER, cr_kind = RUN_FOR,
      cr_delay = 3600000000, cr_correlation = ''c1''\<rparr>"

lemma sample_begin_create:
  assumes "gw_registry g = sample_registry"
  shows "begin_create default_settings sample_principal 1 SET_HEATER RUN_FOR 1 ''c1'' g = (Inr sample_creation, g)"
proof -
  have "validate_hours default_settings 1 = Inr 3600000000"
    using timer_hours[of 1 2 default_settings] by (simp add: default_settings_def)
  moreover have "svc_get 1 g = Inr sample_device"
    using assms by (simp add: svc_get_def reg_require_def)
  ultimately show ?thesis
    by (simp add: begin_create_def TIMED_ACTIONS_def required_capability_for_def ACTION_SPECS_def od_get_def
        supports_def classify_def sample_creation_def)
qed

text \<open>A creation whose command switched the heater on arms its timer, and at most one more identifier is drawn for each it replaces.\<close>

lemma supersede_issued: "gw_issued (snd (supersede a ss g)) \<le> gw_issued g + length ss"
proof (induction ss arbitrary: g)
  case (Cons s ss)
  let ?g = "snd (settle s schedule_status.SUPERSEDED None None None g)"
  have "gw_issued (snd (supersede a ss ?g)) \<le> Suc (gw_issued g) + length ss" using Cons[of ?g] by (simp add: settle_run)
  with Cons[of g] show ?case by (auto simp: case_prod_unfold settle_run(1))
qed simp

definition heater_timer :: "schedule \<Rightarrow> bool" where
  "heater_timer s \<longleftrightarrow> sc_device_id s = 1 \<and> sc_action s = SET_HEATER"

lemma heater_timers_few:
  assumes inv: "timers_inv g" and "list_all heater_timer (armed g)"
  shows "length (for_device 1 g) \<le> 1"
proof -
  have same: "sc_id s = sc_id t" if "s \<in> set (for_device 1 g)" "t \<in> set (for_device 1 g)" for s t
  proof -
    have "heater_timer s" "heater_timer t" using assms(2) that by (auto simp: for_device_def list_all_iff)
    then have "same_function s t" by (simp add: heater_timer_def same_function_def)
    moreover have "od_get (gw_schedules g) (sc_id s) = Some s" "sc_status s = ARMED"
      "od_get (gw_schedules g) (sc_id t) = Some t" "sc_status t = ARMED"
      using that by (simp_all add: for_device_iff[OF inv])
    ultimately show ?thesis using timers_invD(3)[OF inv] by blast
  qed
  show ?thesis
  proof (cases "for_device 1 g")
    case (Cons s ss)
    have "ss = []"
    proof (cases ss)
      case (Cons t ts)
      then have "sc_id s = sc_id t" using \<open>for_device 1 g = s # ss\<close> by (intro same) simp_all
      moreover have "sc_id s \<noteq> sc_id t"
        using for_device_distinct[OF inv, of 1] \<open>for_device 1 g = s # ss\<close> Cons by simp
      ultimately show ?thesis by blast
    qed
    with Cons show ?thesis by simp
  qed simp
qed

lemma armed_iff: "timers_inv g \<Longrightarrow> s \<in> set (armed g) \<longleftrightarrow> od_get (gw_schedules g) (sc_id s) = Some s \<and> sc_status s = ARMED"
  using for_device_iff[of g s "sc_device_id s"] by (auto simp: for_device_def)

lemma sample_created:
  assumes inv: "timers_inv g" and ids: "gw_uuids g = (\<lambda>k. of_nat k + 100)" "gw_issued g < 500"
    and heat: "list_all heater_timer (armed g)" and c: "cmd_status c = command_status.SUCCEEDED"
  obtains s g' where "create_resumes sample_creation (Inr c) g = (Inr s, g')" "timers_inv g'"
    "s \<in> set (armed g')" "list_all heater_timer (armed g')" "heater_timer s" "gw_issued g' \<le> gw_issued g + 3"
    "gw_uuids g' = (\<lambda>k. of_nat k + 100)" "gw_registry g' = gw_registry g"
proof -
  obtain r g' where arm: "arm sample_principal 1 SET_HEATER RUN_FOR (RUN_FOR = DELAYED_START) 3600000000 ''c1'' (Some (cmd_id c)) g = (r, g')"
    by (rule prod.exhaust)
  have draws: "distinct_supply g 1000" using ids(1) by (intro sample_ids_distinct) simp_all
  then have fresh: "\<not> issued g (gw_uuids g (gw_issued g))" using ids(2) by (intro supply_fresh[of g 1000]) simp_all
  note run = arm_run[OF inv fresh arm]
  let ?s = "new_schedule (gw_uuids g (gw_issued g)) sample_principal 1 SET_HEATER RUN_FOR (RUN_FOR = DELAYED_START) 3600000000 ''c1'' (Some (cmd_id c)) (now_of g)"
  have inv': "timers_inv g'" by (rule timers_inv_arm[OF inv _ fresh arm]) (simp add: TIMED_ACTIONS_def)
  have s: "sc_status ?s = ARMED" "heater_timer ?s" by (simp_all add: new_schedule_def heater_timer_def)
  have "heater_timer t" if "t \<in> set (armed g')" for t
  proof (cases "sc_id t = sc_id ?s")
    case True
    with that run(4) have "t = ?s" by (simp add: armed_iff[OF inv'])
    with s(2) show ?thesis by simp
  next
    case False
    with that run(5)[of "sc_id t" t] heat show ?thesis by (simp add: armed_iff[OF inv] armed_iff[OF inv'] list_all_iff)
  qed
  moreover have "gw_issued g' \<le> gw_issued g + 3 \<and> gw_registry g' = gw_registry g"
  proof -
    let ?g2 = "snd (uuid4 (snd (clock_now g)))"
    have same: "for_device 1 ?g2 = for_device 1 g" by (rule for_device_cong) simp
    have pre: "\<forall>s \<in> set (for_device 1 g). od_get (gw_schedules ?g2) (sc_id s) = Some s"
      using for_device_iff[OF inv] by simp
    note sup = supersede_run(1,5)[OF pre for_device_distinct[OF inv], of SET_HEATER]
    have "gw_issued g' = Suc (gw_issued (snd (supersede SET_HEATER (for_device 1 g) ?g2)))"
      "gw_registry g' = gw_registry g"
      using arm sup by (auto simp: arm_def split_beta Let_def same publish_schedule_def record_schedule_def remember_schedule_def)
    moreover have "gw_issued ?g2 = Suc (gw_issued g)" by simp
    ultimately show ?thesis
      using supersede_issued[of SET_HEATER "for_device 1 g" ?g2] heater_timers_few[OF inv heat] by simp
  qed
  moreover have "create_resumes sample_creation (Inr c) g = (r, g')"
    using c arm by (simp add: create_resumes_def sample_creation_def)
  moreover have "gw_uuids g' = (\<lambda>k. of_nat k + 100)" using run(2) ids(1) by (simp add: untouched_def)
  moreover have "?s \<in> set (armed g')" using run(4) s(1) by (simp add: armed_iff[OF inv'])
  ultimately show thesis using that[of ?s g'] run(1) inv' s(2) by (simp add: list_all_iff)
qed

text \<open>Both commands under way, and no timer yet.\<close>

lemma sample_both_waiting:
  obtains x l f u v where
    "timers_reach default_settings sample_coercions sample_providers (\<lambda>w. True) (timers_start sample_gateway (False, 0)) x"
    "tm_creating x = [(sample_creation, 1), (sample_creation, 0)]" "sw_tasks (tm_stages x) = [Queued l f, Queued u v]"
    "sw_held (tm_stages x) = []" "fl_provider f = sample_provider" "fl_params f = OnOffParams True"
    "fl_provider v = sample_provider" "fl_params v = OnOffParams True" "gw_registry (household x) = sample_registry"
    "untouched sample_gateway (household x)" "gw_issued (household x) = 4"
proof -
  let ?step = "timer_step default_settings sample_coercions sample_providers (\<lambda>w. True)"
  let ?x0 = "timers_start sample_gateway (False, 0 :: nat)"
  have args: "create_submits sample_coercions sample_providers sample_creation =
      begin_submit sample_coercions sample_providers sample_principal 1 SET_HEATER [(''on'', JBool True)] ''c1''"
    by (simp add: sample_creation_def)
  have start: "household ?x0 = sample_gateway" by (simp add: timers_start_def stages_start_def)
  obtain l f g1 where b1: "create_submits sample_coercions sample_providers sample_creation sample_gateway = (Inr (l, f), g1)"
    "gw_registry g1 = sample_registry" "gw_issued g1 = 2" "fl_provider f = sample_provider" "fl_params f = OnOffParams True"
    using sample_begin[of sample_gateway] unfolding args by auto
  let ?x1 = "?x0\<lparr>tm_stages := joined g1 (Queued l f) (tm_stages ?x0),
    tm_creating := (sample_creation, length (sw_tasks (tm_stages ?x0))) # tm_creating ?x0\<rparr>"
  have "begin_create default_settings sample_principal 1 SET_HEATER RUN_FOR 1 ''c1'' (household ?x0) = (Inr sample_creation, sample_gateway)"
    unfolding start by (rule sample_begin_create) simp
  then have 1: "?step ?x0 ?x1" using b1(1) by (rule step_create_submits)
  have house: "household ?x1 = g1" by simp
  obtain u v g2 where b2: "create_submits sample_coercions sample_providers sample_creation g1 = (Inr (u, v), g2)"
    "gw_registry g2 = sample_registry" "gw_issued g2 = 4" "fl_provider v = sample_provider" "fl_params v = OnOffParams True"
    using sample_begin[OF b1(2)] b1(3) unfolding args by auto
  let ?x2 = "?x1\<lparr>tm_stages := joined g2 (Queued u v) (tm_stages ?x1),
    tm_creating := (sample_creation, length (sw_tasks (tm_stages ?x1))) # tm_creating ?x1\<rparr>"
  have "begin_create default_settings sample_principal 1 SET_HEATER RUN_FOR 1 ''c1'' (household ?x1) = (Inr sample_creation, g1)"
    unfolding house using b1(2) by (rule sample_begin_create)
  then have 2: "?step ?x1 ?x2" using b2(1) by (rule step_create_submits)
  from 1 2 have run: "?step\<^sup>*\<^sup>* ?x0 ?x2" by (meson converse_rtranclp_into_rtranclp r_into_rtranclp)
  have "untouched sample_gateway g1" "untouched g1 g2"
    using b1(1) b2(1) begin_submit_untouched unfolding args by (metis snd_conv)+
  then have "untouched sample_gateway g2" by (rule untouched_trans)
  then show thesis
    by (intro that[of ?x2 l f u v, OF run]) (use b1 b2 in \<open>simp_all add: timers_start_def stages_start_def\<close>)
qed

text \<open>A creation whose command is under way: the command answers, and the timer is armed.\<close>

lemma sample_arms:
  fixes x :: "(bool \<times> nat) timer_world"
  assumes k: "k < length (sw_tasks (tm_stages x))" "sw_tasks (tm_stages x) ! k = Queued l f" "sw_held (tm_stages x) = []"
    and f: "fl_provider f = sample_provider" "fl_params f = OnOffParams True"
    and x: "registry_inv (gw_registry (household x))" "tm_creating x = ps @ [(sample_creation, k)]" "timers_inv (household x)"
    and ids: "gw_uuids (household x) = (\<lambda>k. of_nat k + 100)" "gw_issued (household x) < 400"
    and heat: "list_all heater_timer (armed (household x))"
  obtains y s r where "timers_reach default_settings sample_coercions sample_providers (\<lambda>w. True) x y"
    "tm_creating y = ps" "sw_tasks (tm_stages y) = (sw_tasks (tm_stages x))[k := Answered f r]" "sw_held (tm_stages y) = []"
    "timers_inv (household y)" "s \<in> set (armed (household y))" "heater_timer s" "list_all heater_timer (armed (household y))"
    "gw_issued (household y) \<le> gw_issued (household x) + 4" "gw_uuids (household y) = (\<lambda>k. of_nat k + 100)"
    "registry_inv (gw_registry (household y))"
proof -
  let ?step = "timer_step default_settings sample_coercions sample_providers (\<lambda>w. True)"
  obtain s c where s: "?step\<^sup>*\<^sup>* x (x\<lparr>tm_stages := s\<rparr>)" "answered k f (Inr c) s" "cmd_status c = command_status.SUCCEEDED"
    "untouched (household x) (sw_gateway s)" "gw_issued (sw_gateway s) = Suc (gw_issued (household x))"
    "registry_inv (gw_registry (sw_gateway s))" "sw_held s = []" "sw_tasks s = (sw_tasks (tm_stages x))[k := Answered f (Inr c)]"
    using sample_answers[OF k f x(1), of default_settings sample_coercions sample_providers] by blast
  have inv: "timers_inv (sw_gateway s)" using x(3) s(4) by (rule timers_inv_untouched)
  have "armed (sw_gateway s) = armed (household x)" using s(4) by (simp add: armed_def untouched_def)
  with heat have heat': "list_all heater_timer (armed (sw_gateway s))" by simp
  have ids': "gw_uuids (sw_gateway s) = (\<lambda>k. of_nat k + 100)" "gw_issued (sw_gateway s) < 500"
    using s(4,5) ids by (simp_all add: untouched_def)
  obtain t g where t: "create_resumes sample_creation (Inr c) (sw_gateway s) = (Inr t, g)" "timers_inv g" "t \<in> set (armed g)"
    "list_all heater_timer (armed g)" "heater_timer t" "gw_issued g \<le> gw_issued (sw_gateway s) + 3" "gw_uuids g = (\<lambda>k. of_nat k + 100)"
    "gw_registry g = gw_registry (sw_gateway s)"
    using sample_created[OF inv ids' heat' s(3)] by blast
  let ?y = "(with_household g (x\<lparr>tm_stages := s\<rparr>))\<lparr>tm_creating := ps @ []\<rparr>"
  have "?step (x\<lparr>tm_stages := s\<rparr>) ?y" by (rule step_created[of _ _ _ k _ f "Inr c"]) (use x(2) s(2) t(1) in simp_all)
  with s(1) have "?step\<^sup>*\<^sup>* x ?y" by (rule rtranclp.rtrancl_into_rtrancl)
  from that[OF this, of "Inr c" t] show thesis using s(5-8) t by simp
qed

theorem one_timer_per_function_witness:
  "\<exists>x s. timers_reach default_settings sample_coercions sample_providers (\<lambda>w. True)
      (timers_start sample_gateway (False, 0)) x \<and> tm_creating x = [] \<and> length (sw_tasks (tm_stages x)) = 2 \<and>
    {t \<in> set (armed (household x)). sc_device_id t = 1 \<and> sc_action t = SET_HEATER} = {s}"
proof -
  let ?step = "timer_step default_settings sample_coercions sample_providers (\<lambda>w. True)"
  obtain x l f u v where x: "?step\<^sup>*\<^sup>* (timers_start sample_gateway (False, 0)) x"
    "tm_creating x = [(sample_creation, 1), (sample_creation, 0)]" "sw_tasks (tm_stages x) = [Queued l f, Queued u v]"
    "sw_held (tm_stages x) = []" "fl_provider f = sample_provider" "fl_params f = OnOffParams True"
    "fl_provider v = sample_provider" "fl_params v = OnOffParams True" "gw_registry (household x) = sample_registry"
    "untouched sample_gateway (household x)" "gw_issued (household x) = 4"
    by (rule sample_both_waiting)
  have inv0: "timers_inv sample_gateway" by (simp add: timers_inv_def od_wf_def od_get_def)
  have inv: "timers_inv (household x)" using inv0 x(10) by (rule timers_inv_untouched)
  have ids: "gw_uuids (household x) = (\<lambda>k. of_nat k + 100)" and none: "armed (household x) = []"
    using x(10) by (simp_all add: untouched_def fun_eq_iff armed_def)
  have first: "0 < length (sw_tasks (tm_stages x))" "sw_tasks (tm_stages x) ! 0 = Queued l f"
    "registry_inv (gw_registry (household x))" "tm_creating x = [(sample_creation, 1)] @ [(sample_creation, 0)]"
    "gw_issued (household x) < 400" "list_all heater_timer (armed (household x))"
    using x none sample_registry_inv by simp_all
  obtain y s r where y: "?step\<^sup>*\<^sup>* x y" "tm_creating y = [(sample_creation, 1)]"
    "sw_tasks (tm_stages y) = (sw_tasks (tm_stages x))[0 := Answered f r]" "sw_held (tm_stages y) = []" "timers_inv (household y)"
    "s \<in> set (armed (household y))" "heater_timer s" "list_all heater_timer (armed (household y))"
    "gw_issued (household y) \<le> gw_issued (household x) + 4" "gw_uuids (household y) = (\<lambda>k. of_nat k + 100)"
    "registry_inv (gw_registry (household y))"
    by (rule sample_arms[OF first(1,2) x(4-6) first(3,4) inv ids first(5,6)])
  have second: "1 < length (sw_tasks (tm_stages y))" "sw_tasks (tm_stages y) ! 1 = Queued u v"
    "tm_creating y = [] @ [(sample_creation, 1)]" "gw_issued (household y) < 400"
    using x(3,11) y(2,3,9) by simp_all
  obtain z t q where z: "?step\<^sup>*\<^sup>* y z" "tm_creating z = []"
    "sw_tasks (tm_stages z) = (sw_tasks (tm_stages y))[1 := Answered v q]" "t \<in> set (armed (household z))" "heater_timer t"
    "gw_issued (household z) \<le> gw_issued (household y) + 4"
    by (rule sample_arms[OF second(1,2) y(4) x(7,8) y(11) second(3) y(5,10) second(4) y(8)])
  have bound: "gw_issued (household z) \<le> 12" and two: "length (sw_tasks (tm_stages z)) = 2"
    using z(3,6) y(3,9) x(3,11) by simp_all
  have run: "?step\<^sup>*\<^sup>* (timers_start sample_gateway (False, 0)) z" using x(1) y(1) z(1) by (meson rtranclp_trans)
  have draws: "distinct_supply sample_gateway 12" by (rule sample_ids_distinct) (simp_all add: fun_eq_iff)
  have "\<forall>s \<in> set (armed (household z)). \<forall>t \<in> set (armed (household z)).
      sc_device_id s = sc_device_id t \<and> sc_action s = sc_action t \<longrightarrow> s = t"
    using one_timer_per_function[OF run inv0 draws bound] by blast
  then have "{s \<in> set (armed (household z)). sc_device_id s = 1 \<and> sc_action s = SET_HEATER} = {t}"
    using z(4,5) by (auto simp: heater_timer_def)
  with run z(2) two show ?thesis by blast
qed

text \<open>
  C19. Firing settles a timer whatever happens, with at most one command sent for it: the
  world afterwards is the one that single submission left, the stored timer is no longer
  armed, and it is completed exactly when the command succeeded.
\<close>

theorem timer_fire_settles:
  assumes "timers_inv g" and "timer_ok g (sc_id s) s"
    and "submit co provs (schedule_principal s) (sc_device_id s) (sc_action s)
      [(''on'', JBool (sc_desired s))] (sc_correlation_id s) (g, w) = (r, g1, w1)"
  shows "\<exists>t g2. fire_guarded (submit co provs) s (g, w) = (g2, w1) \<and>
    od_get (gw_schedules g2) (sc_id s) = Some t \<and> sc_status t \<noteq> ARMED \<and>
    (sc_status t = COMPLETED \<longleftrightarrow> (\<exists>c. r = Inr c \<and> cmd_status c = command_status.SUCCEEDED))"
proof -
  have fired: "fired_status cs \<noteq> ARMED" for cs by (simp add: fired_status_def)
  show ?thesis
  proof (cases r)
    case (Inr c)
    have "fire_guarded (submit co provs) s (g, w) =
        (snd (settle s (fired_status (cmd_status c)) (cmd_failure_code c) (Some (cmd_id c)) None g1), w1)"
      using assms(3) Inr
      by (simp add: fire_guarded_def fire_def case_prod_unfold settle_run(1)[OF fired])
    moreover have "fired_status (cmd_status c) = COMPLETED \<longleftrightarrow> cmd_status c = command_status.SUCCEEDED"
      by (simp add: fired_status_def)
    ultimately show ?thesis using Inr fired by (simp add: settle_run(2)[OF fired])
  next
    case (Inl f)
    have "\<exists>code. fire_guarded (submit co provs) s (g, w) =
        (snd (settle s schedule_status.FAILED code None None g1), w1)"
      using assms(3) Inl
      by (cases f) (simp_all add: fire_guarded_def fire_def case_prod_unfold settle_run(1), blast+)
    with Inl show ?thesis by (auto simp: settle_run(2))
  qed
qed

theorem timer_fire_settles_witness:
  "\<exists>t g2. fire_guarded (submit sample_coercions sample_providers) (sample_timer 9) (timer_gateway 9, (False, 0)) =
      (g2, (False, 0)) \<and> od_get (gw_schedules g2) 100 = Some t \<and> sc_status t \<noteq> ARMED"
proof -
  have ok: "timer_ok (timer_gateway 9) (sc_id (sample_timer 9)) (sample_timer 9)"
    by (simp add: timer_ok_def sample_timer_def TIMED_ACTIONS_def issued_def timer_gateway_def)
  have run: "submit sample_coercions sample_providers (schedule_principal (sample_timer 9))
      (sc_device_id (sample_timer 9)) (sc_action (sample_timer 9))
      [(''on'', JBool (sc_desired (sample_timer 9)))] (sc_correlation_id (sample_timer 9))
      (timer_gateway 9, (False, 0)) = (Inl (raise_kind DeviceNotFoundError), timer_gateway 9, (False, 0))"
    by (simp add: sample_refused sample_timer_def)
  show ?thesis
    using timer_fire_settles[OF timer_gateway_inv ok run] by (auto simp: sample_timer_def)
qed

text \<open>
  A timer that a pass of the loop has already listed fires even if it is cancelled before
  its turn: its command is submitted all the same, and the cancellation is overwritten.
\<close>

lemma cancelled_timer_still_fires:
  assumes "timers_inv g" and "due g = (ss, g1)" and "s \<in> set ss"
    and "cancel_schedule pr (sc_id s) g1 = (r, g2)"
  shows "r = Inr (settled s schedule_status.CANCELLED None None) \<and>
    (\<exists>t g3. fire_guarded (submit co provs) s (g2, w) =
        (g3, snd (snd (submit co provs (schedule_principal s) (sc_device_id s) (sc_action s)
                 [(''on'', JBool (sc_desired s))] (sc_correlation_id s) (g2, w)))) \<and>
      od_get (gw_schedules g3) (sc_id s) = Some t \<and> sc_status t \<noteq> schedule_status.CANCELLED)"
proof -
  have inv1: "timers_inv g1" by (rule timers_inv_untouched[OF assms(1) untouched_due[OF assms(2)]])
  have "od_get (gw_schedules g) (sc_id s) = Some s" "sc_status s = ARMED"
    using due_iff(1)[OF assms(1,2)] assms(3) by simp_all
  moreover have "gw_schedules g1 = gw_schedules g"
    using untouched_due[OF assms(2)] by (simp add: untouched_def)
  ultimately have s: "od_get (gw_schedules g1) (sc_id s) = Some s" "sc_status s = ARMED" by simp_all
  have r: "r = Inr (settled s schedule_status.CANCELLED None None)"
    using assms(4) s settle_run(1)[of schedule_status.CANCELLED s None None "Some pr" g1]
    by (auto simp: cancel_schedule_def get_schedule_def)
  have inv2: "timers_inv g2" by (rule timers_inv_cancel[OF inv1 assms(4)])
  have "timer_ok g1 (sc_id s) s" by (rule timers_invD(2)[OF inv1 s(1)])
  moreover have "draws_on g1 g2" by (rule draws_on_cancel[OF assms(4)])
  ultimately have ok: "timer_ok g2 (sc_id s) s" by (auto simp: draws_on_def intro: timer_ok_mono)
  have fired: "fired_status cs \<noteq> ARMED" "fired_status cs \<noteq> schedule_status.CANCELLED" for cs
    by (simp_all add: fired_status_def)
  let ?sent = "submit co provs (schedule_principal s) (sc_device_id s) (sc_action s)
                 [(''on'', JBool (sc_desired s))] (sc_correlation_id s) (g2, w)"
  have "\<exists>status f c. status \<noteq> ARMED \<and> status \<noteq> schedule_status.CANCELLED \<and>
      fire_guarded (submit co provs) s (g2, w) =
        (snd (settle s status f c None (fst (snd ?sent))), snd (snd ?sent))"
  proof (cases "fst ?sent")
    case (Inr c)
    then show ?thesis
      by (intro exI[of _ "fired_status (cmd_status c)"] exI[of _ "cmd_failure_code c"] exI[of _ "Some (cmd_id c)"])
        (simp add: fire_guarded_def fire_def case_prod_unfold settle_run(1)[OF fired(1)] fired)
  next
    case (Inl f)
    then show ?thesis
      by (cases f; intro exI[of _ schedule_status.FAILED])
        (auto simp: fire_guarded_def fire_def case_prod_unfold settle_run(1))
  qed
  with r show ?thesis by (auto simp: settle_run(2))
qed

end
