(* ===== verification/Bestway_Protocol.thy ===== *)
theory Bestway_Protocol
  imports Prelude
begin

unbundle bit_operations_syntax

section \<open>Framing of the controller's protocol\<close>

text \<open>
  \<open>integrations/bestway/protocol.py\<close>: variable-length integers, frames, length-prefixed fields
  and the reassembly of frames from a byte stream. A \<open>bytes\<close> object is a list of 8 bit words;
  a Python \<open>int\<close> that is written to bytes is a natural number, with the exception the
  conversion raises when it does not fit.
\<close>

type_synonym bytes = "byte list"

datatype protocol_error = ProtocolError string | IncompleteFrame string | OverflowError

definition MAGIC :: bytes where "MAGIC = [0, 0, 0, 3]"
definition MAX_PAYLOAD_BYTES :: nat where "MAX_PAYLOAD_BYTES = 2048"
definition MAX_VARINT_BYTES :: nat where "MAX_VARINT_BYTES = 4"

datatype gcommand =
    DEVICE_INFO_REQUEST | DEVICE_INFO_RESPONSE | PASSCODE_REQUEST | PASSCODE_RESPONSE
  | LOGIN_REQUEST | LOGIN_RESPONSE | HEARTBEAT_REQUEST | HEARTBEAT_RESPONSE
  | STATUS_REQUEST | STATUS_RESPONSE | CONTROL_REQUEST | CONTROL_RESPONSE

fun gcommand_value :: "gcommand \<Rightarrow> nat" where
  "gcommand_value DEVICE_INFO_REQUEST = 0x0003"
| "gcommand_value DEVICE_INFO_RESPONSE = 0x0004"
| "gcommand_value PASSCODE_REQUEST = 0x0006"
| "gcommand_value PASSCODE_RESPONSE = 0x0007"
| "gcommand_value LOGIN_REQUEST = 0x0008"
| "gcommand_value LOGIN_RESPONSE = 0x0009"
| "gcommand_value HEARTBEAT_REQUEST = 0x0015"
| "gcommand_value HEARTBEAT_RESPONSE = 0x0016"
| "gcommand_value STATUS_REQUEST = 0x0090"
| "gcommand_value STATUS_RESPONSE = 0x0091"
| "gcommand_value CONTROL_REQUEST = 0x0093"
| "gcommand_value CONTROL_RESPONSE = 0x0094"

definition all_gcommands :: "gcommand list" where
  "all_gcommands =
     [DEVICE_INFO_REQUEST, DEVICE_INFO_RESPONSE, PASSCODE_REQUEST, PASSCODE_RESPONSE,
      LOGIN_REQUEST, LOGIN_RESPONSE, HEARTBEAT_REQUEST, HEARTBEAT_RESPONSE,
      STATUS_REQUEST, STATUS_RESPONSE, CONTROL_REQUEST, CONTROL_RESPONSE]"

text \<open>\<open>Command | int\<close>: a known command, or the number of one this code does not know.\<close>

datatype wire_command = Known gcommand | Other nat

fun wire_value :: "wire_command \<Rightarrow> nat" where
  "wire_value (Known c) = gcommand_value c"
| "wire_value (Other n) = n"

text \<open>\<open>Command(raw)\<close>, with the number kept when it raises.\<close>

definition wire_command_of :: "nat \<Rightarrow> wire_command" where
  "wire_command_of n =
     (case List.find (\<lambda>c. gcommand_value c = n) all_gcommands of
        Some c \<Rightarrow> Known c | None \<Rightarrow> Other n)"

definition STATUS_READ_PAYLOAD :: bytes where "STATUS_READ_PAYLOAD = [2]"

subsection \<open>Big-endian integers\<close>

text \<open>\<open>n.to_bytes(w, "big")\<close>, for an \<open>n\<close> that fits, and \<open>int.from_bytes(bs, "big")\<close>.\<close>

primrec to_be :: "nat \<Rightarrow> nat \<Rightarrow> bytes" where
  "to_be 0 n = []"
| "to_be (Suc w) n = to_be w (n div 256) @ [of_nat (n mod 256)]"

definition to_bytes :: "nat \<Rightarrow> nat \<Rightarrow> protocol_error + bytes" where
  "to_bytes w n = (if 256 ^ w \<le> n then Inl OverflowError else Inr (to_be w n))"

definition from_be :: "bytes \<Rightarrow> nat" where
  "from_be bs = foldl (\<lambda>a b. a * 256 + unat b) 0 bs"

subsection \<open>Length-prefixed fields\<close>

definition encode_length_prefixed :: "bytes \<Rightarrow> protocol_error + bytes" where
  "encode_length_prefixed data =
     (if 0xFFFF < length data then Inl (ProtocolError ''field is too long to length-prefix'')
      else (case to_bytes 2 (length data) of Inl e \<Rightarrow> Inl e | Inr p \<Rightarrow> Inr (p @ data)))"

definition decode_length_prefixed :: "bytes \<Rightarrow> protocol_error + bytes" where
  "decode_length_prefixed payload =
     (if length payload < 2 then Inl (ProtocolError ''length-prefixed field is truncated'')
      else
        (let declared = from_be (take 2 payload); body = drop 2 payload in
         if declared \<noteq> length body then
           (if MAX_PAYLOAD_BYTES < length payload
            then Inl (ProtocolError ''length-prefixed field exceeds the permitted maximum'')
            else Inr payload)
         else Inr body))"

subsection \<open>Control requests\<close>

definition P0_CONTROL :: byte where "P0_CONTROL = 1"
definition CONTROL_ATTR_FLAGS_BYTES :: nat where "CONTROL_ATTR_FLAGS_BYTES = 2"
definition CONTROL_SEQUENCE_BYTES :: nat where "CONTROL_SEQUENCE_BYTES = 4"

definition build_control_payload :: "int \<Rightarrow> int \<Rightarrow> bytes \<Rightarrow> protocol_error + bytes" where
  "build_control_payload sequence attr_flags attr_vals =
     (if \<not> (0 \<le> sequence \<and> sequence < 2 ^ 32)
      then Inl (ProtocolError ''control sequence number out of range'')
      else if \<not> (0 \<le> attr_flags \<and> attr_flags < 2 ^ (8 * CONTROL_ATTR_FLAGS_BYTES))
      then Inl (ProtocolError ''attribute flags do not fit the field'')
      else if attr_vals = []
      then Inl (ProtocolError ''a control request needs an attribute value block'')
      else Inr (to_be CONTROL_SEQUENCE_BYTES (nat sequence) @ [P0_CONTROL] @
                to_be CONTROL_ATTR_FLAGS_BYTES (nat attr_flags) @ attr_vals))"

subsection \<open>Variable-length integers\<close>

function varint_loop :: "nat \<Rightarrow> bytes \<Rightarrow> protocol_error + bytes" where
  "varint_loop value out =
     (let group = value mod 128; rest = value div 128;
          out1 = out @ [of_nat (group + (if rest \<noteq> 0 then 128 else 0))]
      in if rest = 0 then Inr out1
         else if MAX_VARINT_BYTES \<le> length out1
         then Inl (ProtocolError ''varint too large to encode'')
         else varint_loop rest out1)"
  by pat_completeness auto
termination
  by (relation "measure fst") auto

declare varint_loop.simps [simp del]

definition encode_varint :: "int \<Rightarrow> protocol_error + bytes" where
  "encode_varint value =
     (if value < 0 then Inl (ProtocolError ''varint values are never negative'')
      else varint_loop (nat value) [])"

text \<open>The loop over \<open>range(MAX_VARINT_BYTES)\<close>, with the indices still to come.\<close>

fun decode_varint_loop ::
  "bytes \<Rightarrow> nat \<Rightarrow> nat list \<Rightarrow> int \<Rightarrow> protocol_error + int \<times> nat"
where
  "decode_varint_loop data offset [] value =
     Inl (ProtocolError ''varint exceeds the permitted length'')"
| "decode_varint_loop data offset (index # indices) value =
     (let position = offset + index in
      if length data \<le> position then Inl (IncompleteFrame ''varint is truncated'')
      else
        (let byte = data ! position;
             value1 = value OR push_bit (7 * index) (uint (byte AND 0x7F))
         in if byte AND 0x80 = 0 then Inr (value1, index + 1)
            else decode_varint_loop data offset indices value1))"

definition decode_varint :: "bytes \<Rightarrow> nat \<Rightarrow> protocol_error + int \<times> nat" where
  "decode_varint data offset = decode_varint_loop data offset [0..<MAX_VARINT_BYTES] 0"

subsection \<open>Frames\<close>

record frame =
  fr_command :: wire_command
  fr_payload :: bytes
  fr_flag :: byte

definition frame_encode :: "frame \<Rightarrow> protocol_error + bytes" where
  "frame_encode f =
     (if MAX_PAYLOAD_BYTES < length (fr_payload f)
      then Inl (ProtocolError ''refusing to send an oversized payload'')
      else
        (case to_bytes 2 (wire_value (fr_command f)) of
           Inl e \<Rightarrow> Inl e
         | Inr c \<Rightarrow>
             (let body = [fr_flag f] @ c @ fr_payload f in
              case encode_varint (int (length body)) of
                Inl e \<Rightarrow> Inl e
              | Inr n \<Rightarrow> Inr (MAGIC @ n @ body))))"

definition decode_frame :: "bytes \<Rightarrow> protocol_error + frame \<times> nat" where
  "decode_frame data =
     (if length data < length MAGIC then Inl (IncompleteFrame ''magic is truncated'')
      else if take (length MAGIC) data \<noteq> MAGIC
      then Inl (ProtocolError ''frame does not start with the protocol magic'')
      else
        (case decode_varint data (length MAGIC) of
           Inl e \<Rightarrow> Inl e
         | Inr (len, consumed) \<Rightarrow>
             if int MAX_PAYLOAD_BYTES < len
             then Inl (ProtocolError ''declared frame length exceeds the permitted maximum'')
             else if len < 3
             then Inl (ProtocolError ''declared frame length is too small to hold a command'')
             else
               (let start = length MAGIC + consumed; end = start + nat len in
                if length data < end then Inl (IncompleteFrame ''frame body is truncated'')
                else
                  (let body = take (nat len) (drop start data) in
                   Inr (\<lparr>fr_command = wire_command_of (from_be (take 2 (drop 1 body))),
                         fr_payload = drop 3 body, fr_flag = hd body\<rparr>, end)))))"

subsection \<open>Reassembly of frames from a stream\<close>

text \<open>
  \<open>FrameReader\<close>: its state is the buffer. A malformed frame leaves its exception and the bytes
  from that frame on; the frames decoded before it in the same call are not returned.
\<close>

lemma decode_varint_loop_consumed:
  "decode_varint_loop data offset is v = Inr (r, n) \<Longrightarrow> \<exists>i \<in> set is. n = Suc i \<and> offset + i < length data"
  by (induction data offset "is" v rule: decode_varint_loop.induct) (auto simp: Let_def split: if_splits)

lemma decode_varint_consumed:
  assumes "decode_varint data offset = Inr (v, n)"
  shows "0 < n \<and> n \<le> MAX_VARINT_BYTES \<and> offset + n \<le> length data"
  using decode_varint_loop_consumed[OF assms[unfolded decode_varint_def]] by auto

lemma decode_frame_consumed:
  assumes "decode_frame data = Inr (f, n)"
  shows "0 < n \<and> n \<le> length data"
  using assms
  by (auto simp: decode_frame_def Let_def MAGIC_def split: if_splits sum.splits)

function parse_frames :: "bytes \<Rightarrow> frame list \<Rightarrow> (protocol_error + frame list) \<times> bytes" where
  "parse_frames buffer frames =
     (if buffer = [] then (Inr frames, buffer)
      else
        (case decode_frame buffer of
           Inl (IncompleteFrame m) \<Rightarrow> (Inr frames, buffer)
         | Inl e \<Rightarrow> (Inl e, buffer)
         | Inr (frame, consumed) \<Rightarrow> parse_frames (drop consumed buffer) (frames @ [frame])))"
  by pat_completeness auto
termination
  by (relation "measure (length \<circ> fst)") (auto dest!: decode_frame_consumed simp: diff_less)

declare parse_frames.simps [simp del]

definition feed :: "bytes \<Rightarrow> bytes \<Rightarrow> (protocol_error + frame list) \<times> bytes" where
  "feed chunk buffer =
     (let buffer1 = buffer @ chunk in
      if MAX_PAYLOAD_BYTES * 4 < length buffer1
      then (Inl (ProtocolError ''peer sent more unframed data than can be buffered''), [])
      else parse_frames buffer1 [])"

definition pending_bytes :: "bytes \<Rightarrow> nat" where
  "pending_bytes buffer = length buffer"

subsection \<open>Big-endian round trips\<close>

lemma length_to_be [simp]: "length (to_be w n) = w"
  by (induction w arbitrary: n) simp_all

lemma from_be_snoc: "from_be (bs @ [b]) = from_be bs * 256 + unat b"
  by (simp add: from_be_def)

lemma unat_byte_mod [simp]: "unat (of_nat (n mod 256) :: byte) = n mod 256"
  by (simp add: unat_of_nat take_bit_eq_mod)

lemma from_be_to_be: "from_be (to_be w n) = n mod 256 ^ w"
proof (induction w arbitrary: n)
  case (Suc w)
  have "n mod (256 * 256 ^ w) = 256 * (n div 256 mod 256 ^ w) + n mod 256"
    by (rule mod_mult2_eq)
  with Suc show ?case by (simp add: from_be_snoc)
qed (simp add: from_be_def)

lemma to_bytes_roundtrip: "n < 256 ^ w \<Longrightarrow> to_bytes w n = Inr (to_be w n) \<and> from_be (to_be w n) = n"
  by (simp add: to_bytes_def from_be_to_be)

subsection \<open>Variable-length round trip\<close>

lemma or_disjoint_add:
  fixes v x :: int
  assumes "0 \<le> v" "v < 2 ^ k"
  shows "v OR push_bit k x = v + x * 2 ^ k"
proof -
  have "v = take_bit k v" using assms by (simp add: take_bit_int_eq_self)
  then have "v AND push_bit k x = 0"
    by (metis (no_types) bit_and_iff bit_eqI bit_push_bit_iff bit_take_bit_iff bit_0_eq bot_apply bot_bool_def not_le)
  then show ?thesis by (simp add: disjunctive_add_eq_or push_bit_eq_mult)
qed

lemma low_group: "uint ((b :: byte) AND 0x7F) = int (unat b mod 128)"
proof -
  have "(0x7F :: byte) = mask 7" by (simp add: mask_eq_exp_minus_1)
  then have "b AND 0x7F = take_bit 7 b" by (simp add: take_bit_eq_mask)
  then have "uint (b AND 0x7F) = take_bit 7 (uint b)" by (simp add: unsigned_take_bit_eq)
  then have "uint (b AND 0x7F) = uint b mod 128" by (simp only: take_bit_eq_mod) simp
  then show ?thesis by (simp add: of_nat_mod)
qed

lemma continuation_bit: "(b :: byte) AND 0x80 = 0 \<longleftrightarrow> unat b < 128"
proof -
  have "(0x80 :: byte) = push_bit 7 1" by simp
  then have "b AND 0x80 = 0 \<longleftrightarrow> \<not> bit b 7"
    by (metis and_exp_eq_0_iff_not_bit push_bit_of_1)
  also have "\<dots> \<longleftrightarrow> unat b < 128"
  proof -
    have "unat b < 256" using unsigned_less[of b] by simp
    then have "unat b div 128 < 2" by simp
    moreover have "bit (unat b) 7 = bit b 7" by (simp add: bit_unsigned_iff)
    then have "bit b 7 \<longleftrightarrow> odd (unat b div 128)" by (simp add: bit_iff_odd)
    ultimately show ?thesis
      by (cases "unat b div 128 = 0") (auto simp: div_eq_0_iff odd_iff_mod_2_eq_one)
  qed
  finally show ?thesis .
qed

text \<open>One group of the encoding: what is left fits, and what the decoder has gathered stays in range.\<close>

lemma group_rest:
  assumes "v < 128 ^ (4 - n)" and "n < (4 :: nat)"
  shows "v div 128 < (128 :: nat) ^ (4 - Suc n)"
proof -
  have "4 - n = Suc (4 - Suc n)" using assms(2) by simp
  with assms(1) have "v < 128 * 128 ^ (4 - Suc n)" by simp
  then show ?thesis by (simp add: less_mult_imp_div_less mult.commute)
qed

lemma group_bound:
  assumes "0 \<le> acc" and "acc < 2 ^ (7 * n)"
  shows "0 \<le> acc + int (v mod 128) * 2 ^ (7 * n)" and "acc + int (v mod 128) * 2 ^ (7 * n) < 2 ^ (7 * Suc n)"
proof -
  have "int (v mod 128) \<le> 127" by simp
  then have "int (v mod 128) * 2 ^ (7 * n) \<le> 127 * 2 ^ (7 * n)" by (rule mult_right_mono) simp
  with assms have "acc + int (v mod 128) * 2 ^ (7 * n) < 128 * 2 ^ (7 * n)" by linarith
  then show "acc + int (v mod 128) * 2 ^ (7 * n) < 2 ^ (7 * Suc n)" by (simp add: power_add)
  show "0 \<le> acc + int (v mod 128) * 2 ^ (7 * n)" using assms(1) by simp
qed

lemma group_value:
  "acc + int (v mod 128) * 2 ^ (7 * n) + int (v div 128) * 2 ^ (7 * Suc n) = acc + int v * 2 ^ (7 * n)"
proof -
  have "int (v mod 128 + 128 * (v div 128)) = int v" by (rule arg_cong[OF mod_mult_div_eq])
  then have "int v = int (v mod 128) + 128 * int (v div 128)"
    by (simp only: of_nat_add of_nat_mult of_nat_numeral)
  then show ?thesis by (simp add: power_add algebra_simps)
qed

text \<open>The byte of a group, and what the decoder makes of it.\<close>

definition group_byte :: "nat \<Rightarrow> byte" where
  "group_byte v = of_nat (v mod 128 + (if v div 128 \<noteq> 0 then 128 else 0))"

lemma group_byte_value: "unat (group_byte v) = v mod 128 + (if v div 128 \<noteq> 0 then 128 else 0)"
proof -
  have "v mod 128 < 128" by simp
  then show ?thesis unfolding group_byte_def unat_of_nat take_bit_eq_mod by simp
qed

lemma group_gathered:
  "0 \<le> acc \<Longrightarrow> acc < 2 ^ (7 * n) \<Longrightarrow>
   acc OR push_bit (7 * n) (uint (group_byte v AND 0x7F)) = acc + int (v mod 128) * 2 ^ (7 * n)"
  by (simp add: low_group group_byte_value or_disjoint_add)

lemma varint_step: "varint_loop v out =
    (if v div 128 = 0 then Inr (out @ [group_byte v])
     else if 4 \<le> Suc (length out) then Inl (ProtocolError ''varint too large to encode'')
     else varint_loop (v div 128) (out @ [group_byte v]))"
  unfolding varint_loop.simps[of v out] group_byte_def[symmetric] Let_def MAX_VARINT_BYTES_def by simp

lemma varint_loop_rt:
  assumes "v < 128 ^ (4 - length out)" and "length out < 4"
  shows "\<exists>vs. varint_loop v out = Inr (out @ vs) \<and> vs \<noteq> [] \<and> length out + length vs \<le> 4 \<and>
    (\<forall>pre post acc off. length pre = off + length out \<longrightarrow> 0 \<le> acc \<longrightarrow> acc < 2 ^ (7 * length out) \<longrightarrow>
      decode_varint_loop (pre @ vs @ post) off [length out..<4] acc =
        Inr (acc + int v * 2 ^ (7 * length out), length out + length vs))"
  using assms
proof (induction v out rule: varint_loop.induct)
  case (1 v out)
  let ?gb = "group_byte v" and ?n = "length out"
  have idx: "[?n..<4] = ?n # [Suc ?n..<4]" using 1(3) by (rule upt_conv_Cons)
  show ?case
  proof (cases "v div 128 = 0")
    case True
    then have "unat ?gb < 128" "v mod 128 = v" by (simp_all add: group_byte_value)
    with True group_gathered 1(3) show ?thesis
      by (intro exI[of _ "[?gb]"]) (auto simp: varint_step[of v out] Let_def idx continuation_bit nth_append)
  next
    case False
    then have big: "\<not> unat ?gb < 128" by (simp add: group_byte_value)
    have len: "?n \<noteq> 3"
    proof
      assume "?n = 3"
      with 1(2) False show False by simp
    qed
    have "v div 128 < 128 ^ (4 - length (out @ [?gb]))" using group_rest[OF 1(2,3)] by simp
    moreover have "length (out @ [?gb]) < 4" using 1(3) len by simp
    ultimately obtain vs where
      vs: "varint_loop (v div 128) (out @ [?gb]) = Inr ((out @ [?gb]) @ vs)" "Suc ?n + length vs \<le> 4" and
      dec: "\<And>pre post acc off. length pre = off + Suc ?n \<Longrightarrow> 0 \<le> acc \<Longrightarrow> acc < 2 ^ (7 * Suc ?n) \<Longrightarrow>
        decode_varint_loop (pre @ vs @ post) off [Suc ?n..<4] acc =
          Inr (acc + int (v div 128) * 2 ^ (7 * Suc ?n), Suc ?n + length vs)"
      using 1(1)[OF refl refl refl, folded group_byte_def, OF False] 1(3) len
      by (auto simp: MAX_VARINT_BYTES_def)
    show ?thesis
    proof (intro exI[of _ "?gb # vs"] conjI allI impI)
      show "varint_loop v out = Inr (out @ ?gb # vs)"
        using vs(1) False 1(3) len by (simp add: varint_step[of v out])
      show "?gb # vs \<noteq> []" "?n + length (?gb # vs) \<le> 4" using vs(2) by simp_all
      fix pre post :: bytes and acc :: int and off :: nat
      assume a: "length pre = off + ?n" "0 \<le> acc" "acc < 2 ^ (7 * ?n)"
      have "decode_varint_loop ((pre @ [?gb]) @ vs @ post) off [Suc ?n..<4] (acc + int (v mod 128) * 2 ^ (7 * ?n)) =
          Inr (acc + int v * 2 ^ (7 * ?n), Suc ?n + length vs)"
        using dec[of "pre @ [?gb]" off "acc + int (v mod 128) * 2 ^ (7 * ?n)" post] group_bound[OF a(2,3), of v] a(1)
        unfolding group_value by simp
      then show "decode_varint_loop (pre @ (?gb # vs) @ post) off [?n..<4] acc =
          Inr (acc + int v * 2 ^ (7 * ?n), ?n + length (?gb # vs))"
        using big a(1) group_gathered[OF a(2,3)] by (simp add: idx Let_def continuation_bit nth_append)
    qed
  qed
qed

lemma varint_loop_fails:
  assumes "128 ^ (4 - length out) \<le> v" and "length out < 4"
  shows "varint_loop v out = Inl (ProtocolError ''varint too large to encode'')"
  using assms
proof (induction v out rule: varint_loop.induct)
  case (1 v out)
  have "128 ^ 1 \<le> (128 :: nat) ^ (4 - length out)"
    by (rule power_increasing) (use 1(3) in simp_all)
  with 1(2) have "128 \<le> v" by simp
  then have more: "v div 128 \<noteq> 0" by (simp add: div_eq_0_iff)
  show ?case
  proof (cases "length out = 3")
    case True
    with more show ?thesis by (simp add: varint_loop.simps[of v] Let_def MAX_VARINT_BYTES_def)
  next
    case False
    then have "4 - length out = Suc (3 - length out)" using 1(3) by simp
    with 1(2) have "128 * 128 ^ (3 - length out) \<le> v" by simp
    then have "128 ^ (3 - length out) \<le> v div 128" by (simp add: less_eq_div_iff_mult_less_eq mult.commute)
    then show ?thesis
      using 1(1)[OF refl refl refl more] 1(3) False more
      by (simp add: varint_loop.simps[of v] Let_def MAX_VARINT_BYTES_def)
  qed
qed

lemma varint_encodes:
  assumes "0 \<le> v" and "v < 2 ^ 28"
  obtains vs where "encode_varint v = Inr vs" "vs \<noteq> []" "length vs \<le> MAX_VARINT_BYTES"
    and "\<And>pre post. decode_varint (pre @ vs @ post) (length pre) = Inr (v, length vs)"
proof -
  have "nat v < 128 ^ (4 - length ([] :: bytes))" using assms by simp
  from varint_loop_rt[OF this] show ?thesis
    using assms by (auto simp: encode_varint_def decode_varint_def MAX_VARINT_BYTES_def intro!: that)
qed

end
