(* ===== verification/Bestway_Stream.thy ===== *)
theory Bestway_Stream
  imports Bestway_Protocol
begin

section \<open>The frame reader on any stream\<close>

text \<open>
  What reassembly needs of a frame decoder, as a locale: a frame is decided by its own bytes, and
  so is a refusal. The reader of \<open>integrations/bestway/protocol.py\<close> is its interpretation. The
  properties: how the network cuts the stream is invisible, frames come out as they were sent,
  and a hostile peer cannot make the buffer grow.
\<close>

locale frame_stream =
  fixes dec :: "'b list \<Rightarrow> 'e + 'f \<times> nat"
    and incomplete :: "'e \<Rightarrow> bool"
    and parse :: "'b list \<Rightarrow> 'f list \<Rightarrow> ('e + 'f list) \<times> 'b list"
  assumes dec_consumes: "dec d = Inr (f, n) \<Longrightarrow> 0 < n \<and> n \<le> length d"
    and dec_extends: "dec d = Inr (f, n) \<Longrightarrow> dec (d @ r) = Inr (f, n)"
    and dec_refuses: "dec d = Inl e \<Longrightarrow> \<not> incomplete e \<Longrightarrow> dec (d @ r) = Inl e"
    and parse_eq: "parse d fs =
      (if d = [] then (Inr fs, d)
       else (case dec d of
               Inl e \<Rightarrow> (if incomplete e then (Inr fs, d) else (Inl e, d))
             | Inr (f, n) \<Rightarrow> parse (drop n d) (fs @ [f])))"
begin

lemma parse_Nil [simp]: "parse [] fs = (Inr fs, [])"
  by (simp add: parse_eq)

lemma parse_append:
  "parse (a @ b) fs =
     (case parse a fs of (Inl e, r) \<Rightarrow> (Inl e, r @ b) | (Inr gs, r) \<Rightarrow> parse (r @ b) gs)"
proof (induction a arbitrary: fs rule: length_induct)
  case (1 a)
  show ?case
  proof (cases "a = []")
    case False
    show ?thesis
    proof (cases "dec a")
      case (Inl e)
      then show ?thesis
        using False dec_refuses[OF Inl] by (cases "incomplete e") (simp_all add: parse_eq[of a] parse_eq[of "a @ b"])
    next
      case (Inr x)
      obtain f n where x: "x = (f, n)" by (cases x)
      have n: "0 < n" "n \<le> length a" using dec_consumes Inr x by auto
      then have "length (drop n a) < length a" using False by simp
      with 1 have "parse (drop n a @ b) (fs @ [f]) =
        (case parse (drop n a) (fs @ [f]) of (Inl e, r) \<Rightarrow> (Inl e, r @ b) | (Inr gs, r) \<Rightarrow> parse (r @ b) gs)"
        by blast
      then show ?thesis
        using False Inr x n dec_extends[of a f n b] by (simp add: parse_eq[of a] parse_eq[of "a @ b"])
    qed
  qed simp
qed

lemma parse_accumulates:
  "parse a fs = (case parse a [] of (Inl e, r) \<Rightarrow> (Inl e, r) | (Inr gs, r) \<Rightarrow> (Inr (fs @ gs), r))"
proof (induction a arbitrary: fs rule: length_induct)
  case (1 a)
  show ?case
  proof (cases "a = []")
    case False
    show ?thesis
    proof (cases "dec a")
      case (Inl e)
      with False show ?thesis by (simp add: parse_eq[of a])
    next
      case (Inr x)
      obtain f n where x: "x = (f, n)" by (cases x)
      have n: "0 < n" "n \<le> length a" using dec_consumes Inr x by auto
      then have "length (drop n a) < length a" using False by simp
      with 1 have ih: "parse (drop n a) hs =
        (case parse (drop n a) [] of (Inl e, r) \<Rightarrow> (Inl e, r) | (Inr gs, r) \<Rightarrow> (Inr (hs @ gs), r))" for hs
        by blast
      from ih[of "fs @ [f]"] ih[of "[f]"] show ?thesis
        using False Inr x by (simp add: parse_eq[of a] split: prod.splits sum.splits)
    qed
  qed simp
qed

lemma parse_remainder:
  "parse a fs = (Inr gs, r) \<Longrightarrow> r = [] \<or> (\<exists>e. dec r = Inl e \<and> incomplete e)"
proof (induction a arbitrary: fs rule: length_induct)
  case (1 a)
  show ?case
  proof (cases "a = []")
    case False
    show ?thesis
    proof (cases "dec a")
      case (Inl e)
      with False 1(2) show ?thesis by (auto simp: parse_eq[of a] split: if_splits)
    next
      case (Inr x)
      obtain f n where x: "x = (f, n)" by (cases x)
      have n: "0 < n" "n \<le> length a" using dec_consumes Inr x by auto
      then have "length (drop n a) < length a" using False by simp
      moreover have "parse (drop n a) (fs @ [f]) = (Inr gs, r)"
        using 1(2) False Inr x by (simp add: parse_eq[of a])
      ultimately show ?thesis using 1(1) by blast
    qed
  qed (use 1(2) in simp)
qed

lemma parse_shrinks: "length (snd (parse a fs)) \<le> length a"
proof (induction a arbitrary: fs rule: length_induct)
  case (1 a)
  show ?case
  proof (cases "dec a")
    case (Inr x)
    obtain f n where x: "x = (f, n)" by (cases x)
    have n: "0 < n" "n \<le> length a" using dec_consumes Inr x by auto
    then have "length (drop n a) < length a" by (cases a) auto
    then have "length (snd (parse (drop n a) (fs @ [f]))) \<le> length (drop n a)" using 1 by blast
    then have "length (snd (parse (drop n a) (fs @ [f]))) \<le> length a" by simp
    then show ?thesis using Inr x by (simp add: parse_eq[of a])
  qed (simp add: parse_eq[of a])
qed

lemma parse_concat:
  "list_all2 (\<lambda>f b. dec b = Inr (f, length b)) fs bs \<Longrightarrow> parse (concat bs) [] = (Inr fs, [])"
proof (induction rule: list_all2_induct)
  case (Cons f fs b bs)
  from Cons.hyps(1) dec_consumes[of b f "length b"] have "parse b [] = (Inr [f], [])"
    by (subst parse_eq) auto
  then have "parse (b @ concat bs) [] = parse (concat bs) [f]"
    by (subst parse_append) simp
  with Cons.IH parse_accumulates[of "concat bs" "[f]"] show ?case by simp
qed simp

end

subsection \<open>The decoder decides a frame by its own bytes\<close>

fun is_incomplete :: "protocol_error \<Rightarrow> bool" where
  "is_incomplete (IncompleteFrame m) = True"
| "is_incomplete (ProtocolError m) = False"
| "is_incomplete OverflowError = False"

lemma decode_varint_loop_extends:
  "decode_varint_loop d off ix v = Inr x \<Longrightarrow> decode_varint_loop (d @ r) off ix v = Inr x"
  "decode_varint_loop d off ix v = Inl e \<Longrightarrow> \<not> is_incomplete e \<Longrightarrow>
     decode_varint_loop (d @ r) off ix v = Inl e"
  by (induction d off ix v rule: decode_varint_loop.induct)
    (auto simp: Let_def nth_append split: if_splits)

lemma decode_varint_extends:
  "decode_varint d off = Inr x \<Longrightarrow> decode_varint (d @ r) off = Inr x"
  "decode_varint d off = Inl e \<Longrightarrow> \<not> is_incomplete e \<Longrightarrow> decode_varint (d @ r) off = Inl e"
  by (simp_all add: decode_varint_def decode_varint_loop_extends)

lemma decode_varint_loop_short:
  "decode_varint_loop d off ix v = Inl e \<Longrightarrow> is_incomplete e \<Longrightarrow> \<exists>i \<in> set ix. length d \<le> off + i"
  by (induction d off ix v rule: decode_varint_loop.induct) (auto simp: Let_def split: if_splits)

lemma decode_frame_extends:
  assumes "decode_frame d = Inr (f, n)"
  shows "decode_frame (d @ r) = Inr (f, n)"
proof -
  obtain len k where v: "decode_varint d (length MAGIC) = Inr (len, k)"
    using assms by (auto simp: decode_frame_def split: if_splits sum.splits)
  with assms have "\<not> length d < length MAGIC" "take (length MAGIC) d = MAGIC" "\<not> int MAX_PAYLOAD_BYTES < len"
    "\<not> len < 3" "\<not> length d < length MAGIC + k + nat len"
    by (simp_all add: decode_frame_def Let_def split: if_splits)
  with assms v decode_varint_extends(1)[OF v, of r] show ?thesis
    by (simp add: decode_frame_def Let_def)
qed

lemma decode_frame_refuses:
  assumes "decode_frame d = Inl e" and "\<not> is_incomplete e"
  shows "decode_frame (d @ r) = Inl e"
proof (cases "length d < length MAGIC \<or> take (length MAGIC) d \<noteq> MAGIC")
  case True
  with assms show ?thesis by (auto simp: decode_frame_def split: if_splits)
next
  case False
  show ?thesis
  proof (cases "decode_varint d (length MAGIC)")
    case (Inl e')
    with assms False decode_varint_extends(2)[OF Inl] show ?thesis
      by (auto simp: decode_frame_def)
  next
    case (Inr x)
    obtain len k where x: "x = (len, k)" by (cases x)
    have "int MAX_PAYLOAD_BYTES < len \<or> len < 3"
    proof (rule ccontr)
      assume "\<not> (int MAX_PAYLOAD_BYTES < len \<or> len < 3)"
      with assms(1) False Inr x have "e = IncompleteFrame ''frame body is truncated''"
        by (simp add: decode_frame_def Let_def split: if_splits)
      with assms(2) show False by simp
    qed
    with assms False Inr x decode_varint_extends(1)[OF Inr, of r] show ?thesis
      by (cases "int MAX_PAYLOAD_BYTES < len") (simp_all add: decode_frame_def)
  qed
qed

definition max_pending :: nat where
  "max_pending = length MAGIC + MAX_VARINT_BYTES + MAX_PAYLOAD_BYTES"

lemma decode_frame_short:
  assumes "decode_frame d = Inl e" and "is_incomplete e"
  shows "length d < max_pending"
proof (cases "length d < length MAGIC")
  case False
  show ?thesis
  proof (cases "decode_varint d (length MAGIC)")
    case (Inl e')
    with assms False have "is_incomplete e'" by (auto simp: decode_frame_def split: if_splits)
    with decode_varint_loop_short[OF Inl[unfolded decode_varint_def]] show ?thesis
      by (auto simp: max_pending_def MAX_PAYLOAD_BYTES_def)
  next
    case (Inr x)
    obtain len k where x: "x = (len, k)" by (cases x)
    from decode_varint_consumed[of d "length MAGIC" len k] Inr x
    have "k \<le> MAX_VARINT_BYTES" by simp
    moreover have "len \<le> int MAX_PAYLOAD_BYTES" "length d < length MAGIC + k + nat len"
      using assms False Inr x by (auto simp: decode_frame_def Let_def split: if_splits)
    ultimately show ?thesis by (simp add: max_pending_def)
  qed
qed (simp add: max_pending_def MAX_PAYLOAD_BYTES_def)

interpretation reader: frame_stream decode_frame is_incomplete parse_frames
proof unfold_locales
  fix d r :: bytes and f :: frame and fs :: "frame list" and n :: nat and e :: protocol_error
  show "decode_frame d = Inr (f, n) \<Longrightarrow> 0 < n \<and> n \<le> length d" by (rule decode_frame_consumed)
  show "decode_frame d = Inr (f, n) \<Longrightarrow> decode_frame (d @ r) = Inr (f, n)" by (rule decode_frame_extends)
  show "decode_frame d = Inl e \<Longrightarrow> \<not> is_incomplete e \<Longrightarrow> decode_frame (d @ r) = Inl e"
    by (rule decode_frame_refuses)
  show "parse_frames d fs =
      (if d = [] then (Inr fs, d)
       else (case decode_frame d of
               Inl e \<Rightarrow> (if is_incomplete e then (Inr fs, d) else (Inl e, d))
             | Inr (f, n) \<Rightarrow> parse_frames (drop n d) (fs @ [f])))"
    by (subst parse_frames.simps) (auto split: sum.splits protocol_error.splits)
qed

text \<open>What a connection does with the chunks it reads, one after the other.\<close>

primrec feed_all :: "bytes list \<Rightarrow> bytes \<Rightarrow> (protocol_error + frame list) \<times> bytes" where
  "feed_all [] b = (Inr [], b)"
| "feed_all (c # cs) b =
     (case feed c b of
        (Inl e, b1) \<Rightarrow> (Inl e, b1)
      | (Inr fs, b1) \<Rightarrow>
          (case feed_all cs b1 of
             (Inl e, b2) \<Rightarrow> (Inl e, b2)
           | (Inr gs, b2) \<Rightarrow> (Inr (fs @ gs), b2)))"

text \<open>\<open>_READ_CHUNK\<close> of the client.\<close>

definition READ_CHUNK :: nat where "READ_CHUNK = 4096"

lemma feed_parse:
  "length b < max_pending \<Longrightarrow> length c \<le> READ_CHUNK \<Longrightarrow> feed c b = parse_frames (b @ c) []"
  by (simp add: feed_def max_pending_def READ_CHUNK_def MAX_PAYLOAD_BYTES_def MAGIC_def MAX_VARINT_BYTES_def)

lemma feed_pending:
  assumes "length b < max_pending" and "length c \<le> READ_CHUNK" and "feed c b = (Inr fs, b1)"
  shows "length b1 < max_pending"
proof -
  have "b1 = [] \<or> (\<exists>e. decode_frame b1 = Inl e \<and> is_incomplete e)"
    using assms feed_parse reader.parse_remainder by metis
  then show ?thesis using decode_frame_short by (auto simp: max_pending_def MAGIC_def)
qed

lemma feed_all_parse:
  assumes "\<forall>c \<in> set cs. length c \<le> READ_CHUNK" and "length b < max_pending"
    and "parse_frames b [] = (Inr [], b)"
  shows "case parse_frames (b @ concat cs) [] of
           (Inr fs, r) \<Rightarrow> feed_all cs b = (Inr fs, r)
         | (Inl e, r) \<Rightarrow> fst (feed_all cs b) = Inl e"
  using assms
proof (induction cs arbitrary: b)
  case (Cons c cs)
  then have fed: "feed c b = parse_frames (b @ c) []" by (simp add: feed_parse)
  have all: "parse_frames (b @ concat (c # cs)) [] =
      (case parse_frames (b @ c) [] of
         (Inl e, r) \<Rightarrow> (Inl e, r @ concat cs) | (Inr gs, r) \<Rightarrow> parse_frames (r @ concat cs) gs)"
    using reader.parse_append[of "b @ c" "concat cs" "[]"] by simp
  show ?case
  proof (cases "fst (parse_frames (b @ c) [])")
    case (Inl e)
    with all fed show ?thesis by (auto split: prod.splits)
  next
    case (Inr gs)
    then obtain r where r: "parse_frames (b @ c) [] = (Inr gs, r)" by (cases "parse_frames (b @ c) []") simp
    have "length r < max_pending" using feed_pending[of b c gs r] Cons.prems r fed by simp
    moreover have "parse_frames r [] = (Inr [], r)"
      using reader.parse_remainder[OF r] by (subst reader.parse_eq) auto
    ultimately have "case parse_frames (r @ concat cs) [] of
           (Inr fs, q) \<Rightarrow> feed_all cs r = (Inr fs, q) | (Inl e, q) \<Rightarrow> fst (feed_all cs r) = Inl e"
      using Cons by simp
    then show ?thesis
      using all fed r reader.parse_accumulates[of "r @ concat cs" gs]
      by (cases "parse_frames (r @ concat cs) []"; cases "feed_all cs r") (auto split: sum.splits prod.splits)
  qed
qed simp

lemma feed_all_pending:
  assumes "\<forall>c \<in> set cs. length c \<le> READ_CHUNK" and "length b < max_pending"
  shows "length (snd (feed_all cs b)) < max_pending + READ_CHUNK \<and>
    (\<forall>fs. fst (feed_all cs b) = Inr fs \<longrightarrow> length (snd (feed_all cs b)) < max_pending)"
  using assms
proof (induction cs arbitrary: b)
  case (Cons c cs)
  then have fed: "feed c b = parse_frames (b @ c) []" by (simp add: feed_parse)
  have few: "length (snd (feed c b)) < max_pending + READ_CHUNK"
    using reader.parse_shrinks[of "b @ c" "[]"] Cons.prems fed by simp
  show ?case
  proof (cases "fst (feed c b)")
    case (Inl e)
    with few show ?thesis by (auto split: prod.splits)
  next
    case (Inr fs)
    then obtain b1 where b1: "feed c b = (Inr fs, b1)" by (cases "feed c b") simp
    have "length b1 < max_pending" using feed_pending[OF _ _ b1] Cons.prems by simp
    with Cons have "length (snd (feed_all cs b1)) < max_pending + READ_CHUNK \<and>
      (\<forall>fs. fst (feed_all cs b1) = Inr fs \<longrightarrow> length (snd (feed_all cs b1)) < max_pending)" by simp
    with b1 show ?thesis by (cases "feed_all cs b1") (auto split: sum.splits)
  qed
qed simp

definition buffer_full :: protocol_error where
  "buffer_full = ProtocolError ''peer sent more unframed data than can be buffered''"

lemma decode_frame_not_full: "decode_frame d \<noteq> Inl buffer_full"
proof -
  have "decode_varint_loop d off ix v \<noteq> Inl buffer_full" for off ix v
    by (induction d off ix v rule: decode_varint_loop.induct) (auto simp: Let_def buffer_full_def)
  then show ?thesis
    by (auto simp: decode_frame_def decode_varint_def Let_def buffer_full_def split: if_splits sum.splits)
qed

lemma parse_frames_not_full: "fst (parse_frames b fs) \<noteq> Inl buffer_full"
proof (induction b fs rule: parse_frames.induct)
  case (1 b fs)
  then show ?case
    using decode_frame_not_full[of b]
    by (subst parse_frames.simps) (auto split: sum.splits protocol_error.splits)
qed

subsection \<open>Frames that travel\<close>

text \<open>A frame as the decoder produces one: a number that is a known command is that command.\<close>

definition canonical :: "wire_command \<Rightarrow> bool" where
  "canonical c \<longleftrightarrow> wire_value c < 65536 \<and> wire_command_of (wire_value c) = c"

lemma canonical_Known: "canonical (Known c)"
  by (cases c) (simp_all add: canonical_def wire_command_of_def all_gcommands_def)

lemma frame_encode_runs:
  assumes "canonical (fr_command f)" and "length (fr_payload f) \<le> MAX_PAYLOAD_BYTES"
  obtains n where "n \<noteq> []" and "length n \<le> MAX_VARINT_BYTES"
    and "frame_encode f = Inr (MAGIC @ n @ [fr_flag f] @ to_be 2 (wire_value (fr_command f)) @ fr_payload f)"
    and "\<And>r. decode_varint (MAGIC @ n @ r) (length MAGIC) = Inr (int (length (fr_payload f) + 3), length n)"
proof -
  have c: "to_bytes 2 (wire_value (fr_command f)) = Inr (to_be 2 (wire_value (fr_command f)))"
    using assms(1) to_bytes_roundtrip[of _ 2] by (simp add: canonical_def)
  have "int (length (fr_payload f) + 3) < 2 ^ 28" using assms(2) by (simp add: MAX_PAYLOAD_BYTES_def)
  then obtain n where n: "encode_varint (int (length (fr_payload f) + 3)) = Inr n" "n \<noteq> []"
      "length n \<le> MAX_VARINT_BYTES"
    and dec: "\<And>pre post. decode_varint (pre @ n @ post) (length pre) = Inr (int (length (fr_payload f) + 3), length n)"
    using varint_encodes[of "int (length (fr_payload f) + 3)"] by auto
  show ?thesis
    by (rule that[OF n(2,3)]) (use assms(2) c n(1) dec[of MAGIC] in \<open>simp_all add: frame_encode_def Let_def add.commute\<close>)
qed

lemma frame_decodes:
  assumes "canonical (fr_command f)" and "length (fr_payload f) + 3 \<le> MAX_PAYLOAD_BYTES"
  shows "\<exists>bs. frame_encode f = Inr bs \<and> (\<forall>r. decode_frame (bs @ r) = Inr (f, length bs))"
proof -
  have "length (fr_payload f) \<le> MAX_PAYLOAD_BYTES" using assms(2) by simp
  from frame_encode_runs[OF assms(1) this] obtain n where n: "n \<noteq> []" "length n \<le> MAX_VARINT_BYTES"
    and enc: "frame_encode f = Inr (MAGIC @ n @ [fr_flag f] @ to_be 2 (wire_value (fr_command f)) @ fr_payload f)"
    and dec: "\<And>r. decode_varint (MAGIC @ n @ r) (length MAGIC) = Inr (int (length (fr_payload f) + 3), length n)"
    by blast
  have len: "nat (int (length (fr_payload f)) + 3) = Suc (Suc (Suc (length (fr_payload f))))" by simp
  have c: "wire_command_of (from_be (to_be 2 (wire_value (fr_command f)))) = fr_command f"
    using assms(1) to_bytes_roundtrip[of "wire_value (fr_command f)" 2] by (simp add: canonical_def)
  have "decode_frame ((MAGIC @ n @ [fr_flag f] @ to_be 2 (wire_value (fr_command f)) @ fr_payload f) @ r) =
      Inr (f, length (MAGIC @ n @ [fr_flag f] @ to_be 2 (wire_value (fr_command f)) @ fr_payload f))" for r
    using dec[of "[fr_flag f] @ to_be 2 (wire_value (fr_command f)) @ fr_payload f @ r"] assms(2) c len
    by (simp add: decode_frame_def Let_def)
  with enc show ?thesis by blast
qed

lemma frame_too_long_to_decode:
  assumes "canonical (fr_command f)" and "length (fr_payload f) \<le> MAX_PAYLOAD_BYTES"
    and "MAX_PAYLOAD_BYTES < length (fr_payload f) + 3"
  shows "\<exists>bs. frame_encode f = Inr bs \<and>
    decode_frame bs = Inl (ProtocolError ''declared frame length exceeds the permitted maximum'')"
proof -
  from frame_encode_runs[OF assms(1,2)] obtain n where n: "n \<noteq> []" "length n \<le> MAX_VARINT_BYTES"
    and enc: "frame_encode f = Inr (MAGIC @ n @ [fr_flag f] @ to_be 2 (wire_value (fr_command f)) @ fr_payload f)"
    and dec: "\<And>r. decode_varint (MAGIC @ n @ r) (length MAGIC) = Inr (int (length (fr_payload f) + 3), length n)"
    by blast
  have "decode_frame (MAGIC @ n @ [fr_flag f] @ to_be 2 (wire_value (fr_command f)) @ fr_payload f) =
      Inl (ProtocolError ''declared frame length exceeds the permitted maximum'')"
    using dec[of "[fr_flag f] @ to_be 2 (wire_value (fr_command f)) @ fr_payload f"] assms(3)
    by (simp add: decode_frame_def Let_def)
  with enc show ?thesis by blast
qed

lemma length_prefixed_runs:
  "length d \<le> 65535 \<Longrightarrow> encode_length_prefixed d = Inr (to_be 2 (length d) @ d)"
  using to_bytes_roundtrip[of "length d" 2] by (simp add: encode_length_prefixed_def)

subsection \<open>Properties\<close>

text \<open>
  C23. Reassembly does not depend on how the network cuts the stream: reading any sequence of
  chunks one at a time gives exactly the frames, the unread rest and the refusal that the whole
  stream gives when it is read in one piece.
\<close>

theorem feed_chunking:
  assumes "\<forall>c \<in> set cs. length c \<le> READ_CHUNK"
  shows "case parse_frames (concat cs) [] of
           (Inr fs, r) \<Rightarrow> feed_all cs [] = (Inr fs, r)
         | (Inl e, r) \<Rightarrow> fst (feed_all cs []) = Inl e"
  using feed_all_parse[OF assms, of "[]"] by (simp add: max_pending_def MAGIC_def)

theorem feed_chunking_witness:
  "feed_all [[0], [0, 0, 3, 3, 0], [0, 0x91, 0]] [] =
     (Inr [\<lparr>fr_command = Known STATUS_RESPONSE, fr_payload = [], fr_flag = 0\<rparr>], [0])"
proof -
  have *: "decode_frame [0, 0, 0, 3, 3, 0, 0, 0x91, 0] =
      Inr (\<lparr>fr_command = Known STATUS_RESPONSE, fr_payload = [], fr_flag = 0\<rparr>, 8)"
    by code_simp
  have **: "decode_frame [0] = Inl (IncompleteFrame ''magic is truncated'')" by code_simp
  have "parse_frames [0, 0, 0, 3, 3, 0, 0, 0x91, 0] [] =
      (Inr [\<lparr>fr_command = Known STATUS_RESPONSE, fr_payload = [], fr_flag = 0\<rparr>], [0])"
    by (subst parse_frames.simps, simp add: *, subst parse_frames.simps, simp add: **)
  then show ?thesis
    using feed_chunking[of "[[0], [0, 0, 3, 3, 0], [0, 0x91, 0]]"] by (simp add: READ_CHUNK_def)
qed

text \<open>
  A peer cannot make the gateway buffer without bound: whatever it sends, after every
  accepted read fewer than 2056 bytes wait, never more than a read beyond that are held, and the
  reader's own overflow guard is never what refuses a stream read in chunks of the client's size.
\<close>

lemma reader_bounded:
  assumes "\<forall>c \<in> set cs. length c \<le> READ_CHUNK"
  shows "(\<forall>fs b. feed_all cs [] = (Inr fs, b) \<longrightarrow> pending_bytes b < 2056) \<and>
    pending_bytes (snd (feed_all cs [])) < 6152 \<and> fst (feed_all cs []) \<noteq> Inl buffer_full"
proof -
  have "fst (feed_all cs []) \<noteq> Inl buffer_full"
    using feed_all_parse[OF assms, of "[]"] parse_frames_not_full[of "concat cs" "[]"]
    by (auto simp: max_pending_def MAGIC_def split: prod.splits sum.splits)
  with feed_all_pending[OF assms, of "[]"] show ?thesis
    by (auto simp: max_pending_def MAGIC_def pending_bytes_def READ_CHUNK_def MAX_PAYLOAD_BYTES_def
        MAX_VARINT_BYTES_def)
qed

text \<open>
  C24. What one side sends the other receives: any frames with a payload of at most 2045 bytes,
  encoded and cut into chunks anyhow, are read back exactly, in order, with nothing left over.
\<close>

theorem frames_arrive:
  assumes "\<forall>f \<in> set fs. canonical (fr_command f) \<and> length (fr_payload f) \<le> 2045"
    and "map frame_encode fs = map Inr bs" and "concat cs = concat bs"
    and "\<forall>c \<in> set cs. length c \<le> READ_CHUNK"
  shows "feed_all cs [] = (Inr fs, [])"
proof -
  have "decode_frame b = Inr (f, length b)" if "f \<in> set fs" and "frame_encode f = Inr b" for f b
  proof -
    from that(1) assms(1) have "canonical (fr_command f)" "length (fr_payload f) + 3 \<le> MAX_PAYLOAD_BYTES"
      by (auto simp: MAX_PAYLOAD_BYTES_def)
    from frame_decodes[OF this] that(2) show ?thesis by (metis append_Nil2 sum.inject(2))
  qed
  moreover have "list_all2 (\<lambda>f b. frame_encode f = Inr b) fs bs"
    using assms(2) by (auto simp: list_all2_conv_all_nth list_eq_iff_nth_eq)
  ultimately have "list_all2 (\<lambda>f b. decode_frame b = Inr (f, length b)) fs bs"
    by (auto simp: list_all2_conv_all_nth)
  then have "parse_frames (concat bs) [] = (Inr fs, [])" by (rule reader.parse_concat)
  with feed_all_parse[OF assms(4), of "[]"] assms(3) show ?thesis
    by (simp add: max_pending_def MAGIC_def)
qed

theorem frames_arrive_witness:
  "feed_all [[0, 0, 0, 3, 4, 0, 0, 0x90], [2, 0, 0, 0, 3, 3, 0, 0, 0x15]] [] =
     (Inr [\<lparr>fr_command = Known STATUS_REQUEST, fr_payload = STATUS_READ_PAYLOAD, fr_flag = 0\<rparr>,
           \<lparr>fr_command = Known HEARTBEAT_REQUEST, fr_payload = [], fr_flag = 0\<rparr>], [])"
proof -
  have "frame_encode \<lparr>fr_command = Known STATUS_REQUEST, fr_payload = STATUS_READ_PAYLOAD, fr_flag = 0\<rparr> =
      Inr [0, 0, 0, 3, 4, 0, 0, 0x90, 2]"
    and "frame_encode \<lparr>fr_command = Known HEARTBEAT_REQUEST, fr_payload = [], fr_flag = 0\<rparr> =
      Inr [0, 0, 0, 3, 3, 0, 0, 0x15]"
    by (simp_all add: frame_encode_def to_bytes_def numeral_2_eq_2 encode_varint_def varint_loop.simps
        MAGIC_def STATUS_READ_PAYLOAD_def MAX_PAYLOAD_BYTES_def Let_def)
  moreover have "canonical (Known STATUS_REQUEST)" "canonical (Known HEARTBEAT_REQUEST)"
    by (simp_all add: canonical_Known)
  ultimately show ?thesis
    by (intro frames_arrive[where bs = "[[0, 0, 0, 3, 4, 0, 0, 0x90, 2], [0, 0, 0, 3, 3, 0, 0, 0x15]]"])
      (simp_all add: READ_CHUNK_def STATUS_READ_PAYLOAD_def)
qed

text \<open>
  The two ends of the protocol disagree at the limit: a payload of 2046 to 2048 bytes is
  encoded, but the resulting frame is refused by the decoder as too long; anything longer is not
  encoded at all.
\<close>

lemma frame_limit_mismatch:
  assumes "canonical (fr_command f)"
  shows "(2045 < length (fr_payload f) \<and> length (fr_payload f) \<le> 2048 \<longrightarrow>
      (\<exists>bs. frame_encode f = Inr bs \<and>
        decode_frame bs = Inl (ProtocolError ''declared frame length exceeds the permitted maximum''))) \<and>
    (2048 < length (fr_payload f) \<longrightarrow>
      frame_encode f = Inl (ProtocolError ''refusing to send an oversized payload''))"
  using frame_too_long_to_decode[OF assms]
  by (auto simp: MAX_PAYLOAD_BYTES_def frame_encode_def)

text \<open>
  The passcode goes back as it came: a field of at most 65535 bytes that is written with its
  length prefix is read as itself, and a field of two to 2048 bytes that arrives without the
  prefix is kept as it is unless its first two bytes happen to be the length of the rest.
\<close>

lemma length_prefix_roundtrip:
  "(length d \<le> 65535 \<longrightarrow>
     (\<exists>bs. encode_length_prefixed d = Inr bs \<and> decode_length_prefixed bs = Inr d)) \<and>
   (65535 < length d \<longrightarrow> (\<exists>m. encode_length_prefixed d = Inl (ProtocolError m))) \<and>
   (2 \<le> length d \<and> length d \<le> 2048 \<and> from_be (take 2 d) \<noteq> length d - 2 \<longrightarrow>
     decode_length_prefixed d = Inr d)"
proof -
  have "decode_length_prefixed (to_be 2 (length d) @ d) = Inr d" if "length d \<le> 65535"
    using that to_bytes_roundtrip[of "length d" 2] by (simp add: decode_length_prefixed_def Let_def)
  then show ?thesis
    by (auto simp: length_prefixed_runs)
      (auto simp: encode_length_prefixed_def decode_length_prefixed_def Let_def MAX_PAYLOAD_BYTES_def)
qed

end
