(* ===== verification/Bestway_Client.thy ===== *)
theory Bestway_Client
  imports Bestway_Stream Provider_Base
begin

section \<open>The connection to the controller\<close>

text \<open>
  \<open>integrations/bestway/client.py\<close>. The sockets of the runtime are a parameter, \<open>network\<close>: each
  operation has a result over the world \<open>'w\<close>. An await ends in a result, an operating system
  error, its own deadline, or the cancellation of the task by the caller's deadline
  (\<open>Cancelled\<close>, which \<open>except Exception\<close> does not catch; the caller sees \<open>TimeoutError\<close>). An
  exchange reads at most \<open>net_reads\<close> times before its deadline passes. Closing is not
  interrupted. The lock of the client is held by one task at a time and is left out.
\<close>

datatype io_error = OSError | Deadline | Cancelled

record 'w network =
  net_open :: "'w \<Rightarrow> (io_error + unit) \<times> 'w"
  net_read :: "'w \<Rightarrow> (io_error + bytes) \<times> 'w"
  net_write :: "bytes \<Rightarrow> 'w \<Rightarrow> (io_error + unit) \<times> 'w"
  net_close :: "'w \<Rightarrow> 'w"
  net_is_closing :: "'w \<Rightarrow> bool"
  net_sleep :: "'w \<Rightarrow> (io_error + unit) \<times> 'w"
  net_reads :: nat

record bestway_client =
  bc_open :: bool
  bc_buffer :: bytes
  bc_pending :: "frame list"
  bc_passcode :: bytes
  bc_sequence :: nat

definition new_client :: bestway_client where
  "new_client = \<lparr>bc_open = False, bc_buffer = [], bc_pending = [], bc_passcode = [], bc_sequence = 0\<rparr>"

type_synonym 'w conn = "bestway_client \<times> 'w"

fun io_exn :: "io_error \<Rightarrow> adapter_exn" where
  "io_exn Cancelled = TimeoutError"
| "io_exn e = Provider ProviderUnavailableError"

definition is_connected :: "'w network \<Rightarrow> 'w conn \<Rightarrow> bool" where
  "is_connected n = (\<lambda>(c, w). bc_open c \<and> \<not> net_is_closing n w)"

definition close_client :: "'w network \<Rightarrow> 'w conn \<Rightarrow> 'w conn" where
  "close_client n = (\<lambda>(c, w).
     (c\<lparr>bc_open := False, bc_passcode := []\<rparr>, if bc_open c then net_close n w else w))"

definition send :: "'w network \<Rightarrow> frame \<Rightarrow> 'w conn \<Rightarrow> (adapter_exn + unit) \<times> 'w conn" where
  "send n f = (\<lambda>(c, w).
     if \<not> bc_open c then (Inl (Provider ProviderUnavailableError), c, w)
     else
       (case frame_encode f of
          Inl e \<Rightarrow> (Inl (OtherException ''ProtocolError''), c, w)
        | Inr bs \<Rightarrow>
            (case net_write n bs w of
               (Inl e, w1) \<Rightarrow> (Inl (io_exn e), c, w1)
             | (Inr u, w1) \<Rightarrow> (Inr (), c, w1))))"

text \<open>\<open>_next_frame\<close>, with the number of reads left before the deadline.\<close>

fun next_frame ::
  "'w network \<Rightarrow> nat \<Rightarrow> 'w conn \<Rightarrow> (adapter_exn + frame \<times> nat) \<times> 'w conn"
where
  "next_frame n k (c, w) =
     (case bc_pending c of
        f # fs \<Rightarrow> (Inr (f, k), c\<lparr>bc_pending := fs\<rparr>, w)
      | [] \<Rightarrow>
          if \<not> bc_open c then (Inl (Provider ProviderUnavailableError), c, w)
          else
            (case k of
               0 \<Rightarrow> (Inl (Provider ProviderUnavailableError), c, w)
             | Suc k1 \<Rightarrow>
                 (case net_read n w of
                    (Inl e, w1) \<Rightarrow> (Inl (io_exn e), c, w1)
                  | (Inr chunk, w1) \<Rightarrow>
                      if chunk = [] then (Inl (Provider ProviderUnavailableError), c, w1)
                      else
                        (case feed chunk (bc_buffer c) of
                           (Inl e, b) \<Rightarrow>
                             (Inl (Provider ControllerMisbehaved), c\<lparr>bc_buffer := b\<rparr>, w1)
                         | (Inr fs, b) \<Rightarrow>
                             next_frame n k1 (c\<lparr>bc_buffer := b, bc_pending := fs\<rparr>, w1)))))"

declare next_frame.simps [simp del]

lemma next_frame_progress:
  "next_frame n k s = (Inr (f, k1), s1) \<Longrightarrow>
     k1 < k \<or> (k1 = k \<and> length (bc_pending (fst s1)) < length (bc_pending (fst s)))"
proof (induction n k s arbitrary: f k1 s1 rule: next_frame.induct)
  case (1 n k c w)
  show ?case
  proof (cases "bc_pending c")
    case (Cons g gs)
    with 1(2) show ?thesis by (auto simp: next_frame.simps)
  next
    case Nil
    with 1(2) obtain k2 where k: "bc_open c" "k = Suc k2"
      by (auto simp: next_frame.simps split: if_splits nat.splits)
    with 1(2) Nil obtain chunk w1 where r: "net_read n w = (Inr chunk, w1)" "chunk \<noteq> []"
      by (cases "net_read n w") (auto simp: next_frame.simps split: sum.splits if_splits)
    with 1(2) Nil k obtain fs b where fed: "feed chunk (bc_buffer c) = (Inr fs, b)"
      by (cases "feed chunk (bc_buffer c)") (auto simp: next_frame.simps split: sum.splits)
    with 1(2) Nil k r have "next_frame n k2 (c\<lparr>bc_buffer := b, bc_pending := fs\<rparr>, w1) = (Inr (f, k1), s1)"
      by (subst (asm) next_frame.simps) simp
    from 1(1)[OF Nil _ k(2) r(1)[symmetric] refl _ fed[symmetric] refl this] k r(2) show ?thesis by auto
  qed
qed

lemma send_pending: "send n f s = (r, s1) \<Longrightarrow> bc_pending (fst s1) = bc_pending (fst s)"
  by (auto simp: send_def split: prod.splits if_splits sum.splits)

function exchange_loop ::
  "'w network \<Rightarrow> gcommand \<Rightarrow> nat \<Rightarrow> 'w conn \<Rightarrow> (adapter_exn + bytes) \<times> 'w conn"
where
  "exchange_loop n expect k s =
     (case next_frame n k s of
        (Inl e, s1) \<Rightarrow> (Inl e, s1)
      | (Inr (f, k1), s1) \<Rightarrow>
          if fr_command f = Known expect then (Inr (fr_payload f), s1)
          else if fr_command f = Known HEARTBEAT_REQUEST then
            (case send n \<lparr>fr_command = Known HEARTBEAT_RESPONSE, fr_payload = [], fr_flag = 0\<rparr> s1 of
               (Inl e, s2) \<Rightarrow> (Inl e, s2)
             | (Inr u, s2) \<Rightarrow> exchange_loop n expect k1 s2)
          else exchange_loop n expect k1 s1)"
  by pat_completeness auto

termination
  by (relation "measures [\<lambda>(n, e, k, s). k, \<lambda>(n, e, k, s). length (bc_pending (fst s))]")
    (auto dest!: next_frame_progress[OF sym] send_pending[OF sym])

declare exchange_loop.simps [simp del]

definition exchange ::
  "'w network \<Rightarrow> frame \<Rightarrow> gcommand \<Rightarrow> 'w conn \<Rightarrow> (adapter_exn + bytes) \<times> 'w conn"
where
  "exchange n request expect s =
     (case send n request s of
        (Inl e, s1) \<Rightarrow> (Inl e, s1)
      | (Inr u, s1) \<Rightarrow> exchange_loop n expect (net_reads n) s1)"

text \<open>The passcode and login exchange, and what \<open>connect\<close> makes of its outcome.\<close>

definition login :: "'w network \<Rightarrow> 'w conn \<Rightarrow> (adapter_exn + unit) \<times> 'w conn" where
  "login n s =
     (case exchange n \<lparr>fr_command = Known PASSCODE_REQUEST, fr_payload = [], fr_flag = 0\<rparr>
             PASSCODE_RESPONSE s of
        (Inl e, s1) \<Rightarrow> (Inl e, s1)
      | (Inr answer, (c, w)) \<Rightarrow>
          (case decode_length_prefixed answer of
             Inl e \<Rightarrow> (Inl (OtherException ''ProtocolError''), c, w)
           | Inr code \<Rightarrow>
               (case encode_length_prefixed code of
                  Inl e \<Rightarrow> (Inl (OtherException ''ProtocolError''), c\<lparr>bc_passcode := code\<rparr>, w)
                | Inr field \<Rightarrow>
                    (case exchange n \<lparr>fr_command = Known LOGIN_REQUEST, fr_payload = field, fr_flag = 0\<rparr>
                            LOGIN_RESPONSE (c\<lparr>bc_passcode := code\<rparr>, w) of
                       (Inl e, s2) \<Rightarrow> (Inl e, s2)
                     | (Inr answer2, s2) \<Rightarrow> (Inr (), s2)))))"

definition connect :: "'w network \<Rightarrow> 'w conn \<Rightarrow> (adapter_exn + unit) \<times> 'w conn" where
  "connect n s =
     (let (c, w) = close_client n s in
      case net_open n w of
        (Inl e, w1) \<Rightarrow> (Inl (io_exn e), c, w1)
      | (Inr u, w1) \<Rightarrow>
          (case login n (c\<lparr>bc_open := True, bc_buffer := [], bc_pending := []\<rparr>, w1) of
             (Inl TimeoutError, s2) \<Rightarrow> (Inl TimeoutError, s2)
           | (Inl e, s2) \<Rightarrow> (Inl e, close_client n s2)
           | (Inr v, s2) \<Rightarrow> (Inr (), s2)))"

definition read_status :: "'w network \<Rightarrow> 'w conn \<Rightarrow> (adapter_exn + bytes) \<times> 'w conn" where
  "read_status n =
     exchange n \<lparr>fr_command = Known STATUS_REQUEST, fr_payload = STATUS_READ_PAYLOAD, fr_flag = 0\<rparr>
       STATUS_RESPONSE"

definition send_control ::
  "'w network \<Rightarrow> int \<Rightarrow> bytes \<Rightarrow> 'w conn \<Rightarrow> (adapter_exn + unit) \<times> 'w conn"
where
  "send_control n attr_flags attr_vals = (\<lambda>(c, w).
     (let c1 = c\<lparr>bc_sequence := (bc_sequence c + 1) mod 2 ^ 32\<rparr> in
      case build_control_payload (int (bc_sequence c1)) attr_flags attr_vals of
        Inl e \<Rightarrow> (Inl (OtherException ''ProtocolError''), c1, w)
      | Inr payload \<Rightarrow>
          send n \<lparr>fr_command = Known CONTROL_REQUEST, fr_payload = payload, fr_flag = 0\<rparr> (c1, w)))"

end
