(* ===== verification/Bestway_Datapoints.thy ===== *)
theory Bestway_Datapoints
  imports Bestway_Protocol Ordered_Dict
begin

section \<open>Where the controller keeps its values, and the gate before a write\<close>

text \<open>
  \<open>integrations/bestway/datapoints.py\<close>: the claimed layout of a status block, its validation,
  decoding, the construction of a control block, and the temperature units. A \<open>frozenset\<close> of
  datapoints is a set; a layout that exists passed its validators (\<open>profile_ok\<close>). Reading a
  layout from a file is a parameter of the code that does it.
\<close>

datatype datapoint =
    CURRENT_TEMPERATURE | TARGET_TEMPERATURE | HEATER | FILTER_PUMP | BUBBLES
  | CONTROL_PANEL_LOCK | UNIT_IS_FAHRENHEIT

fun datapoint_value :: "datapoint \<Rightarrow> string" where
  "datapoint_value CURRENT_TEMPERATURE = ''CURRENT_TEMPERATURE''"
| "datapoint_value TARGET_TEMPERATURE = ''TARGET_TEMPERATURE''"
| "datapoint_value HEATER = ''HEATER''"
| "datapoint_value FILTER_PUMP = ''FILTER_PUMP''"
| "datapoint_value BUBBLES = ''BUBBLES''"
| "datapoint_value CONTROL_PANEL_LOCK = ''CONTROL_PANEL_LOCK''"
| "datapoint_value UNIT_IS_FAHRENHEIT = ''UNIT_IS_FAHRENHEIT''"

datatype location =
    ByteLocation (loc_kind: string) (loc_offset: int)
  | BitLocation (loc_kind: string) (loc_offset: int) (loc_bit: nat)

text \<open>A decoded value, \<open>int | bool\<close>: a \<open>bool\<close> is an \<open>int\<close>, so equality is that of numbers.\<close>

datatype dp_value = DInt int | DBool bool

fun dp_int :: "dp_value \<Rightarrow> int" where
  "dp_int (DInt n) = n"
| "dp_int (DBool b) = of_bool b"

definition dp_eq :: "dp_value \<Rightarrow> dp_value \<Rightarrow> bool" where
  "dp_eq a b \<longleftrightarrow> dp_int a = dp_int b"

definition dp_truthy :: "dp_value \<Rightarrow> bool" where
  "dp_truthy v \<longleftrightarrow> dp_int v \<noteq> 0"

datatype profile_error = ProfileError string | ValueError string

record datapoint_profile =
  pf_name :: string
  pf_provenance :: string
  pf_minimum_payload_length :: int
  pf_locations :: "(datapoint, location) odict"
  pf_target_temperature_min_c :: rat
  pf_target_temperature_max_c :: rat
  pf_target_temperature_step_c :: rat
  pf_control_values_offset :: "int option"
  pf_control_values_length :: "int option"
  pf_control_flag_bits :: "(datapoint, int) odict"
  pf_trusted :: bool
  pf_writable :: "datapoint set"

definition location_ok :: "location \<Rightarrow> bool" where
  "location_ok l \<longleftrightarrow> 0 \<le> loc_offset l \<and> loc_offset l < int MAX_PAYLOAD_BYTES \<and>
     (case l of ByteLocation k n \<Rightarrow> True | BitLocation k n b \<Rightarrow> b \<le> 7)"

definition range_is_ordered :: "datapoint_profile \<Rightarrow> bool" where
  "range_is_ordered p \<longleftrightarrow> pf_target_temperature_min_c p < pf_target_temperature_max_c p"

definition writable_is_known :: "datapoint_profile \<Rightarrow> bool" where
  "writable_is_known p \<longleftrightarrow>
     UNIT_IS_FAHRENHEIT \<notin> pf_writable p \<and>
     pf_writable p \<subseteq> fst ` set (pf_locations p) \<and>
     pf_writable p \<subseteq> fst ` set (pf_control_flag_bits p)"

definition profile_ok :: "datapoint_profile \<Rightarrow> bool" where
  "profile_ok p \<longleftrightarrow>
     1 \<le> pf_minimum_payload_length p \<and> pf_minimum_payload_length p \<le> int MAX_PAYLOAD_BYTES \<and>
     list_all (\<lambda>(d, l). location_ok l) (pf_locations p) \<and>
     od_wf (pf_locations p) \<and> od_wf (pf_control_flag_bits p) \<and>
     0 \<le> pf_target_temperature_min_c p \<and> pf_target_temperature_min_c p \<le> 60 \<and>
     0 \<le> pf_target_temperature_max_c p \<and> pf_target_temperature_max_c p \<le> 60 \<and>
     0 < pf_target_temperature_step_c p \<and> pf_target_temperature_step_c p \<le> 5 \<and>
     range_is_ordered p \<and> writable_is_known p"

definition may_write :: "datapoint_profile \<Rightarrow> datapoint \<Rightarrow> bool" where
  "may_write p d \<longleftrightarrow> pf_trusted p \<and> d \<in> pf_writable p"

subsection \<open>Decoding\<close>

definition decode_at :: "location \<Rightarrow> bytes \<Rightarrow> dp_value" where
  "decode_at l payload =
     (let raw = payload ! nat (loc_offset l) in
      case l of
        BitLocation k n b \<Rightarrow> DBool (drop_bit b raw AND 1 \<noteq> 0)
      | ByteLocation k n \<Rightarrow> DInt (uint raw))"

fun decode_items ::
  "(datapoint, location) odict \<Rightarrow> bytes \<Rightarrow> (datapoint, dp_value) odict
     \<Rightarrow> profile_error + (datapoint, dp_value) odict"
where
  "decode_items [] payload decoded = Inr decoded"
| "decode_items ((d, l) # items) payload decoded =
     (if int (length payload) \<le> loc_offset l
      then Inl (ProfileError (datapoint_value d @ '' points past the end of the payload''))
      else decode_items items payload (od_set d (decode_at l payload) decoded))"

definition decode ::
  "datapoint_profile \<Rightarrow> bytes \<Rightarrow> profile_error + (datapoint, dp_value) odict"
where
  "decode p payload =
     (if int (length payload) < pf_minimum_payload_length p
      then Inl (ProfileError ''status payload is shorter than the layout needs'')
      else decode_items (pf_locations p) payload [])"

definition location_for :: "datapoint_profile \<Rightarrow> datapoint \<Rightarrow> profile_error + location" where
  "location_for p d =
     (case od_get (pf_locations p) d of
        None \<Rightarrow> Inl (ProfileError (datapoint_value d @ '' is not part of this layout''))
      | Some l \<Rightarrow> Inr l)"

subsection \<open>Building a control request\<close>

text \<open>\<open>xs[a:b]\<close>, with Python's reading of negative bounds.\<close>

definition py_index :: "int \<Rightarrow> nat \<Rightarrow> nat" where
  "py_index i n = (if i < 0 then nat (max 0 (i + int n)) else min (nat i) n)"

definition py_slice :: "'a list \<Rightarrow> int \<Rightarrow> int \<Rightarrow> 'a list" where
  "py_slice xs a b =
     (let n = length xs in take (py_index b n - py_index a n) (drop (py_index a n) xs))"

definition set_field :: "location \<Rightarrow> dp_value \<Rightarrow> byte \<Rightarrow> profile_error + byte" where
  "set_field l v old =
     (case l of
        BitLocation k n b \<Rightarrow>
          (let mask = push_bit b 1 in
           Inr (if dp_truthy v then old OR mask else old AND (0xFF XOR mask)))
      | ByteLocation k n \<Rightarrow>
          (let number = dp_int v in
           if \<not> (0 \<le> number \<and> number \<le> 0xFF)
           then Inl (ProfileError ''value does not fit in one byte'')
           else Inr (of_int number)))"

definition encode_control ::
  "datapoint_profile \<Rightarrow> datapoint \<Rightarrow> dp_value \<Rightarrow> bytes \<Rightarrow> profile_error + int \<times> bytes"
where
  "encode_control p d v base_payload =
     (if \<not> may_write p d then Inl (ProfileError ''writing is not permitted'')
      else
        (case (pf_control_values_offset p, pf_control_values_length p) of
           (Some start, Some len) \<Rightarrow>
             (if int (length base_payload) < start + len
              then Inl (ProfileError ''no verified status block to build the control request from'')
              else
                (case od_get (pf_control_flag_bits p) d of
                   None \<Rightarrow> Inl (ProfileError ''no control flag bit is known'')
                 | Some flag_bit \<Rightarrow>
                     (case location_for p d of
                        Inl e \<Rightarrow> Inl e
                      | Inr l \<Rightarrow>
                          (let block = py_slice base_payload start (start + len);
                               index = loc_offset l - start
                           in if \<not> (0 \<le> index \<and> index < int (length block))
                              then Inl (ProfileError ''datapoint sits outside the control value block'')
                              else
                                (case set_field l v (block ! nat index) of
                                   Inl e \<Rightarrow> Inl e
                                 | Inr b \<Rightarrow>
                                     if flag_bit < 0 then Inl (ValueError ''negative shift count'')
                                     else Inr (2 ^ nat flag_bit, block[nat index := b]))))))
         | _ \<Rightarrow> Inl (ProfileError ''this layout does not say where the control values sit'')))"

subsection \<open>The layouts that ship\<close>

definition CANDIDATE_PROFILE :: datapoint_profile where
  "CANDIDATE_PROFILE =
     \<lparr>pf_name = ''airjet-candidate'',
      pf_provenance = ''community documentation, unverified against hardware'',
      pf_minimum_payload_length = 12,
      pf_locations =
        [(CURRENT_TEMPERATURE, ByteLocation ''byte'' 6),
         (TARGET_TEMPERATURE, ByteLocation ''byte'' 5),
         (HEATER, BitLocation ''bit'' 4 2),
         (FILTER_PUMP, BitLocation ''bit'' 4 1),
         (BUBBLES, BitLocation ''bit'' 4 0),
         (CONTROL_PANEL_LOCK, BitLocation ''bit'' 4 3),
         (UNIT_IS_FAHRENHEIT, BitLocation ''bit'' 4 4)],
      pf_target_temperature_min_c = 20, pf_target_temperature_max_c = 40,
      pf_target_temperature_step_c = 1,
      pf_control_values_offset = Some 4, pf_control_values_length = Some 8,
      pf_control_flag_bits =
        [(BUBBLES, 0), (FILTER_PUMP, 1), (HEATER, 2), (CONTROL_PANEL_LOCK, 3),
         (TARGET_TEMPERATURE, 7)],
      pf_trusted = False, pf_writable = {}\<rparr>"

definition AIRJET_19BYTE_PROFILE :: datapoint_profile where
  "AIRJET_19BYTE_PROFILE =
     \<lparr>pf_name = ''airjet-19byte'',
      pf_provenance = ''observed against a physical controller: bits by button press, temperature range read off the panel'',
      pf_minimum_payload_length = 19,
      pf_locations =
        [(TARGET_TEMPERATURE, ByteLocation ''byte'' 2),
         (CURRENT_TEMPERATURE, ByteLocation ''byte'' 15),
         (HEATER, BitLocation ''bit'' 1 1),
         (FILTER_PUMP, BitLocation ''bit'' 1 2),
         (BUBBLES, BitLocation ''bit'' 1 3),
         (CONTROL_PANEL_LOCK, BitLocation ''bit'' 1 4)],
      pf_target_temperature_min_c = 20, pf_target_temperature_max_c = 40,
      pf_target_temperature_step_c = 1,
      pf_control_values_offset = Some 1, pf_control_values_length = Some 14,
      pf_control_flag_bits =
        [(HEATER, 1), (FILTER_PUMP, 2), (BUBBLES, 3), (CONTROL_PANEL_LOCK, 4),
         (TARGET_TEMPERATURE, 7)],
      pf_trusted = False, pf_writable = {}\<rparr>"

definition builtin_profile :: "string \<Rightarrow> profile_error + datapoint_profile" where
  "builtin_profile name =
     (case od_get [(pf_name CANDIDATE_PROFILE, CANDIDATE_PROFILE),
                   (pf_name AIRJET_19BYTE_PROFILE, AIRJET_19BYTE_PROFILE)] name of
        None \<Rightarrow> Inl (ProfileError ''no built-in datapoint layout of this name'')
      | Some p \<Rightarrow> Inr p)"

subsection \<open>Units\<close>

definition to_celsius :: "rat \<Rightarrow> bool \<Rightarrow> rat" where
  "to_celsius value fahrenheit =
     (if fahrenheit then py_round_digits ((value - 32) * 5 / 9) 1 else value)"

definition from_celsius :: "rat \<Rightarrow> bool \<Rightarrow> int" where
  "from_celsius value fahrenheit =
     (let converted = (if fahrenheit then value * 9 / 5 + 32 else value) in py_round converted)"

subsection \<open>What decoding reads\<close>

lemma decode_items_Inr:
  "(\<exists>r. decode_items items payload acc = Inr r) \<longleftrightarrow> (\<forall>(d, l) \<in> set items. loc_offset l < int (length payload))"
  by (induction items payload acc rule: decode_items.induct) (auto simp: not_less)

lemma decode_items_get:
  "od_wf items \<Longrightarrow> decode_items items payload acc = Inr r \<Longrightarrow>
     od_get r d = (case od_get items d of Some l \<Rightarrow> Some (decode_at l payload) | None \<Rightarrow> od_get acc d)"
proof (induction items payload acc rule: decode_items.induct)
  case (2 d' l items payload acc)
  then have "od_get items d' = None" by (simp add: od_wf_def od_get_None_iff)
  moreover have "od_get ((d', l) # items) d = (if d = d' then Some l else od_get items d)"
    by (simp add: od_get_def)
  ultimately show ?case
    using 2 by (auto simp: od_wf_def od_get_set split: if_splits option.splits)
qed simp

lemma decode_get:
  assumes "profile_ok p" and "decode p payload = Inr r"
  shows "od_get r d = map_option (\<lambda>l. decode_at l payload) (od_get (pf_locations p) d)"
  using assms decode_items_get[of "pf_locations p" payload "[]" r d]
  by (auto simp: decode_def profile_ok_def split: if_splits option.splits)

lemma decode_Inr:
  "(\<exists>r. decode p payload = Inr r) \<longleftrightarrow> pf_minimum_payload_length p \<le> int (length payload) \<and>
     (\<forall>(d, l) \<in> set (pf_locations p). loc_offset l < int (length payload))"
  using decode_items_Inr[of "pf_locations p" payload "[]"] by (auto simp: decode_def)

text \<open>Two fields that share no bit.\<close>

fun field_disjoint :: "location \<Rightarrow> location \<Rightarrow> bool" where
  "field_disjoint (BitLocation k n b) (BitLocation k' n' b') \<longleftrightarrow> n \<noteq> n' \<or> b \<noteq> b'"
| "field_disjoint l l' \<longleftrightarrow> loc_offset l \<noteq> loc_offset l'"

definition layout_disjoint :: "datapoint_profile \<Rightarrow> bool" where
  "layout_disjoint p \<longleftrightarrow>
     (\<forall>(d, l) \<in> set (pf_locations p). \<forall>(d', l') \<in> set (pf_locations p). d \<noteq> d' \<longrightarrow> field_disjoint l l')"

text \<open>What a field of a location can hold of a value.\<close>

definition held :: "location \<Rightarrow> dp_value \<Rightarrow> int" where
  "held l v = (case l of BitLocation k n b \<Rightarrow> of_bool (dp_truthy v) | ByteLocation k n \<Rightarrow> dp_int v)"

lemma bit_test: "drop_bit b (w :: byte) AND 1 \<noteq> 0 \<longleftrightarrow> bit w b"
  by (simp add: and_one_eq bit_iff_odd_drop_bit odd_iff_mod_2_eq_one flip: mod_2_eq_odd)

lemma byte_mask_not: "(0xFF :: byte) XOR m = NOT m"
proof -
  have eq: "(0xFF :: byte) = NOT 0" by simp
  have "NOT 0 XOR m = NOT m" for m :: byte by (rule bit_eqI) (auto simp: bit_simps)
  then show ?thesis unfolding eq .
qed

lemma bit_clear: "bit (old AND (0xFF XOR push_bit i 1)) j \<longleftrightarrow> bit (old :: byte) j \<and> j \<noteq> i"
  unfolding byte_mask_not by (auto simp: bit_simps dest: bit_imp_le_length)

lemma bit_raise: "i \<le> 7 \<Longrightarrow> bit (old OR push_bit i 1) j \<longleftrightarrow> bit (old :: byte) j \<or> j = i"
  by (auto simp: bit_simps dest: bit_imp_le_length)

lemma set_field_self:
  assumes "location_ok l" and "set_field l v old = Inr b" and "payload ! nat (loc_offset l) = b"
  shows "dp_int (decode_at l payload) = held l v"
proof (cases l)
  case (ByteLocation k n)
  with assms have "0 \<le> dp_int v" "dp_int v \<le> 255" "payload ! nat n = of_int (dp_int v)"
    by (auto simp: set_field_def Let_def split: if_splits)
  with ByteLocation show ?thesis
    by (simp add: decode_at_def held_def uint_word_of_int_eq take_bit_int_eq_self)
next
  case (BitLocation k n i)
  with assms have "i \<le> 7" by (simp add: location_ok_def)
  moreover have "b = (if dp_truthy v then old OR push_bit i 1 else old AND (0xFF XOR push_bit i 1))"
    using assms(2) BitLocation by (simp add: set_field_def Let_def del: push_bit_of_1)
  ultimately have "bit b i \<longleftrightarrow> dp_truthy v"
    by (simp add: bit_clear bit_raise del: push_bit_of_1)
  with BitLocation assms(3) show ?thesis by (simp add: decode_at_def held_def bit_test)
qed

lemma set_field_other:
  assumes "location_ok l'" and "field_disjoint l l'" and "set_field l v (payload ! nat (loc_offset l)) = Inr b"
    and "location_ok l" and "loc_offset l < int (length payload)"
  shows "decode_at l' (payload[nat (loc_offset l) := b]) = decode_at l' payload"
proof (cases "loc_offset l' = loc_offset l")
  case False
  moreover have "0 \<le> loc_offset l" "0 \<le> loc_offset l'" using assms(1,4) by (simp_all add: location_ok_def)
  ultimately have "nat (loc_offset l) \<noteq> nat (loc_offset l')" by simp
  then show ?thesis by (simp add: decode_at_def)
next
  case True
  with assms(2) obtain k n i k' i' where l: "l = BitLocation k n i" "l' = BitLocation k' n i'" "i \<noteq> i'"
    by (cases "(l, l')" rule: field_disjoint.cases) auto
  moreover have "i \<le> 7" "i' \<le> 7" "n < int (length payload)" "0 \<le> n"
    using assms(1,4,5) l by (simp_all add: location_ok_def)
  ultimately show ?thesis
    using assms(3)
    by (auto simp: decode_at_def set_field_def bit_test bit_clear bit_raise Let_def simp del: push_bit_of_1 split: if_splits)
qed

subsection \<open>What a control request is\<close>

text \<open>
  A slice from a position inside the payload is a block of it. A negative end, which a layout
  with a negative length has, counts from the end of the payload.
\<close>

lemma py_slice_block:
  assumes "0 \<le> a" and "b \<le> int (length xs)" and "py_slice xs a b \<noteq> []"
  obtains len where "py_slice xs a b = take len (drop (nat a) xs)" "nat a + len \<le> length xs"
    and "a \<le> b \<Longrightarrow> b = a + int len"
proof -
  have a: "nat a < length xs" "py_index a (length xs) = nat a"
    using assms(1,3) by (auto simp: py_slice_def py_index_def Let_def min_def split: if_splits)
  have "py_index b (length xs) \<le> length xs" by (auto simp: py_index_def)
  moreover have "py_index b (length xs) = nat b" if "a \<le> b"
    using that assms(1,2) by (simp add: py_index_def nat_le_iff)
  ultimately show ?thesis
    using that[of "py_index b (length xs) - nat a"] a assms(1) by (auto simp: py_slice_def Let_def)
qed

text \<open>A block that starts before the payload never holds the field: the index is past its end.\<close>

lemma py_slice_negative:
  assumes "a < 0" and "b \<le> int (length xs)" and "0 \<le> off"
  shows "int (length (py_slice xs a b)) \<le> off - a"
proof -
  have "int (py_index b (length xs)) - int (py_index a (length xs)) \<le> - a"
    using assms(1,2) by (auto simp: py_index_def max_def min_def)
  moreover have "int (length (py_slice xs a b)) \<le> max 0 (int (py_index b (length xs)) - int (py_index a (length xs)))"
    by (simp add: py_slice_def Let_def)
  ultimately show ?thesis using assms(1,3) by linarith
qed

lemma encode_control_Inr:
  assumes "encode_control p d v base = Inr (flags, vals)" and "profile_ok p"
  obtains start len m l bit i b where
    "may_write p d" "pf_control_values_offset p = Some (int start)" "pf_control_values_length p = Some m"
    "0 \<le> m \<Longrightarrow> m = int len"
    "start + len \<le> length base" "od_get (pf_locations p) d = Some l" "location_ok l"
    "loc_offset l = int (start + i)" "i < len"
    "set_field l v (base ! (start + i)) = Inr b"
    "vals = (take len (drop start base))[i := b]"
    "od_get (pf_control_flag_bits p) d = Some (int bit)" "flags = 2 ^ bit"
proof -
  from assms(1) obtain a m fb l where gate: "may_write p d"
    and o: "pf_control_values_offset p = Some a" "pf_control_values_length p = Some m"
    and fit: "a + m \<le> int (length base)" and fb: "od_get (pf_control_flag_bits p) d = Some fb"
    and l: "od_get (pf_locations p) d = Some l"
    and index: "0 \<le> loc_offset l - a" "loc_offset l - a < int (length (py_slice base a (a + m)))"
    by (auto simp: encode_control_def location_for_def Let_def
        split: if_splits option.splits sum.splits)
  have ok: "location_ok l"
    using od_get_in[OF l] assms(2) by (auto simp: profile_ok_def list_all_iff)
  have pos: "0 \<le> a"
    using py_slice_negative[of a "a + m" base "loc_offset l"] fit index ok
    by (fastforce simp: location_ok_def)
  have "py_slice base a (a + m) \<noteq> []" using index by auto
  from py_slice_block[OF pos fit this] obtain len where
    slice: "py_slice base a (a + m) = take len (drop (nat a) base)" "nat a + len \<le> length base"
    and m: "0 \<le> m \<Longrightarrow> m = int len" by auto
  define i where "i = nat (loc_offset l - a)"
  have i: "loc_offset l - a = int i" using index(1) by (simp add: i_def)
  have bound: "i < len" using index(2) slice(2) unfolding slice(1) i by auto
  have here: "take len (drop (nat a) base) ! i = base ! (nat a + i)"
    using bound slice(2) by simp
  from assms(1) gate o fit fb l index
  obtain b where b: "set_field l v (base ! (nat a + i)) = Inr b" "0 \<le> fb" "flags = 2 ^ nat fb"
    and vals: "vals = (take len (drop (nat a) base))[i := b]"
    by (auto simp: encode_control_def location_for_def Let_def slice(1) i here split: if_splits sum.splits)
  show ?thesis
  proof (rule that[of "nat a" m len l i b "nat fb"])
    show "loc_offset l = int (nat a + i)" using i pos by linarith
  qed (use gate o pos m l ok bound slice(2) b vals fb in simp_all)
qed

text \<open>The controller takes over the block of a control request.\<close>

definition controller_applies :: "datapoint_profile \<Rightarrow> bytes \<Rightarrow> bytes \<Rightarrow> bytes" where
  "controller_applies p vals base =
     (let start = nat (the (pf_control_values_offset p)) in
      take start base @ vals @ drop (start + length vals) base)"

lemma splice_update:
  assumes "start + len \<le> length base" and "i < len"
  shows "take start base @ (take len (drop start base))[i := b] @ drop (start + len) base = base[start + i := b]"
proof -
  have "base = take start base @ take len (drop start base) @ drop (start + len) base"
    by (metis append_take_drop_id add.commute drop_drop)
  then have "base[start + i := b] = (take start base @ take len (drop start base) @ drop (start + len) base)[start + i := b]"
    by simp
  also have "\<dots> = take start base @ (take len (drop start base))[i := b] @ drop (start + len) base"
    using assms by (simp add: list_update_append)
  finally show ?thesis by simp
qed

subsection \<open>Properties\<close>

text \<open>
  C21. No byte leaves for the controller without a release: a control request exists only for a
  trusted layout and a datapoint released for writing, never the temperature unit; it raises
  exactly that datapoint's flag, and its value block is the block the controller reported with
  at most one byte changed, the one that holds the datapoint.
\<close>

theorem control_gated:
  assumes "profile_ok p" and "encode_control p d v base = Inr (flags, vals)"
  shows "pf_trusted p \<and> d \<in> pf_writable p \<and> d \<noteq> UNIT_IS_FAHRENHEIT \<and>
    (\<exists>bit. od_get (pf_control_flag_bits p) d = Some (int bit) \<and> flags = 2 ^ bit) \<and>
    (\<exists>start len i b l. pf_control_values_offset p = Some (int start) \<and>
      start + len \<le> length base \<and> i < len \<and>
      (\<forall>m \<ge> 0. pf_control_values_length p = Some m \<longrightarrow> m = int len) \<and>
      od_get (pf_locations p) d = Some l \<and> loc_offset l = int (start + i) \<and>
      vals = (take len (drop start base))[i := b])"
proof -
  from assms(1) have "UNIT_IS_FAHRENHEIT \<notin> pf_writable p"
    by (simp add: profile_ok_def writable_is_known_def)
  moreover from encode_control_Inr[OF assms(2,1)] obtain start len m l bit i b where
    "may_write p d" "pf_control_values_offset p = Some (int start)" "pf_control_values_length p = Some m"
    "0 \<le> m \<Longrightarrow> m = int len" "start + len \<le> length base" "od_get (pf_locations p) d = Some l"
    "loc_offset l = int (start + i)" "i < len" "vals = (take len (drop start base))[i := b]"
    "od_get (pf_control_flag_bits p) d = Some (int bit)" "flags = 2 ^ bit" by metis
  ultimately show ?thesis
    by (simp add: may_write_def) metis
qed

definition released_profile :: datapoint_profile where
  "released_profile =
     AIRJET_19BYTE_PROFILE\<lparr>pf_trusted := True, pf_writable := {HEATER, TARGET_TEMPERATURE}\<rparr>"

lemma released_profile_ok: "profile_ok released_profile"
  by (simp add: profile_ok_def released_profile_def AIRJET_19BYTE_PROFILE_def location_ok_def
      MAX_PAYLOAD_BYTES_def od_wf_def range_is_ordered_def writable_is_known_def)

definition sample_payload :: bytes where
  "sample_payload = [3, 4, 30] @ replicate 12 0 @ [28, 0, 0, 0]"

lemma released_heater_on:
  "encode_control released_profile HEATER (DBool True) sample_payload =
     Inr (2, [6, 30] @ replicate 12 0)"
  by (simp add: encode_control_def released_profile_def AIRJET_19BYTE_PROFILE_def may_write_def
      sample_payload_def location_for_def od_get_def py_slice_def py_index_def set_field_def
      dp_truthy_def eval_nat_numeral)

theorem control_gated_witness:
  "pf_trusted released_profile \<and> HEATER \<in> pf_writable released_profile"
  using control_gated[OF released_profile_ok released_heater_on] by blast

text \<open>
  C22. Writing then reading gives back what was written: when the controller takes over the block
  of a control request, the new status decodes, the written datapoint reads as what was asked for as
  far as its field can hold it, and every other datapoint whose field shares no bit with it reads
  as before. The validators do not ask that fields be apart; a layout that does, as both
  shipped ones do, reads every other datapoint as before.
\<close>

theorem control_roundtrip:
  assumes "profile_ok p" and "decode p base = Inr before"
    and "encode_control p d v base = Inr (flags, vals)"
  shows "\<exists>after l w. decode p (controller_applies p vals base) = Inr after \<and>
    od_get (pf_locations p) d = Some l \<and> od_get after d = Some w \<and> dp_int w = held l v \<and>
    (\<forall>d'. d' \<noteq> d \<and> (\<forall>l'. od_get (pf_locations p) d' = Some l' \<longrightarrow> field_disjoint l l') \<longrightarrow>
       od_get after d' = od_get before d') \<and>
    (layout_disjoint p \<longrightarrow> (\<forall>d'. d' \<noteq> d \<longrightarrow> od_get after d' = od_get before d'))"
proof -
  from encode_control_Inr[OF assms(3,1)] obtain start len l i b where
    o: "pf_control_values_offset p = Some (int start)" and fit: "start + len \<le> length base"
    and l: "od_get (pf_locations p) d = Some l" "location_ok l" "loc_offset l = int (start + i)"
    and i: "i < len" and b: "set_field l v (base ! (start + i)) = Inr b"
    and vals: "vals = (take len (drop start base))[i := b]" by metis
  have here: "nat (loc_offset l) = start + i" using l(3) by simp
  have new: "controller_applies p vals base = base[start + i := b]"
    using splice_update[OF fit i, of b] fit by (simp add: controller_applies_def o vals Let_def)
  obtain after where after: "decode p (base[start + i := b]) = Inr after"
    using decode_Inr[of p base] decode_Inr[of p "base[start + i := b]"] assms(2) by auto
  have apart: "od_get after d' = od_get before d'"
    if other: "d' \<noteq> d" "\<And>l'. od_get (pf_locations p) d' = Some l' \<Longrightarrow> field_disjoint l l'" for d'
  proof (cases "od_get (pf_locations p) d'")
    case (Some l')
    then have "location_ok l'" "field_disjoint l l'"
      using assms(1) other(2) by (auto simp: profile_ok_def list_all_iff dest: od_get_in)
    then have "decode_at l' (base[nat (loc_offset l) := b]) = decode_at l' base"
      by (rule set_field_other) (use b l fit i here in simp_all)
    then show ?thesis
      using decode_get[OF assms(1) after] decode_get[OF assms(1,2)] Some here by simp
  qed (use decode_get[OF assms(1) after] decode_get[OF assms(1,2)] in simp)
  moreover have "od_get after d' = od_get before d'" if "layout_disjoint p" "d' \<noteq> d" for d'
  proof (rule apart[OF that(2)])
    show "field_disjoint l l'" if "od_get (pf_locations p) d' = Some l'" for l'
      using od_get_in[OF l(1)] od_get_in[OF that] \<open>layout_disjoint p\<close> \<open>d' \<noteq> d\<close>
      by (auto simp: layout_disjoint_def)
  qed
  moreover have "dp_int (decode_at l (base[start + i := b])) = held l v"
    by (rule set_field_self[OF l(2) b]) (use here fit i in simp)
  ultimately show ?thesis
    using after l(1) decode_get[OF assms(1) after, of d] unfolding new by auto
qed

lemma released_profile_disjoint: "layout_disjoint released_profile"
  by (simp add: layout_disjoint_def released_profile_def AIRJET_19BYTE_PROFILE_def)

theorem control_roundtrip_witness:
  "\<exists>before after w. decode released_profile sample_payload = Inr before \<and>
     decode released_profile (controller_applies released_profile ([6, 30] @ replicate 12 0) sample_payload) = Inr after \<and>
     od_get after HEATER = Some w \<and> dp_int w = 1 \<and>
     od_get after datapoint.TARGET_TEMPERATURE = od_get before datapoint.TARGET_TEMPERATURE"
proof -
  obtain before where before: "decode released_profile sample_payload = Inr before"
    using decode_Inr[of released_profile sample_payload]
    by (auto simp: released_profile_def AIRJET_19BYTE_PROFILE_def sample_payload_def)
  have "od_get (pf_locations released_profile) HEATER = Some l \<Longrightarrow> held l (DBool True) = 1" for l
    by (auto simp: released_profile_def AIRJET_19BYTE_PROFILE_def od_get_def held_def dp_truthy_def)
  with control_roundtrip[OF released_profile_ok before released_heater_on] before released_profile_disjoint
  show ?thesis by fastforce
qed

text \<open>
  Layouts whose fields overlap pass validation, and writing one datapoint then moves another: here
  pump and heater share a bit.
\<close>

definition overlapping_profile :: datapoint_profile where
  "overlapping_profile =
     released_profile\<lparr>pf_locations := [(HEATER, BitLocation ''bit'' 1 1), (FILTER_PUMP, BitLocation ''bit'' 1 1),
       (datapoint.TARGET_TEMPERATURE, ByteLocation ''byte'' 2)]\<rparr>"

lemma overlap_moves_other:
  "profile_ok overlapping_profile \<and> \<not> layout_disjoint overlapping_profile \<and>
   (\<exists>flags vals before after.
      encode_control overlapping_profile HEATER (DBool True) sample_payload = Inr (flags, vals) \<and>
      decode overlapping_profile sample_payload = Inr before \<and>
      decode overlapping_profile (controller_applies overlapping_profile vals sample_payload) = Inr after \<and>
      od_get after FILTER_PUMP \<noteq> od_get before FILTER_PUMP)"
proof -
  have "profile_ok overlapping_profile"
    by (simp add: profile_ok_def overlapping_profile_def released_profile_def AIRJET_19BYTE_PROFILE_def location_ok_def
        MAX_PAYLOAD_BYTES_def od_wf_def range_is_ordered_def writable_is_known_def)
  moreover have "\<not> layout_disjoint overlapping_profile"
    by (simp add: layout_disjoint_def overlapping_profile_def)
  moreover have "encode_control overlapping_profile HEATER (DBool True) sample_payload = Inr (2, [6, 30] @ replicate 12 0)"
    by (simp add: encode_control_def overlapping_profile_def released_profile_def AIRJET_19BYTE_PROFILE_def
        may_write_def sample_payload_def location_for_def od_get_def py_slice_def py_index_def set_field_def
        dp_truthy_def eval_nat_numeral)
  moreover have "case decode overlapping_profile sample_payload of
      Inr before \<Rightarrow> od_get before FILTER_PUMP = Some (DBool False) | Inl e \<Rightarrow> False"
    by code_simp
  moreover have "case decode overlapping_profile
      (controller_applies overlapping_profile ([6, 30] @ replicate 12 0) sample_payload) of
      Inr after \<Rightarrow> od_get after FILTER_PUMP = Some (DBool True) | Inl e \<Rightarrow> False"
    by code_simp
  ultimately show ?thesis by (auto split: sum.splits)
qed

text \<open>
  The layouts that ship cannot write: both pass validation and keep their fields apart,
  neither is trusted, and every control request is refused under either of them.
\<close>

lemma builtin_profiles_refuse:
  assumes "builtin_profile name = Inr p"
  shows "profile_ok p \<and> layout_disjoint p \<and> \<not> pf_trusted p \<and>
    encode_control p d v base = Inl (ProfileError ''writing is not permitted'')"
proof -
  from assms have "p = CANDIDATE_PROFILE \<or> p = AIRJET_19BYTE_PROFILE"
    by (auto simp: builtin_profile_def od_get_def split: if_splits)
  then show ?thesis
    by (elim disjE)
      (simp_all add: CANDIDATE_PROFILE_def AIRJET_19BYTE_PROFILE_def profile_ok_def location_ok_def
        MAX_PAYLOAD_BYTES_def od_wf_def range_is_ordered_def writable_is_known_def layout_disjoint_def
        encode_control_def may_write_def)
qed

text \<open>
  Unit conversion loses nothing the controller reported: any whole number it shows, in either
  unit, is converted to Celsius and back to the same number; and a setpoint sent to it is within
  half a degree Celsius of what was asked for.
\<close>

lemma celsius_roundtrip:
  "from_celsius (to_celsius (of_int n) fahrenheit) fahrenheit = n \<and>
   \<bar>to_celsius (of_int (from_celsius c fahrenheit)) fahrenheit - c\<bar> \<le> 1 / 2"
proof (cases fahrenheit)
  case True
  let ?c = "(of_int n - 32) * 5 / 9 :: rat"
  let ?r = "py_round_digits ?c 1"
  have e: "\<bar>?r - ?c\<bar> \<le> 1 / 20" using py_round_digits_error[of ?c 1] by simp
  have "\<bar>x - (r * 9 / 5 + 32)\<bar> < 1 / 2" if "\<bar>r - (x - 32) * 5 / 9\<bar> \<le> 1 / 20" for r x :: rat
    using that unfolding abs_le_iff abs_less_iff by (simp add: field_simps)
  with e have "\<bar>of_int n - (?r * 9 / 5 + 32)\<bar> < 1 / 2" by blast
  then have same: "py_round (?r * 9 / 5 + 32) = n" by (rule py_round_unique)
  let ?f = "of_int (py_round (c * 9 / 5 + 32)) :: rat"
  let ?d = "(?f - 32) * 5 / 9"
  have "\<bar>?f - (c * 9 / 5 + 32)\<bar> \<le> 1 / 2" by (rule py_round_error)
  then have "\<bar>?d - c\<bar> \<le> 5 / 18" by (simp add: abs_le_iff field_simps)
  moreover have "\<bar>py_round_digits ?d 1 - ?d\<bar> \<le> 1 / 20" using py_round_digits_error[of ?d 1] by simp
  ultimately have "\<bar>py_round_digits ?d 1 - c\<bar> \<le> 1 / 2" by linarith
  with same True show ?thesis by (simp add: to_celsius_def from_celsius_def Let_def)
next
  case False
  then show ?thesis
    using py_round_error[of c] by (simp add: to_celsius_def from_celsius_def)
qed

end
