(* ===== verification/Bestway_Provider.thy ===== *)
theory Bestway_Provider
  imports Bestway_Client Bestway_Datapoints Device_Model
begin

section \<open>The adapter of the pool controller\<close>

text \<open>
  \<open>integrations/bestway/provider.py\<close>: discovery, reading with one reconnect, writing with
  read-back, and the polling loop. The adapter's state stands beside the network's world. Its
  clock is a stream with a count of the readings taken.
\<close>

definition BESTWAY_PROVIDER_NAME :: string where "BESTWAY_PROVIDER_NAME = ''bestway''"
definition BESTWAY_DEVICE_ID :: string where "BESTWAY_DEVICE_ID = ''airjet''"
definition DEFAULT_CONFIRM_ATTEMPTS :: nat where "DEFAULT_CONFIRM_ATTEMPTS = 6"

fun write_capability :: "datapoint \<Rightarrow> capability option" where
  "write_capability datapoint.TARGET_TEMPERATURE = Some capability.TARGET_TEMPERATURE"
| "write_capability HEATER = Some HEATING"
| "write_capability FILTER_PUMP = Some FILTER"
| "write_capability datapoint.BUBBLES = Some capability.BUBBLES"
| "write_capability datapoint.CONTROL_PANEL_LOCK = Some capability.CONTROL_PANEL_LOCK"
| "write_capability datapoint.CURRENT_TEMPERATURE = None"
| "write_capability UNIT_IS_FAHRENHEIT = None"

text \<open>The keys of \<open>_WRITE_CAPABILITIES\<close>, in their order.\<close>

definition write_datapoints :: "datapoint list" where
  "write_datapoints =
     [datapoint.TARGET_TEMPERATURE, HEATER, FILTER_PUMP, datapoint.BUBBLES, datapoint.CONTROL_PANEL_LOCK]"

fun action_datapoint :: "action \<Rightarrow> datapoint option" where
  "action_datapoint SET_TARGET_TEMPERATURE = Some datapoint.TARGET_TEMPERATURE"
| "action_datapoint SET_HEATER = Some HEATER"
| "action_datapoint SET_FILTER = Some FILTER_PUMP"
| "action_datapoint SET_BUBBLES = Some datapoint.BUBBLES"
| "action_datapoint SET_CONTROL_PANEL_LOCK = Some datapoint.CONTROL_PANEL_LOCK"
| "action_datapoint _ = None"

definition airjet_ref :: provider_device_ref where
  "airjet_ref = \<lparr>ref_provider = BESTWAY_PROVIDER_NAME, ref_provider_device_id = BESTWAY_DEVICE_ID\<rparr>"

text \<open>The configuration of an adapter, fixed when it is built.\<close>

record 'w bestway_config =
  bf_network :: "'w network"
  bf_profile :: datapoint_profile
  bf_clock :: "nat \<Rightarrow> datetime"
  bf_display_name :: string
  bf_room_hint :: "string option"
  bf_confirm_attempts :: nat

record bestway =
  bw_client :: bestway_client
  bw_last_payload :: "bytes option"
  bw_availability :: availability
  bw_ticks :: nat

definition new_bestway :: bestway where
  "new_bestway =
     \<lparr>bw_client = new_client, bw_last_payload = None, bw_availability = availability.UNKNOWN, bw_ticks = 0\<rparr>"

definition on_client :: "('w conn \<Rightarrow> 'r \<times> 'w conn) \<Rightarrow> bestway \<times> 'w \<Rightarrow> 'r \<times> bestway \<times> 'w" where
  "on_client f = (\<lambda>(b, w). let (r, c, w1) = f (bw_client b, w) in (r, b\<lparr>bw_client := c\<rparr>, w1))"

subsection \<open>Discovery\<close>

definition bestway_capabilities :: "datapoint_profile \<Rightarrow> capability list" where
  "bestway_capabilities p =
     (if od_get (pf_locations p) datapoint.CURRENT_TEMPERATURE \<noteq> None
      then [capability.CURRENT_TEMPERATURE] else []) @
     List.map_filter (\<lambda>d. if may_write p d then write_capability d else None) write_datapoints"

definition bestway_discover :: "'w bestway_config \<Rightarrow> provider_device list" where
  "bestway_discover cf =
     (let p = bf_profile cf in
      if \<not> pf_trusted p then []
      else
        [\<lparr>pd_ref = airjet_ref, pd_suggested_name = bf_display_name cf, pd_kind = POOL,
          pd_capabilities = bestway_capabilities p, pd_room_hint = bf_room_hint cf,
          pd_constraints =
            \<lparr>dc_target_temperature_min_c = Some (pf_target_temperature_min_c p),
             dc_target_temperature_max_c = Some (pf_target_temperature_max_c p),
             dc_target_temperature_step_c = Some (pf_target_temperature_step_c p)\<rparr>\<rparr>])"

subsection \<open>Reading\<close>

text \<open>One attempt, then one more after reconnecting; a malformed answer ends both.\<close>

definition read_attempt :: "'w network \<Rightarrow> 'w conn \<Rightarrow> (adapter_exn + bytes) \<times> 'w conn" where
  "read_attempt n s =
     (if is_connected n s then read_status n s
      else (case connect n s of (Inl e, s1) \<Rightarrow> (Inl e, s1) | (Inr u, s1) \<Rightarrow> read_status n s1))"

fun read_with_retry :: "'w network \<Rightarrow> nat \<Rightarrow> 'w conn \<Rightarrow> (adapter_exn + bytes) \<times> 'w conn" where
  "read_with_retry n 0 s = (Inl (Provider ProviderUnavailableError), s)"
| "read_with_retry n (Suc left) s =
     (case read_attempt n s of
        (Inl (Provider ControllerMisbehaved), s1) \<Rightarrow> (Inl (Provider ControllerMisbehaved), close_client n s1)
      | (Inl (Provider ProviderUnavailableError), s1) \<Rightarrow>
          (let s2 = close_client n s1 in
           if left = 0 then (Inl (Provider ProviderUnavailableError), s2) else read_with_retry n left s2)
      | (r, s1) \<Rightarrow> (r, s1))"

definition read_payload ::
  "'w bestway_config \<Rightarrow> bestway \<times> 'w \<Rightarrow> (adapter_exn + bytes) \<times> bestway \<times> 'w"
where
  "read_payload cf s =
     (case on_client (read_with_retry (bf_network cf) 2) s of
        (Inl e, s1) \<Rightarrow> (Inl e, s1)
      | (Inr payload, (b, w)) \<Rightarrow>
          (case decode (bf_profile cf) payload of
             Inl e \<Rightarrow> (Inl (Provider ProviderUnavailableError), b, w)
           | Inr decoded \<Rightarrow>
               (Inr payload,
                b\<lparr>bw_last_payload := Some payload, bw_availability := availability.ONLINE\<rparr>, w)))"

text \<open>\<open>_to_state\<close>: the canonical state of decoded values.\<close>

definition fahrenheit_of :: "(datapoint, dp_value) odict \<Rightarrow> bool" where
  "fahrenheit_of decoded =
     (case od_get decoded UNIT_IS_FAHRENHEIT of None \<Rightarrow> False | Some v \<Rightarrow> dp_truthy v)"

definition to_state :: "(datapoint, dp_value) odict \<Rightarrow> device_state" where
  "to_state decoded =
     (let fahrenheit = fahrenheit_of decoded;
          temperature = (\<lambda>d. map_option (\<lambda>v. to_celsius (of_int (dp_int v)) fahrenheit) (od_get decoded d));
          flag = (\<lambda>d. map_option dp_truthy (od_get decoded d))
      in empty_state
           \<lparr>ds_current_temperature_c := temperature datapoint.CURRENT_TEMPERATURE,
            ds_target_temperature_c := temperature datapoint.TARGET_TEMPERATURE,
            ds_heater := flag HEATER, ds_filter_pump := flag FILTER_PUMP,
            ds_bubbles := flag datapoint.BUBBLES,
            ds_control_panel_lock := flag datapoint.CONTROL_PANEL_LOCK\<rparr>)"

definition stamped :: "'w bestway_config \<Rightarrow> device_state \<Rightarrow> availability \<Rightarrow> bestway \<times> 'w \<Rightarrow>
    provider_state \<times> bestway \<times> 'w" where
  "stamped cf st avail = (\<lambda>(b, w).
     (\<lparr>ps_state = st, ps_availability = avail, ps_observed_at = bf_clock cf (bw_ticks b)\<rparr>,
      b\<lparr>bw_ticks := Suc (bw_ticks b)\<rparr>, w))"

text \<open>A payload reaches \<open>_snapshot\<close> only after it decoded.\<close>

definition snapshot ::
  "'w bestway_config \<Rightarrow> bytes \<Rightarrow> bestway \<times> 'w \<Rightarrow> (adapter_exn + provider_state) \<times> bestway \<times> 'w"
where
  "snapshot cf payload s =
     (case decode (bf_profile cf) payload of
        Inl e \<Rightarrow> (Inl (OtherException ''ProfileError''), s)
      | Inr decoded \<Rightarrow>
          (let (st, s1) = stamped cf (to_state decoded) availability.ONLINE s in (Inr st, s1)))"

definition known_device :: "provider_device_ref \<Rightarrow> bool" where
  "known_device r \<longleftrightarrow>
     ref_provider r = BESTWAY_PROVIDER_NAME \<and> ref_provider_device_id r = BESTWAY_DEVICE_ID"

definition bestway_get_state ::
  "'w bestway_config \<Rightarrow> provider_device_ref \<Rightarrow> bestway \<times> 'w \<Rightarrow> (adapter_exn + provider_state) \<times> bestway \<times> 'w"
where
  "bestway_get_state cf r s =
     (if \<not> known_device r then (Inl (Provider ProviderUnavailableError), s)
      else
        (case read_payload cf s of
           (Inl e, s1) \<Rightarrow> (Inl e, s1) | (Inr payload, s1) \<Rightarrow> snapshot cf payload s1))"

subsection \<open>Writing\<close>

definition value_for ::
  "datapoint_profile \<Rightarrow> provider_command \<Rightarrow> bytes \<Rightarrow> adapter_exn + dp_value"
where
  "value_for p c base_payload =
     (case pc_params c of
        OnOffParams on \<Rightarrow> Inr (DBool on)
      | TargetTemperatureParams celsius \<Rightarrow>
          if \<not> (pf_target_temperature_min_c p \<le> celsius \<and> celsius \<le> pf_target_temperature_max_c p)
          then Inl (Provider ProviderRejectedError)
          else
            (case decode p base_payload of
               Inl e \<Rightarrow> Inl (OtherException ''ProfileError'')
             | Inr decoded \<Rightarrow> Inr (DInt (from_celsius celsius (fahrenheit_of decoded))))
      | _ \<Rightarrow> Inl (Provider ProviderRejectedError))"

definition reads_as :: "datapoint_profile \<Rightarrow> bytes \<Rightarrow> datapoint \<Rightarrow> dp_value \<Rightarrow> bool" where
  "reads_as p payload d v \<longleftrightarrow>
     (case decode p payload of
        Inl e \<Rightarrow> False
      | Inr decoded \<Rightarrow> (case od_get decoded d of None \<Rightarrow> False | Some x \<Rightarrow> dp_eq x v))"

text \<open>\<open>_confirm\<close>: the attempts still to come, whether this is the first, and the last block read.\<close>

fun confirm_loop ::
  "'w bestway_config \<Rightarrow> datapoint \<Rightarrow> dp_value \<Rightarrow> nat \<Rightarrow> bool \<Rightarrow> bytes option \<Rightarrow> bestway \<times> 'w
     \<Rightarrow> (adapter_exn + bytes option) \<times> bestway \<times> 'w"
where
  "confirm_loop cf d v 0 first latest s = (Inr latest, s)"
| "confirm_loop cf d v (Suc left) first latest (b, w) =
     (case (if first then (Inr (), w) else net_sleep (bf_network cf) w) of
        (Inl e, w1) \<Rightarrow> (Inl TimeoutError, b, w1)
      | (Inr u, w1) \<Rightarrow>
          (case read_payload cf (b, w1) of
             (Inl (Provider e), s2) \<Rightarrow>
               if is_unavailable e then confirm_loop cf d v left False latest s2
               else (Inl (Provider e), s2)
           | (Inl e, s2) \<Rightarrow> (Inl e, s2)
           | (Inr payload, s2) \<Rightarrow>
               if reads_as (bf_profile cf) payload d v then (Inr (Some payload), s2)
               else confirm_loop cf d v left False (Some payload) s2))"

definition settle_write ::
  "'w bestway_config \<Rightarrow> datapoint \<Rightarrow> dp_value \<Rightarrow> bytes option \<Rightarrow> bestway \<times> 'w
     \<Rightarrow> (adapter_exn + provider_command_result) \<times> bestway \<times> 'w"
where
  "settle_write cf d v observed s =
     (case observed of
        None \<Rightarrow>
          (Inr \<lparr>pcr_outcome = command_outcome.UNKNOWN, pcr_state = None,
                pcr_failure_code = Some ''read_back_failed''\<rparr>, s)
      | Some payload \<Rightarrow>
          (case snapshot cf payload s of
             (Inl e, s1) \<Rightarrow> (Inl e, s1)
           | (Inr st, s1) \<Rightarrow>
               (Inr (if reads_as (bf_profile cf) payload d v
                     then \<lparr>pcr_outcome = APPLIED, pcr_state = Some st, pcr_failure_code = None\<rparr>
                     else \<lparr>pcr_outcome = command_outcome.UNKNOWN, pcr_state = Some st,
                           pcr_failure_code = Some ''not_confirmed_by_device''\<rparr>), s1)))"

definition write_control ::
  "'w bestway_config \<Rightarrow> provider_command \<Rightarrow> datapoint \<Rightarrow> bytes \<Rightarrow> bestway \<times> 'w
     \<Rightarrow> (adapter_exn + provider_command_result) \<times> bestway \<times> 'w"
where
  "write_control cf c d base_payload s =
     (case value_for (bf_profile cf) c base_payload of
        Inl e \<Rightarrow> (Inl e, s)
      | Inr v \<Rightarrow>
          (case encode_control (bf_profile cf) d v base_payload of
             Inl (ProfileError m) \<Rightarrow> (Inl (Provider ProviderRejectedError), s)
           | Inl (ValueError m) \<Rightarrow> (Inl (OtherException ''ValueError''), s)
           | Inr (attr_flags, attr_vals) \<Rightarrow>
               (case on_client (send_control (bf_network cf) attr_flags attr_vals) s of
                  (Inl e, s1) \<Rightarrow> (Inl e, s1)
                | (Inr u, s1) \<Rightarrow>
                    (case confirm_loop cf d v (bf_confirm_attempts cf) True None s1 of
                       (Inl e, s2) \<Rightarrow> (Inl e, s2)
                     | (Inr observed, s2) \<Rightarrow> settle_write cf d v observed s2))))"

definition bestway_execute ::
  "'w bestway_config \<Rightarrow> provider_device_ref \<Rightarrow> provider_command \<Rightarrow> bestway \<times> 'w
     \<Rightarrow> (adapter_exn + provider_command_result) \<times> bestway \<times> 'w"
where
  "bestway_execute cf r c s =
     (if \<not> known_device r then (Inl (Provider ProviderUnavailableError), s)
      else
        (case action_datapoint (pc_action c) of
           None \<Rightarrow> (Inl (Provider ProviderRejectedError), s)
         | Some d \<Rightarrow>
             (case read_payload cf s of
                (Inl e, s1) \<Rightarrow> (Inl e, s1)
              | (Inr base_payload, s1) \<Rightarrow> write_control cf c d base_payload s1)))"

definition bestway_adapter :: "'w bestway_config \<Rightarrow> (bestway \<times> 'w) device_provider" where
  "bestway_adapter cf =
     \<lparr>dp_name = BESTWAY_PROVIDER_NAME,
      dp_discover_devices = (\<lambda>s. (Inr (bestway_discover cf), s)),
      dp_get_state = bestway_get_state cf,
      dp_execute = bestway_execute cf\<rparr>"

subsection \<open>Polling\<close>

text \<open>
  One round of \<open>subscribe\<close> after its pause: the event it yields, the payload it remembers, or the
  exception that ends the generator.
\<close>

definition poll ::
  "'w bestway_config \<Rightarrow> bytes option \<Rightarrow> bestway \<times> 'w
     \<Rightarrow> (adapter_exn + provider_event option \<times> bytes option) \<times> bestway \<times> 'w"
where
  "poll cf previous s =
     (case read_payload cf s of
        (Inl (Provider e), (b, w)) \<Rightarrow>
          if \<not> is_unavailable e then (Inl (Provider e), b, w)
          else if bw_availability b \<noteq> availability.OFFLINE then
            (let (st, s2) = stamped cf empty_state availability.OFFLINE
                              (b\<lparr>bw_availability := availability.OFFLINE\<rparr>, w)
             in (Inr (Some \<lparr>pe_ref = airjet_ref, pe_state = st\<rparr>, previous), s2))
          else (Inr (None, previous), b, w)
      | (Inl e, s1) \<Rightarrow> (Inl e, s1)
      | (Inr payload, s1) \<Rightarrow>
          if Some payload \<noteq> previous then
            (case snapshot cf payload s1 of
               (Inl e, s2) \<Rightarrow> (Inl e, s2)
             | (Inr st, s2) \<Rightarrow> (Inr (Some \<lparr>pe_ref = airjet_ref, pe_state = st\<rparr>, Some payload), s2))
          else (Inr (None, previous), s1))"

end
