(* ===== verification/Demo_Provider.thy ===== *)
theory Demo_Provider
  imports Provider_Base
begin

section \<open>The synthetic household\<close>

text \<open>
  \<open>integrations/demo/provider.py\<close>: devices that exist only in memory, the state they report
  after a command, and the simulation that moves them. The provider's clock and its random
  numbers are streams with a count of the values drawn. The simulated latency of a command has
  no effect on the state and is left out. \<open>asyncio.sleep\<close> between two ticks is the environment.
\<close>

definition DEMO_PROVIDER_NAME :: string where "DEMO_PROVIDER_NAME = ''demo''"

definition POOL_MIN_C :: rat where "POOL_MIN_C = 20"
definition POOL_MAX_C :: rat where "POOL_MAX_C = 40"
definition POOL_STEP_C :: rat where "POOL_STEP_C = 1 / 2"
definition AMBIENT_C :: rat where "AMBIENT_C = 22"
definition HEAT_RATE_C_PER_SIM_MINUTE :: rat where "HEAT_RATE_C_PER_SIM_MINUTE = 35 / 1000"
definition COOL_COEFFICIENT_PER_SIM_MINUTE :: rat where "COOL_COEFFICIENT_PER_SIM_MINUTE = 4 / 1000"
definition BUBBLE_COOLING_FACTOR :: rat where "BUBBLE_COOLING_FACTOR = 2"
definition DEFAULT_TIME_SCALE :: rat where "DEFAULT_TIME_SCALE = 60"

record demo_device =
  dd_definition :: provider_device
  dd_state :: device_state
  dd_availability :: availability

definition demo_ref :: "string \<Rightarrow> provider_device_ref" where
  "demo_ref i = \<lparr>ref_provider = DEMO_PROVIDER_NAME, ref_provider_device_id = i\<rparr>"

definition demo_device_of ::
  "string \<Rightarrow> string \<Rightarrow> device_kind \<Rightarrow> capability list \<Rightarrow> string \<Rightarrow> device_constraints \<Rightarrow> device_state
     \<Rightarrow> availability \<Rightarrow> demo_device"
where
  "demo_device_of i name kind caps room cons state avail =
     \<lparr>dd_definition =
        \<lparr>pd_ref = demo_ref i, pd_suggested_name = name, pd_kind = kind, pd_capabilities = caps,
         pd_room_hint = Some room, pd_constraints = cons\<rparr>,
      dd_state = state, dd_availability = avail\<rparr>"

definition build_devices :: "demo_device list" where
  "build_devices =
     [demo_device_of ''living-room-ceiling-light'' ''Ceiling Light'' LIGHT [POWER, BRIGHTNESS]
        ''Living Room'' no_constraints
        (empty_state\<lparr>ds_power := Some True, ds_brightness := Some 60\<rparr>) availability.ONLINE,
      demo_device_of ''living-room-speaker'' ''Speaker'' MEDIA_PLAYER [MEDIA_PLAYBACK, VOLUME]
        ''Living Room'' no_constraints
        (empty_state\<lparr>ds_playback := Some PAUSED, ds_volume := Some 25\<rparr>) availability.ONLINE,
      demo_device_of ''hallway-lock'' ''Demo Lock'' device_kind.LOCK [capability.LOCK, UNLOCK]
        ''Hallway'' no_constraints
        (empty_state\<lparr>ds_lock_state := Some LOCKED\<rparr>) availability.ONLINE,
      demo_device_of ''terrace-pool'' ''Demo Pool'' POOL
        [CURRENT_TEMPERATURE, TARGET_TEMPERATURE, HEATING, FILTER, BUBBLES, CONTROL_PANEL_LOCK]
        ''Terrace''
        \<lparr>dc_target_temperature_min_c = Some POOL_MIN_C, dc_target_temperature_max_c = Some POOL_MAX_C,
         dc_target_temperature_step_c = Some POOL_STEP_C\<rparr>
        (empty_state\<lparr>ds_current_temperature_c := Some (49 / 2), ds_target_temperature_c := Some 36,
           ds_heater := Some False, ds_filter_pump := Some True, ds_bubbles := Some False,
           ds_control_panel_lock := Some False\<rparr>) availability.ONLINE,
      demo_device_of ''utility-washer'' ''Demo Washer'' WASHING_MACHINE [PROGRAM_STATUS, REMAINING_TIME]
        ''Utility Room'' no_constraints
        (empty_state\<lparr>ds_program := Some program_state.RUNNING, ds_program_name := Some ''Cottons 40'',
           ds_remaining_seconds := Some (45 * 60)\<rparr>) availability.ONLINE,
      demo_device_of ''utility-dishwasher'' ''Demo Dishwasher'' DISHWASHER [PROGRAM_STATUS, REMAINING_TIME]
        ''Utility Room'' no_constraints
        (empty_state\<lparr>ds_program := Some IDLE\<rparr>) availability.OFFLINE]"

record demo_provider =
  dm_clock :: "nat \<Rightarrow> datetime"
  dm_ticks :: nat
  dm_rng :: "nat \<Rightarrow> rat"
  dm_drawn :: nat
  dm_failure_rate :: rat
  dm_tick_seconds :: rat
  dm_time_scale :: rat
  dm_devices :: "(string, demo_device) odict"

definition new_demo_provider ::
  "(nat \<Rightarrow> datetime) \<Rightarrow> (nat \<Rightarrow> rat) \<Rightarrow> rat \<Rightarrow> rat \<Rightarrow> demo_provider"
where
  "new_demo_provider clock rng failure_rate tick_seconds =
     \<lparr>dm_clock = clock, dm_ticks = 0, dm_rng = rng, dm_drawn = 0, dm_failure_rate = failure_rate,
      dm_tick_seconds = tick_seconds, dm_time_scale = DEFAULT_TIME_SCALE,
      dm_devices =
        fold (\<lambda>d. od_set (ref_provider_device_id (pd_ref (dd_definition d))) d) build_devices []\<rparr>"

subsection \<open>Commands\<close>

text \<open>\<open>_apply\<close>; an action with parameters of another action falls through to the last case.\<close>

definition demo_apply :: "device_state \<Rightarrow> provider_command \<Rightarrow> device_state" where
  "demo_apply s c =
     (case (pc_action c, pc_params c) of
        (SET_POWER, OnOffParams on) \<Rightarrow> s\<lparr>ds_power := Some on\<rparr>
      | (SET_BRIGHTNESS, BrightnessParams n) \<Rightarrow> s\<lparr>ds_brightness := Some n, ds_power := Some True\<rparr>
      | (SET_VOLUME, VolumeParams n) \<Rightarrow> s\<lparr>ds_volume := Some n\<rparr>
      | (SET_PLAYBACK, PlaybackParams p) \<Rightarrow>
          s\<lparr>ds_playback := Some (if p = PLAY then PLAYING else PAUSED)\<rparr>
      | (SET_TARGET_TEMPERATURE, TargetTemperatureParams t) \<Rightarrow> s\<lparr>ds_target_temperature_c := Some t\<rparr>
      | (SET_HEATER, OnOffParams on) \<Rightarrow>
          (if on then s\<lparr>ds_heater := Some on, ds_filter_pump := Some True\<rparr>
           else s\<lparr>ds_heater := Some on\<rparr>)
      | (SET_FILTER, OnOffParams on) \<Rightarrow>
          (if on then s\<lparr>ds_filter_pump := Some on\<rparr>
           else s\<lparr>ds_filter_pump := Some on, ds_heater := Some False\<rparr>)
      | (SET_BUBBLES, OnOffParams on) \<Rightarrow> s\<lparr>ds_bubbles := Some on\<rparr>
      | (SET_CONTROL_PANEL_LOCK, OnOffParams on) \<Rightarrow> s\<lparr>ds_control_panel_lock := Some on\<rparr>
      | (SET_LOCK_STATE, LockStateParams d) \<Rightarrow> s\<lparr>ds_lock_state := Some d\<rparr>
      | _ \<Rightarrow> s)"

definition demo_require ::
  "provider_device_ref \<Rightarrow> demo_provider \<Rightarrow> provider_error + string \<times> demo_device"
where
  "demo_require r m =
     (case od_get (dm_devices m) (ref_provider_device_id r) of
        None \<Rightarrow> Inl ProviderUnavailableError
      | Some d \<Rightarrow>
          if ref_provider r \<noteq> DEMO_PROVIDER_NAME then Inl ProviderUnavailableError
          else Inr (ref_provider_device_id r, d))"

definition demo_snapshot :: "demo_device \<Rightarrow> demo_provider \<Rightarrow> provider_state \<times> demo_provider" where
  "demo_snapshot d m =
     (\<lparr>ps_state = dd_state d, ps_availability = dd_availability d,
       ps_observed_at = dm_clock m (dm_ticks m)\<rparr>,
      m\<lparr>dm_ticks := Suc (dm_ticks m)\<rparr>)"

definition demo_discover :: "demo_provider \<Rightarrow> (adapter_exn + provider_device list) \<times> demo_provider" where
  "demo_discover m = (Inr (map (dd_definition \<circ> snd) (dm_devices m)), m)"

definition demo_get_state ::
  "provider_device_ref \<Rightarrow> demo_provider \<Rightarrow> (adapter_exn + provider_state) \<times> demo_provider"
where
  "demo_get_state r m =
     (case demo_require r m of
        Inl e \<Rightarrow> (Inl (Provider e), m)
      | Inr (i, d) \<Rightarrow> (let (st, m1) = demo_snapshot d m in (Inr st, m1)))"

definition demo_execute ::
  "provider_device_ref \<Rightarrow> provider_command \<Rightarrow> demo_provider
     \<Rightarrow> (adapter_exn + provider_command_result) \<times> demo_provider"
where
  "demo_execute r c m =
     (case demo_require r m of
        Inl e \<Rightarrow> (Inl (Provider e), m)
      | Inr (i, d) \<Rightarrow>
          if dd_availability d = availability.OFFLINE then (Inl (Provider ProviderUnavailableError), m)
          else
            (let (fails, m1) =
               (if 0 < dm_failure_rate m
                then (dm_rng m (dm_drawn m) < dm_failure_rate m, m\<lparr>dm_drawn := Suc (dm_drawn m)\<rparr>)
                else (False, m))
             in if fails then (Inl (Provider ProviderUnavailableError), m1)
                else
                  (let d1 = d\<lparr>dd_state := demo_apply (dd_state d) c\<rparr>;
                       (st, m2) = demo_snapshot d1 (m1\<lparr>dm_devices := od_set i d1 (dm_devices m1)\<rparr>)
                   in (Inr \<lparr>pcr_outcome = APPLIED, pcr_state = Some st, pcr_failure_code = None\<rparr>, m2))))"

definition demo_adapter :: "demo_provider device_provider" where
  "demo_adapter =
     \<lparr>dp_name = DEMO_PROVIDER_NAME, dp_discover_devices = demo_discover, dp_get_state = demo_get_state,
      dp_execute = demo_execute\<rparr>"

subsection \<open>The simulation\<close>

definition advance_pool :: "device_state \<Rightarrow> rat \<Rightarrow> device_state" where
  "advance_pool s simulated_seconds =
     (case ds_current_temperature_c s of
        None \<Rightarrow> s
      | Some current \<Rightarrow>
          (let minutes = simulated_seconds / 60;
               heating = (ds_heater s = Some True \<and> ds_target_temperature_c s \<noteq> None);
               target = the (ds_target_temperature_c s)
           in if heating \<and> target \<le> current then s
              else
                (let loss = COOL_COEFFICIENT_PER_SIM_MINUTE *
                       (if ds_bubbles s = Some True then BUBBLE_COOLING_FACTOR else 1);
                     next_c = (if heating then min target (current + HEAT_RATE_C_PER_SIM_MINUTE * minutes)
                               else max AMBIENT_C (current - loss * (current - AMBIENT_C) * minutes));
                     rounded = py_round_digits next_c 2
                 in if rounded = current then s
                    else s\<lparr>ds_current_temperature_c := Some rounded\<rparr>)))"

definition py_trunc :: "rat \<Rightarrow> int" where
  "py_trunc x = (if 0 \<le> x then \<lfloor>x\<rfloor> else \<lceil>x\<rceil>)"

definition advance_appliance :: "device_state \<Rightarrow> rat \<Rightarrow> device_state" where
  "advance_appliance s simulated_seconds =
     (if ds_program s \<noteq> Some program_state.RUNNING then s
      else
        (case ds_remaining_seconds s of
           None \<Rightarrow> s
         | Some left \<Rightarrow>
             (let remaining = max 0 (left - py_trunc simulated_seconds) in
              if remaining = left then s
              else if remaining = 0
              then s\<lparr>ds_remaining_seconds := Some 0, ds_program := Some FINISHED\<rparr>
              else s\<lparr>ds_remaining_seconds := Some remaining\<rparr>)))"

definition demo_advance :: "demo_device \<Rightarrow> rat \<Rightarrow> device_state" where
  "demo_advance d simulated_seconds =
     (let kind = pd_kind (dd_definition d) in
      if kind = POOL then advance_pool (dd_state d) simulated_seconds
      else if kind \<in> {WASHING_MACHINE, DISHWASHER} then advance_appliance (dd_state d) simulated_seconds
      else dd_state d)"

fun tick_devices ::
  "rat \<Rightarrow> (string \<times> demo_device) list \<Rightarrow> provider_event list \<times> demo_provider \<Rightarrow> provider_event list \<times> demo_provider"
where
  "tick_devices simulated [] (events, m) = (events, m)"
| "tick_devices simulated ((i, d) # ds) (events, m) =
     (if dd_availability d = availability.OFFLINE then tick_devices simulated ds (events, m)
      else
        (let d1 = d\<lparr>dd_state := demo_advance d simulated\<rparr>;
             m1 = m\<lparr>dm_devices := od_set i d1 (dm_devices m)\<rparr>
         in if dd_state d1 \<noteq> dd_state d
            then (let (st, m2) = demo_snapshot d1 m1 in
                  tick_devices simulated ds (events @ [\<lparr>pe_ref = pd_ref (dd_definition d), pe_state = st\<rparr>], m2))
            else tick_devices simulated ds (events, m1)))"

definition tick :: "rat \<Rightarrow> demo_provider \<Rightarrow> provider_event list \<times> demo_provider" where
  "tick elapsed_seconds m =
     (let simulated = elapsed_seconds * dm_time_scale m in tick_devices simulated (dm_devices m) ([], m))"

end
