(* ===== verification/HA_Entities.thy ===== *)
theory HA_Entities
  imports Settings Device_Model
begin

section \<open>Home Assistant entities as devices\<close>

text \<open>
  \<open>integrations/home_assistant/entities.py\<close>: which entities become devices, what they may do, and
  what their state means. Attributes are JSON values; their numbers are rationals, so an
  attribute is always finite. \<open>float(text)\<close> is modelled with its syntax; a text that denotes an
  infinity or no number is \<open>NotFinite\<close>. A value outside the bounds of \<open>DeviceState\<close> is the
  \<open>ValidationError\<close> that building it raises.
\<close>

definition FEATURE_PAUSE :: int where "FEATURE_PAUSE = 1"
definition FEATURE_VOLUME_SET :: int where "FEATURE_VOLUME_SET = 4"
definition FEATURE_PREVIOUS_TRACK :: int where "FEATURE_PREVIOUS_TRACK = 16"
definition FEATURE_NEXT_TRACK :: int where "FEATURE_NEXT_TRACK = 32"
definition FEATURE_PLAY :: int where "FEATURE_PLAY = 16384"

definition HA_BRIGHTNESS_MAX :: rat where "HA_BRIGHTNESS_MAX = 255"
definition UNAVAILABLE_STATE :: string where "UNAVAILABLE_STATE = ''unavailable''"
definition UNKNOWN_STATE :: string where "UNKNOWN_STATE = ''unknown''"

definition LOCK_STATES :: "(string, lock_state) odict" where
  "LOCK_STATES =
     [(''locked'', LOCKED), (''unlocked'', UNLOCKED), (''open'', UNLOCKED),
      (''opening'', lock_state.UNKNOWN), (''locking'', lock_state.UNKNOWN),
      (''unlocking'', lock_state.UNKNOWN), (''jammed'', lock_state.UNKNOWN)]"

definition PLAYBACK_STATES :: "(string, playback_state) odict" where
  "PLAYBACK_STATES =
     [(''playing'', PLAYING), (''paused'', PAUSED), (''idle'', STOPPED), (''standby'', STOPPED),
      (''off'', STOPPED), (''buffering'', PLAYING)]"

record ha_entity =
  he_entity_id :: string
  he_state :: string
  he_attributes :: "(string, json) odict"

text \<open>\<open>text.split(".", 1)\<close>: what stands before and after the first dot.\<close>

definition before_dot :: "string \<Rightarrow> string" where
  "before_dot s = takeWhile (\<lambda>c. c \<noteq> CHR ''.'') s"

definition after_dot :: "string \<Rightarrow> string" where
  "after_dot s = tl (dropWhile (\<lambda>c. c \<noteq> CHR ''.'') s)"

definition domain_of :: "ha_entity \<Rightarrow> string" where
  "domain_of e = before_dot (he_entity_id e)"

definition number :: "string \<Rightarrow> ha_entity \<Rightarrow> rat option" where
  "number key e =
     (case od_get (he_attributes e) key of
        Some (JInt n) \<Rightarrow> Some (of_int n) | Some (JFloat q) \<Rightarrow> Some q | _ \<Rightarrow> None)"

definition features :: "ha_entity \<Rightarrow> int" where
  "features e = (case od_get (he_attributes e) ''supported_features'' of Some (JInt n) \<Rightarrow> n | _ \<Rightarrow> 0)"

definition text_attribute :: "string \<Rightarrow> nat \<Rightarrow> ha_entity \<Rightarrow> string option" where
  "text_attribute key limit e =
     (case od_get (he_attributes e) key of
        Some (JStr s) \<Rightarrow> if s = [] then None else Some (take limit s) | _ \<Rightarrow> None)"

text \<open>\<open>value & flag\<close> is not zero: some flag bit of a Python \<open>int\<close> is set.\<close>

definition has_feature :: "int \<Rightarrow> int \<Rightarrow> bool" where
  "has_feature value flags \<longleftrightarrow> Bit_Operations.and value flags \<noteq> 0"

record ha_mapping =
  hm_kind :: device_kind
  hm_capabilities :: "capability list"
  hm_writable :: "capability list"
  hm_constraints :: device_constraints

definition map_light :: "ha_entity \<Rightarrow> ha_mapping" where
  "map_light e =
     (let dimmable =
        (case od_get (he_attributes e) ''supported_color_modes'' of
           Some (JList modes) \<Rightarrow>
             list_ex (\<lambda>mode. case mode of JStr s \<Rightarrow> s \<notin> {''onoff'', ''unknown''} | _ \<Rightarrow> False) modes
         | _ \<Rightarrow> False);
          capabilities = [POWER] @ (if dimmable then [BRIGHTNESS] else [])
      in \<lparr>hm_kind = LIGHT, hm_capabilities = capabilities, hm_writable = capabilities,
          hm_constraints = no_constraints\<rparr>)"

definition map_switch :: "ha_entity \<Rightarrow> ha_mapping" where
  "map_switch e =
     \<lparr>hm_kind = SWITCH, hm_capabilities = [POWER], hm_writable = [POWER], hm_constraints = no_constraints\<rparr>"

definition map_media_player :: "ha_entity \<Rightarrow> ha_mapping" where
  "map_media_player e =
     (let f = features e;
          capabilities =
            (if has_feature f (Bit_Operations.or FEATURE_PLAY FEATURE_PAUSE) then [MEDIA_PLAYBACK] else []) @
            (if has_feature f FEATURE_NEXT_TRACK then [MEDIA_NEXT] else []) @
            (if has_feature f FEATURE_PREVIOUS_TRACK then [MEDIA_PREVIOUS] else []) @
            (if has_feature f FEATURE_VOLUME_SET then [VOLUME] else [])
      in \<lparr>hm_kind = MEDIA_PLAYER, hm_capabilities = capabilities, hm_writable = capabilities,
          hm_constraints = no_constraints\<rparr>)"

definition map_lock :: "ha_entity \<Rightarrow> ha_mapping" where
  "map_lock e =
     \<lparr>hm_kind = device_kind.LOCK, hm_capabilities = [], hm_writable = [], hm_constraints = no_constraints\<rparr>"

text \<open>\<open>x or default\<close> on a number that may be absent.\<close>

definition or_number :: "rat option \<Rightarrow> rat \<Rightarrow> rat" where
  "or_number x default_value = (case x of None \<Rightarrow> default_value | Some q \<Rightarrow> if q = 0 then default_value else q)"

definition map_climate :: "ha_entity \<Rightarrow> ha_mapping" where
  "map_climate e =
     (let reads =
        (if number ''current_temperature'' e \<noteq> None then [CURRENT_TEMPERATURE] else []) @
        (if number ''humidity'' e \<noteq> None \<or> number ''current_humidity'' e \<noteq> None then [HUMIDITY] else [])
      in if number ''temperature'' e \<noteq> None
         then \<lparr>hm_kind = THERMOSTAT, hm_capabilities = reads @ [TARGET_TEMPERATURE],
               hm_writable = [TARGET_TEMPERATURE],
               hm_constraints =
                 \<lparr>dc_target_temperature_min_c = number ''min_temp'' e,
                  dc_target_temperature_max_c = number ''max_temp'' e,
                  dc_target_temperature_step_c = Some (or_number (number ''target_temp_step'' e) (1 / 2))\<rparr>\<rparr>
         else \<lparr>hm_kind = THERMOSTAT, hm_capabilities = reads, hm_writable = [],
               hm_constraints = no_constraints\<rparr>)"

definition map_sensor :: "ha_entity \<Rightarrow> ha_mapping option" where
  "map_sensor e =
     (if od_get (he_attributes e) ''device_class'' \<noteq> Some (JStr ''temperature'') then None
      else Some \<lparr>hm_kind = SENSOR, hm_capabilities = [CURRENT_TEMPERATURE], hm_writable = [],
                 hm_constraints = no_constraints\<rparr>)"

definition describe :: "ha_entity \<Rightarrow> ha_mapping option" where
  "describe e =
     (let d = domain_of e in
      if d = ''light'' then Some (map_light e)
      else if d = ''switch'' then Some (map_switch e)
      else if d = ''media_player'' then Some (map_media_player e)
      else if d = ''lock'' then Some (map_lock e)
      else if d = ''climate'' then Some (map_climate e)
      else if d = ''sensor'' then map_sensor e
      else None)"

definition ha_availability :: "ha_entity \<Rightarrow> availability" where
  "ha_availability e =
     (if he_state e = UNAVAILABLE_STATE then availability.OFFLINE
      else if he_state e = UNKNOWN_STATE then availability.UNKNOWN
      else availability.ONLINE)"

subsection \<open>Numbers in text\<close>

datatype float_text = FloatValue rat | NotFinite | NotANumberText

definition digit_value :: "char \<Rightarrow> nat" where
  "digit_value c = of_char c - 48"

definition is_digit :: "char \<Rightarrow> bool" where
  "is_digit c \<longleftrightarrow> 48 \<le> (of_char c :: nat) \<and> (of_char c :: nat) \<le> 57"

text \<open>Digits, with single underscores between them.\<close>

fun digits_from :: "bool \<Rightarrow> nat \<Rightarrow> string \<Rightarrow> nat option" where
  "digits_from after_digit acc [] = (if after_digit then Some acc else None)"
| "digits_from after_digit acc (c # cs) =
     (if is_digit c then digits_from True (acc * 10 + digit_value c) cs
      else if c = CHR ''_'' \<and> after_digit then digits_from False acc cs
      else None)"

definition opt_digits :: "string \<Rightarrow> nat option" where
  "opt_digits s = (if s = [] then Some 0 else digits_from False 0 s)"

definition split_sign :: "string \<Rightarrow> rat \<times> string" where
  "split_sign s =
     (case s of
        c # cs \<Rightarrow> if c = CHR ''-'' then (- 1, cs) else if c = CHR ''+'' then (1, cs) else (1, s)
      | [] \<Rightarrow> (1, []))"

definition read_mantissa :: "string \<Rightarrow> rat option" where
  "read_mantissa s =
     (let whole = takeWhile (\<lambda>c. c \<noteq> CHR ''.'') s; rest = tl (dropWhile (\<lambda>c. c \<noteq> CHR ''.'') s);
          places = length (filter is_digit rest)
      in if whole = [] \<and> rest = [] then None
         else (case (opt_digits whole, opt_digits rest) of
                 (Some a, Some b) \<Rightarrow> Some (of_nat (a * 10 ^ places + b) / 10 ^ places)
               | _ \<Rightarrow> None))"

definition read_exponent :: "string \<Rightarrow> rat option" where
  "read_exponent s =
     (let (sg, ds) = split_sign s in
      case digits_from False 0 ds of
        None \<Rightarrow> None | Some n \<Rightarrow> Some (if sg < 0 then 1 / 10 ^ n else 10 ^ n))"

definition py_float :: "string \<Rightarrow> float_text" where
  "py_float s =
     (let (sg, body) = split_sign (py_strip s);
          mantissa = takeWhile (\<lambda>c. lower_char c \<noteq> CHR ''e'') body;
          exponent = dropWhile (\<lambda>c. lower_char c \<noteq> CHR ''e'') body
      in if py_casefold body \<in> {''inf'', ''infinity'', ''nan''} then NotFinite
         else
           (case (read_mantissa mantissa, if exponent = [] then Some 1 else read_exponent (tl exponent)) of
              (Some m, Some x) \<Rightarrow>
                (if 2 ^ 1024 - 2 ^ 970 \<le> m * x then NotFinite else FloatValue (sg * m * x))
            | _ \<Rightarrow> NotANumberText))"

subsection \<open>The canonical state\<close>

datatype normalised = Normalised device_state | ValidationError | NonFiniteReading

definition checked :: "device_state \<Rightarrow> normalised" where
  "checked s = (if device_state_ok s then Normalised s else ValidationError)"

definition normalise :: "ha_entity \<Rightarrow> device_kind \<Rightarrow> normalised" where
  "normalise e kind =
     (if he_state e \<in> {UNAVAILABLE_STATE, UNKNOWN_STATE} then checked empty_state
      else if kind \<in> {LIGHT, SWITCH} then
        checked (empty_state
          \<lparr>ds_power := Some (he_state e = ''on''),
           ds_brightness :=
             map_option (\<lambda>b. py_round (b * 100 / HA_BRIGHTNESS_MAX)) (number ''brightness'' e)\<rparr>)
      else if kind = MEDIA_PLAYER then
        checked (empty_state
          \<lparr>ds_playback :=
             Some (case od_get PLAYBACK_STATES (he_state e) of
                     None \<Rightarrow> playback_state.UNKNOWN | Some p \<Rightarrow> p),
           ds_volume := map_option (\<lambda>v. py_round (v * 100)) (number ''volume_level'' e),
           ds_program_name := text_attribute ''media_title'' 120 e\<rparr>)
      else if kind = device_kind.LOCK then
        checked (empty_state
          \<lparr>ds_lock_state :=
             Some (case od_get LOCK_STATES (he_state e) of None \<Rightarrow> lock_state.UNKNOWN | Some l \<Rightarrow> l)\<rparr>)
      else if kind = THERMOSTAT then
        checked (empty_state
          \<lparr>ds_current_temperature_c := number ''current_temperature'' e,
           ds_target_temperature_c := number ''temperature'' e,
           ds_heater :=
             (if he_state e = ''off'' then None else Some (he_state e \<in> {''heat'', ''heat_cool''}))\<rparr>)
      else if kind = SENSOR then
        (case py_float (he_state e) of
           FloatValue q \<Rightarrow> checked (empty_state\<lparr>ds_current_temperature_c := Some q\<rparr>)
         | NotFinite \<Rightarrow> NonFiniteReading
         | NotANumberText \<Rightarrow> checked empty_state)
      else checked empty_state)"

definition display_name :: "ha_entity \<Rightarrow> string" where
  "display_name e =
     (case text_attribute ''friendly_name'' 80 e of
        Some s \<Rightarrow> s | None \<Rightarrow> after_dot (he_entity_id e))"

lemma normalise_ok: "normalise e kind = Normalised s \<Longrightarrow> device_state_ok s"
  by (auto simp: normalise_def checked_def split: if_splits float_text.splits)

end
