(* ===== verification/HA_Client.thy ===== *)
theory HA_Client
  imports HA_Entities Provider_Base
begin

section \<open>The transport to Home Assistant\<close>

text \<open>
  \<open>integrations/home_assistant/client.py\<close>: requests over HTTP, and conversations over the
  WebSocket. The HTTP and WebSocket libraries are the parameter \<open>ha_net\<close> over a world \<open>'w\<close>: a
  request fails, is cancelled by the caller's deadline, or is answered; opening a socket
  yields, besides failure, every message the peer will send on it before the socket fails. The
  base address and the headers are part of that parameter.
\<close>

definition MAX_RESPONSE_BYTES :: nat where "MAX_RESPONSE_BYTES = 10 * 1024 * 1024"

text \<open>\<open>hr_json\<close> is \<open>None\<close> for content that is not JSON.\<close>

record http_response =
  hr_status :: nat
  hr_size :: nat
  hr_json :: "json option"

datatype http_result = HttpError | HttpCancelled | Response http_response

datatype ws_message = WsBinary | WsNotJson | WsFrame json | WsCancelled

datatype ws_opening = WsFailed | WsOpenCancelled | WsOpen "ws_message list"

record 'w ha_net =
  hn_request :: "string \<Rightarrow> string \<Rightarrow> json option \<Rightarrow> 'w \<Rightarrow> http_result \<times> 'w"
  hn_open :: "'w \<Rightarrow> ws_opening \<times> 'w"
  hn_sleep :: "'w \<Rightarrow> (adapter_exn + unit) \<times> 'w"
  hn_str :: "json \<Rightarrow> string"

subsection \<open>REST\<close>

abbreviation unavailable :: adapter_exn where
  "unavailable \<equiv> Provider ProviderUnavailableError"

definition judge_response :: "http_response \<Rightarrow> adapter_exn + json" where
  "judge_response r =
     (if hr_status r \<in> {401, 403} then Inl unavailable
      else if hr_status r = 400 then Inl (Provider ProviderRejectedError)
      else if 400 \<le> hr_status r then Inl unavailable
      else if MAX_RESPONSE_BYTES < hr_size r then Inl unavailable
      else if hr_size r = 0 then Inr JNull
      else (case hr_json r of None \<Rightarrow> Inl unavailable | Some j \<Rightarrow> Inr j))"

definition ha_request ::
  "'w ha_net \<Rightarrow> string \<Rightarrow> string \<Rightarrow> json option \<Rightarrow> 'w \<Rightarrow> (adapter_exn + json) \<times> 'w"
where
  "ha_request n verb path body w =
     (case hn_request n verb path body w of
        (HttpError, w1) \<Rightarrow> (Inl unavailable, w1)
      | (HttpCancelled, w1) \<Rightarrow> (Inl TimeoutError, w1)
      | (Response r, w1) \<Rightarrow> (judge_response r, w1))"

text \<open>\<open>HaEntity.model_validate\<close>: the fields the model declares, within their bounds.\<close>

definition domain_char :: "char \<Rightarrow> bool" where
  "domain_char c \<longleftrightarrow> (let n = (of_char c :: nat) in (97 \<le> n \<and> n \<le> 122) \<or> n = 95)"

definition entity_id_ok :: "string \<Rightarrow> bool" where
  "entity_id_ok s \<longleftrightarrow>
     3 \<le> length s \<and> length s \<le> 255 \<and> CHR ''.'' \<in> set s \<and>
     before_dot s \<noteq> [] \<and> list_all domain_char (before_dot s) \<and>
     after_dot s \<noteq> [] \<and> list_all (\<lambda>c. domain_char c \<or> is_digit c) (after_dot s)"

definition parse_entity :: "json \<Rightarrow> ha_entity option" where
  "parse_entity j =
     (case j of
        JObj obj \<Rightarrow>
          (case (od_get obj ''entity_id'', od_get obj ''state'', od_get obj ''attributes'') of
             (Some (JStr i), Some (JStr s), a) \<Rightarrow>
               if entity_id_ok i \<and> length s \<le> 255
               then (case a of
                       None \<Rightarrow> Some \<lparr>he_entity_id = i, he_state = s, he_attributes = []\<rparr>
                     | Some (JObj attributes) \<Rightarrow>
                         Some \<lparr>he_entity_id = i, he_state = s, he_attributes = attributes\<rparr>
                     | Some v \<Rightarrow> None)
               else None
           | _ \<Rightarrow> None)
      | _ \<Rightarrow> None)"

definition parse_entities :: "json list \<Rightarrow> adapter_exn + ha_entity list" where
  "parse_entities payload =
     (let parsed = List.map_filter parse_entity payload in
      if payload \<noteq> [] \<and> parsed = [] then Inl unavailable else Inr parsed)"

definition ha_states :: "'w ha_net \<Rightarrow> 'w \<Rightarrow> (adapter_exn + ha_entity list) \<times> 'w" where
  "ha_states n w =
     (case ha_request n ''GET'' ''/api/states'' None w of
        (Inl e, w1) \<Rightarrow> (Inl e, w1)
      | (Inr (JList payload), w1) \<Rightarrow> (parse_entities payload, w1)
      | (Inr j, w1) \<Rightarrow> (Inl unavailable, w1))"

definition ha_state_of :: "'w ha_net \<Rightarrow> string \<Rightarrow> 'w \<Rightarrow> (adapter_exn + ha_entity) \<times> 'w" where
  "ha_state_of n entity_id w =
     (case ha_request n ''GET'' (''/api/states/'' @ entity_id) None w of
        (Inl e, w1) \<Rightarrow> (Inl e, w1)
      | (Inr j, w1) \<Rightarrow>
          ((case parse_entity j of None \<Rightarrow> Inl unavailable | Some e \<Rightarrow> Inr e), w1))"

definition service_path :: "string \<Rightarrow> string \<Rightarrow> string" where
  "service_path domain service = ''/api/services/'' @ domain @ ''/'' @ service"

definition call_service ::
  "'w ha_net \<Rightarrow> string \<Rightarrow> string \<Rightarrow> (string, json) odict \<Rightarrow> 'w \<Rightarrow> (adapter_exn + ha_entity list) \<times> 'w"
where
  "call_service n domain service data w =
     (case ha_request n ''POST'' (service_path domain service) (Some (JObj data)) w of
        (Inl e, w1) \<Rightarrow> (Inl e, w1)
      | (Inr (JList payload), w1) \<Rightarrow> (parse_entities payload, w1)
      | (Inr j, w1) \<Rightarrow> (Inr [], w1))"

subsection \<open>WebSocket\<close>

fun json_truthy :: "json \<Rightarrow> bool" where
  "json_truthy JNull = False"
| "json_truthy (JBool b) = b"
| "json_truthy (JInt n) = (n \<noteq> 0)"
| "json_truthy (JFloat q) = (q \<noteq> 0)"
| "json_truthy (JStr s) = (s \<noteq> [])"
| "json_truthy (JList xs) = (xs \<noteq> [])"
| "json_truthy (JObj kvs) = (kvs \<noteq> [])"

text \<open>\<open>value == n\<close> for an integer \<open>n\<close>: Python compares numbers and booleans by value.\<close>

fun json_equals_int :: "json \<Rightarrow> int \<Rightarrow> bool" where
  "json_equals_int (JInt k) n = (k = n)"
| "json_equals_int (JFloat q) n = (q = of_int n)"
| "json_equals_int (JBool b) n = (of_bool b = n)"
| "json_equals_int _ n = False"

record conversation =
  cv_incoming :: "ws_message list"
  cv_sent :: "json list"
  cv_command_id :: nat

fun receive_from :: "ws_message list \<Rightarrow> (adapter_exn + (string, json) odict) \<times> ws_message list" where
  "receive_from [] = (Inl unavailable, [])"
| "receive_from (WsCancelled # ms) = (Inl TimeoutError, ms)"
| "receive_from (WsFrame (JObj frame) # ms) = (Inr frame, ms)"
| "receive_from (m # ms) = (Inl unavailable, ms)"

definition ws_receive ::
  "conversation \<Rightarrow> (adapter_exn + (string, json) odict) \<times> conversation"
where
  "ws_receive cv = (let (r, ms) = receive_from (cv_incoming cv) in (r, cv\<lparr>cv_incoming := ms\<rparr>))"

definition ws_send :: "json \<Rightarrow> conversation \<Rightarrow> conversation" where
  "ws_send j cv = cv\<lparr>cv_sent := cv_sent cv @ [j]\<rparr>"

text \<open>The part of \<open>_socket\<close> before its body: the token is sent only when it was asked for.\<close>

definition ws_authenticate :: "string \<Rightarrow> conversation \<Rightarrow> (adapter_exn + unit) \<times> conversation" where
  "ws_authenticate token cv =
     (case ws_receive cv of
        (Inl e, cv1) \<Rightarrow> (Inl e, cv1)
      | (Inr greeting, cv1) \<Rightarrow>
          if od_get greeting ''type'' \<noteq> Some (JStr ''auth_required'') then (Inl unavailable, cv1)
          else
            (case ws_receive
                (ws_send (JObj [(''type'', JStr ''auth''), (''access_token'', JStr token)]) cv1) of
               (Inl e, cv2) \<Rightarrow> (Inl e, cv2)
             | (Inr reply, cv2) \<Rightarrow>
                 (if od_get reply ''type'' \<noteq> Some (JStr ''auth_ok'') then Inl unavailable else Inr (),
                  cv2)))"

text \<open>The loop of \<open>_command\<close>: frames that do not answer this command are passed over.\<close>

definition answers :: "nat \<Rightarrow> (string, json) odict \<Rightarrow> bool" where
  "answers i frame \<longleftrightarrow>
     (case od_get frame ''id'' of None \<Rightarrow> False | Some v \<Rightarrow> json_equals_int v (int i)) \<and>
     od_get frame ''type'' = Some (JStr ''result'')"

definition get_or_null :: "(string, json) odict \<Rightarrow> string \<Rightarrow> json" where
  "get_or_null d k = (case od_get d k of None \<Rightarrow> JNull | Some v \<Rightarrow> v)"

function await_result :: "nat \<Rightarrow> ws_message list \<Rightarrow> (adapter_exn + json) \<times> ws_message list" where
  "await_result i ms =
     (case receive_from ms of
        (Inl e, ms1) \<Rightarrow> (Inl e, ms1)
      | (Inr frame, ms1) \<Rightarrow>
          if answers i frame then
            (if json_truthy (get_or_null frame ''success'') then Inr (get_or_null frame ''result'')
             else Inl unavailable, ms1)
          else await_result i ms1)"
  by pat_completeness auto
termination
  by (relation "measure (\<lambda>(i, ms). length ms)")
    (auto elim!: receive_from.elims[OF sym])

declare await_result.simps [simp del]

definition ws_command ::
  "(string, json) odict \<Rightarrow> conversation \<Rightarrow> (adapter_exn + json) \<times> conversation"
where
  "ws_command message cv =
     (let i = Suc (cv_command_id cv);
          cv1 = ws_send (JObj (od_set ''id'' (JInt (int i)) message)) (cv\<lparr>cv_command_id := i\<rparr>);
          (r, ms) = await_result i (cv_incoming cv1)
      in (r, cv1\<lparr>cv_incoming := ms\<rparr>))"

subsection \<open>Rooms\<close>

definition json_rows :: "json \<Rightarrow> (string, json) odict list" where
  "json_rows j =
     (case j of
        JList items \<Rightarrow> List.map_filter (\<lambda>i. case i of JObj kvs \<Rightarrow> Some kvs | _ \<Rightarrow> None) items
      | _ \<Rightarrow> [])"

definition get_text :: "(string, json) odict \<Rightarrow> string \<Rightarrow> string option" where
  "get_text d k = (case od_get d k of Some (JStr s) \<Rightarrow> Some s | _ \<Rightarrow> None)"

definition area_names :: "(json \<Rightarrow> string) \<Rightarrow> json \<Rightarrow> (string, string) odict" where
  "area_names str areas =
     fold (\<lambda>item d.
        case (get_text item ''area_id'', get_or_null item ''name'') of
          (Some a, v) \<Rightarrow>
            if json_truthy v then od_set a (take 80 (case v of JStr s \<Rightarrow> s | _ \<Rightarrow> str v)) d else d
        | (None, v) \<Rightarrow> d)
       (json_rows areas) []"

definition device_areas :: "json \<Rightarrow> (string, string) odict" where
  "device_areas devices =
     fold (\<lambda>item d.
        case (get_text item ''id'', get_text item ''area_id'') of
          (Some i, Some a) \<Rightarrow> od_set i a d | _ \<Rightarrow> d)
       (json_rows devices) []"

text \<open>
  \<open>device_areas.get(item.get("device_id"))\<close>: looking up a list or an object raises \<open>TypeError\<close>.
\<close>

definition area_of :: "(string, string) odict \<Rightarrow> (string, json) odict \<Rightarrow> adapter_exn + string option" where
  "area_of by_device item =
     (case get_text item ''area_id'' of
        Some a \<Rightarrow> Inr (Some a)
      | None \<Rightarrow>
          (case get_or_null item ''device_id'' of
             JStr i \<Rightarrow> Inr (od_get by_device i)
           | JList xs \<Rightarrow> Inl (OtherException ''TypeError'')
           | JObj kvs \<Rightarrow> Inl (OtherException ''TypeError'')
           | _ \<Rightarrow> Inr None))"

fun place_entities ::
  "(string, string) odict \<Rightarrow> (string, string) odict \<Rightarrow> (string, json) odict list \<Rightarrow>
   (string, string) odict \<Rightarrow> adapter_exn + (string, string) odict"
where
  "place_entities names by_device [] rooms = Inr rooms"
| "place_entities names by_device (item # items) rooms =
     (case get_text item ''entity_id'' of
        None \<Rightarrow> place_entities names by_device items rooms
      | Some entity_id \<Rightarrow>
          (case area_of by_device item of
             Inl e \<Rightarrow> Inl e
           | Inr area \<Rightarrow>
               (case (case area of None \<Rightarrow> None | Some a \<Rightarrow> od_get names a) of
                  None \<Rightarrow> place_entities names by_device items rooms
                | Some name \<Rightarrow>
                    place_entities names by_device items
                      (if name = [] then rooms else od_set entity_id name rooms))))"

definition rooms_of ::
  "(json \<Rightarrow> string) \<Rightarrow> json \<Rightarrow> json \<Rightarrow> json \<Rightarrow> adapter_exn + (string, string) odict"
where
  "rooms_of str areas devices entities =
     place_entities (area_names str areas) (device_areas devices) (json_rows entities) []"

definition registry_list :: "string \<Rightarrow> (string, json) odict" where
  "registry_list what = [(''type'', JStr (''config/'' @ what @ ''/list''))]"

text \<open>The three registry commands of \<open>rooms\<close>, in one authenticated conversation.\<close>

definition fetch_registries ::
  "string \<Rightarrow> conversation \<Rightarrow> (adapter_exn + json \<times> json \<times> json) \<times> conversation"
where
  "fetch_registries token cv =
     (case ws_authenticate token cv of
        (Inl e, cv1) \<Rightarrow> (Inl e, cv1)
      | (Inr u, cv1) \<Rightarrow>
          (case ws_command (registry_list ''area_registry'') cv1 of
             (Inl e, cv2) \<Rightarrow> (Inl e, cv2)
           | (Inr areas, cv2) \<Rightarrow>
               (case ws_command (registry_list ''device_registry'') cv2 of
                  (Inl e, cv3) \<Rightarrow> (Inl e, cv3)
                | (Inr devices, cv3) \<Rightarrow>
                    (case ws_command (registry_list ''entity_registry'') cv3 of
                       (Inl e, cv4) \<Rightarrow> (Inl e, cv4)
                     | (Inr entities, cv4) \<Rightarrow> (Inr (areas, devices, entities), cv4)))))"

definition new_conversation :: "ws_message list \<Rightarrow> nat \<Rightarrow> conversation" where
  "new_conversation ms i = \<lparr>cv_incoming = ms, cv_sent = [], cv_command_id = i\<rparr>"

definition ha_rooms ::
  "'w ha_net \<Rightarrow> string \<Rightarrow> nat \<Rightarrow> 'w \<Rightarrow> (adapter_exn + (string, string) odict) \<times> nat \<times> 'w"
where
  "ha_rooms n token i w =
     (case hn_open n w of
        (WsFailed, w1) \<Rightarrow> (Inr [], i, w1)
      | (WsOpenCancelled, w1) \<Rightarrow> (Inl TimeoutError, i, w1)
      | (WsOpen ms, w1) \<Rightarrow>
          (case fetch_registries token (new_conversation ms i) of
             (Inl (Provider e), cv) \<Rightarrow>
               (if is_unavailable e then Inr [] else Inl (Provider e), cv_command_id cv, w1)
           | (Inl e, cv) \<Rightarrow> (Inl e, cv_command_id cv, w1)
           | (Inr (areas, devices, entities), cv) \<Rightarrow>
               (rooms_of (hn_str n) areas devices entities, cv_command_id cv, w1)))"

subsection \<open>Live events\<close>

definition event_entity :: "(string, json) odict \<Rightarrow> ha_entity option" where
  "event_entity frame =
     (if od_get frame ''type'' \<noteq> Some (JStr ''event'') then None
      else
        (case get_or_null frame ''event'' of
           JObj event \<Rightarrow>
             (case get_or_null event ''data'' of
                JObj data \<Rightarrow> parse_entity (get_or_null data ''new_state'')
              | _ \<Rightarrow> None)
         | _ \<Rightarrow> None))"

text \<open>What the generator yields before the exception that ends it.\<close>

function entities_until :: "ws_message list \<Rightarrow> ha_entity list \<times> adapter_exn" where
  "entities_until ms =
     (case receive_from ms of
        (Inl e, ms1) \<Rightarrow> ([], e)
      | (Inr frame, ms1) \<Rightarrow>
          (let (es, e) = entities_until ms1 in
           ((case event_entity frame of None \<Rightarrow> es | Some x \<Rightarrow> x # es), e)))"
  by pat_completeness auto
termination
  by (relation "measure length") (auto elim!: receive_from.elims[OF sym])

declare entities_until.simps [simp del]

definition ha_events ::
  "'w ha_net \<Rightarrow> string \<Rightarrow> nat \<Rightarrow> 'w \<Rightarrow> (ha_entity list \<times> adapter_exn) \<times> nat \<times> 'w"
where
  "ha_events n token i w =
     (case hn_open n w of
        (WsFailed, w1) \<Rightarrow> (([], unavailable), i, w1)
      | (WsOpenCancelled, w1) \<Rightarrow> (([], TimeoutError), i, w1)
      | (WsOpen ms, w1) \<Rightarrow>
          (case ws_authenticate token (new_conversation ms i) of
             (Inl e, cv) \<Rightarrow> (([], e), cv_command_id cv, w1)
           | (Inr u, cv) \<Rightarrow>
               (case ws_command
                   [(''type'', JStr ''subscribe_events''), (''event_type'', JStr ''state_changed'')] cv of
                  (Inl e, cv1) \<Rightarrow> (([], e), cv_command_id cv1, w1)
                | (Inr j, cv1) \<Rightarrow> (entities_until (cv_incoming cv1), cv_command_id cv1, w1))))"

end
