(* ===== verification/HA_Provider.thy ===== *)
theory HA_Provider
  imports HA_Client
begin

section \<open>The Home Assistant adapter\<close>

text \<open>
  \<open>integrations/home_assistant/provider.py\<close>: discovery with the operator's release, reading, and
  writing one service call with its read-back. A validation error of the state model leaves the
  adapter as an exception that is not a provider error. A sensor that reads an infinity or a
  NaN has no \<open>provider_state\<close> over exact numbers; reading it is the exception \<open>NonFinite\<close> of
  the model.
\<close>

definition HA_PROVIDER_NAME :: string where "HA_PROVIDER_NAME = ''home_assistant''"
definition HA_CONFIRM_ATTEMPTS :: nat where "HA_CONFIRM_ATTEMPTS = 4"

definition ha_ref :: "string \<Rightarrow> provider_device_ref" where
  "ha_ref entity_id = \<lparr>ref_provider = HA_PROVIDER_NAME, ref_provider_device_id = entity_id\<rparr>"

record ha_call =
  hl_service :: string
  hl_data :: "(string, json) odict"
  hl_expected :: device_state

text \<open>The configuration of an adapter, and the state it keeps with its client.\<close>

record 'w ha_config =
  hf_net :: "'w ha_net"
  hf_token :: string
  hf_released :: "string set"
  hf_clock :: "nat \<Rightarrow> datetime"
  hf_confirm_attempts :: nat

record ha_adapter_state =
  hp_kinds :: "(string, device_kind) odict"
  hp_command_id :: nat
  hp_ticks :: nat

definition new_ha :: ha_adapter_state where
  "new_ha = \<lparr>hp_kinds = [], hp_command_id = 0, hp_ticks = 0\<rparr>"

subsection \<open>Discovery\<close>

definition released_domain :: "string set \<Rightarrow> string \<Rightarrow> bool" where
  "released_domain released d \<longleftrightarrow> d \<in> released \<and> d \<in> set RELEASABLE_DOMAINS"

definition offered :: "string set \<Rightarrow> string \<Rightarrow> ha_mapping \<Rightarrow> capability list" where
  "offered released d m =
     (if released_domain released d then hm_capabilities m
      else filter (\<lambda>c. c \<notin> set (hm_writable m)) (hm_capabilities m))"

definition described :: "string set \<Rightarrow> (string, string) odict \<Rightarrow> ha_entity \<Rightarrow> ha_mapping \<Rightarrow> provider_device" where
  "described released rooms e m =
     \<lparr>pd_ref = ha_ref (he_entity_id e), pd_suggested_name = display_name e, pd_kind = hm_kind m,
      pd_capabilities = offered released (domain_of e) m,
      pd_room_hint = od_get rooms (he_entity_id e), pd_constraints = hm_constraints m\<rparr>"

fun advertise ::
  "string set \<Rightarrow> (string, string) odict \<Rightarrow> ha_entity list \<Rightarrow> (string, device_kind) odict \<Rightarrow>
   provider_device list \<times> (string, device_kind) odict"
where
  "advertise released rooms [] kinds = ([], kinds)"
| "advertise released rooms (e # es) kinds =
     (case describe e of
        None \<Rightarrow> advertise released rooms es kinds
      | Some m \<Rightarrow>
          (let (ds, kinds1) = advertise released rooms es (od_set (he_entity_id e) (hm_kind m) kinds)
           in (described released rooms e m # ds, kinds1)))"

definition ha_discover ::
  "'w ha_config \<Rightarrow> ha_adapter_state \<times> 'w \<Rightarrow> (adapter_exn + provider_device list) \<times> ha_adapter_state \<times> 'w"
where
  "ha_discover cf = (\<lambda>(h, w).
     (case ha_states (hf_net cf) w of
        (Inl e, w1) \<Rightarrow> (Inl e, h, w1)
      | (Inr entities, w1) \<Rightarrow>
          (case ha_rooms (hf_net cf) (hf_token cf) (hp_command_id h) w1 of
             (Inl e, i, w2) \<Rightarrow> (Inl e, h\<lparr>hp_command_id := i\<rparr>, w2)
           | (Inr rooms, i, w2) \<Rightarrow>
               (let (ds, kinds) = advertise (hf_released cf) rooms entities []
                in (Inr ds, h\<lparr>hp_kinds := kinds, hp_command_id := i\<rparr>, w2)))))"

subsection \<open>Reading\<close>

definition known_entity :: "provider_device_ref \<Rightarrow> ha_adapter_state \<Rightarrow> adapter_exn + string" where
  "known_entity r h =
     (if ref_provider r \<noteq> HA_PROVIDER_NAME then Inl unavailable
      else if od_get (hp_kinds h) (ref_provider_device_id r) = None then Inl unavailable
      else Inr (ref_provider_device_id r))"

text \<open>\<open>normalise\<close> as its callers see it, before the clock is read.\<close>

definition observed_state :: "ha_entity \<Rightarrow> device_kind \<Rightarrow> adapter_exn + device_state" where
  "observed_state e kind =
     (case normalise e kind of
        Normalised s \<Rightarrow> Inr s
      | ValidationError \<Rightarrow> Inl (OtherException ''ValidationError'')
      | NonFiniteReading \<Rightarrow> Inl (OtherException ''NonFinite''))"

definition ha_snapshot ::
  "'w ha_config \<Rightarrow> ha_entity \<Rightarrow> ha_adapter_state \<times> 'w \<Rightarrow> (adapter_exn + provider_state) \<times> ha_adapter_state \<times> 'w"
where
  "ha_snapshot cf e = (\<lambda>(h, w).
     (let kind = (case od_get (hp_kinds h) (he_entity_id e) of None \<Rightarrow> SENSOR | Some k \<Rightarrow> k) in
      (case observed_state e kind of
         Inl x \<Rightarrow> (Inl x, h, w)
       | Inr s \<Rightarrow>
           (Inr \<lparr>ps_state = s, ps_availability = ha_availability e,
                 ps_observed_at = hf_clock cf (hp_ticks h)\<rparr>,
            h\<lparr>hp_ticks := Suc (hp_ticks h)\<rparr>, w))))"

definition ha_get_state ::
  "'w ha_config \<Rightarrow> provider_device_ref \<Rightarrow> ha_adapter_state \<times> 'w
     \<Rightarrow> (adapter_exn + provider_state) \<times> ha_adapter_state \<times> 'w"
where
  "ha_get_state cf r = (\<lambda>(h, w).
     (case known_entity r h of
        Inl e \<Rightarrow> (Inl e, h, w)
      | Inr entity_id \<Rightarrow>
          (case ha_state_of (hf_net cf) entity_id w of
             (Inl e, w1) \<Rightarrow> (Inl e, h, w1)
           | (Inr entity, w1) \<Rightarrow> ha_snapshot cf entity (h, w1))))"

subsection \<open>Writing\<close>

definition call_for :: "provider_command \<Rightarrow> adapter_exn + ha_call" where
  "call_for c =
     (case (pc_action c, pc_params c) of
        (SET_POWER, OnOffParams on) \<Rightarrow>
          Inr \<lparr>hl_service = (if on then ''turn_on'' else ''turn_off''), hl_data = [],
               hl_expected = empty_state\<lparr>ds_power := Some on\<rparr>\<rparr>
      | (SET_BRIGHTNESS, BrightnessParams b) \<Rightarrow>
          Inr (if b = 0
               then \<lparr>hl_service = ''turn_off'', hl_data = [],
                     hl_expected = empty_state\<lparr>ds_power := Some False\<rparr>\<rparr>
               else \<lparr>hl_service = ''turn_on'', hl_data = [(''brightness_pct'', JInt b)],
                     hl_expected = empty_state\<lparr>ds_power := Some True, ds_brightness := Some b\<rparr>\<rparr>)
      | (SET_VOLUME, VolumeParams v) \<Rightarrow>
          Inr \<lparr>hl_service = ''volume_set'',
               hl_data = [(''volume_level'', JFloat (py_round_digits (of_int v / 100) 2))],
               hl_expected = empty_state\<lparr>ds_volume := Some v\<rparr>\<rparr>
      | (SET_PLAYBACK, PlaybackParams p) \<Rightarrow>
          Inr \<lparr>hl_service = (if p = PLAY then ''media_play'' else ''media_pause''), hl_data = [],
               hl_expected = empty_state\<rparr>
      | (SET_TARGET_TEMPERATURE, TargetTemperatureParams celsius) \<Rightarrow>
          Inr \<lparr>hl_service = ''set_temperature'', hl_data = [(''temperature'', JFloat celsius)],
               hl_expected = empty_state\<lparr>ds_target_temperature_c := Some celsius\<rparr>\<rparr>
      | _ \<Rightarrow> Inl (Provider ProviderRejectedError))"

text \<open>
  \<open>_matches\<close> field by field: a wanted temperature is met within 0.51, a wanted brightness by a
  neighbouring percentage, anything else by the same value.
\<close>

definition same_if_wanted :: "'a option \<Rightarrow> 'a option \<Rightarrow> bool" where
  "same_if_wanted wanted seen \<longleftrightarrow> (wanted = None \<or> seen = wanted)"

definition near_if_wanted :: "rat option \<Rightarrow> rat option \<Rightarrow> bool" where
  "near_if_wanted wanted seen \<longleftrightarrow>
     (case wanted of
        None \<Rightarrow> True
      | Some v \<Rightarrow> (case seen of None \<Rightarrow> False | Some x \<Rightarrow> \<bar>x - v\<bar> \<le> 51 / 100))"

definition neighbour_if_wanted :: "int option \<Rightarrow> int option \<Rightarrow> bool" where
  "neighbour_if_wanted wanted seen \<longleftrightarrow>
     (case wanted of
        None \<Rightarrow> True
      | Some v \<Rightarrow> (case seen of None \<Rightarrow> False | Some x \<Rightarrow> \<bar>x - v\<bar> \<le> 1))"

definition agrees :: "device_state \<Rightarrow> device_state \<Rightarrow> bool" where
  "agrees wanted seen \<longleftrightarrow>
     same_if_wanted (ds_power wanted) (ds_power seen) \<and>
     neighbour_if_wanted (ds_brightness wanted) (ds_brightness seen) \<and>
     near_if_wanted (ds_current_temperature_c wanted) (ds_current_temperature_c seen) \<and>
     near_if_wanted (ds_target_temperature_c wanted) (ds_target_temperature_c seen) \<and>
     same_if_wanted (ds_heater wanted) (ds_heater seen) \<and>
     same_if_wanted (ds_filter_pump wanted) (ds_filter_pump seen) \<and>
     same_if_wanted (ds_filter_last_started_at wanted) (ds_filter_last_started_at seen) \<and>
     same_if_wanted (ds_bubbles wanted) (ds_bubbles seen) \<and>
     same_if_wanted (ds_control_panel_lock wanted) (ds_control_panel_lock seen) \<and>
     same_if_wanted (ds_lock_state wanted) (ds_lock_state seen) \<and>
     same_if_wanted (ds_volume wanted) (ds_volume seen) \<and>
     same_if_wanted (ds_playback wanted) (ds_playback seen) \<and>
     same_if_wanted (ds_program wanted) (ds_program seen) \<and>
     same_if_wanted (ds_program_name wanted) (ds_program_name seen) \<and>
     same_if_wanted (ds_remaining_seconds wanted) (ds_remaining_seconds seen)"

definition ha_matches :: "ha_entity \<Rightarrow> device_kind \<Rightarrow> device_state \<Rightarrow> adapter_exn + bool" where
  "ha_matches e kind expected =
     (if expected = empty_state then Inr True
      else (case observed_state e kind of Inl x \<Rightarrow> Inl x | Inr s \<Rightarrow> Inr (agrees expected s)))"

text \<open>The loop over the answered entities: the first of ours that already reads correctly.\<close>

fun first_match ::
  "string \<Rightarrow> device_kind \<Rightarrow> device_state \<Rightarrow> ha_entity list \<Rightarrow> adapter_exn + ha_entity option"
where
  "first_match entity_id kind expected [] = Inr None"
| "first_match entity_id kind expected (e # es) =
     (if he_entity_id e \<noteq> entity_id then first_match entity_id kind expected es
      else
        (case ha_matches e kind expected of
           Inl x \<Rightarrow> Inl x
         | Inr True \<Rightarrow> Inr (Some e)
         | Inr False \<Rightarrow> first_match entity_id kind expected es))"

fun ha_confirm ::
  "'w ha_net \<Rightarrow> string \<Rightarrow> device_kind \<Rightarrow> device_state \<Rightarrow> nat \<Rightarrow> bool \<Rightarrow> ha_entity option \<Rightarrow> 'w
     \<Rightarrow> (adapter_exn + ha_entity option) \<times> 'w"
where
  "ha_confirm n entity_id kind expected 0 first latest w = (Inr latest, w)"
| "ha_confirm n entity_id kind expected (Suc left) first latest w =
     (case (if first then (Inr (), w) else hn_sleep n w) of
        (Inl e, w1) \<Rightarrow> (Inl e, w1)
      | (Inr u, w1) \<Rightarrow>
          (case ha_state_of n entity_id w1 of
             (Inl (Provider e), w2) \<Rightarrow>
               if is_unavailable e then ha_confirm n entity_id kind expected left False latest w2
               else (Inl (Provider e), w2)
           | (Inl e, w2) \<Rightarrow> (Inl e, w2)
           | (Inr entity, w2) \<Rightarrow>
               (case ha_matches entity kind expected of
                  Inl x \<Rightarrow> (Inl x, w2)
                | Inr True \<Rightarrow> (Inr (Some entity), w2)
                | Inr False \<Rightarrow> ha_confirm n entity_id kind expected left False (Some entity) w2)))"

definition ha_applied ::
  "'w ha_config \<Rightarrow> ha_entity \<Rightarrow> ha_adapter_state \<times> 'w
     \<Rightarrow> (adapter_exn + provider_command_result) \<times> ha_adapter_state \<times> 'w"
where
  "ha_applied cf e s =
     (case ha_snapshot cf e s of
        (Inl x, s1) \<Rightarrow> (Inl x, s1)
      | (Inr st, s1) \<Rightarrow>
          (Inr \<lparr>pcr_outcome = APPLIED, pcr_state = Some st, pcr_failure_code = None\<rparr>, s1))"

definition ha_settle ::
  "'w ha_config \<Rightarrow> device_kind \<Rightarrow> device_state \<Rightarrow> ha_entity option \<Rightarrow> ha_adapter_state \<times> 'w
     \<Rightarrow> (adapter_exn + provider_command_result) \<times> ha_adapter_state \<times> 'w"
where
  "ha_settle cf kind expected observed s =
     (case observed of
        None \<Rightarrow>
          (Inr \<lparr>pcr_outcome = command_outcome.UNKNOWN, pcr_state = None,
                pcr_failure_code = Some ''read_back_failed''\<rparr>, s)
      | Some e \<Rightarrow>
          (case ha_snapshot cf e s of
             (Inl x, s1) \<Rightarrow> (Inl x, s1)
           | (Inr st, s1) \<Rightarrow>
               (case ha_matches e kind expected of
                  Inl x \<Rightarrow> (Inl x, s1)
                | Inr True \<Rightarrow>
                    (Inr \<lparr>pcr_outcome = APPLIED, pcr_state = Some st, pcr_failure_code = None\<rparr>, s1)
                | Inr False \<Rightarrow>
                    (Inr \<lparr>pcr_outcome = command_outcome.UNKNOWN, pcr_state = Some st,
                          pcr_failure_code = Some ''not_confirmed_by_device''\<rparr>, s1))))"

definition ha_carry_out ::
  "'w ha_config \<Rightarrow> string \<Rightarrow> device_kind \<Rightarrow> ha_call \<Rightarrow> ha_adapter_state \<times> 'w
     \<Rightarrow> (adapter_exn + provider_command_result) \<times> ha_adapter_state \<times> 'w"
where
  "ha_carry_out cf entity_id kind call = (\<lambda>(h, w).
     (case call_service (hf_net cf) (before_dot entity_id) (hl_service call)
             (fold (\<lambda>(k, v). od_set k v) (hl_data call) [(''entity_id'', JStr entity_id)]) w of
        (Inl e, w1) \<Rightarrow> (Inl e, h, w1)
      | (Inr changed, w1) \<Rightarrow>
          (case first_match entity_id kind (hl_expected call) changed of
             Inl e \<Rightarrow> (Inl e, h, w1)
           | Inr (Some e) \<Rightarrow> ha_applied cf e (h, w1)
           | Inr None \<Rightarrow>
               (case ha_confirm (hf_net cf) entity_id kind (hl_expected call)
                       (hf_confirm_attempts cf) True None w1 of
                  (Inl e, w2) \<Rightarrow> (Inl e, h, w2)
                | (Inr observed, w2) \<Rightarrow> ha_settle cf kind (hl_expected call) observed (h, w2)))))"

definition ha_execute ::
  "'w ha_config \<Rightarrow> provider_device_ref \<Rightarrow> provider_command \<Rightarrow> ha_adapter_state \<times> 'w
     \<Rightarrow> (adapter_exn + provider_command_result) \<times> ha_adapter_state \<times> 'w"
where
  "ha_execute cf r c = (\<lambda>(h, w).
     (case known_entity r h of
        Inl e \<Rightarrow> (Inl e, h, w)
      | Inr entity_id \<Rightarrow>
          (case od_get (hp_kinds h) entity_id of
             None \<Rightarrow> (Inl (OtherException ''KeyError''), h, w)
           | Some kind \<Rightarrow>
               if \<not> released_domain (hf_released cf) (before_dot entity_id)
               then (Inl (Provider ProviderRejectedError), h, w)
               else
                 (case call_for c of
                    Inl e \<Rightarrow> (Inl e, h, w)
                  | Inr call \<Rightarrow> ha_carry_out cf entity_id kind call (h, w)))))"

definition ha_adapter :: "'w ha_config \<Rightarrow> (ha_adapter_state \<times> 'w) device_provider" where
  "ha_adapter cf =
     \<lparr>dp_name = HA_PROVIDER_NAME, dp_discover_devices = ha_discover cf,
      dp_get_state = ha_get_state cf, dp_execute = ha_execute cf\<rparr>"

subsection \<open>The event stream\<close>

text \<open>
  \<open>subscribe\<close> passes on the entities it discovered, the snapshot first and then the live
  changes: the events it yields before the exception that ends it. A state that does not
  validate ends it there.
\<close>

fun relay ::
  "'w ha_config \<Rightarrow> ha_entity list \<Rightarrow> ha_adapter_state \<times> 'w
     \<Rightarrow> (provider_event list \<times> adapter_exn option) \<times> ha_adapter_state \<times> 'w"
where
  "relay cf [] s = (([], None), s)"
| "relay cf (e # es) s =
     (if od_get (hp_kinds (fst s)) (he_entity_id e) = None then relay cf es s
      else
        (case ha_snapshot cf e s of
           (Inl x, s1) \<Rightarrow> (([], Some x), s1)
         | (Inr st, s1) \<Rightarrow>
             (let ((evs, x), s2) = relay cf es s1
              in ((\<lparr>pe_ref = ha_ref (he_entity_id e), pe_state = st\<rparr> # evs, x), s2))))"

definition ha_subscribe ::
  "'w ha_config \<Rightarrow> ha_adapter_state \<times> 'w
     \<Rightarrow> (provider_event list \<times> adapter_exn) \<times> ha_adapter_state \<times> 'w"
where
  "ha_subscribe cf = (\<lambda>(h, w).
     (case ha_states (hf_net cf) w of
        (Inl e, w1) \<Rightarrow> (([], e), h, w1)
      | (Inr entities, w1) \<Rightarrow>
          (case relay cf entities (h, w1) of
             ((evs, Some x), s2) \<Rightarrow> ((evs, x), s2)
           | ((evs, None), (h2, w2)) \<Rightarrow>
               (case ha_events (hf_net cf) (hf_token cf) (hp_command_id h2) w2 of
                  ((changed, stop), i, w3) \<Rightarrow>
                    (case relay cf changed (h2\<lparr>hp_command_id := i\<rparr>, w3) of
                       ((evs', x), s4) \<Rightarrow> ((evs @ evs', case x of None \<Rightarrow> stop | Some y \<Rightarrow> y), s4))))))"

end
