(* ===== verification/HA_Address.thy ===== *)
theory HA_Address
  imports Prelude
begin

section \<open>The address of a Home Assistant instance\<close>

text \<open>
  \<open>normalise_base_url\<close> and \<open>websocket_url\<close> of \<open>integrations/home_assistant/client.py\<close>, with what
  they use of \<open>urllib.parse\<close>: splitting an address into its parts, the host and the credentials
  of the network location, and putting parts together again. The check of a bracketed IPv6
  literal, which belongs to the \<open>ipaddress\<close> module, is the parameter \<open>ipv6_ok\<close>.
\<close>

subsection \<open>Splitting an address\<close>

record url_parts =
  up_scheme :: string
  up_netloc :: string
  up_path :: string
  up_query :: string
  up_fragment :: string

datatype address_error = InvalidUrl | ConfigurationError string

definition before :: "char \<Rightarrow> string \<Rightarrow> string" where
  "before c s = takeWhile (\<lambda>x. x \<noteq> c) s"

definition after :: "char \<Rightarrow> string \<Rightarrow> string" where
  "after c s = drop 1 (dropWhile (\<lambda>x. x \<noteq> c) s)"

definition after_last :: "char \<Rightarrow> string \<Rightarrow> string" where
  "after_last c s = rev (before c (rev s))"

definition before_last :: "char \<Rightarrow> string \<Rightarrow> string" where
  "before_last c s = rev (after c (rev s))"

definition is_letter :: "char \<Rightarrow> bool" where
  "is_letter c = (let n = (of_char c :: nat) in (65 \<le> n \<and> n \<le> 90) \<or> (97 \<le> n \<and> n \<le> 122))"

definition scheme_char :: "char \<Rightarrow> bool" where
  "scheme_char c \<longleftrightarrow> is_letter c \<or> (let n = (of_char c :: nat) in 48 \<le> n \<and> n \<le> 57) \<or> c \<in> set ''+-.''"

definition control_or_space :: "char \<Rightarrow> bool" where
  "control_or_space c \<longleftrightarrow> (of_char c :: nat) \<le> 32"

definition unsafe_char :: "char \<Rightarrow> bool" where
  "unsafe_char c = (let n = (of_char c :: nat) in n = 9 \<or> n = 10 \<or> n = 13)"

definition ends_netloc :: "char \<Rightarrow> bool" where
  "ends_netloc c \<longleftrightarrow> c \<in> set ''/?#''"

definition split_scheme :: "string \<Rightarrow> string \<times> string" where
  "split_scheme url =
     (let name = before (CHR '':'') url in
      if CHR '':'' \<in> set url \<and> name \<noteq> [] \<and> is_letter (hd name) \<and> list_all scheme_char name
      then (py_casefold name, after (CHR '':'') url)
      else ([], url))"

definition split_netloc :: "string \<Rightarrow> string \<times> string" where
  "split_netloc url =
     (if take 2 url = ''//''
      then (takeWhile (\<lambda>c. \<not> ends_netloc c) (drop 2 url), dropWhile (\<lambda>c. \<not> ends_netloc c) (drop 2 url))
      else ([], url))"

definition netloc_ok :: "(string \<Rightarrow> bool) \<Rightarrow> string \<Rightarrow> bool" where
  "netloc_ok ipv6_ok netloc \<longleftrightarrow>
     (CHR ''['' \<in> set netloc \<longleftrightarrow> CHR '']'' \<in> set netloc) \<and> (CHR ''['' \<in> set netloc \<longrightarrow> ipv6_ok netloc)"

definition urlsplit :: "(string \<Rightarrow> bool) \<Rightarrow> string \<Rightarrow> address_error + url_parts" where
  "urlsplit ipv6_ok raw =
     (let url = filter (\<lambda>c. \<not> unsafe_char c) (dropWhile control_or_space raw);
          (scheme, rest) = split_scheme url;
          (netloc, tail) = split_netloc rest;
          body = before (CHR ''#'') tail
      in if \<not> netloc_ok ipv6_ok netloc then Inl InvalidUrl
         else Inr \<lparr>up_scheme = scheme, up_netloc = netloc, up_path = before (CHR ''?'') body,
                   up_query = after (CHR ''?'') body, up_fragment = after (CHR ''#'') tail\<rparr>)"

text \<open>
  \<open>hostname\<close>, which is only tested for being there and therefore not put into lower case, and
  whether \<open>username\<close> or \<open>password\<close> are given and not empty.
\<close>

definition url_hostname :: "url_parts \<Rightarrow> string" where
  "url_hostname p =
     (let host = after_last (CHR ''@'') (up_netloc p) in
      if CHR ''['' \<in> set host then before (CHR '']'') (after (CHR ''['') host) else before (CHR '':'') host)"

definition has_credentials :: "url_parts \<Rightarrow> bool" where
  "has_credentials p =
     (let userinfo = before_last (CHR ''@'') (up_netloc p) in
      CHR ''@'' \<in> set (up_netloc p) \<and> (before (CHR '':'') userinfo \<noteq> [] \<or> after (CHR '':'') userinfo \<noteq> []))"

text \<open>\<open>urlunsplit\<close> for a network location that is not empty, without query and fragment.\<close>

definition urlunsplit :: "string \<Rightarrow> string \<Rightarrow> string \<Rightarrow> string" where
  "urlunsplit scheme netloc path =
     scheme @ ''://'' @ netloc @ (if path \<noteq> [] \<and> hd path \<noteq> CHR ''/'' then CHR ''/'' # path else path)"

subsection \<open>The check of the configured address\<close>

definition rstrip_slash :: "string \<Rightarrow> string" where
  "rstrip_slash s = rev (dropWhile (\<lambda>c. c = CHR ''/'') (rev s))"

definition normalise_base_url :: "(string \<Rightarrow> bool) \<Rightarrow> string \<Rightarrow> address_error + string" where
  "normalise_base_url ipv6_ok raw =
     (case urlsplit ipv6_ok (py_strip raw) of
        Inl e \<Rightarrow> Inl e
      | Inr p \<Rightarrow>
          if up_scheme p \<notin> {''http'', ''https''}
          then Inl (ConfigurationError ''the Home Assistant address must be http:// or https://'')
          else if url_hostname p = []
          then Inl (ConfigurationError ''the Home Assistant address has no host'')
          else if has_credentials p
          then Inl (ConfigurationError ''credentials do not belong in the Home Assistant address'')
          else if up_query p \<noteq> [] \<or> up_fragment p \<noteq> []
          then Inl (ConfigurationError ''the Home Assistant address must be a plain base address'')
          else Inr (urlunsplit (up_scheme p) (up_netloc p) (rstrip_slash (up_path p))))"

definition websocket_url :: "(string \<Rightarrow> bool) \<Rightarrow> string \<Rightarrow> address_error + string" where
  "websocket_url ipv6_ok base =
     (case urlsplit ipv6_ok base of
        Inl e \<Rightarrow> Inl e
      | Inr p \<Rightarrow>
          Inr (urlunsplit (if up_scheme p = ''https'' then ''wss'' else ''ws'') (up_netloc p)
                 (up_path p @ ''/api/websocket'')))"

subsection \<open>What the pieces of an address contain\<close>

lemma set_before: "set (before c s) \<subseteq> set s" and not_in_before [simp]: "c \<notin> set (before c s)"
  by (auto simp: before_def dest: set_takeWhileD)

lemma set_after: "set (after c s) \<subseteq> set s"
  unfolding after_def by (meson set_dropWhileD set_drop_subset subset_iff)

lemma before_all: "c \<notin> set s \<Longrightarrow> before c s = s" and after_none: "c \<notin> set s \<Longrightarrow> after c s = []"
  by (induction s) (auto simp: before_def after_def)

lemma rstrip_slash_last: "rstrip_slash s = [] \<or> last (rstrip_slash s) \<noteq> CHR ''/''"
  unfolding rstrip_slash_def using hd_dropWhile[of "\<lambda>c. c = CHR ''/''" "rev s"]
  by (cases "dropWhile (\<lambda>c. c = CHR ''/'') (rev s)") auto

lemma rstrip_slash_prefix: obtains t where "s = rstrip_slash s @ t"
proof
  show "s = rstrip_slash s @ rev (takeWhile (\<lambda>c. c = CHR ''/'') (rev s))"
    unfolding rstrip_slash_def by (metis rev_append rev_rev_ident takeWhile_dropWhile_id)
qed

subsection \<open>Splitting and putting together\<close>

definition plain_char :: "char \<Rightarrow> bool" where
  "plain_char c \<longleftrightarrow> \<not> unsafe_char c \<and> c \<noteq> CHR ''?'' \<and> c \<noteq> CHR ''#''"

lemma plain_marks: "list_all plain_char s \<Longrightarrow> CHR ''?'' \<notin> set s \<and> CHR ''#'' \<notin> set s"
  by (induction s) (auto simp: plain_char_def)

lemma urlsplit_Inr:
  assumes "urlsplit ipv6_ok raw = Inr p"
  shows "netloc_ok ipv6_ok (up_netloc p)" and "list_all plain_char (up_netloc p @ up_path p)"
    and "\<forall>c \<in> set (up_netloc p). \<not> ends_netloc c"
    and "up_netloc p \<noteq> [] \<Longrightarrow> up_path p = [] \<or> hd (up_path p) = CHR ''/''"
proof -
  let ?url = "filter (\<lambda>c. \<not> unsafe_char c) (dropWhile control_or_space raw)"
  obtain scheme rest where sch: "split_scheme ?url = (scheme, rest)" by (rule prod.exhaust)
  obtain netloc tail where net: "split_netloc rest = (netloc, tail)" by (rule prod.exhaust)
  have p: "up_netloc p = netloc" "up_path p = before (CHR ''?'') (before (CHR ''#'') tail)"
    and ok: "netloc_ok ipv6_ok netloc"
    using assms sch net by (auto simp: urlsplit_def Let_def split: if_splits)
  have "set rest \<subseteq> set ?url"
    using sch set_after[of "CHR '':''" ?url] by (auto simp: split_scheme_def Let_def split: if_splits)
  then have safe: "\<forall>c \<in> set rest. \<not> unsafe_char c" by auto
  have nt: "set netloc \<subseteq> set rest" "set tail \<subseteq> set rest" "\<forall>c \<in> set netloc. \<not> ends_netloc c"
    using net by (auto simp: split_netloc_def split: if_splits dest!: set_takeWhileD set_dropWhileD in_set_dropD)
  show "netloc_ok ipv6_ok (up_netloc p)" and "\<forall>c \<in> set (up_netloc p). \<not> ends_netloc c"
    using p ok nt by simp_all
  have "set (up_path p) \<subseteq> set tail" "CHR ''?'' \<notin> set (up_path p)" "CHR ''#'' \<notin> set (up_path p)"
    unfolding p using set_before[of "CHR ''?''" "before (CHR ''#'') tail"] set_before[of "CHR ''#''" tail]
      not_in_before[of "CHR ''#''" tail] by auto
  then show "list_all plain_char (up_netloc p @ up_path p)"
    using p nt safe by (auto simp: list_all_iff plain_char_def ends_netloc_def)
  show "up_path p = [] \<or> hd (up_path p) = CHR ''/''" if "up_netloc p \<noteq> []"
  proof (cases tail)
    case (Cons c cs)
    have "tail = dropWhile (\<lambda>c. \<not> ends_netloc c) (drop 2 rest)"
      using net that p by (auto simp: split_netloc_def split: if_splits)
    with Cons have "ends_netloc c" using hd_dropWhile[of "\<lambda>c. \<not> ends_netloc c" "drop 2 rest"] by auto
    then have "c = CHR ''/'' \<or> c = CHR ''?'' \<or> c = CHR ''#''" by (simp add: ends_netloc_def)
    with Cons show ?thesis unfolding p by (auto simp: before_def)
  qed (simp add: p before_def)
qed

lemma urlsplit_urlunsplit:
  assumes "scheme \<in> {''http'', ''https''}" and "netloc \<noteq> []" and "netloc_ok ipv6_ok netloc"
    and "list_all plain_char (netloc @ path)" and "\<forall>c \<in> set netloc. \<not> ends_netloc c"
    and "path = [] \<or> hd path = CHR ''/''"
  shows "urlsplit ipv6_ok (urlunsplit scheme netloc path) =
    Inr \<lparr>up_scheme = scheme, up_netloc = netloc, up_path = path, up_query = [], up_fragment = []\<rparr>"
proof -
  let ?u = "scheme @ ''://'' @ netloc @ path"
  have u: "urlunsplit scheme netloc path = ?u" using assms(6) by (auto simp: urlunsplit_def)
  have safe: "\<forall>c \<in> set (netloc @ path). \<not> unsafe_char c"
    and clean: "CHR ''?'' \<notin> set path" "CHR ''#'' \<notin> set path"
    using assms(4) by (auto simp: list_all_iff plain_char_def)
  have "filter (\<lambda>c. \<not> unsafe_char c) (dropWhile control_or_space ?u) = ?u"
    using assms(1) safe by (auto simp: control_or_space_def unsafe_char_def Let_def)
  moreover have "split_scheme ?u = (scheme, ''//'' @ netloc @ path)"
    using assms(1) by (auto simp: split_scheme_def before_def after_def scheme_char_def is_letter_def
        Let_def py_casefold_def lower_char_def)
  moreover have "split_netloc (''//'' @ netloc @ path) = (netloc, path)"
    using assms(5,6) by (cases path) (auto simp: split_netloc_def takeWhile_append dropWhile_append ends_netloc_def)
  ultimately show ?thesis
    using assms(3) clean by (simp add: u urlsplit_def before_all after_none)
qed

text \<open>
  C31. The configured address is what the gateway talks to. An accepted address is plain HTTP or
  HTTPS with a host, without credentials, query or fragment, and ends in no slash; splitting it
  again yields exactly its scheme, network location and path, so nothing is lost between the check
  and the use; and the live connection goes to the same host and path, encrypted exactly if the
  address is.
\<close>

theorem address_sound:
  assumes "normalise_base_url ipv6_ok raw = Inr base"
  shows "\<exists>p. base = up_scheme p @ ''://'' @ up_netloc p @ up_path p \<and>
    urlsplit ipv6_ok base = Inr p \<and> up_scheme p \<in> {''http'', ''https''} \<and> url_hostname p \<noteq> [] \<and>
    \<not> has_credentials p \<and> CHR ''?'' \<notin> set base \<and> CHR ''#'' \<notin> set base \<and> last base \<noteq> CHR ''/'' \<and>
    websocket_url ipv6_ok base =
      Inr ((if up_scheme p = ''https'' then ''wss'' else ''ws'') @ ''://'' @ up_netloc p @ up_path p @ ''/api/websocket'')"
proof -
  obtain q where q: "urlsplit ipv6_ok (py_strip raw) = Inr q" "up_scheme q \<in> {''http'', ''https''}"
    "url_hostname q \<noteq> []" "\<not> has_credentials q"
    and base: "base = urlunsplit (up_scheme q) (up_netloc q) (rstrip_slash (up_path q))"
    using assms by (auto simp: normalise_base_url_def split: sum.splits if_splits)
  let ?path = "rstrip_slash (up_path q)"
  note parts = urlsplit_Inr[OF q(1)]
  have net: "up_netloc q \<noteq> []"
    using q(3) by (auto simp: url_hostname_def after_last_def before_def Let_def)
  obtain t where pre: "up_path q = ?path @ t" by (rule rstrip_slash_prefix)
  have path: "?path = [] \<or> hd ?path = CHR ''/''" using parts(4)[OF net] pre by (cases ?path) auto
  have plain: "list_all plain_char (up_netloc q @ ?path)" using parts(2) pre by (metis append_assoc list_all_append)
  let ?p = "\<lparr>up_scheme = up_scheme q, up_netloc = up_netloc q, up_path = ?path, up_query = [], up_fragment = []\<rparr>"
  have split: "urlsplit ipv6_ok base = Inr ?p"
    unfolding base by (rule urlsplit_urlunsplit[OF q(2) net parts(1) plain parts(3) path])
  have shape: "base = up_scheme q @ ''://'' @ up_netloc q @ ?path"
    using path by (auto simp: base urlunsplit_def)
  have marks: "CHR ''?'' \<notin> set base" "CHR ''#'' \<notin> set base"
    unfolding shape using plain_marks[OF plain] q(2) by (elim insertE; simp)+
  have "last (up_netloc q) \<noteq> CHR ''/''" using parts(3) net last_in_set[OF net] by (auto simp: ends_netloc_def)
  then have slash: "last base \<noteq> CHR ''/''"
    unfolding shape using rstrip_slash_last[of "up_path q"] net by (cases "?path = []") simp_all
  have ws: "websocket_url ipv6_ok base =
      Inr ((if up_scheme q = ''https'' then ''wss'' else ''ws'') @ ''://'' @ up_netloc q @ ?path @ ''/api/websocket'')"
    using path by (cases ?path) (auto simp: websocket_url_def split urlunsplit_def)
  show ?thesis
    using split shape marks slash ws q(2,3,4)
    by (intro exI[of _ ?p]) (simp add: url_hostname_def has_credentials_def)
qed

theorem address_sound_witness:
  "websocket_url (\<lambda>s. True) ''https://ha.local:8123/base'' = Inr ''wss://ha.local:8123/base/api/websocket'' \<and>
   normalise_base_url (\<lambda>s. True) '' https://ha.local:8123/base/ '' = Inr ''https://ha.local:8123/base''"
proof -
  have accepted: "normalise_base_url (\<lambda>s. True) '' https://ha.local:8123/base/ '' = Inr ''https://ha.local:8123/base''"
    by code_simp
  have split: "urlsplit (\<lambda>s. True) ''https://ha.local:8123/base'' =
      Inr \<lparr>up_scheme = ''https'', up_netloc = ''ha.local:8123'', up_path = ''/base'', up_query = [], up_fragment = []\<rparr>"
    by code_simp
  from address_sound[OF accepted] accepted show ?thesis by (auto simp: split)
qed

end
