(* ===== verification/Weather_Provider.thy ===== *)
theory Weather_Provider
  imports Provider_Base
begin

section \<open>The outdoor temperature\<close>

text \<open>
  \<open>integrations/weather/provider.py\<close>: one reading from a forecast service, as a sensor. The
  HTTP client is the parameter \<open>weather_net\<close>: a request fails (also with an error status, or with
  content that is not JSON), is cancelled by the caller's deadline, or yields a document. The
  conversion of the number in it is the validation library's, as in \<open>coercions\<close>. \<open>random()\<close>
  is an argument of the turn that draws it.
\<close>

definition WEATHER_PROVIDER_NAME :: string where "WEATHER_PROVIDER_NAME = ''weather''"
definition WEATHER_DEVICE_ID :: string where "WEATHER_DEVICE_ID = ''outdoor''"
definition PLAUSIBLE_MIN_C :: rat where "PLAUSIBLE_MIN_C = - 90"
definition PLAUSIBLE_MAX_C :: rat where "PLAUSIBLE_MAX_C = 60"
definition WEATHER_INITIAL_BACKOFF :: rat where "WEATHER_INITIAL_BACKOFF = 60"
definition WEATHER_MAX_BACKOFF :: rat where "WEATHER_MAX_BACKOFF = 3600"

datatype weather_answer = NoAnswer | FetchCancelled | Forecast json

record 'w weather_config =
  wf_get :: "'w \<Rightarrow> weather_answer \<times> 'w"
  wf_coercions :: coercions
  wf_clock :: "nat \<Rightarrow> datetime"
  wf_display_name :: string
  wf_room_hint :: "string option"

text \<open>The state of an adapter is the number of clock readings it took.\<close>

type_synonym 'w weather = "nat \<times> 'w"

definition outdoor_ref :: provider_device_ref where
  "outdoor_ref = \<lparr>ref_provider = WEATHER_PROVIDER_NAME, ref_provider_device_id = WEATHER_DEVICE_ID\<rparr>"

definition weather_discover :: "'w weather_config \<Rightarrow> provider_device list" where
  "weather_discover cf =
     [\<lparr>pd_ref = outdoor_ref, pd_suggested_name = wf_display_name cf, pd_kind = SENSOR,
       pd_capabilities = [capability.CURRENT_TEMPERATURE], pd_room_hint = wf_room_hint cf,
       pd_constraints = no_constraints\<rparr>]"

text \<open>\<open>_Forecast.model_validate\<close>.\<close>

definition forecast_temperature :: "coercions \<Rightarrow> json \<Rightarrow> rat option" where
  "forecast_temperature co payload =
     (case payload of
        JObj forecast \<Rightarrow>
          (case od_get forecast ''current'' of
             Some (JObj current) \<Rightarrow>
               (case od_get current ''temperature_2m'' of
                  None \<Rightarrow> None
                | Some v \<Rightarrow>
                    (case co_float co v of
                       None \<Rightarrow> None
                     | Some t \<Rightarrow> if PLAUSIBLE_MIN_C \<le> t \<and> t \<le> PLAUSIBLE_MAX_C then Some t else None))
           | _ \<Rightarrow> None)
      | _ \<Rightarrow> None)"

definition weather_fetch :: "'w weather_config \<Rightarrow> 'w \<Rightarrow> (adapter_exn + rat) \<times> 'w" where
  "weather_fetch cf w =
     (case wf_get cf w of
        (NoAnswer, w1) \<Rightarrow> (Inl (Provider ProviderUnavailableError), w1)
      | (FetchCancelled, w1) \<Rightarrow> (Inl TimeoutError, w1)
      | (Forecast payload, w1) \<Rightarrow>
          (case forecast_temperature (wf_coercions cf) payload of
             None \<Rightarrow> (Inl (Provider ProviderUnavailableError), w1)
           | Some t \<Rightarrow> (Inr (py_round_digits t 1), w1)))"

definition outdoor_state :: "rat \<Rightarrow> datetime \<Rightarrow> provider_state" where
  "outdoor_state celsius now =
     \<lparr>ps_state = empty_state\<lparr>ds_current_temperature_c := Some celsius\<rparr>,
      ps_availability = availability.ONLINE, ps_observed_at = now\<rparr>"

definition weather_get_state ::
  "'w weather_config \<Rightarrow> provider_device_ref \<Rightarrow> 'w weather \<Rightarrow> (adapter_exn + provider_state) \<times> 'w weather"
where
  "weather_get_state cf r = (\<lambda>(k, w).
     if r \<noteq> outdoor_ref then (Inl (Provider ProviderUnavailableError), k, w)
     else
       (case weather_fetch cf w of
          (Inl e, w1) \<Rightarrow> (Inl e, k, w1)
        | (Inr celsius, w1) \<Rightarrow> (Inr (outdoor_state celsius (wf_clock cf k)), Suc k, w1)))"

definition weather_execute ::
  "provider_device_ref \<Rightarrow> provider_command \<Rightarrow> 'w weather \<Rightarrow> (adapter_exn + provider_command_result) \<times> 'w weather"
where
  "weather_execute r c s = (Inl (Provider ProviderRejectedError), s)"

definition weather_adapter :: "'w weather_config \<Rightarrow> 'w weather device_provider" where
  "weather_adapter cf =
     \<lparr>dp_name = WEATHER_PROVIDER_NAME, dp_discover_devices = (\<lambda>s. (Inr (weather_discover cf), s)),
      dp_get_state = weather_get_state cf, dp_execute = weather_execute\<rparr>"

text \<open>
  One turn of \<open>subscribe\<close> after its pause, from a backoff: the event it yields or the seconds it
  waits before the next turn, and the next backoff; or the exception that ends it.
\<close>

definition weather_turn ::
  "'w weather_config \<Rightarrow> rat \<Rightarrow> rat \<Rightarrow> 'w weather
     \<Rightarrow> (adapter_exn + (rat + provider_event) \<times> rat) \<times> 'w weather"
where
  "weather_turn cf random backoff = (\<lambda>(k, w).
     (case weather_fetch cf w of
        (Inl (Provider e), w1) \<Rightarrow>
          if is_unavailable e
          then (Inr (Inl (min (backoff + random * 30) WEATHER_MAX_BACKOFF), min (backoff * 2) WEATHER_MAX_BACKOFF),
                k, w1)
          else (Inl (Provider e), k, w1)
      | (Inl e, w1) \<Rightarrow> (Inl e, k, w1)
      | (Inr celsius, w1) \<Rightarrow>
          (Inr (Inr \<lparr>pe_ref = outdoor_ref, pe_state = outdoor_state celsius (wf_clock cf k)\<rparr>, WEATHER_INITIAL_BACKOFF),
           Suc k, w1)))"

lemma outdoor_state_ok [simp]: "device_state_ok (ps_state (outdoor_state t now))"
  by (simp add: outdoor_state_def device_state_ok_def empty_state_def opt_between_def)

interpretation weather: adapter_contract "weather_adapter cf" "{outdoor_ref}" "\<lambda>w. True"
proof unfold_locales
  fix s :: "'a weather" and pds
  show "fst (dp_discover_devices (weather_adapter cf) s) = Inr pds \<Longrightarrow> pd_ref ` set pds \<subseteq> {outdoor_ref}"
    by (auto simp: weather_adapter_def weather_discover_def)
next
  fix r and s :: "'a weather" and st
  assume "fst (dp_get_state (weather_adapter cf) r s) = Inr st"
  then show "device_state_ok (ps_state st)"
    by (cases s) (auto simp: weather_adapter_def weather_get_state_def split: if_splits sum.splits prod.splits)
next
  fix r c and s :: "'a weather" and res st
  show "fst (dp_execute (weather_adapter cf) r c s) = Inr res \<Longrightarrow> pcr_state res = Some st \<Longrightarrow>
      device_state_ok (ps_state st)"
    by (simp add: weather_adapter_def weather_execute_def)
qed simp_all

text \<open>What a fetch can yield: a plausible temperature, to a tenth of a degree.\<close>

lemma weather_fetch_Inr:
  assumes "weather_fetch cf w = (Inr t, w1)"
  obtains x where "t = py_round_digits x 1" "PLAUSIBLE_MIN_C \<le> t" "t \<le> PLAUSIBLE_MAX_C"
proof -
  from assms obtain x where x: "t = py_round_digits x 1" "- 90 \<le> x" "x \<le> 60"
    by (auto simp: weather_fetch_def forecast_temperature_def PLAUSIBLE_MIN_C_def PLAUSIBLE_MAX_C_def
        split: prod.splits weather_answer.splits option.splits json.splits if_splits)
  have "py_round_digits (- 90) 1 = - 90" "py_round_digits 60 1 = 60"
    using py_round_int[of "- 900"] py_round_int[of 600] by (simp_all add: py_round_digits_def)
  with x py_round_digits_mono[of "- 90" x 1] py_round_digits_mono[of x 60 1] show thesis
    by (intro that[of x]) (simp_all add: PLAUSIBLE_MIN_C_def PLAUSIBLE_MAX_C_def)
qed

text \<open>The pause after a failure never exceeds an hour, and never undercuts the first backoff.\<close>

lemma weather_turn_backoff:
  assumes "WEATHER_INITIAL_BACKOFF \<le> b" and "b \<le> WEATHER_MAX_BACKOFF" and "0 \<le> random"
    and "weather_turn cf random b s = (Inr (out, b'), s')"
  shows "WEATHER_INITIAL_BACKOFF \<le> b' \<and> b' \<le> WEATHER_MAX_BACKOFF \<and>
    (\<forall>d. out = Inl d \<longrightarrow> b \<le> d \<and> d \<le> WEATHER_MAX_BACKOFF)"
  using assms
  by (cases s) (auto simp: weather_turn_def WEATHER_INITIAL_BACKOFF_def WEATHER_MAX_BACKOFF_def
      split: prod.splits sum.splits adapter_exn.splits if_splits)

end
