(* ===== verification/Composition.thy ===== *)
theory Composition
  imports Gateway_State Rate_Limiter Settings Bestway_Provider Demo_Provider HA_Provider HA_Address Weather_Provider
begin

section \<open>The composition root\<close>

text \<open>
  \<open>container.py\<close>: which adapters a deployment is built with, and the state it starts in. An
  adapter that is built is recorded by the arguments of its constructor, under the name it
  answers to; the client of Home Assistant checks its address as it is constructed. Loading a layout
  from a file is the parameter \<open>load\<close>, the check of an IPv6 literal \<open>ipv6_ok\<close>.
\<close>

datatype build_error = LayoutRefused profile_error | LayoutInvalid | AddressRefused address_error

datatype built_provider =
    BuiltDemo (demo_failure_rate: rat) (demo_tick: rat)
  | BuiltBestway (bestway_host: string) (bestway_port: int) (bestway_layout: datapoint_profile) (bestway_poll: rat)
  | BuiltHomeAssistant (ha_base_url: string) (ha_token: string) (ha_timeout: rat) (ha_released: "string set")
  | BuiltWeather (weather_latitude: rat) (weather_longitude: rat) (weather_name: string) (weather_poll: rat)

definition datapoint_named :: "string \<Rightarrow> datapoint option" where
  "datapoint_named s =
     List.find (\<lambda>d. datapoint_value d = s)
       [datapoint.CURRENT_TEMPERATURE, datapoint.TARGET_TEMPERATURE, HEATER, FILTER_PUMP,
        datapoint.BUBBLES, datapoint.CONTROL_PANEL_LOCK, UNIT_IS_FAHRENHEIT]"

fun datapoints_named :: "string list \<Rightarrow> datapoint set option" where
  "datapoints_named [] = Some {}"
| "datapoints_named (s # ss) =
     (case datapoint_named s of
        None \<Rightarrow> None
      | Some d \<Rightarrow> map_option (insert d) (datapoints_named ss))"

text \<open>
  \<open>load_profile\<close> of \<open>integrations/bestway/datapoints.py\<close>, over the reading of the file, the JSON parser
  and the validation library, which counts the problems of a document it refuses; \<open>load\<close> below is
  this function for the files of the deployment.
\<close>

definition load_profile ::
  "(string \<Rightarrow> string option) \<Rightarrow> (string \<Rightarrow> 'j option) \<Rightarrow> ('j \<Rightarrow> string + datapoint_profile) \<Rightarrow> string
     \<Rightarrow> profile_error + datapoint_profile"
where
  "load_profile read_text json_loads validate path =
     (case read_text path of
        None \<Rightarrow> Inl (ProfileError (''cannot read the datapoint layout at '' @ path))
      | Some content \<Rightarrow>
          (case json_loads content of
             None \<Rightarrow> Inl (ProfileError ''the datapoint layout is not valid JSON'')
           | Some raw \<Rightarrow>
               (case validate raw of
                  Inl problems \<Rightarrow> Inl (ProfileError (''the datapoint layout is invalid: '' @ problems @ '' problem(s)''))
                | Inr p \<Rightarrow> Inr p)))"

lemma load_profile_valid:
  assumes "\<And>raw p. validate raw = Inr p \<Longrightarrow> profile_ok p" and "load_profile read_text json_loads validate path = Inr p"
  shows "profile_ok p"
  using assms by (auto simp: load_profile_def split: option.splits sum.splits)

definition build_bestway_profile ::
  "(string \<Rightarrow> profile_error + datapoint_profile) \<Rightarrow> settings \<Rightarrow> build_error + datapoint_profile"
where
  "build_bestway_profile load s =
     (case (case st_bestway_profile_path s of
              Some path \<Rightarrow> load path | None \<Rightarrow> builtin_profile (st_bestway_profile s)) of
        Inl e \<Rightarrow> Inl (LayoutRefused e)
      | Inr base \<Rightarrow>
          (case datapoints_named (st_bestway_write_enabled s) of
             None \<Rightarrow> Inl (LayoutRefused (ProfileError ''HOMEFLOW_BESTWAY_WRITE_ENABLED names an unknown datapoint''))
           | Some writable \<Rightarrow>
               (let p = base\<lparr>pf_trusted := st_bestway_trust_profile s, pf_writable := writable\<rparr> in
                if profile_ok p then Inr p else Inl LayoutInvalid)))"

definition bestway_part ::
  "(string \<Rightarrow> profile_error + datapoint_profile) \<Rightarrow> settings \<Rightarrow> build_error + (string, built_provider) odict"
where
  "bestway_part load s =
     (if st_bestway_enabled s \<and> truthy_str (st_bestway_host s)
      then (case build_bestway_profile load s of
              Inl e \<Rightarrow> Inl e
            | Inr p \<Rightarrow>
                Inr [(BESTWAY_PROVIDER_NAME,
                      BuiltBestway (the (st_bestway_host s)) (st_bestway_port s) p (st_bestway_poll_seconds s))])
      else Inr [])"

definition home_assistant_part ::
  "(string \<Rightarrow> bool) \<Rightarrow> settings \<Rightarrow> build_error + (string, built_provider) odict"
where
  "home_assistant_part ipv6_ok s =
     (if st_home_assistant_enabled s \<and> truthy_str (st_home_assistant_base_url s) \<and>
        truthy_str (st_home_assistant_token s)
      then (case normalise_base_url ipv6_ok (the (st_home_assistant_base_url s)) of
              Inl e \<Rightarrow> Inl (AddressRefused e)
            | Inr base \<Rightarrow>
                Inr [(HA_PROVIDER_NAME,
                      BuiltHomeAssistant base (the (st_home_assistant_token s))
                        (st_home_assistant_timeout_seconds s) (set (st_home_assistant_write_enabled s)))])
      else Inr [])"

definition weather_part :: "settings \<Rightarrow> (string, built_provider) odict" where
  "weather_part s =
     (case (st_weather_enabled s, st_weather_latitude s, st_weather_longitude s) of
        (True, Some lat, Some lon) \<Rightarrow>
          [(WEATHER_PROVIDER_NAME,
            BuiltWeather lat lon (st_weather_display_name s) (st_weather_poll_seconds s))]
      | _ \<Rightarrow> [])"

text \<open>The four names differ, so each insertion is at the end of the dictionary.\<close>

definition build_providers ::
  "(string \<Rightarrow> profile_error + datapoint_profile) \<Rightarrow> (string \<Rightarrow> bool) \<Rightarrow> settings
     \<Rightarrow> build_error + (string, built_provider) odict"
where
  "build_providers load ipv6_ok s =
     (if st_demo_mode s
      then Inr [(DEMO_PROVIDER_NAME, BuiltDemo (st_demo_failure_rate s) (st_demo_tick_seconds s))]
      else
        (case bestway_part load s of
           Inl e \<Rightarrow> Inl e
         | Inr bs \<Rightarrow>
             (case home_assistant_part ipv6_ok s of
                Inl e \<Rightarrow> Inl e
              | Inr hs \<Rightarrow> Inr (bs @ hs @ weather_part s))))"

definition MAX_RATE_KEYS :: nat where "MAX_RATE_KEYS = 1024"

record container =
  ct_settings :: settings
  ct_gateway :: gateway
  ct_clients :: "registered_client list"
  ct_tickets :: ticket_store
  ct_providers :: "(string, built_provider) odict"
  ct_auth_rate_limiter :: rate_limiter
  ct_command_rate_limiter :: rate_limiter

text \<open>The default bounds of the audit log and of a rate limiter.\<close>

definition AUDIT_ENTRIES :: nat where "AUDIT_ENTRIES = 2000"

definition build_container ::
  "(string \<Rightarrow> profile_error + datapoint_profile) \<Rightarrow> (string \<Rightarrow> bool) \<Rightarrow> hmac \<Rightarrow> (string \<Rightarrow> string) \<Rightarrow>
     (nat \<Rightarrow> datetime) \<Rightarrow> (nat \<Rightarrow> uuid) \<Rightarrow> settings \<Rightarrow> build_error + container"
where
  "build_container load ipv6_ok h digest clock uuids s =
     (case build_providers load ipv6_ok s of
        Inl e \<Rightarrow> Inl e
      | Inr providers \<Rightarrow>
          Inr \<lparr>ct_settings = s,
               ct_gateway = new_gateway clock uuids (effective_id_salt s) (nat (st_event_queue_size s)) AUDIT_ENTRIES,
               ct_clients = build_client_registry h digest s,
               ct_tickets = new_ticket_store TICKET_TTL_SECONDS,
               ct_providers = providers,
               ct_auth_rate_limiter = new_rate_limiter 30 (Some 10) MAX_RATE_KEYS,
               ct_command_rate_limiter = new_rate_limiter (st_command_rate_limit_per_minute s) None MAX_RATE_KEYS\<rparr>)"

subsection \<open>Lemmas\<close>

lemma datapoint_named_value: "datapoint_named s = Some d \<longleftrightarrow> datapoint_value d = s"
  by (cases d) (auto simp: datapoint_named_def)

lemma datapoint_value_inject: "datapoint_value d = datapoint_value e \<longleftrightarrow> d = e"
  by (metis datapoint_named_value option.inject)

lemma datapoints_named_mem:
  "datapoints_named ss = Some ds \<Longrightarrow> d \<in> ds \<longleftrightarrow> datapoint_value d \<in> set ss"
  by (induction ss arbitrary: ds) (auto simp: datapoint_named_value datapoint_value_inject split: option.splits)

lemma provider_names [simp]:
  "DEMO_PROVIDER_NAME = ''demo''" "BESTWAY_PROVIDER_NAME = ''bestway''"
  "HA_PROVIDER_NAME = ''home_assistant''" "WEATHER_PROVIDER_NAME = ''weather''"
  by (simp_all add: DEMO_PROVIDER_NAME_def BESTWAY_PROVIDER_NAME_def HA_PROVIDER_NAME_def WEATHER_PROVIDER_NAME_def)

lemma build_bestway_profile_Inr:
  assumes "build_bestway_profile load s = Inr p"
  shows "profile_ok p" "pf_trusted p = st_bestway_trust_profile s"
    and "d \<in> pf_writable p \<longleftrightarrow> datapoint_value d \<in> set (st_bestway_write_enabled s)"
  using assms datapoints_named_mem[of "st_bestway_write_enabled s" _ d]
  by (auto simp: build_bestway_profile_def Let_def split: sum.splits option.splits if_splits)

lemma bestway_part_Inr:
  assumes "bestway_part load s = Inr bs"
  shows "bs = [] \<or> (\<exists>p. st_bestway_enabled s \<and> build_bestway_profile load s = Inr p \<and>
    bs = [(BESTWAY_PROVIDER_NAME,
      BuiltBestway (the (st_bestway_host s)) (st_bestway_port s) p (st_bestway_poll_seconds s))])"
  using assms by (auto simp: bestway_part_def split: if_splits sum.splits)

lemma home_assistant_part_Inr:
  assumes "home_assistant_part ipv6_ok s = Inr hs"
  shows "hs = [] \<or> (\<exists>base t w. st_home_assistant_enabled s \<and>
    normalise_base_url ipv6_ok (the (st_home_assistant_base_url s)) = Inr base \<and>
    hs = [(HA_PROVIDER_NAME, BuiltHomeAssistant base t w (set (st_home_assistant_write_enabled s)))])"
  using assms by (auto simp: home_assistant_part_def split: if_splits sum.splits)

lemma weather_part_cases:
  "weather_part s = [] \<or>
   (st_weather_enabled s \<and> (\<exists>a b n w. weather_part s = [(WEATHER_PROVIDER_NAME, BuiltWeather a b n w)]))"
  by (auto simp: weather_part_def split: option.splits bool.splits)

lemma build_providers_keys:
  assumes "build_providers load ipv6_ok s = Inr ps"
  shows "distinct (map fst ps)" and "st_demo_mode s \<Longrightarrow> map fst ps = [DEMO_PROVIDER_NAME]"
    and "\<not> st_demo_mode s \<Longrightarrow> DEMO_PROVIDER_NAME \<notin> set (map fst ps)"
proof -
  show "st_demo_mode s \<Longrightarrow> map fst ps = [DEMO_PROVIDER_NAME]"
    using assms by (simp add: build_providers_def) (metis fst_conv list.simps(8,9))
  have rest: "distinct (map fst ps) \<and> DEMO_PROVIDER_NAME \<notin> set (map fst ps)" if "\<not> st_demo_mode s"
  proof -
    from assms that obtain bs hs where bs: "bestway_part load s = Inr bs"
      and hs: "home_assistant_part ipv6_ok s = Inr hs" and ps: "ps = bs @ hs @ weather_part s"
      by (auto simp: build_providers_def split: sum.splits)
    from bestway_part_Inr[OF bs] home_assistant_part_Inr[OF hs] weather_part_cases[of s] show ?thesis
      unfolding ps by (elim disjE exE conjE) simp_all
  qed
  show "distinct (map fst ps)"
    using rest assms by (cases "st_demo_mode s") (auto simp: build_providers_def)
  show "\<not> st_demo_mode s \<Longrightarrow> DEMO_PROVIDER_NAME \<notin> set (map fst ps)" using rest by blast
qed

lemma built_adapters:
  assumes "build_container load ipv6_ok h digest clk uuids s = Inr c"
  shows "build_providers load ipv6_ok s = Inr (ct_providers c)"
    and "ct_gateway c = new_gateway clk uuids (effective_id_salt s) (nat (st_event_queue_size s)) AUDIT_ENTRIES"
    and "ct_clients c = build_client_registry h digest s"
  using assms by (auto simp: build_container_def split: sum.splits)

lemma built_outside_demo:
  assumes "build_providers load ipv6_ok s = Inr ps" and "(n, b) \<in> set ps" and "\<And>r t. b \<noteq> BuiltDemo r t"
  obtains bs hs where "bestway_part load s = Inr bs" "home_assistant_part ipv6_ok s = Inr hs"
    "(n, b) \<in> set (bs @ hs @ weather_part s)"
  using assms by (auto simp: build_providers_def split: if_splits sum.splits)

lemma built_bestway_fits:
  assumes none: "fail_closed s = None" and ps: "build_providers load ipv6_ok s = Inr ps"
    and mem: "(n, BuiltBestway host port p every) \<in> set ps"
  shows "st_bestway_enabled s \<and> profile_ok p \<and> (pf_writable p \<noteq> {} \<longrightarrow> pf_trusted p) \<and>
      (pf_trusted p \<longrightarrow> st_bestway_trust_profile s) \<and>
      (\<forall>d. d \<in> pf_writable p \<longleftrightarrow> datapoint_value d \<in> set (st_bestway_write_enabled s))"
proof -
  obtain bs hs where bs: "bestway_part load s = Inr bs" and hs: "home_assistant_part ipv6_ok s = Inr hs"
    and all: "(n, BuiltBestway host port p every) \<in> set (bs @ hs @ weather_part s)"
    using built_outside_demo[OF ps mem] by blast
  with home_assistant_part_Inr[OF hs] weather_part_cases[of s]
  have "(n, BuiltBestway host port p every) \<in> set bs" by auto
  with bestway_part_Inr[OF bs] have built: "st_bestway_enabled s" "build_bestway_profile load s = Inr p" by auto
  note made = build_bestway_profile_Inr[OF built(2)]
  have "pf_trusted p" if "pf_writable p \<noteq> {}"
  proof -
    from that obtain d where "d \<in> pf_writable p" by blast
    with made(3)[of d] have "st_bestway_write_enabled s \<noteq> []" by auto
    with fail_closed_None(7)[OF none] made(2) show ?thesis by simp
  qed
  with built made show ?thesis by simp
qed

lemma built_home_assistant_fits:
  assumes none: "fail_closed s = None" and ps: "build_providers load ipv6_ok s = Inr ps"
    and mem: "(n, BuiltHomeAssistant url token t released) \<in> set ps"
  shows "st_home_assistant_enabled s \<and> released \<subseteq> set RELEASABLE_DOMAINS \<and>
    normalise_base_url ipv6_ok (the (st_home_assistant_base_url s)) = Inr url"
proof -
  obtain bs hs where bs: "bestway_part load s = Inr bs" and hs: "home_assistant_part ipv6_ok s = Inr hs"
    and all: "(n, BuiltHomeAssistant url token t released) \<in> set (bs @ hs @ weather_part s)"
    using built_outside_demo[OF ps mem] by blast
  with bestway_part_Inr[OF bs] weather_part_cases[of s]
  have "(n, BuiltHomeAssistant url token t released) \<in> set hs" by auto
  with home_assistant_part_Inr[OF hs] have "st_home_assistant_enabled s"
    "normalise_base_url ipv6_ok (the (st_home_assistant_base_url s)) = Inr url"
    "released = set (st_home_assistant_write_enabled s)" by auto
  with fail_closed_None(4)[OF none] unreleasable_Nil[of s] show ?thesis by simp
qed

subsection \<open>Properties\<close>

text \<open>
  C27. What a deployment can reach follows from its settings. With settings the validator
  accepted: demo mode builds the synthetic adapter and nothing else; outside it the synthetic
  adapter is never built; a controller is written to only where the operator trusted its layout
  and released the datapoint by name; no door domain is ever released and the address of Home
  Assistant passed its check; in production no development client exists; and identifiers are keyed
  with the configured salt.
\<close>

theorem composition_fits_settings:
  assumes "settings_valid s" and "build_container load ipv6_ok h digest clk uuids s = Inr c"
  shows "distinct (map fst (ct_providers c)) \<and>
    (st_demo_mode s \<longrightarrow> map fst (ct_providers c) = [DEMO_PROVIDER_NAME]) \<and>
    (\<not> st_demo_mode s \<longrightarrow> DEMO_PROVIDER_NAME \<notin> set (map fst (ct_providers c)) \<and>
       st_id_salt s = Some (reg_id_salt (gw_registry (ct_gateway c)))) \<and>
    (\<forall>n host port p poll. (n, BuiltBestway host port p poll) \<in> set (ct_providers c) \<longrightarrow>
       st_bestway_enabled s \<and> profile_ok p \<and> (pf_writable p \<noteq> {} \<longrightarrow> pf_trusted p) \<and>
       (pf_trusted p \<longrightarrow> st_bestway_trust_profile s) \<and>
       (\<forall>d. d \<in> pf_writable p \<longleftrightarrow> datapoint_value d \<in> set (st_bestway_write_enabled s))) \<and>
    (\<forall>n url token t released. (n, BuiltHomeAssistant url token t released) \<in> set (ct_providers c) \<longrightarrow>
       st_home_assistant_enabled s \<and> released \<subseteq> set RELEASABLE_DOMAINS \<and>
       normalise_base_url ipv6_ok (the (st_home_assistant_base_url s)) = Inr url) \<and>
    (st_env s = PRODUCTION \<longrightarrow> ct_clients c = [])"
proof -
  have none: "fail_closed s = None" using assms(1) by (simp add: settings_valid_def)
  note built = built_adapters[OF assms(2)]
  have "ct_clients c = []" if "st_env s = PRODUCTION"
    using that fail_closed_None(2)[OF none] built(3) by (simp add: build_client_registry_def)
  moreover have "st_id_salt s = Some (reg_id_salt (gw_registry (ct_gateway c)))" if "\<not> st_demo_mode s"
    using that fail_closed_None(8)[OF none]
    by (auto simp: built(2) new_gateway_def new_registry_def effective_id_salt_def)
  ultimately show ?thesis
    using build_providers_keys[OF built(1)] built_bestway_fits[OF none built(1)]
      built_home_assistant_fits[OF none built(1)] by simp
qed

theorem composition_fits_settings_witness:
  "\<exists>c. build_container (\<lambda>path. Inl (ProfileError ''none'')) (\<lambda>host. True) (\<lambda>salt m. []) (\<lambda>t. t) (\<lambda>n. 0) (\<lambda>n. 0) default_settings = Inr c \<and>
     map fst (ct_providers c) = [''demo'']"
proof -
  obtain c where run: "build_container (\<lambda>path. Inl (ProfileError ''none'')) (\<lambda>host. True) (\<lambda>salt m. []) (\<lambda>t. t) (\<lambda>n. 0) (\<lambda>n. 0)
      default_settings = Inr c"
    by (simp add: build_container_def build_providers_def default_settings_def)
  from composition_fits_settings[OF default_settings_valid run] run show ?thesis
    by (simp add: default_settings_def)
qed

end
