(* ===== verification/Bestway_Properties.thy ===== *)
theory Bestway_Properties
  imports Bestway_Provider
begin

section \<open>What leaves for the controller, and what is reported back\<close>

text \<open>
  A network whose writes are recorded, so that what an operation sends can be stated. Nothing but
  a command's single control request changes the controller; the properties bound those requests
  and say what a reported success means.
\<close>

definition logged :: "'w network \<Rightarrow> (bytes list \<times> 'w) network" where
  "logged n =
     \<lparr>net_open = (\<lambda>(l, w). let (r, w1) = net_open n w in (r, (l, w1))),
      net_read = (\<lambda>(l, w). let (r, w1) = net_read n w in (r, (l, w1))),
      net_write = (\<lambda>bs (l, w). let (r, w1) = net_write n bs w in (r, (l @ [bs], w1))),
      net_close = (\<lambda>(l, w). (l, net_close n w)),
      net_is_closing = (\<lambda>(l, w). net_is_closing n w),
      net_sleep = (\<lambda>(l, w). let (r, w1) = net_sleep n w in (r, (l, w1))),
      net_reads = net_reads n\<rparr>"

text \<open>The command number of an encoded frame.\<close>

definition is_control :: "bytes \<Rightarrow> bool" where
  "is_control bs \<longleftrightarrow>
     (case decode_varint bs (length MAGIC) of
        Inl e \<Rightarrow> False
      | Inr (len, k) \<Rightarrow>
          from_be (take 2 (drop (length MAGIC + k + 1) bs)) = gcommand_value CONTROL_REQUEST)"

definition controls :: "bytes list \<Rightarrow> bytes list" where
  "controls l = filter is_control l"

lemma gcommand_value_small: "gcommand_value c < 65536"
  by (cases c) simp_all

lemma gcommand_value_control: "gcommand_value c = gcommand_value CONTROL_REQUEST \<longleftrightarrow> c = CONTROL_REQUEST"
  by (cases c) simp_all

lemma is_control_encoded:
  assumes "frame_encode f = Inr bs" and "fr_command f = Known c"
  shows "is_control bs \<longleftrightarrow> c = CONTROL_REQUEST"
proof -
  have "length (fr_payload f) \<le> MAX_PAYLOAD_BYTES"
    using assms(1) by (auto simp: frame_encode_def split: if_splits)
  with canonical_Known[of c] assms(2) obtain n where
    "frame_encode f = Inr (MAGIC @ n @ [fr_flag f] @ to_be 2 (gcommand_value c) @ fr_payload f)"
    and v: "\<And>r. decode_varint (MAGIC @ n @ r) (length MAGIC) = Inr (int (length (fr_payload f) + 3), length n)"
    using frame_encode_runs[of f] by auto
  with assms(1) have bs: "bs = MAGIC @ n @ [fr_flag f] @ to_be 2 (gcommand_value c) @ fr_payload f" by simp
  have "drop (length MAGIC + length n + 1) bs = to_be 2 (gcommand_value c) @ fr_payload f"
    unfolding bs by simp
  moreover have "from_be (to_be 2 (gcommand_value c)) = gcommand_value c"
    using to_bytes_roundtrip[of "gcommand_value c" 2] gcommand_value_small[of c] by simp
  ultimately show ?thesis
    using v[of "[fr_flag f] @ to_be 2 (gcommand_value c) @ fr_payload f"] gcommand_value_control[of c]
    unfolding is_control_def bs by simp
qed

subsection \<open>Operations that only read\<close>

text \<open>The control requests sent so far, and the operations that add none.\<close>

abbreviation sent :: "bytes list \<times> 'w \<Rightarrow> bytes list" where
  "sent w \<equiv> controls (fst w)"

lemma logged_quiet:
  "sent (snd (net_open (logged n) w)) = sent w"
  "sent (snd (net_read (logged n) w)) = sent w"
  "sent (snd (net_sleep (logged n) w)) = sent w"
  "sent (net_close (logged n) w) = sent w"
  by (simp_all add: logged_def Let_def case_prod_unfold)

lemma send_sent:
  assumes "fr_command f = Known c" and "send (logged n) f (cl, w) = (r, cl1, w1)"
  shows "cl1 = cl \<and> (sent w1 = sent w \<or>
    (c = CONTROL_REQUEST \<and> (\<exists>bs. frame_encode f = Inr bs \<and> sent w1 = sent w @ [bs])))"
proof (cases "bc_open cl")
  case True
  show ?thesis
  proof (cases "frame_encode f")
    case (Inr bs)
    have w1: "cl1 = cl" "fst w1 = fst w @ [bs]"
      using assms(2) True Inr
      by (auto simp: send_def logged_def Let_def case_prod_unfold split: sum.splits prod.splits)
    with is_control_encoded[OF Inr assms(1)] Inr show ?thesis by (auto simp: controls_def)
  qed (use assms(2) True in \<open>auto simp: send_def\<close>)
qed (use assms(2) in \<open>auto simp: send_def\<close>)

lemma send_quiet:
  assumes "fr_command f = Known c" and "c \<noteq> CONTROL_REQUEST"
  shows "sent (snd (snd (send (logged n) f s))) = sent (snd s)"
  using send_sent[OF assms(1), of n "fst s" "snd s"] assms(2)
  by (cases "send (logged n) f s"; cases s) auto

lemma next_frame_quiet: "sent (snd (snd (next_frame (logged n) k s))) = sent (snd s)"
proof (induction "logged n" k s rule: next_frame.induct)
  case (1 k c w)
  have r: "sent (snd (net_read (logged n) w)) = sent w" by (rule logged_quiet)
  show ?case
  proof (cases "bc_pending c = [] \<and> bc_open c \<and> k \<noteq> 0")
    case False
    then show ?thesis
      by (subst next_frame.simps) (auto split: list.splits nat.splits)
  next
    case True
    then obtain k1 where k: "k = Suc k1" by (cases k) auto
    obtain res w1 where rd: "net_read (logged n) w = (res, w1)" by (cases "net_read (logged n) w")
    with r have w1: "sent w1 = sent w" by simp
    show ?thesis
    proof (cases res)
      case (Inl e)
      with True k rd w1 show ?thesis by (subst next_frame.simps) simp
    next
      case (Inr chunk)
      obtain fed b where fed: "feed chunk (bc_buffer c) = (fed, b)" by (cases "feed chunk (bc_buffer c)")
      show ?thesis
      proof (cases "chunk = [] \<or> isl fed")
        case refused: True
        with True k rd Inr w1 fed show ?thesis
          by (subst next_frame.simps) (auto simp: isl_def)
      next
        case False
        then obtain fs where fs: "fed = Inr fs" by (cases fed) auto
        from True have c: "bc_pending c = []" "bc_open c" by simp_all
        from False have ne: "chunk \<noteq> []" by simp
        have "next_frame (logged n) k (c, w) = next_frame (logged n) k1 (c\<lparr>bc_buffer := b, bc_pending := fs\<rparr>, w1)"
          using c k rd Inr ne fed fs by (subst next_frame.simps) simp
        with 1[of k1 "Inr chunk" w1 chunk "Inr fs" b fs] c k rd Inr ne fed fs w1 show ?thesis by simp
      qed
    qed
  qed
qed

lemma exchange_loop_quiet: "sent (snd (snd (exchange_loop (logged n) expect k s))) = sent (snd s)"
proof (induction "logged n" expect k s rule: exchange_loop.induct)
  case (1 expect k s)
  let ?reply = "\<lparr>fr_command = Known HEARTBEAT_RESPONSE, fr_payload = [], fr_flag = 0\<rparr>"
  obtain res s1 where nf: "next_frame (logged n) k s = (res, s1)" by (rule prod.exhaust)
  with next_frame_quiet[of n k s] have s1: "sent (snd s1) = sent (snd s)" by simp
  obtain res2 s2 where sd: "send (logged n) ?reply s1 = (res2, s2)" by (rule prod.exhaust)
  with send_quiet[of ?reply HEARTBEAT_RESPONSE n s1] s1 have s2: "sent (snd s2) = sent (snd s)" by simp
  show ?case
  proof (cases res)
    case (Inl e)
    with nf s1 show ?thesis by (subst exchange_loop.simps) simp
  next
    case (Inr x)
    obtain f k1 where x: "x = (f, k1)" by (cases x)
    consider (wanted) "fr_command f = Known expect"
      | (beat) "fr_command f \<noteq> Known expect" "fr_command f = Known HEARTBEAT_REQUEST"
      | (other) "fr_command f \<noteq> Known expect" "fr_command f \<noteq> Known HEARTBEAT_REQUEST" by blast
    then show ?thesis
    proof cases
      case wanted
      with nf Inr x s1 show ?thesis by (subst exchange_loop.simps) simp
    next
      case beat
      show ?thesis
      proof (cases res2)
        case (Inl e)
        with nf Inr x beat sd s2 \<open>res = Inr x\<close> show ?thesis by (subst exchange_loop.simps) simp
      next
        case (Inr u)
        from 1(1)[of "Inr (f, k1)" s1 "(f, k1)" f k1 res2 s2 u] nf \<open>res = Inr x\<close> x beat sd s2 Inr
        show ?thesis by (subst exchange_loop.simps) simp
      qed
    next
      case other
      from 1(2)[of "Inr (f, k1)" s1 "(f, k1)" f k1] nf Inr x other s1
      show ?thesis by (subst exchange_loop.simps) simp
    qed
  qed
qed

lemma exchange_quiet:
  assumes "fr_command f = Known c" and "c \<noteq> CONTROL_REQUEST"
  shows "sent (snd (snd (exchange (logged n) f expect s))) = sent (snd s)"
  using send_quiet[OF assms, of n s] exchange_loop_quiet[of n expect "net_reads (logged n)" "snd (send (logged n) f s)"]
  by (cases "send (logged n) f s") (auto simp: exchange_def split: sum.splits)

lemma read_status_quiet: "sent (snd (snd (read_status (logged n) s))) = sent (snd s)"
  unfolding read_status_def by (rule exchange_quiet[where c = STATUS_REQUEST]) simp_all

lemma close_quiet: "sent (snd (close_client (logged n) s)) = sent (snd s)"
  by (cases s) (simp add: close_client_def logged_quiet)

lemma login_quiet: "sent (snd (snd (login (logged n) s))) = sent (snd s)"
proof -
  let ?ask = "\<lparr>fr_command = Known PASSCODE_REQUEST, fr_payload = [], fr_flag = 0\<rparr>"
  obtain res c w where ex: "exchange (logged n) ?ask PASSCODE_RESPONSE s = (res, c, w)"
    by (cases "exchange (logged n) ?ask PASSCODE_RESPONSE s") auto
  with exchange_quiet[of ?ask PASSCODE_REQUEST n PASSCODE_RESPONSE s] have w: "sent w = sent (snd s)" by simp
  have second: "sent (snd (snd (exchange (logged n) \<lparr>fr_command = Known LOGIN_REQUEST, fr_payload = field, fr_flag = 0\<rparr>
      LOGIN_RESPONSE (c', w)))) = sent w" for field c'
    using exchange_quiet[of "\<lparr>fr_command = Known LOGIN_REQUEST, fr_payload = field, fr_flag = 0\<rparr>"
        LOGIN_REQUEST n LOGIN_RESPONSE "(c', w)"] by simp
  show ?thesis
  proof (cases res)
    case (Inl e)
    with ex w show ?thesis by (simp add: login_def)
  next
    case (Inr answer)
    show ?thesis
    proof (cases "decode_length_prefixed answer")
      case (Inl e)
      with ex w Inr show ?thesis by (simp add: login_def)
    next
      case code: (Inr code)
      show ?thesis
      proof (cases "encode_length_prefixed code")
        case (Inl e)
        with ex w \<open>res = Inr answer\<close> code show ?thesis by (simp add: login_def)
      next
        case field: (Inr field)
        obtain r2 s2 where "exchange (logged n) \<lparr>fr_command = Known LOGIN_REQUEST, fr_payload = field, fr_flag = 0\<rparr>
            LOGIN_RESPONSE (c\<lparr>bc_passcode := code\<rparr>, w) = (r2, s2)" by (rule prod.exhaust)
        with second[of field "c\<lparr>bc_passcode := code\<rparr>"] ex w Inr code field show ?thesis
          by (cases r2) (simp_all add: login_def)
      qed
    qed
  qed
qed

lemma connect_quiet: "sent (snd (snd (connect (logged n) s))) = sent (snd s)"
proof -
  obtain c w where cl: "close_client (logged n) s = (c, w)" by (rule prod.exhaust)
  with close_quiet[of n s] have w: "sent w = sent (snd s)" by simp
  obtain res w1 where op: "net_open (logged n) w = (res, w1)" by (rule prod.exhaust)
  with logged_quiet(1)[of n w] w have w1: "sent w1 = sent (snd s)" by simp
  let ?s = "(c\<lparr>bc_open := True, bc_buffer := [], bc_pending := []\<rparr>, w1)"
  obtain r2 s2 where lg: "login (logged n) ?s = (r2, s2)" by (rule prod.exhaust)
  with login_quiet[of n ?s] w1 have s2: "sent (snd s2) = sent (snd s)" by simp
  with close_quiet[of n s2] have s3: "sent (snd (close_client (logged n) s2)) = sent (snd s)" by simp
  show ?thesis
    using cl op lg w1 s2 s3
    by (auto simp: connect_def Let_def split: sum.splits adapter_exn.splits)
qed

lemma read_attempt_quiet: "sent (snd (snd (read_attempt (logged n) s))) = sent (snd s)"
  using connect_quiet[of n s] read_status_quiet[of n s] read_status_quiet[of n "snd (connect (logged n) s)"]
  by (cases "connect (logged n) s") (auto simp: read_attempt_def split: sum.splits)

lemma read_with_retry_quiet: "sent (snd (snd (read_with_retry (logged n) k s))) = sent (snd s)"
proof (induction k arbitrary: s)
  case (Suc k)
  obtain r s1 where at: "read_attempt (logged n) s = (r, s1)" by (rule prod.exhaust)
  with read_attempt_quiet[of n s] have s1: "sent (snd s1) = sent (snd s)" by simp
  have "sent (snd (close_client (logged n) s1)) = sent (snd s)" using close_quiet[of n s1] s1 by simp
  with at s1 Suc show ?case
    by (auto simp: Let_def split: sum.splits adapter_exn.splits provider_error.splits)
qed simp

lemma on_client_sent: "(\<And>s. sent (snd (snd (f s))) = sent (snd s)) \<Longrightarrow> sent (snd (snd (on_client f s))) = sent (snd s)"
  by (cases s) (auto simp: on_client_def Let_def case_prod_unfold)

abbreviation logs :: "(bytes list \<times> 'w) bestway_config \<Rightarrow> 'w network \<Rightarrow> bool" where
  "logs cf n \<equiv> bf_network cf = logged n"

lemma read_payload_quiet:
  assumes "logs cf n"
  shows "sent (snd (snd (read_payload cf s))) = sent (snd s)"
proof -
  have "sent (snd (snd (on_client (read_with_retry (logged n) 2) s))) = sent (snd s)"
    by (rule on_client_sent) (rule read_with_retry_quiet)
  then show ?thesis
    using assms by (auto simp: read_payload_def split: sum.splits prod.splits)
qed

lemma snapshot_quiet: "sent (snd (snd (snapshot cf payload s))) = sent (snd s)"
  by (cases s) (auto simp: snapshot_def stamped_def split: sum.splits)

lemma settle_write_quiet: "sent (snd (snd (settle_write cf d v observed s))) = sent (snd s)"
proof (cases observed)
  case (Some payload)
  then show ?thesis
    using snapshot_quiet[of cf payload s]
    by (cases "snapshot cf payload s") (auto simp: settle_write_def split: sum.splits)
qed (simp add: settle_write_def)

lemma confirm_loop_quiet:
  assumes "logs cf n"
  shows "sent (snd (snd (confirm_loop cf d v k first latest s))) = sent (snd s)"
proof (induction k arbitrary: first latest s)
  case (Suc k)
  obtain b w where s: "s = (b, w)" by (cases s)
  obtain r w1 where sl: "(if first then (Inr (), w) else net_sleep (bf_network cf) w) = (r, w1)" by (rule prod.exhaust)
  have w1: "sent w1 = sent w"
    using sl logged_quiet(3)[of n w] assms by (cases first) auto
  obtain r2 s2 where rd: "read_payload cf (b, w1) = (r2, s2)" by (rule prod.exhaust)
  have s2: "sent (snd s2) = sent w" using read_payload_quiet[OF assms, of "(b, w1)"] rd w1 by simp
  show ?case
    using s sl w1 rd s2 Suc
    by (auto split: sum.splits adapter_exn.splits)
qed simp

subsection \<open>The one operation that writes\<close>

definition control_frame :: "bytes \<Rightarrow> frame" where
  "control_frame payload = \<lparr>fr_command = Known CONTROL_REQUEST, fr_payload = payload, fr_flag = 0\<rparr>"

text \<open>A request this layout and these bytes give rise to.\<close>

definition control_of ::
  "datapoint_profile \<Rightarrow> datapoint \<Rightarrow> dp_value \<Rightarrow> bytes \<Rightarrow> bytes \<Rightarrow> bool"
where
  "control_of p d v base bs \<longleftrightarrow>
     (\<exists>flags vals seq payload. encode_control p d v base = Inr (flags, vals) \<and>
        build_control_payload seq flags vals = Inr payload \<and> frame_encode (control_frame payload) = Inr bs)"

lemma send_control_sent:
  "sent (snd (snd (send_control (logged n) flags vals (c, w)))) = sent w \<or>
   (\<exists>seq payload bs. build_control_payload seq flags vals = Inr payload \<and>
      frame_encode (control_frame payload) = Inr bs \<and>
      sent (snd (snd (send_control (logged n) flags vals (c, w)))) = sent w @ [bs])"
proof -
  let ?c = "c\<lparr>bc_sequence := (bc_sequence c + 1) mod 2 ^ 32\<rparr>"
  show ?thesis
  proof (cases "build_control_payload (int (bc_sequence ?c)) flags vals")
    case (Inl e)
    then show ?thesis by (simp add: send_control_def Let_def)
  next
    case (Inr payload)
    obtain r c1 w1 where sd: "send (logged n) (control_frame payload) (?c, w) = (r, c1, w1)"
      by (cases "send (logged n) (control_frame payload) (?c, w)") auto
    with Inr have "send_control (logged n) flags vals (c, w) = (r, c1, w1)"
      by (simp add: send_control_def Let_def control_frame_def)
    moreover have "fr_command (control_frame payload) = Known CONTROL_REQUEST" by (simp add: control_frame_def)
    from send_sent[OF this sd] have "sent w1 = sent w \<or> (\<exists>bs. frame_encode (control_frame payload) = Inr bs \<and> sent w1 = sent w @ [bs])"
      by blast
    ultimately show ?thesis using Inr by auto
  qed
qed

lemma write_control_sent:
  assumes "logs cf n"
  shows "sent (snd (snd (write_control cf c d base s))) = sent (snd s) \<or>
    (\<exists>v bs. value_for (bf_profile cf) c base = Inr v \<and> control_of (bf_profile cf) d v base bs \<and>
       sent (snd (snd (write_control cf c d base s))) = sent (snd s) @ [bs])"
proof (cases "value_for (bf_profile cf) c base")
  case (Inl e)
  then show ?thesis by (simp add: write_control_def)
next
  case v: (Inr v)
  show ?thesis
  proof (cases "encode_control (bf_profile cf) d v base")
    case (Inl e)
    with v show ?thesis by (cases e) (simp_all add: write_control_def)
  next
    case (Inr x)
    obtain flags vals where x: "x = (flags, vals)" by (cases x)
    obtain b w where s: "s = (b, w)" by (cases s)
    obtain r1 s1 where sc: "on_client (send_control (logged n) flags vals) s = (r1, s1)" by (rule prod.exhaust)
    then have s1: "sent (snd s1) = sent (snd (snd (send_control (logged n) flags vals (bw_client b, w))))"
      by (auto simp: s on_client_def Let_def case_prod_unfold)
    obtain r2 s2 where cf2: "confirm_loop cf d v (bf_confirm_attempts cf) True None s1 = (r2, s2)" by (rule prod.exhaust)
    then have s2: "sent (snd s2) = sent (snd s1)"
      using confirm_loop_quiet[OF assms, of d v "bf_confirm_attempts cf" True None s1] by simp
    have "sent (snd (snd (write_control cf c d base s))) = sent (snd s1)"
      using v Inr x sc cf2 s2 assms settle_write_quiet[of cf d v _ s2]
      by (auto simp: write_control_def split: sum.splits)
    with send_control_sent[of n flags vals "bw_client b" w] s1 s v Inr x show ?thesis
      by (auto simp: control_of_def)
  qed
qed

lemma bestway_execute_sent:
  assumes "logs cf n"
  shows "sent (snd (snd (bestway_execute cf r c s))) = sent (snd s) \<or>
    (\<exists>d base v bs. known_device r \<and> action_datapoint (pc_action c) = Some d \<and>
       fst (read_payload cf s) = Inr base \<and>
       value_for (bf_profile cf) c base = Inr v \<and> control_of (bf_profile cf) d v base bs \<and>
       sent (snd (snd (bestway_execute cf r c s))) = sent (snd s) @ [bs])"
proof (cases "known_device r \<and> action_datapoint (pc_action c) \<noteq> None")
  case False
  then show ?thesis by (auto simp: bestway_execute_def split: option.splits)
next
  case True
  then obtain d where d: "known_device r" "action_datapoint (pc_action c) = Some d" by blast
  obtain res s1 where rd: "read_payload cf s = (res, s1)" by (rule prod.exhaust)
  with read_payload_quiet[OF assms, of s] have s1: "sent (snd s1) = sent (snd s)" by simp
  show ?thesis
  proof (cases res)
    case (Inl e)
    with d rd s1 show ?thesis by (simp add: bestway_execute_def)
  next
    case (Inr base)
    with d rd have "bestway_execute cf r c s = write_control cf c d base s1"
      by (simp add: bestway_execute_def)
    with write_control_sent[OF assms, of c d base s1] d rd Inr s1 show ?thesis by auto
  qed
qed

text \<open>The contract of an adapter holds: one device, and states the state model accepts.\<close>

lemma to_state_ok [simp]: "device_state_ok (to_state decoded)"
  by (simp add: to_state_def Let_def device_state_ok_def empty_state_def opt_between_def)

lemma snapshot_Inr:
  assumes "snapshot cf payload s = (Inr st, s1)"
  obtains decoded where "decode (bf_profile cf) payload = Inr decoded" "ps_state st = to_state decoded"
    "ps_availability st = availability.ONLINE"
  using assms by (cases s) (auto simp: snapshot_def stamped_def split: sum.splits)

lemma settle_write_Inr:
  assumes "settle_write cf d v observed s = (Inr res, s1)"
  shows "(observed = None \<and> pcr_outcome res = command_outcome.UNKNOWN \<and> pcr_state res = None) \<or>
    (\<exists>payload st decoded. observed = Some payload \<and> decode (bf_profile cf) payload = Inr decoded \<and>
       pcr_state res = Some st \<and> ps_state st = to_state decoded \<and> ps_availability st = availability.ONLINE \<and>
       pcr_outcome res =
         (if reads_as (bf_profile cf) payload d v then APPLIED else command_outcome.UNKNOWN))"
proof (cases observed)
  case None
  with assms show ?thesis by (auto simp: settle_write_def)
next
  case (Some payload)
  obtain r2 s2 where sn: "snapshot cf payload s = (r2, s2)" by (rule prod.exhaust)
  with assms Some obtain st where st: "r2 = Inr st" by (cases r2) (auto simp: settle_write_def)
  from snapshot_Inr[OF sn[unfolded st]] obtain decoded where
    "decode (bf_profile cf) payload = Inr decoded" "ps_state st = to_state decoded"
    "ps_availability st = availability.ONLINE" by blast
  with assms Some sn st show ?thesis by (auto simp: settle_write_def)
qed

text \<open>The block that settles a write is one the controller answered.\<close>

definition block_read :: "'w bestway_config \<Rightarrow> bytes \<Rightarrow> bool" where
  "block_read cf payload \<longleftrightarrow> (\<exists>s s'. read_payload cf s = (Inr payload, s'))"

lemma confirm_loop_read:
  "confirm_loop cf d v n first latest s = (Inr (Some payload), s') \<Longrightarrow>
     (\<And>b. latest = Some b \<Longrightarrow> block_read cf b) \<Longrightarrow> block_read cf payload"
proof (induction cf d v n first latest s rule: confirm_loop.induct)
  case (2 cf d v left first latest b w)
  obtain p w1 where nap: "(if first then (Inr (), w) else net_sleep (bf_network cf) w) = (p, w1)" by (rule prod.exhaust)
  with "2.prems"(1) obtain u where p: "p = Inr u" by (cases p) auto
  obtain r s2 where rd: "read_payload cf (b, w1) = (r, s2)" by (rule prod.exhaust)
  show ?case
  proof (cases r)
    case (Inr block)
    with rd have "block_read cf block" unfolding block_read_def by blast
    with "2.IH"(2)[OF nap[symmetric] p rd[symmetric] Inr] "2.prems"(1) nap p rd Inr show ?thesis
      by (auto split: if_splits)
  next
    case (Inl e)
    with "2.IH"(1)[OF nap[symmetric] p rd[symmetric] Inl] "2.prems" nap p rd show ?thesis
      by (cases e) (auto split: if_splits)
  qed
qed simp

lemma bestway_execute_Inr:
  assumes "bestway_execute cf r c s = (Inr res, s')"
  obtains d base v observed s1 where "r = airjet_ref" "action_datapoint (pc_action c) = Some d"
    "fst (read_payload cf s) = Inr base" "value_for (bf_profile cf) c base = Inr v"
    "\<And>payload. observed = Some payload \<Longrightarrow> block_read cf payload"
    "settle_write cf d v observed s1 = (Inr res, s')"
proof -
  from assms obtain d base s1 where d: "known_device r" "action_datapoint (pc_action c) = Some d"
    and base: "read_payload cf s = (Inr base, s1)" and w: "write_control cf c d base s1 = (Inr res, s')"
    by (auto simp: bestway_execute_def split: if_splits option.splits sum.splits prod.splits)
  from w obtain v where v: "value_for (bf_profile cf) c base = Inr v"
    by (auto simp: write_control_def split: sum.splits)
  from w v obtain flags vals where e: "encode_control (bf_profile cf) d v base = Inr (flags, vals)"
    by (auto simp: write_control_def split: sum.splits profile_error.splits)
  obtain r2 s2 where sc: "on_client (send_control (bf_network cf) flags vals) s1 = (r2, s2)" by (rule prod.exhaust)
  with w v e obtain u where r2: "r2 = Inr u" by (cases r2) (auto simp: write_control_def)
  obtain r3 s3 where cl: "confirm_loop cf d v (bf_confirm_attempts cf) True None s2 = (r3, s3)" by (rule prod.exhaust)
  with w v e sc r2 obtain observed where r3: "r3 = Inr observed" by (cases r3) (auto simp: write_control_def)
  from w v e sc r2 cl r3 have "settle_write cf d v observed s3 = (Inr res, s')" by (simp add: write_control_def)
  moreover from d(1) have "r = airjet_ref" by (cases r) (simp add: known_device_def airjet_ref_def)
  moreover have "block_read cf payload" if "observed = Some payload" for payload
    using confirm_loop_read cl unfolding r3 that by blast
  ultimately show ?thesis using that d(2) v base by (metis fst_conv)
qed

interpretation airjet: adapter_contract "bestway_adapter cf" "{airjet_ref}" "\<lambda>s. True"
proof unfold_locales
  fix w :: "bestway \<times> 'a" and pds
  show "fst (dp_discover_devices (bestway_adapter cf) w) = Inr pds \<Longrightarrow> pd_ref ` set pds \<subseteq> {airjet_ref}"
    by (auto simp: bestway_adapter_def bestway_discover_def Let_def split: if_splits)
next
  fix r and w :: "bestway \<times> 'a" and st
  assume "fst (dp_get_state (bestway_adapter cf) r w) = Inr st"
  then obtain payload s1 where "fst (snapshot cf payload s1) = Inr st"
    by (auto simp: bestway_adapter_def bestway_get_state_def split: if_splits sum.splits prod.splits)
  then have "snapshot cf payload s1 = (Inr st, snd (snapshot cf payload s1))" by (metis prod.collapse)
  from snapshot_Inr[OF this] show "device_state_ok (ps_state st)" by (metis to_state_ok)
next
  fix r c and w :: "bestway \<times> 'a" and res st
  assume "fst (dp_execute (bestway_adapter cf) r c w) = Inr res" and st: "pcr_state res = Some st"
  then have "bestway_execute cf r c w = (Inr res, snd (bestway_execute cf r c w))"
    by (cases "bestway_execute cf r c w") (simp add: bestway_adapter_def)
  from bestway_execute_Inr[OF this] obtain d v observed s1 where
    "settle_write cf d v observed s1 = (Inr res, snd (bestway_execute cf r c w))" by metis
  from settle_write_Inr[OF this] st show "device_state_ok (ps_state st)" by auto
qed simp_all

subsection \<open>The open connection\<close>

text \<open>Nothing but closing ends a connection on this side, and only opening starts one.\<close>

lemma send_open: "bc_open (fst (snd (send n f s))) = bc_open (fst s)"
  by (cases s) (auto simp: send_def split: sum.splits prod.splits)

lemma next_frame_open: "bc_open (fst (snd (next_frame n k s))) = bc_open (fst s)"
proof (induction n k s rule: next_frame.induct)
  case (1 n k c w)
  then show ?case
    by (subst next_frame.simps) (auto split: list.splits nat.splits sum.splits prod.splits)
qed

lemma exchange_loop_open: "bc_open (fst (snd (exchange_loop n expect k s))) = bc_open (fst s)"
proof (induction n expect k s rule: exchange_loop.induct)
  case (1 n expect k s)
  then show ?case
    using next_frame_open[of n k s]
      send_open[of n "\<lparr>fr_command = Known HEARTBEAT_RESPONSE, fr_payload = [], fr_flag = 0\<rparr>" "snd (next_frame n k s)"]
    by (subst exchange_loop.simps) (auto split: sum.splits prod.splits)
qed

lemma exchange_open: "bc_open (fst (snd (exchange n f expect s))) = bc_open (fst s)"
  using send_open[of n f s] exchange_loop_open[of n expect "net_reads n" "snd (send n f s)"]
  by (cases "send n f s") (auto simp: exchange_def split: sum.splits)

lemma login_open: "bc_open (fst (snd (login n s))) = bc_open (fst s)"
proof -
  let ?ask = "\<lparr>fr_command = Known PASSCODE_REQUEST, fr_payload = [], fr_flag = 0\<rparr>"
  obtain res c w where ex: "exchange n ?ask PASSCODE_RESPONSE s = (res, c, w)"
    by (cases "exchange n ?ask PASSCODE_RESPONSE s") auto
  with exchange_open[of n ?ask PASSCODE_RESPONSE s] have c: "bc_open c = bc_open (fst s)" by simp
  have second: "bc_open (fst (snd (exchange n f LOGIN_RESPONSE (c\<lparr>bc_passcode := code\<rparr>, w)))) = bc_open (fst s)"
    for f code using exchange_open[of n f LOGIN_RESPONSE "(c\<lparr>bc_passcode := code\<rparr>, w)"] c by simp
  show ?thesis
  proof (cases res)
    case (Inl e)
    with ex c show ?thesis by (simp add: login_def)
  next
    case (Inr answer)
    show ?thesis
    proof (cases "decode_length_prefixed answer")
      case (Inl e)
      with ex c Inr show ?thesis by (simp add: login_def)
    next
      case code: (Inr code)
      show ?thesis
      proof (cases "encode_length_prefixed code")
        case (Inl e)
        with ex c \<open>res = Inr answer\<close> code show ?thesis by (simp add: login_def)
      next
        case field: (Inr field)
        let ?f = "\<lparr>fr_command = Known LOGIN_REQUEST, fr_payload = field, fr_flag = 0\<rparr>"
        obtain r2 s2 where "exchange n ?f LOGIN_RESPONSE (c\<lparr>bc_passcode := code\<rparr>, w) = (r2, s2)"
          by (rule prod.exhaust)
        with second[of ?f code] ex Inr code field show ?thesis
          by (cases r2) (simp_all add: login_def)
      qed
    qed
  qed
qed

subsection \<open>A controller for the examples\<close>

text \<open>
  A connection that is already open, with the answers of the controller waiting: the status
  before and after the heater was switched on. Writing works, reading is never needed.
\<close>

definition sample_network :: "nat network" where
  "sample_network =
     \<lparr>net_open = (\<lambda>w. (Inl OSError, w)), net_read = (\<lambda>w. (Inl OSError, w)),
      net_write = (\<lambda>bs w. (Inr (), Suc w)), net_close = (\<lambda>w. w), net_is_closing = (\<lambda>w. False),
      net_sleep = (\<lambda>w. (Inr (), w)), net_reads = 8\<rparr>"

definition heated_payload :: bytes where
  "heated_payload = [3, 6, 30] @ replicate 12 0 @ [28, 0, 0, 0]"

definition status_frame :: "bytes \<Rightarrow> frame" where
  "status_frame payload = \<lparr>fr_command = Known STATUS_RESPONSE, fr_payload = payload, fr_flag = 0\<rparr>"

definition sample_config :: "'w network \<Rightarrow> 'w bestway_config" where
  "sample_config n =
     \<lparr>bf_network = n, bf_profile = released_profile, bf_clock = (\<lambda>k. int k), bf_display_name = ''Pool'',
      bf_room_hint = None, bf_confirm_attempts = 6\<rparr>"

definition sample_bestway :: bestway where
  "sample_bestway =
     new_bestway\<lparr>bw_client := new_client\<lparr>bc_open := True,
       bc_pending := [status_frame sample_payload, status_frame heated_payload]\<rparr>\<rparr>"

definition heater_on :: provider_command where
  "heater_on = \<lparr>pc_action = SET_HEATER, pc_params = OnOffParams True\<rparr>"

lemma status_request_encodes:
  "frame_encode \<lparr>fr_command = Known STATUS_REQUEST, fr_payload = STATUS_READ_PAYLOAD, fr_flag = 0\<rparr> =
     Inr [0, 0, 0, 3, 4, 0, 0, 0x90, 2]"
  by (simp add: frame_encode_def to_bytes_def numeral_2_eq_2 encode_varint_def varint_loop.simps
      MAGIC_def STATUS_READ_PAYLOAD_def MAX_PAYLOAD_BYTES_def Let_def)

lemma sample_read:
  assumes "bc_open c" and "bc_pending c = status_frame payload # fs" and "decode released_profile payload = Inr decoded"
  shows "read_payload (sample_config (logged sample_network)) (b\<lparr>bw_client := c\<rparr>, l, w) =
    (Inr payload, b\<lparr>bw_client := c\<lparr>bc_pending := fs\<rparr>, bw_last_payload := Some payload,
       bw_availability := availability.ONLINE\<rparr>, l @ [[0, 0, 0, 3, 4, 0, 0, 0x90, 2]], Suc w)"
  using assms
  by (simp add: read_payload_def on_client_def numeral_2_eq_2 read_attempt_def is_connected_def sample_config_def
      logged_def sample_network_def read_status_def exchange_def send_def status_request_encodes
      exchange_loop.simps next_frame.simps status_frame_def)

definition control_bytes :: bytes where
  "control_bytes = [0, 0, 0, 3, 24, 0, 0, 0x93, 0, 0, 0, 1, 1, 0, 2, 6, 30] @ replicate 12 0"

lemma sample_control:
  assumes "bc_open c" and "bc_sequence c = 0"
  shows "send_control (logged sample_network) 2 ([6, 30] @ replicate 12 0) (c, l, w) =
    (Inr (), c\<lparr>bc_sequence := 1\<rparr>, l @ [control_bytes], Suc w)"
proof -
  have "build_control_payload 1 2 ([6, 30] @ replicate 12 0) =
      Inr ([0, 0, 0, 1, 1, 0, 2, 6, 30] @ replicate 12 0)"
  proof -
    have four: "(4 :: nat) = Suc (Suc (Suc (Suc 0)))" by simp
    have "to_be 4 1 = [0, 0, 0, 1]" unfolding four by simp
    moreover have "to_be 2 2 = [0, 2]" unfolding numeral_2_eq_2 by simp
    ultimately show ?thesis
      by (simp add: build_control_payload_def CONTROL_ATTR_FLAGS_BYTES_def CONTROL_SEQUENCE_BYTES_def
          P0_CONTROL_def)
  qed
  moreover have "frame_encode \<lparr>fr_command = Known CONTROL_REQUEST,
      fr_payload = [0, 0, 0, 1, 1, 0, 2, 6, 30] @ replicate 12 0, fr_flag = 0\<rparr> = Inr control_bytes"
    by (simp add: frame_encode_def to_bytes_def numeral_2_eq_2 encode_varint_def varint_loop.simps
        MAGIC_def MAX_PAYLOAD_BYTES_def Let_def control_bytes_def)
  ultimately show ?thesis
    using assms by (simp add: send_control_def send_def logged_def sample_network_def Let_def)
qed

lemma released_profile_sel:
  "bf_profile (sample_config n) = released_profile" "bf_confirm_attempts (sample_config n) = 6"
  "bf_network (sample_config n) = n"
  by (simp_all add: sample_config_def)

lemma decode_heated:
  obtains decoded where "decode released_profile heated_payload = Inr decoded"
    and "od_get decoded HEATER = Some (DBool True)"
proof -
  have "\<exists>r. decode released_profile heated_payload = Inr r"
    by (simp add: decode_Inr released_profile_def AIRJET_19BYTE_PROFILE_def heated_payload_def)
  then obtain r where r: "decode released_profile heated_payload = Inr r" by blast
  have "decode_at (BitLocation ''bit'' 1 1) heated_payload = DBool True"
    by (simp add: decode_at_def heated_payload_def)
  moreover have "od_get (pf_locations released_profile) HEATER = Some (BitLocation ''bit'' 1 1)"
    by (simp add: released_profile_def AIRJET_19BYTE_PROFILE_def od_get_def)
  ultimately have "od_get r HEATER = Some (DBool True)"
    using decode_get[OF released_profile_ok r, of HEATER] by simp
  with r show ?thesis by (rule that)
qed

text \<open>Of the two kinds of frame the run sends, one is a control request.\<close>

lemma sample_controls: "is_control control_bytes" "\<not> is_control ([0, 0, 0, 3, 4, 0, 0, 0x90, 2] :: bytes)"
proof -
  show "is_control control_bytes"
    by (rule iffD2[OF is_control_encoded[of "\<lparr>fr_command = Known CONTROL_REQUEST,
      fr_payload = [0, 0, 0, 1, 1, 0, 2, 6, 30] @ replicate 12 0, fr_flag = 0\<rparr>" _ CONTROL_REQUEST]])
      (simp_all add: frame_encode_def to_bytes_def numeral_2_eq_2 encode_varint_def varint_loop.simps
        MAGIC_def MAX_PAYLOAD_BYTES_def Let_def control_bytes_def)
  show "\<not> is_control ([0, 0, 0, 3, 4, 0, 0, 0x90, 2] :: bytes)"
    using is_control_encoded[OF status_request_encodes] by simp
qed

lemma sample_run:
  obtains st s' where
    "bestway_execute (sample_config (logged sample_network)) airjet_ref heater_on (sample_bestway, [], 0) =
       (Inr \<lparr>pcr_outcome = APPLIED, pcr_state = Some st, pcr_failure_code = None\<rparr>, s')"
    "sent (snd s') = [control_bytes]" "ds_heater (ps_state st) = Some True"
proof -
  let ?cf = "sample_config (logged sample_network)"
  let ?status = "[0, 0, 0, 3, 4, 0, 0, 0x90, 2] :: bytes"
  let ?c0 = "new_client\<lparr>bc_open := True, bc_pending := [status_frame sample_payload, status_frame heated_payload]\<rparr>"
  let ?c1 = "?c0\<lparr>bc_pending := [status_frame heated_payload]\<rparr>"
  obtain d0 where d0: "decode released_profile sample_payload = Inr d0"
    using decode_Inr[of released_profile sample_payload]
    by (auto simp: released_profile_def AIRJET_19BYTE_PROFILE_def sample_payload_def)
  obtain d1 where d1: "decode released_profile heated_payload = Inr d1" "od_get d1 HEATER = Some (DBool True)"
    by (rule decode_heated)
  have as: "reads_as released_profile heated_payload HEATER (DBool True)"
    using d1 by (simp add: reads_as_def dp_eq_def)
  let ?b1 = "sample_bestway\<lparr>bw_client := ?c1, bw_last_payload := Some sample_payload, bw_availability := availability.ONLINE\<rparr>"
  have r1: "read_payload ?cf (sample_bestway, [], 0) = (Inr sample_payload, ?b1, [?status], 1)"
    using sample_read[OF _ _ d0, of ?c0 "[status_frame heated_payload]" new_bestway "[]" 0]
    by (simp add: sample_bestway_def)
  have v: "value_for released_profile heater_on sample_payload = Inr (DBool True)"
    by (simp add: value_for_def heater_on_def)
  let ?b2 = "?b1\<lparr>bw_client := ?c1\<lparr>bc_sequence := 1\<rparr>\<rparr>"
  have sc: "on_client (send_control (logged sample_network) 2 ([6, 30] @ replicate 12 0)) (?b1, [?status], 1) =
      (Inr (), ?b2, [?status, control_bytes], 2)"
    using sample_control[of ?c1 "[?status]" 1] by (simp add: on_client_def new_client_def)
  obtain b3 l3 where r2: "read_payload ?cf (?b2, [?status, control_bytes], 2) = (Inr heated_payload, b3, l3)"
    and l3: "fst l3 = [?status, control_bytes, ?status]"
    using sample_read[OF _ _ d1(1), of "?c1\<lparr>bc_sequence := 1\<rparr>" "[]" ?b1 "[?status, control_bytes]" 2]
    by (simp add: new_client_def)
  have cl: "confirm_loop ?cf HEATER (DBool True) 6 True None (?b2, [?status, control_bytes], 2) =
      (Inr (Some heated_payload), b3, l3)"
    using r2 as by (simp add: eval_nat_numeral released_profile_sel)
  let ?st = "\<lparr>ps_state = to_state d1, ps_availability = availability.ONLINE,
    ps_observed_at = bf_clock ?cf (bw_ticks b3)\<rparr>"
  have "settle_write ?cf HEATER (DBool True) (Some heated_payload) (b3, l3) =
      (Inr \<lparr>pcr_outcome = APPLIED, pcr_state = Some ?st, pcr_failure_code = None\<rparr>,
       b3\<lparr>bw_ticks := Suc (bw_ticks b3)\<rparr>, l3)"
    using d1(1) as by (simp add: settle_write_def snapshot_def stamped_def released_profile_sel)
  then have run: "bestway_execute ?cf airjet_ref heater_on (sample_bestway, [], 0) =
      (Inr \<lparr>pcr_outcome = APPLIED, pcr_state = Some ?st, pcr_failure_code = None\<rparr>,
       b3\<lparr>bw_ticks := Suc (bw_ticks b3)\<rparr>, l3)"
    using r1 v released_heater_on sc cl
    by (simp add: bestway_execute_def write_control_def released_profile_sel known_device_def airjet_ref_def
        heater_on_def)
  have "sent l3 = [control_bytes]" using l3 sample_controls by (simp add: controls_def)
  moreover have "ds_heater (ps_state ?st) = Some True" using d1(2) by (simp add: to_state_def Let_def dp_truthy_def)
  ultimately show ?thesis using run that by simp
qed

subsection \<open>Properties\<close>

text \<open>
  C25. Carrying out a command sends the controller at most one control request, whatever the
  network does and however often reading is retried: only for its own device, an action with a
  datapoint, a layout that is trusted and a datapoint that was released; and the request is made
  of the status block that was read for it. Reading and polling send none.
\<close>

theorem bestway_writes_once:
  assumes "bf_network cf = logged n" and "profile_ok (bf_profile cf)"
  shows "(sent (snd (snd (bestway_execute cf r c s))) = sent (snd s) \<or>
      (\<exists>d base v bs. r = airjet_ref \<and> action_datapoint (pc_action c) = Some d \<and>
         pf_trusted (bf_profile cf) \<and> d \<in> pf_writable (bf_profile cf) \<and>
         fst (read_payload cf s) = Inr base \<and> value_for (bf_profile cf) c base = Inr v \<and>
         control_of (bf_profile cf) d v base bs \<and>
         sent (snd (snd (bestway_execute cf r c s))) = sent (snd s) @ [bs])) \<and>
    sent (snd (snd (bestway_get_state cf r s))) = sent (snd s) \<and>
    sent (snd (snd (poll cf previous s))) = sent (snd s)"
proof -
  have read: "sent (snd (snd (read_payload cf s))) = sent (snd s)" by (rule read_payload_quiet[OF assms(1)])
  have "sent (snd (snd (bestway_get_state cf r s))) = sent (snd s)"
    using read snapshot_quiet[of cf _ "snd (read_payload cf s)"]
    by (cases "read_payload cf s") (auto simp: bestway_get_state_def split: sum.splits)
  moreover have "sent (snd (snd (poll cf previous s))) = sent (snd s)"
  proof -
    obtain res b w where rp: "read_payload cf s = (res, b, w)" by (cases "read_payload cf s") auto
    show ?thesis
    proof (cases res)
      case (Inl e)
      with rp read show ?thesis by (cases e) (auto simp: poll_def stamped_def)
    next
      case (Inr payload)
      with rp read snapshot_quiet[of cf payload "(b, w)"] show ?thesis
        by (cases "snapshot cf payload (b, w)") (auto simp: poll_def split: sum.splits)
    qed
  qed
  moreover have "r = airjet_ref" if "known_device r"
    using that by (cases r) (simp add: known_device_def airjet_ref_def)
  moreover have "pf_trusted (bf_profile cf) \<and> d \<in> pf_writable (bf_profile cf)"
    if "control_of (bf_profile cf) d v base bs" for d v base bs
    using that control_gated[OF assms(2)] by (auto simp: control_of_def)
  ultimately show ?thesis using bestway_execute_sent[OF assms(1), of r c s] by metis
qed

theorem bestway_writes_once_witness:
  "\<exists>s'. snd (bestway_execute (sample_config (logged sample_network)) airjet_ref heater_on (sample_bestway, [], 0)) = s' \<and>
     sent (snd s') = [control_bytes] \<and>
     action_datapoint (pc_action heater_on) = Some HEATER \<and> HEATER \<in> pf_writable released_profile"
proof -
  let ?cf = "sample_config (logged sample_network)"
  obtain st s' where run: "bestway_execute ?cf airjet_ref heater_on (sample_bestway, [], 0) =
       (Inr \<lparr>pcr_outcome = APPLIED, pcr_state = Some st, pcr_failure_code = None\<rparr>, s')"
    and sent: "sent (snd s') = [control_bytes]" by (rule sample_run)
  have "profile_ok (bf_profile ?cf)" by (simp add: released_profile_sel released_profile_ok)
  from bestway_writes_once[OF released_profile_sel(3) this, of airjet_ref heater_on "(sample_bestway, [], 0)"]
  have "\<exists>d. action_datapoint (pc_action heater_on) = Some d \<and> d \<in> pf_writable released_profile"
    using run sent by (auto simp: controls_def released_profile_sel)
  then show ?thesis using run sent by (simp add: heater_on_def)
qed





text \<open>
  An outage that ends is not announced: once a poll has reported the controller offline, a
  later poll that reads the same status block as before the outage yields no event, although
  the adapter itself counts the controller as reachable again.
\<close>

lemma recovery_not_announced:
  assumes "read_payload cf s0 = (Inr payload, s1)"
    and "read_payload cf s2 = (Inl (Provider ProviderUnavailableError), s3)"
    and "bw_availability (fst s3) = availability.ONLINE"
    and "read_payload cf s4 = (Inr payload, s5)"
  shows "(\<exists>st s. poll cf (Some payload) s2 = (Inr (Some \<lparr>pe_ref = airjet_ref, pe_state = st\<rparr>, Some payload), s) \<and>
      ps_availability st = availability.OFFLINE) \<and>
    poll cf (Some payload) s4 = (Inr (None, Some payload), s5) \<and>
    bw_availability (fst s5) = availability.ONLINE"
proof -
  have "bw_availability (fst s5) = availability.ONLINE"
    using assms(4) by (auto simp: read_payload_def split: sum.splits prod.splits)
  moreover have "\<exists>st s. poll cf (Some payload) s2 =
      (Inr (Some \<lparr>pe_ref = airjet_ref, pe_state = st\<rparr>, Some payload), s) \<and> ps_availability st = availability.OFFLINE"
    using assms(2,3) by (cases s3) (simp add: poll_def stamped_def)
  ultimately show ?thesis using assms(4) by (simp add: poll_def)
qed

text \<open>
  A login that is interrupted leaves a connection that counts as open: when the caller's
  deadline cancels \<open>connect\<close> after the socket was opened, the connection is not closed, and the
  next read asks for the status without having logged in.
\<close>

lemma interrupted_login_stays_open:
  assumes "net_open n (snd (close_client n s)) = (Inr (), w1)" and "connect n s = (Inl TimeoutError, s2)"
  shows "bc_open (fst s2) \<and>
    (\<not> net_is_closing n (snd s2) \<longrightarrow> is_connected n s2 \<and> read_attempt n s2 = read_status n s2)"
proof -
  obtain c w where cl: "close_client n s = (c, w)" by (rule prod.exhaust)
  let ?s = "(c\<lparr>bc_open := True, bc_buffer := [], bc_pending := []\<rparr>, w1)"
  obtain r s3 where lg: "login n ?s = (r, s3)" by (rule prod.exhaust)
  with login_open[of n ?s] have opn: "bc_open (fst s3)" by simp
  have "s2 = s3"
    using assms cl lg by (auto simp: connect_def Let_def split: sum.splits adapter_exn.splits)
  with opn show ?thesis by (cases s3) (auto simp: is_connected_def read_attempt_def)
qed

end
