(* ===== verification/Demo_Properties.thy ===== *)
theory Demo_Properties
  imports Demo_Provider
begin

section \<open>What the synthetic household promises\<close>

text \<open>
  The household as a transition system: commands with parameters their models accept, and ticks
  of the simulation. The invariant covers the state bounds the core relies on, the interlock of
  heater and pump, and the range of the water temperature.
\<close>

definition water_ok :: "device_state \<Rightarrow> bool" where
  "water_ok s \<longleftrightarrow>
     (ds_heater s = Some True \<longrightarrow> ds_filter_pump s = Some True) \<and>
     (\<forall>t. ds_current_temperature_c s = Some t \<longrightarrow> AMBIENT_C \<le> t \<and> t \<le> 60) \<and>
     (\<forall>t. ds_target_temperature_c s = Some t \<longrightarrow> t \<le> 60)"

definition demo_device_ok :: "string \<Rightarrow> demo_device \<Rightarrow> bool" where
  "demo_device_ok i d \<longleftrightarrow>
     pd_ref (dd_definition d) = demo_ref i \<and> device_state_ok (dd_state d) \<and> water_ok (dd_state d)"

definition demo_inv :: "demo_provider \<Rightarrow> bool" where
  "demo_inv m \<longleftrightarrow>
     od_wf (dm_devices m) \<and> (\<forall>(i, d) \<in> set (dm_devices m). demo_device_ok i d) \<and> 0 \<le> dm_time_scale m"

lemma demo_apply_ok:
  assumes "device_state_ok s" and "water_ok s" and "params_fit (pc_action c) (pc_params c)"
  shows "device_state_ok (demo_apply s c) \<and> water_ok (demo_apply s c)"
  using assms
  by (cases "pc_params c"; cases "pc_action c")
    (auto simp: demo_apply_def device_state_ok_def water_ok_def opt_between_def)

lemma round2_exact: "py_round_digits (of_int k) 2 = of_int k"
  using py_round_int[of "k * 100"] by (simp add: py_round_digits_def)

lemma round2_between:
  "of_int a \<le> x \<Longrightarrow> x \<le> of_int b \<Longrightarrow> of_int a \<le> py_round_digits x 2 \<and> py_round_digits x 2 \<le> of_int b"
  using py_round_digits_mono[of "of_int a" x 2] py_round_digits_mono[of x "of_int b" 2]
  by (simp add: round2_exact)

lemma advance_pool_ok:
  assumes "device_state_ok s" and "water_ok s" and "0 \<le> t"
  shows "device_state_ok (advance_pool s t) \<and> water_ok (advance_pool s t)"
proof (cases "ds_current_temperature_c s")
  case None
  with assms show ?thesis by (simp add: advance_pool_def)
next
  case (Some cur)
  have cur: "22 \<le> cur" "cur \<le> 60" using assms(2) Some by (simp_all add: water_ok_def AMBIENT_C_def)
  have new: "water_ok (s\<lparr>ds_current_temperature_c := Some (py_round_digits x 2)\<rparr>)"
    if "22 \<le> x" "x \<le> 60" for x
    using that assms(2) round2_between[of 22 x 60] by (simp add: water_ok_def AMBIENT_C_def)
  have hot: "22 \<le> min target (cur + HEAT_RATE_C_PER_SIM_MINUTE * (t / 60)) \<and>
      min target (cur + HEAT_RATE_C_PER_SIM_MINUTE * (t / 60)) \<le> 60"
    if "ds_target_temperature_c s = Some target" "\<not> target \<le> cur" for target
    using that cur assms(2,3) by (auto simp: water_ok_def HEAT_RATE_C_PER_SIM_MINUTE_def min_def)
  have cold: "22 \<le> max AMBIENT_C (cur - COOL_COEFFICIENT_PER_SIM_MINUTE * k * (cur - AMBIENT_C) * (t / 60)) \<and>
      max AMBIENT_C (cur - COOL_COEFFICIENT_PER_SIM_MINUTE * k * (cur - AMBIENT_C) * (t / 60)) \<le> 60"
    if "0 \<le> k" for k
  proof -
    have "0 \<le> COOL_COEFFICIENT_PER_SIM_MINUTE * k * (cur - AMBIENT_C) * (t / 60)"
      using that cur assms(3) by (simp add: COOL_COEFFICIENT_PER_SIM_MINUTE_def AMBIENT_C_def)
    with cur show ?thesis by (auto simp: AMBIENT_C_def)
  qed
  have "water_ok (advance_pool s t)"
    using Some assms(2) new hot cold[of 1] cold[of BUBBLE_COOLING_FACTOR]
    by (auto simp: advance_pool_def Let_def BUBBLE_COOLING_FACTOR_def)
  moreover have "device_state_ok (advance_pool s t)"
    using assms(1) by (auto simp: advance_pool_def device_state_ok_def Let_def split: option.splits)
  ultimately show ?thesis by blast
qed

lemma advance_appliance_ok:
  "device_state_ok s \<Longrightarrow> water_ok s \<Longrightarrow>
     device_state_ok (advance_appliance s t) \<and> water_ok (advance_appliance s t)"
  by (auto simp: advance_appliance_def device_state_ok_def water_ok_def Let_def split: option.splits)

lemma demo_advance_ok:
  assumes "demo_device_ok i d" and "0 \<le> t"
  shows "demo_device_ok i (d\<lparr>dd_state := demo_advance d t\<rparr>)"
  using assms advance_pool_ok[of "dd_state d" t] advance_appliance_ok[of "dd_state d" t]
  by (auto simp: demo_device_ok_def demo_advance_def Let_def)

lemma demo_inv_set:
  "demo_inv m \<Longrightarrow> demo_device_ok i d \<Longrightarrow> demo_inv (m\<lparr>dm_devices := od_set i d (dm_devices m)\<rparr>)"
  by (auto simp: demo_inv_def set_od_set)

lemma demo_snapshot_frame:
  assumes "demo_snapshot d m = (st, m1)"
  shows "dm_devices m1 = dm_devices m" and "dm_time_scale m1 = dm_time_scale m"
    and "ps_state st = dd_state d" and "ps_availability st = dd_availability d"
  using assms by (auto simp: demo_snapshot_def)

lemma demo_inv_frame:
  "demo_inv m \<Longrightarrow> dm_devices m1 = dm_devices m \<Longrightarrow> dm_time_scale m1 = dm_time_scale m \<Longrightarrow> demo_inv m1"
  by (simp add: demo_inv_def)

lemma demo_require_Inr:
  "demo_require r m = Inr (i, d) \<longleftrightarrow>
     od_get (dm_devices m) i = Some d \<and> r = demo_ref i"
  by (cases r) (auto simp: demo_require_def demo_ref_def split: option.splits if_splits)

text \<open>What a command does, in one place.\<close>

lemma demo_execute_Inr:
  assumes "demo_execute r c m = (Inr res, m')"
  obtains i d st where "r = demo_ref i" "od_get (dm_devices m) i = Some d"
    "dd_availability d \<noteq> availability.OFFLINE"
    "dm_devices m' = od_set i (d\<lparr>dd_state := demo_apply (dd_state d) c\<rparr>) (dm_devices m)"
    "dm_time_scale m' = dm_time_scale m" "pcr_outcome res = APPLIED" "pcr_state res = Some st"
    "ps_state st = demo_apply (dd_state d) c" "ps_availability st = dd_availability d"
proof -
  from assms obtain i d where r: "demo_require r m = Inr (i, d)"
    by (auto simp: demo_execute_def split: sum.splits)
  with assms have on: "dd_availability d \<noteq> availability.OFFLINE"
    by (auto simp: demo_execute_def split: if_splits)
  from assms r on show ?thesis
    by (intro that[of i d "the (pcr_state res)"])
      (auto simp: demo_require_Inr demo_execute_def demo_snapshot_def Let_def split: if_splits)
qed

lemma demo_execute_inv:
  assumes "demo_inv m" and "params_fit (pc_action c) (pc_params c)"
  shows "demo_inv (snd (demo_execute r c m))"
proof (cases "fst (demo_execute r c m)")
  case (Inl e)
  then have "dm_devices (snd (demo_execute r c m)) = dm_devices m \<and>
      dm_time_scale (snd (demo_execute r c m)) = dm_time_scale m"
    by (auto simp: demo_execute_def demo_snapshot_def Let_def split: sum.splits prod.splits if_splits)
  with assms(1) show ?thesis by (simp add: demo_inv_def)
next
  case (Inr res)
  then have "demo_execute r c m = (Inr res, snd (demo_execute r c m))" by (cases "demo_execute r c m") simp
  from demo_execute_Inr[OF this] obtain i d where
    d: "od_get (dm_devices m) i = Some d" and
    m': "dm_devices (snd (demo_execute r c m)) =
        od_set i (d\<lparr>dd_state := demo_apply (dd_state d) c\<rparr>) (dm_devices m)"
      "dm_time_scale (snd (demo_execute r c m)) = dm_time_scale m" by metis
  have "demo_device_ok i d" using assms(1) od_get_in[OF d] by (auto simp: demo_inv_def)
  then have "demo_device_ok i (d\<lparr>dd_state := demo_apply (dd_state d) c\<rparr>)"
    using demo_apply_ok[OF _ _ assms(2)] by (simp add: demo_device_ok_def)
  from demo_inv_set[OF assms(1) this] m' show ?thesis by (simp add: demo_inv_def)
qed

lemma tick_devices_inv:
  assumes "demo_inv m" and "\<forall>(i, d) \<in> set ds. demo_device_ok i d" and "0 \<le> t"
    and "\<forall>e \<in> set es. device_state_ok (ps_state (pe_state e))"
    and "tick_devices t ds (es, m) = (es', m')"
  shows "demo_inv m' \<and> (\<forall>e \<in> set es'. device_state_ok (ps_state (pe_state e)))"
  using assms
proof (induction t ds "(es, m)" arbitrary: es m rule: tick_devices.induct)
  case (2 t i d ds es m)
  let ?d = "d\<lparr>dd_state := demo_advance d t\<rparr>"
  let ?m = "m\<lparr>dm_devices := od_set i ?d (dm_devices m)\<rparr>"
  obtain st m2 where snap: "demo_snapshot ?d ?m = (st, m2)" by fastforce
  have ok: "demo_device_ok i ?d" using 2(5,6) demo_advance_ok by auto
  then have inv: "demo_inv ?m" by (rule demo_inv_set[OF 2(4)])
  then have inv2: "demo_inv m2" using demo_snapshot_frame[OF snap] by (auto intro: demo_inv_frame)
  have st: "device_state_ok (ps_state st)"
    using demo_snapshot_frame(3)[OF snap] ok by (simp add: demo_device_ok_def)
  have rest: "\<forall>(i, d) \<in> set ds. demo_device_ok i d" using 2(5) by simp
  consider (offline) "dd_availability d = availability.OFFLINE"
    | (changed) "dd_availability d \<noteq> availability.OFFLINE" "dd_state ?d \<noteq> dd_state d"
    | (same) "dd_availability d \<noteq> availability.OFFLINE" "dd_state ?d = dd_state d" by blast
  then show ?case
  proof cases
    case offline
    with 2(8) have "tick_devices t ds (es, m) = (es', m')" by simp
    from 2(1)[OF offline 2(4) rest 2(6,7) this] show ?thesis .
  next
    case changed
    let ?es = "es @ [\<lparr>pe_ref = pd_ref (dd_definition d), pe_state = st\<rparr>]"
    from changed 2(8) snap have "tick_devices t ds (?es, m2) = (es', m')" by (simp add: Let_def)
    moreover have "\<forall>e \<in> set ?es. device_state_ok (ps_state (pe_state e))" using 2(7) st by simp
    ultimately show ?thesis
      using 2(2)[OF changed(1) refl refl changed(2) snap[symmetric] refl] inv2 rest 2(6) by blast
  next
    case same
    from same 2(8) have "tick_devices t ds (es, ?m) = (es', m')" by (simp add: Let_def)
    from 2(3)[OF same(1) refl refl _ inv rest 2(6,7) this] same(2) show ?thesis by blast
  qed
qed simp

inductive demo_step :: "demo_provider \<Rightarrow> demo_provider \<Rightarrow> bool" where
  execute: "params_fit (pc_action c) (pc_params c) \<Longrightarrow> demo_step m (snd (demo_execute r c m))"
| ticks: "0 \<le> elapsed \<Longrightarrow> demo_step m (snd (tick elapsed m))"
| read_state: "demo_step m (snd (demo_get_state r m))"

lemma demo_get_state_inv: "demo_inv m \<Longrightarrow> demo_inv (snd (demo_get_state r m))"
  by (auto simp: demo_get_state_def demo_snapshot_def demo_inv_def Let_def split: sum.splits)

lemma tick_inv:
  assumes "demo_inv m" and "0 \<le> elapsed"
  shows "demo_inv (snd (tick elapsed m))"
  using tick_devices_inv[of m "dm_devices m" "elapsed * dm_time_scale m" "[]"] assms
  by (cases "tick_devices (elapsed * dm_time_scale m) (dm_devices m) ([], m)")
    (auto simp: tick_def demo_inv_def Let_def)

text \<open>
  The adapter keeps its contract: under its invariant, with the devices it was built with, every
  state it reports is one the core accepts.
\<close>

definition demo_world :: "string set \<Rightarrow> demo_provider \<Rightarrow> bool" where
  "demo_world ids m \<longleftrightarrow> demo_inv m \<and> fst ` set (dm_devices m) \<subseteq> ids"

lemma demo_execute_devices:
  "fst ` set (dm_devices (snd (demo_execute r c m))) \<subseteq> fst ` set (dm_devices m)"
proof (cases "fst (demo_execute r c m)")
  case (Inl e)
  then have "dm_devices (snd (demo_execute r c m)) = dm_devices m"
    by (auto simp: demo_execute_def demo_snapshot_def Let_def split: sum.splits prod.splits if_splits)
  then show ?thesis by simp
next
  case (Inr res)
  then have "demo_execute r c m = (Inr res, snd (demo_execute r c m))" by (cases "demo_execute r c m") simp
  from demo_execute_Inr[OF this] obtain i d where d: "od_get (dm_devices m) i = Some d"
    "dm_devices (snd (demo_execute r c m)) = od_set i (d\<lparr>dd_state := demo_apply (dd_state d) c\<rparr>) (dm_devices m)"
    by metis
  have "i \<in> fst ` set (dm_devices m)" using od_get_in[OF d(1)] by (metis fst_conv image_eqI)
  then show ?thesis unfolding d(2) by (simp add: keys_od_set insert_absorb)
qed

lemma demo_state_ok:
  assumes "demo_inv m" and "od_get (dm_devices m) i = Some d"
  shows "device_state_ok (dd_state d)" and "pd_ref (dd_definition d) = demo_ref i"
  using assms od_get_in[OF assms(2)] by (auto simp: demo_inv_def demo_device_ok_def)

interpretation demo: adapter_contract demo_adapter "demo_ref ` ids" "demo_world ids"
proof unfold_locales
  fix m pds
  assume m: "demo_world ids m" and "fst (dp_discover_devices demo_adapter m) = Inr pds"
  then have "pds = map (dd_definition \<circ> snd) (dm_devices m)" by (simp add: demo_adapter_def demo_discover_def)
  with m show "pd_ref ` set pds \<subseteq> demo_ref ` ids"
    by (fastforce simp: demo_world_def demo_inv_def demo_device_ok_def)
next
  fix m r st
  assume m: "demo_world ids m" and "fst (dp_get_state demo_adapter r m) = Inr st"
  then obtain i d where "od_get (dm_devices m) i = Some d" "ps_state st = dd_state d"
    by (auto simp: demo_adapter_def demo_get_state_def demo_require_Inr demo_snapshot_def Let_def split: sum.splits)
  with m demo_state_ok(1) show "device_state_ok (ps_state st)" unfolding demo_world_def by metis
next
  fix m c r res st
  assume m: "demo_world ids m" and fit: "params_fit (pc_action c) (pc_params c)"
    and run: "fst (dp_execute demo_adapter r c m) = Inr res" "pcr_state res = Some st"
  then have "demo_execute r c m = (Inr res, snd (demo_execute r c m))"
    by (cases "demo_execute r c m") (simp add: demo_adapter_def)
  from demo_execute_Inr[OF this] run(2) obtain i d where d: "od_get (dm_devices m) i = Some d"
    "ps_state st = demo_apply (dd_state d) c" by (metis option.inject)
  have "demo_device_ok i d" using m od_get_in[OF d(1)] by (auto simp: demo_world_def demo_inv_def)
  then show "device_state_ok (ps_state st)" using demo_apply_ok[OF _ _ fit] d(2) by (simp add: demo_device_ok_def)
next
  fix m c r
  show "demo_world ids m \<Longrightarrow> demo_world ids (snd (dp_discover_devices demo_adapter m))"
    by (simp add: demo_adapter_def demo_discover_def)
  show "demo_world ids m \<Longrightarrow> demo_world ids (snd (dp_get_state demo_adapter r m))"
    using demo_get_state_inv[of m r]
    by (auto simp: demo_world_def demo_adapter_def demo_get_state_def demo_snapshot_def Let_def split: sum.splits)
  show "demo_world ids m \<Longrightarrow> params_fit (pc_action c) (pc_params c) \<Longrightarrow>
      demo_world ids (snd (dp_execute demo_adapter r c m))"
    using demo_execute_inv[of m c r] demo_execute_devices[of r c m] by (auto simp: demo_world_def demo_adapter_def)
qed

lemma demo_steps_inv: "demo_step\<^sup>*\<^sup>* m m' \<Longrightarrow> demo_inv m \<Longrightarrow> demo_inv m'"
proof (induction rule: rtranclp_induct)
  case (step m1 m2)
  from step(2) step(3)[OF step(4)] show ?case
    by (cases rule: demo_step.cases) (simp_all add: demo_execute_inv tick_inv demo_get_state_inv)
qed

lemma new_demo_devices:
  "dm_devices (new_demo_provider clock rng rate secs) =
     map (\<lambda>d. (ref_provider_device_id (pd_ref (dd_definition d)), d)) build_devices"
  by (simp add: new_demo_provider_def build_devices_def demo_device_of_def demo_ref_def od_set_def)

lemma new_demo_inv: "demo_inv (new_demo_provider clock rng rate secs)"
  unfolding demo_inv_def new_demo_devices
  by (simp add: build_devices_def demo_device_of_def demo_ref_def od_wf_def demo_device_ok_def
      device_state_ok_def opt_between_def empty_state_def water_ok_def AMBIENT_C_def)
    (simp add: new_demo_provider_def DEFAULT_TIME_SCALE_def)

subsection \<open>Heating\<close>

text \<open>One step of the simulation with the heater on, temperatures in hundredths of a degree.\<close>

lemma advance_pool_heats:
  assumes "ds_heater s = Some True" and "ds_target_temperature_c s = Some (of_int t / 100)"
    and "ds_current_temperature_c s = Some (of_int k / 100)" and "k < t"
    and "1 / 200 < HEAT_RATE_C_PER_SIM_MINUTE * (secs / 60)"
  obtains k' where "k < k'" "k' \<le> t"
    "advance_pool s secs = s\<lparr>ds_current_temperature_c := Some (of_int k' / 100)\<rparr>"
proof -
  let ?x = "min (of_int t / 100) (of_int k / 100 + HEAT_RATE_C_PER_SIM_MINUTE * (secs / 60)) :: rat"
  let ?k = "py_round (?x * 100)"
  have r: "py_round_digits ?x 2 = of_int ?k / 100" by (simp add: py_round_digits_def)
  have "of_int k + 1 / 2 < ?x * 100" using assms(4,5) by (auto simp: min_def)
  with py_round_error[of "?x * 100"] have low: "k < ?k" by linarith
  have "?x * 100 \<le> of_int t" by (auto simp: min_def)
  then have up: "?k \<le> t" using py_round_mono[of "?x * 100" "of_int t"] by simp
  have "(of_int t / 100 :: rat) \<le> of_int k / 100 \<longleftrightarrow> False" using assms(4) by simp
  moreover have "(of_int ?k / 100 :: rat) \<noteq> of_int k / 100" using low by simp
  ultimately have "advance_pool s secs = s\<lparr>ds_current_temperature_c := Some (of_int ?k / 100)\<rparr>"
    using assms(1-3) r unfolding advance_pool_def by (simp add: Let_def)
  with low up show ?thesis by (rule that)
qed

lemma advance_pool_holds:
  assumes "ds_heater s = Some True" and "ds_target_temperature_c s = Some t"
    and "ds_current_temperature_c s = Some t"
  shows "advance_pool s secs = s"
  using assms by (simp add: advance_pool_def)

subsection \<open>Properties\<close>

text \<open>
  The synthetic household stays plausible: after any sequence of commands, reads and ticks,
  every device reports a state inside the bounds of the state model, a pool that heats also runs
  its pump, and its water is never colder than the air nor warmer than the highest setpoint.
\<close>

lemma demo_household:
  assumes "demo_step\<^sup>*\<^sup>* (new_demo_provider clock rng rate secs) m"
    and "od_get (dm_devices m) i = Some d"
  shows "device_state_ok (dd_state d) \<and> pd_ref (dd_definition d) = demo_ref i \<and>
    (ds_heater (dd_state d) = Some True \<longrightarrow> ds_filter_pump (dd_state d) = Some True) \<and>
    (\<forall>t. ds_current_temperature_c (dd_state d) = Some t \<longrightarrow> 22 \<le> t \<and> t \<le> 60)"
proof -
  have "demo_inv m" by (rule demo_steps_inv[OF assms(1) new_demo_inv])
  with od_get_in[OF assms(2)] have "demo_device_ok i d" by (auto simp: demo_inv_def)
  then show ?thesis by (simp add: demo_device_ok_def water_ok_def AMBIENT_C_def)
qed

text \<open>
  A demo device does what it is told: a command it answers was for one of its devices, online,
  is reported as applied with a state that shows the requested value, and changes nothing of
  any other device.
\<close>

lemma demo_applies:
  assumes "demo_execute r c m = (Inr res, m')" and "params_fit (pc_action c) (pc_params c)"
    and "pc_action c \<noteq> action.UNLATCH"
  shows "pcr_outcome res = APPLIED \<and>
    (\<exists>i d d' st. r = demo_ref i \<and> od_get (dm_devices m) i = Some d \<and>
      dd_availability d \<noteq> availability.OFFLINE \<and> od_get (dm_devices m') i = Some d' \<and>
      (\<forall>j. j \<noteq> i \<longrightarrow> od_get (dm_devices m') j = od_get (dm_devices m) j) \<and>
      pcr_state res = Some st \<and> ps_state st = dd_state d' \<and>
      desired_matches (pc_action c) (pc_params c) (ps_state st) = Some True)"
proof -
  have "desired_matches (pc_action c) (pc_params c) (demo_apply s c) = Some True" for s
    using assms(2,3)
    by (cases "pc_params c")
      (auto simp: desired_matches_def demo_apply_def compare_observed_def temperature_epsilon_c_def)
  moreover from demo_execute_Inr[OF assms(1)] obtain i d st where
    "r = demo_ref i" "od_get (dm_devices m) i = Some d" "dd_availability d \<noteq> availability.OFFLINE"
    "dm_devices m' = od_set i (d\<lparr>dd_state := demo_apply (dd_state d) c\<rparr>) (dm_devices m)"
    "pcr_outcome res = APPLIED" "pcr_state res = Some st" "ps_state st = demo_apply (dd_state d) c"
    by metis
  ultimately show ?thesis
    by (simp add: od_get_set) (rule exI[of _ i], simp)
qed

text \<open>
  A heating pool reaches its setpoint and holds it, without ever passing it, after at most as
  many ticks as it is hundredths of a degree below it, provided a tick heats by more than half
  a hundredth; with shorter ticks the rounding of each step swallows the change and the water
  never gets warmer.
\<close>

lemma pool_heats:
  assumes "ds_heater s = Some True" and "ds_target_temperature_c s = Some (of_int t / 100)"
    and "ds_current_temperature_c s = Some (of_int k / 100)" and "k \<le> t"
  shows "(1 / 200 < HEAT_RATE_C_PER_SIM_MINUTE * (secs / 60) \<longrightarrow>
      (\<forall>n \<ge> nat (t - k). ds_current_temperature_c (((\<lambda>s. advance_pool s secs) ^^ n) s) = Some (of_int t / 100))) \<and>
    (0 \<le> secs \<and> HEAT_RATE_C_PER_SIM_MINUTE * (secs / 60) < 1 / 200 \<longrightarrow> advance_pool s secs = s)"
proof (intro conjI impI allI)
  fix n assume fast: "1 / 200 < HEAT_RATE_C_PER_SIM_MINUTE * (secs / 60)" and "nat (t - k) \<le> n"
  then show "ds_current_temperature_c (((\<lambda>s. advance_pool s secs) ^^ n) s) = Some (of_int t / 100)"
    using assms
  proof (induction n arbitrary: s k)
    case (Suc n)
    have unroll: "((\<lambda>s. advance_pool s secs) ^^ Suc n) s = ((\<lambda>s. advance_pool s secs) ^^ n) (advance_pool s secs)"
      by (simp only: funpow_Suc_right o_def)
    have "ds_current_temperature_c (((\<lambda>s. advance_pool s secs) ^^ n) (advance_pool s secs)) =
        Some (of_int t / 100)"
    proof (cases "k = t")
      case True
      then have "advance_pool s secs = s"
        using advance_pool_holds[OF Suc.prems(3,4)] Suc.prems(5) by simp
      with Suc.IH[of t s] Suc.prems True show ?thesis by simp
    next
      case False
      with Suc.prems(6) have "k < t" by simp
      from advance_pool_heats[OF Suc.prems(3,4,5) this fast] obtain k' where
        k': "k < k'" "k' \<le> t" and new: "advance_pool s secs = s\<lparr>ds_current_temperature_c := Some (of_int k' / 100)\<rparr>"
        by blast
      from k' Suc.prems(2) have "nat (t - k') \<le> n" by linarith
      with Suc.IH[of k' "advance_pool s secs"] Suc.prems fast k' new show ?thesis by simp
    qed
    then show ?case by (simp only: unroll)
  qed simp
next
  assume slow: "0 \<le> secs \<and> HEAT_RATE_C_PER_SIM_MINUTE * (secs / 60) < 1 / 200"
  let ?x = "min (of_int t / 100) (of_int k / 100 + HEAT_RATE_C_PER_SIM_MINUTE * (secs / 60)) :: rat"
  have pos: "0 \<le> HEAT_RATE_C_PER_SIM_MINUTE * (secs / 60)"
    using slow by (simp add: HEAT_RATE_C_PER_SIM_MINUTE_def)
  have "\<bar>of_int k - ?x * 100\<bar> < 1 / 2"
    using slow pos assms(4) by (auto simp: min_def abs_less_iff)
  then have "py_round_digits ?x 2 = of_int k / 100" by (simp add: py_round_digits_def py_round_unique)
  with assms show "advance_pool s secs = s"
    unfolding advance_pool_def by (simp add: Let_def)
qed

end
