(* ===== verification/HA_Effects.thy ===== *)
theory HA_Effects
  imports HA_Provider
begin

section \<open>What leaves for Home Assistant, and what is offered and reported\<close>

text \<open>
  A network whose service calls are recorded, what each operation leaves on it, what discovery
  and a result consist of, and the contract of an adapter on the Home Assistant adapter.
\<close>

type_synonym service_log = "(string \<times> json option) list"

definition posts_logged :: "'w ha_net \<Rightarrow> (service_log \<times> 'w) ha_net" where
  "posts_logged n =
     \<lparr>hn_request = (\<lambda>verb path body (l, w).
        let (r, w1) = hn_request n verb path body w
        in (r, (if verb = ''GET'' then l else l @ [(path, body)], w1))),
      hn_open = (\<lambda>(l, w). let (r, w1) = hn_open n w in (r, (l, w1))),
      hn_sleep = (\<lambda>(l, w). let (r, w1) = hn_sleep n w in (r, (l, w1))),
      hn_str = hn_str n\<rparr>"

lemma logged_request:
  "fst (snd (ha_request (posts_logged n) verb path body w)) =
     (if verb = ''GET'' then fst w else fst w @ [(path, body)])"
  by (cases w) (auto simp: ha_request_def posts_logged_def Let_def split: prod.splits http_result.splits)

lemma logged_state_of: "fst (snd (ha_state_of (posts_logged n) i w)) = fst w"
  using logged_request[of n "''GET''" "''/api/states/'' @ i" None w]
  by (auto simp: ha_state_of_def split: prod.splits sum.splits)

lemma logged_states: "fst (snd (ha_states (posts_logged n) w)) = fst w"
  using logged_request[of n "''GET''" "''/api/states''" None w]
  by (auto simp: ha_states_def split: prod.splits sum.splits json.splits)

lemma logged_open: "fst (snd (hn_open (posts_logged n) w)) = fst w"
  by (cases w) (simp add: posts_logged_def Let_def case_prod_unfold)

lemma logged_sleep: "fst (snd (hn_sleep (posts_logged n) w)) = fst w"
  by (cases w) (simp add: posts_logged_def Let_def case_prod_unfold)

lemma ha_rooms_world: "snd (snd (ha_rooms n token i w)) = snd (hn_open n w)"
  by (auto simp: ha_rooms_def split: prod.splits ws_opening.splits sum.splits adapter_exn.splits)

lemma ha_events_world: "snd (snd (ha_events n token i w)) = snd (hn_open n w)"
  by (auto simp: ha_events_def split: prod.splits ws_opening.splits sum.splits)

lemma logged_call_service:
  "fst (snd (call_service (posts_logged n) d s data w)) = fst w @ [(service_path d s, Some (JObj data))]"
  using logged_request[of n "''POST''" "service_path d s" "Some (JObj data)" w]
  by (auto simp: call_service_def split: prod.splits sum.splits json.splits)

lemma logged_confirm: "fst (snd (ha_confirm (posts_logged n) i kind expected k first latest w)) = fst w"
proof (induction k arbitrary: first latest w)
  case (Suc k)
  obtain r w1 where sl: "(if first then (Inr (), w) else hn_sleep (posts_logged n) w) = (r, w1)" by (rule prod.exhaust)
  then have w1: "fst w1 = fst w" using logged_sleep[of n w] by (cases first) auto
  obtain q w2 where st: "ha_state_of (posts_logged n) i w1 = (q, w2)" by (rule prod.exhaust)
  then have w2: "fst w2 = fst w" using logged_state_of[of n i w1] w1 by simp
  show ?case
    using sl w1 st w2 Suc by (auto split: sum.splits adapter_exn.splits bool.splits)
qed simp

lemma ha_snapshot_world: "snd (snd (ha_snapshot cf e s)) = snd s"
  by (cases s) (auto simp: ha_snapshot_def Let_def split: sum.splits)

lemma ha_settle_world: "snd (snd (ha_settle cf kind expected observed s)) = snd s"
  using ha_snapshot_world[of cf _ s]
  by (auto simp: ha_settle_def split: option.splits sum.splits prod.splits bool.splits)
    (metis snd_conv)+

lemma relay_world: "snd (snd (relay cf es s)) = snd s"
proof (induction es arbitrary: s)
  case (Cons e es)
  show ?case
    using Cons[of s] Cons[of "snd (ha_snapshot cf e s)"] ha_snapshot_world[of cf e s]
    by (auto split: sum.splits prod.splits)
qed simp

subsection \<open>A command as one service call\<close>

lemma ha_execute_cases:
  obtains (refused) e where "ha_execute cf r c (h, w) = (Inl e, h, w)"
  | (runs) i kind call where "r = ha_ref i" "od_get (hp_kinds h) i = Some kind"
      "released_domain (hf_released cf) (before_dot i)" "call_for c = Inr call"
      "ha_execute cf r c (h, w) = ha_carry_out cf i kind call (h, w)"
proof (cases "known_entity r h")
  case (Inl e)
  then show ?thesis using refused by (simp add: ha_execute_def)
next
  case (Inr i)
  then obtain kind where k: "od_get (hp_kinds h) i = Some kind" "r = ha_ref i"
    by (cases r) (auto simp: known_entity_def ha_ref_def split: if_splits)
  show ?thesis
  proof (cases "released_domain (hf_released cf) (before_dot i)")
    case False
    with Inr k refused show ?thesis by (simp add: ha_execute_def)
  next
    case True
    show ?thesis
    proof (cases "call_for c")
      case (Inl e)
      with \<open>known_entity r h = Inr i\<close> k True refused show ?thesis by (simp add: ha_execute_def)
    next
      case call: (Inr call)
      with Inr k True runs[of i kind call] show ?thesis by (simp add: ha_execute_def)
    qed
  qed
qed

definition call_body :: "string \<Rightarrow> ha_call \<Rightarrow> (string, json) odict" where
  "call_body i call = fold (\<lambda>(k, v). od_set k v) (hl_data call) [(''entity_id'', JStr i)]"

lemma fold_od_set_other: "k \<notin> fst ` set kvs \<Longrightarrow> od_get (fold (\<lambda>(k, v). od_set k v) kvs d) k = od_get d k"
  by (induction kvs arbitrary: d) (auto simp: od_get_set)

lemma call_body_entity:
  assumes "call_for c = Inr call"
  shows "od_get (call_body i call) ''entity_id'' = Some (JStr i)"
proof -
  have "''entity_id'' \<notin> fst ` set (hl_data call)"
    using assms by (auto simp: call_for_def split: action.splits command_params.splits if_splits)
  then show ?thesis by (simp add: call_body_def fold_od_set_other) (simp add: od_get_def)
qed

lemma carry_out_logged:
  assumes "hf_net cf = posts_logged n"
  shows "fst (snd (snd (ha_carry_out cf i kind call (h, w)))) =
    fst w @ [(service_path (before_dot i) (hl_service call), Some (JObj (call_body i call)))]"
proof -
  obtain r w1 where sv: "call_service (posts_logged n) (before_dot i) (hl_service call) (call_body i call) w = (r, w1)"
    by (rule prod.exhaust)
  with logged_call_service[of n "before_dot i" "hl_service call" "call_body i call" w]
  have w1: "fst w1 = fst w @ [(service_path (before_dot i) (hl_service call), Some (JObj (call_body i call)))]" by simp
  obtain q w2 where cf2: "ha_confirm (posts_logged n) i kind (hl_expected call) (hf_confirm_attempts cf) True None w1 = (q, w2)"
    by (rule prod.exhaust)
  with logged_confirm[of n i kind "hl_expected call" "hf_confirm_attempts cf" True None w1]
  have w2: "fst w2 = fst w1" by simp
  have ap: "snd (snd (ha_applied cf e (h, w1))) = w1" for e
    using ha_snapshot_world[of cf e "(h, w1)"]
    by (cases "ha_snapshot cf e (h, w1)") (auto simp: ha_applied_def split: sum.splits)
  show ?thesis
    using sv w1 cf2 w2 ap assms ha_settle_world[of cf kind "hl_expected call" _ "(h, w2)"]
    by (auto simp: ha_carry_out_def call_body_def[symmetric] split: sum.splits option.splits)
qed

subsection \<open>What a result says\<close>

lemma ha_snapshot_Inr:
  assumes "ha_snapshot cf e (h, w) = (Inr st, s1)"
  obtains kind where "kind = (case od_get (hp_kinds h) (he_entity_id e) of None \<Rightarrow> SENSOR | Some k \<Rightarrow> k)"
    and "normalise e kind = Normalised (ps_state st)" and "ps_availability st = ha_availability e"
  using assms
  by (auto simp: ha_snapshot_def observed_state_def Let_def split: sum.splits normalised.splits)

lemma first_match_Some:
  "first_match i kind expected es = Inr (Some e) \<Longrightarrow>
     he_entity_id e = i \<and> e \<in> set es \<and> ha_matches e kind expected = Inr True"
  by (induction es) (auto split: if_splits sum.splits bool.splits)

text \<open>An entity that was answered: by the service call itself, or by a later reading.\<close>

definition answered :: "'w ha_net \<Rightarrow> string \<Rightarrow> ha_entity \<Rightarrow> bool" where
  "answered n i e \<longleftrightarrow> (\<exists>w. fst (ha_state_of n i w) = Inr e) \<or>
     (he_entity_id e = i \<and>
      (\<exists>domain service body w es. fst (call_service n domain service body w) = Inr es \<and> e \<in> set es))"

lemma confirm_answered:
  "fst (ha_confirm n i kind expected k first latest w) = Inr (Some e) \<Longrightarrow>
     (\<And>x. latest = Some x \<Longrightarrow> answered n i x) \<Longrightarrow> answered n i e"
proof (induction k arbitrary: first latest w)
  case (Suc k)
  obtain r w1 where sl: "(if first then (Inr (), w) else hn_sleep n w) = (r, w1)" by (rule prod.exhaust)
  obtain q w2 where st: "ha_state_of n i w1 = (q, w2)" by (rule prod.exhaust)
  from Suc.prems(1) sl obtain u where r: "r = Inr u" by (cases r) auto
  show ?case
  proof (cases q)
    case (Inl x)
    with Suc.prems(1) sl r st have "fst (ha_confirm n i kind expected k False latest w2) = Inr (Some e)"
      by (cases x) (auto split: if_splits)
    with Suc.prems(2) show ?thesis by (rule Suc.IH[rotated]) blast
  next
    case (Inr x)
    with st have ans: "answered n i x" by (auto simp: answered_def intro: exI[of _ w1])
    from Suc.prems(1) sl r st Inr consider "e = x" | "fst (ha_confirm n i kind expected k False (Some x) w2) = Inr (Some e)"
      by (auto split: sum.splits bool.splits)
    then show ?thesis using ans Suc.IH[of False "Some x" w2] by cases auto
  qed
qed simp

definition reported ::
  "'w ha_config \<Rightarrow> string \<Rightarrow> ha_adapter_state \<Rightarrow> ha_entity \<Rightarrow> provider_state \<Rightarrow> bool"
where
  "reported cf i h e st \<longleftrightarrow> answered (hf_net cf) i e \<and>
     (\<exists>w h' w'. ha_snapshot cf e (h, w) = (Inr st, h', w'))"

lemma snapshot_reported:
  "ha_snapshot cf e (h, w') = (Inr st, s2) \<Longrightarrow> answered (hf_net cf) i e \<Longrightarrow> reported cf i h e st"
  by (cases s2) (auto simp: reported_def)

lemma settle_Inr:
  assumes "ha_settle cf kind expected observed (h, w) = (Inr res, s1)"
    and known: "\<And>e. observed = Some e \<Longrightarrow> answered (hf_net cf) i e"
  obtains (unread) "pcr_outcome res = command_outcome.UNKNOWN" "pcr_state res = None"
  | (seen) e st ok where "reported cf i h e st" "pcr_state res = Some st"
      "ha_matches e kind expected = Inr ok"
      "pcr_outcome res = (if ok then APPLIED else command_outcome.UNKNOWN)"
proof (cases observed)
  case None
  with assms(1) unread show thesis by (auto simp: ha_settle_def)
next
  case (Some e)
  obtain r s3 where sn: "ha_snapshot cf e (h, w) = (r, s3)" by (rule prod.exhaust)
  with assms(1) Some obtain st where r: "r = Inr st" by (cases r) (auto simp: ha_settle_def)
  from assms(1) Some sn r obtain b where b: "ha_matches e kind expected = Inr b"
    by (cases "ha_matches e kind expected") (auto simp: ha_settle_def)
  from assms(1) Some sn r b have res: "pcr_state res = Some st"
    "pcr_outcome res = (if b then APPLIED else command_outcome.UNKNOWN)"
    by (cases b; auto simp: ha_settle_def)+
  from seen[OF snapshot_reported[OF sn[unfolded r] known[OF Some]] res(1) b res(2)] show thesis .
qed

lemma carry_out_Inr:
  assumes "ha_carry_out cf i kind call (h, w) = (Inr res, s1)"
  obtains (unread) "pcr_outcome res = command_outcome.UNKNOWN" "pcr_state res = None"
  | (seen) e st ok where "reported cf i h e st" "pcr_state res = Some st"
      "ha_matches e kind (hl_expected call) = Inr ok"
      "pcr_outcome res = (if ok then APPLIED else command_outcome.UNKNOWN)"
proof -
  obtain r w1 where sv: "call_service (hf_net cf) (before_dot i) (hl_service call) (call_body i call) w = (r, w1)"
    by (rule prod.exhaust)
  with assms obtain changed where r: "r = Inr changed"
    by (cases r) (auto simp: ha_carry_out_def call_body_def[symmetric])
  obtain m where m: "first_match i kind (hl_expected call) changed = Inr m"
    using assms sv r by (cases "first_match i kind (hl_expected call) changed")
      (auto simp: ha_carry_out_def call_body_def[symmetric])
  show thesis
  proof (cases m)
    case (Some e)
    with assms sv r m have "ha_applied cf e (h, w1) = (Inr res, s1)"
      by (simp add: ha_carry_out_def call_body_def[symmetric])
    then obtain st where st: "ha_snapshot cf e (h, w1) = (Inr st, s1)"
        "res = \<lparr>pcr_outcome = APPLIED, pcr_state = Some st, pcr_failure_code = None\<rparr>"
      by (auto simp: ha_applied_def split: sum.splits prod.splits)
    have e: "he_entity_id e = i" "e \<in> set changed" "ha_matches e kind (hl_expected call) = Inr True"
      using first_match_Some[OF m[unfolded Some]] by simp_all
    have "fst (call_service (hf_net cf) (before_dot i) (hl_service call) (call_body i call) w) = Inr changed"
      by (simp add: sv r)
    with e(1,2) have "answered (hf_net cf) i e" unfolding answered_def by blast
    from seen[OF snapshot_reported[OF st(1) this] _ e(3)] st(2) show thesis by simp
  next
    case None
    obtain q w2 where confirm: "ha_confirm (hf_net cf) i kind (hl_expected call) (hf_confirm_attempts cf) True None w1 = (q, w2)"
      by (rule prod.exhaust)
    with assms sv r m None obtain observed where q: "q = Inr observed"
      by (cases q) (auto simp: ha_carry_out_def call_body_def[symmetric])
    with assms sv r m None confirm have "ha_settle cf kind (hl_expected call) observed (h, w2) = (Inr res, s1)"
      by (simp add: ha_carry_out_def call_body_def[symmetric])
    then show thesis
    proof (rule settle_Inr)
      show "answered (hf_net cf) i e" if "observed = Some e" for e
        using confirm_answered[of "hf_net cf" i kind "hl_expected call" "hf_confirm_attempts cf" True None w1 e]
          confirm q that by simp
    qed (auto intro: unread seen)
  qed
qed

lemma ha_execute_state_ok:
  assumes "ha_execute cf r c s = (Inr res, s')" and "pcr_state res = Some st"
  shows "device_state_ok (ps_state st)"
proof -
  obtain h w where s: "s = (h, w)" by (cases s)
  show ?thesis
  proof (cases rule: ha_execute_cases[of cf r c h w])
    case (refused e)
    with assms s show ?thesis by simp
  next
    case (runs i kind call)
    with assms(1) s have "ha_carry_out cf i kind call (h, w) = (Inr res, s')" by simp
    then show ?thesis
    proof (cases rule: carry_out_Inr)
      case (seen e st' ok)
      with assms(2) obtain w1 h' w' where "ha_snapshot cf e (h, w1) = (Inr st, h', w')"
        by (auto simp: reported_def)
      then show ?thesis by (rule ha_snapshot_Inr) (metis normalise_ok)
    qed (use assms(2) in simp)
  qed
qed

subsection \<open>Operations that call no service\<close>

lemma discover_logged:
  assumes "hf_net cf = posts_logged n"
  shows "fst (snd (snd (ha_discover cf (h, w)))) = fst w"
proof -
  obtain q w1 where st: "ha_states (posts_logged n) w = (q, w1)" by (rule prod.exhaust)
  with logged_states[of n w] have w1: "fst w1 = fst w" by simp
  obtain p i w2 where rm: "ha_rooms (posts_logged n) (hf_token cf) (hp_command_id h) w1 = (p, i, w2)"
    by (metis prod.exhaust)
  with ha_rooms_world[of "posts_logged n" "hf_token cf" "hp_command_id h" w1] logged_open[of n w1] w1
  have "fst w2 = fst w" by simp
  with st w1 rm assms show ?thesis
    by (auto simp: ha_discover_def Let_def case_prod_unfold split: sum.splits)
qed

lemma get_state_logged:
  assumes "hf_net cf = posts_logged n"
  shows "fst (snd (snd (ha_get_state cf r (h, w)))) = fst w"
proof (cases "known_entity r h")
  case (Inr i)
  obtain q w1 where st: "ha_state_of (posts_logged n) i w = (q, w1)" by (rule prod.exhaust)
  with logged_state_of[of n i w] have w1: "fst w1 = fst w" by simp
  show ?thesis
  proof (cases q)
    case (Inr e)
    with \<open>known_entity r h = Inr i\<close> st w1 assms ha_snapshot_world[of cf e "(h, w1)"] show ?thesis
      by (simp add: ha_get_state_def)
  qed (use Inr st w1 assms in \<open>simp add: ha_get_state_def\<close>)
qed (simp add: ha_get_state_def)

lemma subscribe_logged:
  assumes "hf_net cf = posts_logged n"
  shows "fst (snd (snd (ha_subscribe cf (h, w)))) = fst w"
proof -
  obtain q w1 where st: "ha_states (posts_logged n) w = (q, w1)" by (rule prod.exhaust)
  with logged_states[of n w] have w1: "fst w1 = fst w" by simp
  show ?thesis
  proof (cases q)
    case (Inl e)
    with st w1 assms show ?thesis by (simp add: ha_subscribe_def)
  next
    case (Inr entities)
    obtain evs x h2 w2 where rl: "relay cf entities (h, w1) = ((evs, x), h2, w2)" by (metis prod.exhaust)
    with relay_world[of cf entities "(h, w1)"] have w2: "w2 = w1" by simp
    obtain changed stop i w3 where ev: "ha_events (posts_logged n) (hf_token cf) (hp_command_id h2) w2 = ((changed, stop), i, w3)"
      by (metis prod.exhaust)
    with ha_events_world[of "posts_logged n" "hf_token cf" "hp_command_id h2" w2] logged_open[of n w2]
    have w3: "fst w3 = fst w2" by simp
    obtain evs' y s4 where r2: "relay cf changed (h2\<lparr>hp_command_id := i\<rparr>, w3) = ((evs', y), s4)" by (metis prod.exhaust)
    with relay_world[of cf changed "(h2\<lparr>hp_command_id := i\<rparr>, w3)"] have "snd s4 = w3" by simp
    with Inr st w1 rl w2 ev w3 r2 assms show ?thesis
      by (cases x) (simp_all add: ha_subscribe_def)
  qed
qed

lemma execute_logged:
  assumes "hf_net cf = posts_logged n"
  shows "fst (snd (snd (ha_execute cf r c (h, w)))) = fst w \<or>
    (\<exists>i call body. r = ha_ref i \<and> od_get (hp_kinds h) i \<noteq> None \<and> call_for c = Inr call \<and>
       released_domain (hf_released cf) (before_dot i) \<and> od_get body ''entity_id'' = Some (JStr i) \<and>
       fst (snd (snd (ha_execute cf r c (h, w)))) =
         fst w @ [(service_path (before_dot i) (hl_service call), Some (JObj body))])"
proof (cases rule: ha_execute_cases[of cf r c h w])
  case (runs i kind call)
  from carry_out_logged[OF assms, of i kind call h w] runs(5)
  have "fst (snd (snd (ha_execute cf r c (h, w)))) =
      fst w @ [(service_path (before_dot i) (hl_service call), Some (JObj (call_body i call)))]" by simp
  with runs(1-4) call_body_entity[OF runs(4), of i] show ?thesis by blast
qed simp

subsection \<open>What discovery offers\<close>

lemma describe_kind:
  assumes "describe e = Some m"
  shows "hm_kind m =
    (if domain_of e = ''light'' then LIGHT else if domain_of e = ''switch'' then SWITCH
     else if domain_of e = ''media_player'' then MEDIA_PLAYER
     else if domain_of e = ''lock'' then device_kind.LOCK
     else if domain_of e = ''climate'' then THERMOSTAT else SENSOR)"
  using assms[symmetric, unfolded describe_def Let_def]
  by (simp add: map_light_def map_switch_def map_media_player_def map_lock_def map_climate_def
      map_sensor_def Let_def split del: if_split split: if_split_asm)

lemma describe_reads:
  "describe e = Some m \<Longrightarrow>
     set (hm_capabilities m) - set (hm_writable m) \<subseteq> {CURRENT_TEMPERATURE, HUMIDITY}"
  by (auto simp: describe_def map_light_def map_switch_def map_media_player_def map_lock_def map_climate_def
      map_sensor_def Let_def split: if_splits)

lemma describe_lock: "describe e = Some m \<Longrightarrow> domain_of e = ''lock'' \<Longrightarrow> hm_capabilities m = []"
  by (auto simp: describe_def map_lock_def)

lemma reads_not_required:
  "required_capability_for a p = Some c \<Longrightarrow> c \<notin> {CURRENT_TEMPERATURE, HUMIDITY}"
  by (cases a; cases p) (auto simp: required_capability_for_def ACTION_SPECS_def od_get_def split: if_splits lock_state.splits)

definition kinds_described :: "(string, device_kind) odict \<Rightarrow> bool" where
  "kinds_described kinds \<longleftrightarrow>
     (\<forall>i k. od_get kinds i = Some k \<longrightarrow>
        (\<exists>e m. he_entity_id e = i \<and> describe e = Some m \<and> hm_kind m = k))"

lemma advertise_spec:
  assumes "kinds_described kinds"
  shows "kinds_described (snd (advertise released rooms es kinds)) \<and>
    (\<forall>i. od_get kinds i \<noteq> None \<longrightarrow> od_get (snd (advertise released rooms es kinds)) i \<noteq> None) \<and>
    (\<forall>pd \<in> set (fst (advertise released rooms es kinds)). \<exists>e m.
       describe e = Some m \<and> pd = described released rooms e m \<and>
       od_get (snd (advertise released rooms es kinds)) (he_entity_id e) = Some (hm_kind m))"
  using assms
proof (induction es arbitrary: kinds)
  case (Cons e es)
  show ?case
  proof (cases "describe e")
    case None
    with Cons show ?thesis by auto
  next
    case (Some m)
    let ?k1 = "od_set (he_entity_id e) (hm_kind m) kinds"
    obtain ds k2 where run: "advertise released rooms es ?k1 = (ds, k2)" by (rule prod.exhaust)
    have "kinds_described ?k1"
      using Cons.prems Some by (auto simp: kinds_described_def od_get_set)
    with Cons.IH[of ?k1] run have ih: "kinds_described k2"
      "\<And>i. od_get ?k1 i \<noteq> None \<Longrightarrow> od_get k2 i \<noteq> None"
      "\<forall>pd \<in> set ds. \<exists>e m. describe e = Some m \<and> pd = described released rooms e m \<and>
         od_get k2 (he_entity_id e) = Some (hm_kind m)" by auto
    from ih(2)[of "he_entity_id e"] obtain k where k: "od_get k2 (he_entity_id e) = Some k" by auto
    with ih(1) obtain e' m' where "he_entity_id e' = he_entity_id e" "describe e' = Some m'" "hm_kind m' = k"
      unfolding kinds_described_def by metis
    with Some describe_kind[of e m] describe_kind[of e' m'] have "k = hm_kind m" by (simp add: domain_of_def)
    with ih k Some run show ?thesis by (auto simp: od_get_set)
  qed
qed simp

lemma ha_discover_Inr:
  assumes "ha_discover cf (h, w) = (Inr ds, h', w')"
  obtains entities rooms where "fst (ha_states (hf_net cf) w) = Inr entities"
    and "advertise (hf_released cf) rooms entities [] = (ds, hp_kinds h')"
  using assms
  by (auto simp: ha_discover_def Let_def split: sum.splits prod.splits)

lemma ha_discover_described:
  assumes "ha_discover cf s = (Inr ds, h', w')" and "pd \<in> set ds"
  obtains e m rooms where "describe e = Some m" "pd = described (hf_released cf) rooms e m"
    "od_get (hp_kinds h') (he_entity_id e) = Some (hm_kind m)"
proof -
  obtain h w where s: "s = (h, w)" by (cases s)
  have nil: "kinds_described []" by (simp add: kinds_described_def)
  from ha_discover_Inr[OF assms(1)[unfolded s]] obtain entities rooms where
    "advertise (hf_released cf) rooms entities [] = (ds, hp_kinds h')" by metis
  with advertise_spec[OF nil, of "hf_released cf" rooms entities] assms(2)
  have "\<exists>e m. describe e = Some m \<and> pd = described (hf_released cf) rooms e m \<and>
    od_get (hp_kinds h') (he_entity_id e) = Some (hm_kind m)" by simp
  with that show ?thesis by blast
qed

interpretation ha: adapter_contract "ha_adapter cf" "{r. ref_provider r = HA_PROVIDER_NAME}" "\<lambda>s. True"
proof unfold_locales
  fix s :: "ha_adapter_state \<times> 'a" and pds
  assume "fst (dp_discover_devices (ha_adapter cf) s) = Inr pds"
  then obtain h' w' where run: "ha_discover cf s = (Inr pds, h', w')"
    by (cases "ha_discover cf s") (auto simp: ha_adapter_def)
  show "pd_ref ` set pds \<subseteq> {r. ref_provider r = HA_PROVIDER_NAME}"
  proof
    fix r assume "r \<in> pd_ref ` set pds"
    then obtain pd where pd: "pd \<in> set pds" "r = pd_ref pd" by blast
    from ha_discover_described[OF run pd(1)] obtain e m rooms where
      "pd = described (hf_released cf) rooms e m" by metis
    with pd(2) show "r \<in> {r. ref_provider r = HA_PROVIDER_NAME}" by (simp add: described_def ha_ref_def)
  qed
next
  fix r and s :: "ha_adapter_state \<times> 'a" and st
  assume got: "fst (dp_get_state (ha_adapter cf) r s) = Inr st"
  obtain h w where s: "s = (h, w)" by (cases s)
  with got obtain i where i: "known_entity r h = Inr i"
    by (cases "known_entity r h") (auto simp: ha_adapter_def ha_get_state_def)
  obtain q w1 where q: "ha_state_of (hf_net cf) i w = (q, w1)" by (rule prod.exhaust)
  with got s i obtain e where e: "q = Inr e" by (cases q) (auto simp: ha_adapter_def ha_get_state_def)
  with got s i q have "fst (ha_snapshot cf e (h, w1)) = Inr st" by (simp add: ha_adapter_def ha_get_state_def)
  then have "ha_snapshot cf e (h, w1) = (Inr st, snd (ha_snapshot cf e (h, w1)))" by (metis prod.collapse)
  then show "device_state_ok (ps_state st)" by (rule ha_snapshot_Inr) (metis normalise_ok)
next
  fix r c and s :: "ha_adapter_state \<times> 'a" and res st
  assume "fst (dp_execute (ha_adapter cf) r c s) = Inr res" and st: "pcr_state res = Some st"
  then have "ha_execute cf r c s = (Inr res, snd (ha_execute cf r c s))"
    by (cases "ha_execute cf r c s") (simp add: ha_adapter_def)
  then show "device_state_ok (ps_state st)" using st by (rule ha_execute_state_ok)
qed simp_all

end
