(* ===== verification/HA_Properties.thy ===== *)
theory HA_Properties
  imports HA_Effects Sample_Gateway
begin

section \<open>Home Assistant: properties\<close>

text \<open>
  A small household as a concrete input, and the properties of the adapter: one service call for
  a command, only what was released is offered, success is observed, and a thermostat that is
  switched off.
\<close>

subsection \<open>A small household behind Home Assistant\<close>

definition entity_json :: "string \<Rightarrow> string \<Rightarrow> json" where
  "entity_json i s = JObj [(''entity_id'', JStr i), (''state'', JStr s)]"

definition sample_home :: "unit ha_net" where
  "sample_home =
     \<lparr>hn_request = (\<lambda>verb path body w.
        (Response \<lparr>hr_status = 200, hr_size = 1,
           hr_json = Some (JList
             (if verb = ''GET'' then [entity_json ''light.desk'' ''off'', entity_json ''lock.door'' ''locked'']
              else [entity_json ''light.desk'' ''on'']))\<rparr>, w)),
      hn_open = (\<lambda>w. (WsFailed, w)), hn_sleep = (\<lambda>w. (Inr (), w)), hn_str = (\<lambda>j. [])\<rparr>"

text \<open>An operator who tries to release the door as well.\<close>

definition sample_ha :: "'w ha_net \<Rightarrow> 'w ha_config" where
  "sample_ha n =
     \<lparr>hf_net = n, hf_token = ''t'', hf_released = {''light'', ''lock''}, hf_clock = (\<lambda>k. int k),
      hf_confirm_attempts = HA_CONFIRM_ATTEMPTS\<rparr>"

definition sample_kinds :: "(string, device_kind) odict" where
  "sample_kinds = [(''light.desk'', LIGHT), (''lock.door'', device_kind.LOCK)]"

definition sample_home_state :: ha_adapter_state where
  "sample_home_state = new_ha\<lparr>hp_kinds := sample_kinds\<rparr>"

definition light_on :: provider_command where
  "light_on = \<lparr>pc_action = SET_POWER, pc_params = OnOffParams True\<rparr>"

lemma sample_home_discovers:
  obtains ds h' where "ha_discover (sample_ha sample_home) (new_ha, ()) = (Inr ds, h', ())"
    and "map pd_kind ds = [LIGHT, device_kind.LOCK]" and "hp_kinds h' = sample_kinds"
proof -
  have "ha_states sample_home () = (Inr
      [\<lparr>he_entity_id = ''light.desk'', he_state = ''off'', he_attributes = []\<rparr>,
       \<lparr>he_entity_id = ''lock.door'', he_state = ''locked'', he_attributes = []\<rparr>], ())"
    by (simp add: ha_states_def ha_request_def sample_home_def judge_response_def MAX_RESPONSE_BYTES_def
        parse_entities_def Let_def List.map_filter_simps parse_entity_def entity_json_def od_get_def
        entity_id_ok_def before_dot_def after_dot_def domain_char_def)
  moreover have "ha_rooms sample_home ''t'' 0 () = (Inr [], 0, ())"
    by (simp add: ha_rooms_def sample_home_def)
  ultimately show ?thesis
    using that by (simp add: ha_discover_def sample_ha_def new_ha_def describe_def domain_of_def before_dot_def
        map_light_def map_lock_def od_get_def described_def offered_def released_domain_def RELEASABLE_DOMAINS_def
        od_set_def Let_def sample_kinds_def)
qed

lemma sample_home_switches:
  "ha_execute (sample_ha (posts_logged sample_home)) (ha_ref ''light.desk'') light_on (sample_home_state, [], ()) =
     (Inr \<lparr>pcr_outcome = APPLIED,
           pcr_state = Some \<lparr>ps_state = empty_state\<lparr>ds_power := Some True\<rparr>,
             ps_availability = availability.ONLINE, ps_observed_at = 0\<rparr>,
           pcr_failure_code = None\<rparr>,
      sample_home_state\<lparr>hp_ticks := 1\<rparr>,
      [(''/api/services/light/turn_on'', Some (JObj [(''entity_id'', JStr ''light.desk'')]))], ())"
proof -
  let ?e = "\<lparr>he_entity_id = ''light.desk'', he_state = ''on'', he_attributes = []\<rparr>"
  have kinds: "od_get sample_kinds ''light.desk'' = Some LIGHT" by (simp add: sample_kinds_def od_get_def)
  have "call_service (posts_logged sample_home) ''light'' ''turn_on'' [(''entity_id'', JStr ''light.desk'')] ([], ()) =
      (Inr [?e], [(''/api/services/light/turn_on'', Some (JObj [(''entity_id'', JStr ''light.desk'')]))], ())"
    by (simp add: call_service_def ha_request_def posts_logged_def sample_home_def judge_response_def
        MAX_RESPONSE_BYTES_def parse_entities_def Let_def List.map_filter_simps parse_entity_def entity_json_def
        od_get_def entity_id_ok_def before_dot_def after_dot_def domain_char_def service_path_def)
  moreover have obs: "observed_state ?e LIGHT = Inr (empty_state\<lparr>ds_power := Some True\<rparr>)"
    by (simp add: observed_state_def normalise_def number_def od_get_def checked_def device_state_ok_def
        empty_state_def opt_between_def UNAVAILABLE_STATE_def UNKNOWN_STATE_def)
  moreover have "ha_matches ?e LIGHT (empty_state\<lparr>ds_power := Some True\<rparr>) = Inr True"
    using obs by (simp add: ha_matches_def agrees_def same_if_wanted_def near_if_wanted_def
        neighbour_if_wanted_def empty_state_def)
  moreover have "ha_availability ?e = availability.ONLINE"
    by (simp add: ha_availability_def UNAVAILABLE_STATE_def UNKNOWN_STATE_def)
  moreover have "before_dot ''light.desk'' = ''light''" by (simp add: before_dot_def)
  ultimately show ?thesis
    using kinds
    by (simp add: ha_execute_def known_entity_def ha_ref_def sample_home_state_def new_ha_def sample_ha_def
        released_domain_def RELEASABLE_DOMAINS_def call_for_def light_on_def ha_carry_out_def ha_applied_def
        ha_snapshot_def)
qed

subsection \<open>Properties\<close>

text \<open>
  C28. Carrying out a command calls at most one service of Home Assistant, whatever it answers and
  however often the effect is read back: only for an entity that discovery advertised, in a
  domain that was released and can be released, never a lock, with that entity in the body and
  the service the command stands for. Discovery, reading and the event stream call none.
\<close>

theorem ha_calls_once:
  assumes "hf_net cf = posts_logged n"
  shows "(fst (snd (snd (ha_execute cf r c (h, w)))) = fst w \<or>
      (\<exists>i call body. r = ha_ref i \<and> od_get (hp_kinds h) i \<noteq> None \<and> call_for c = Inr call \<and>
         before_dot i \<in> hf_released cf \<and> before_dot i \<in> set RELEASABLE_DOMAINS \<and> before_dot i \<noteq> ''lock'' \<and>
         od_get body ''entity_id'' = Some (JStr i) \<and>
         fst (snd (snd (ha_execute cf r c (h, w)))) =
           fst w @ [(service_path (before_dot i) (hl_service call), Some (JObj body))])) \<and>
    fst (snd (snd (ha_discover cf (h, w)))) = fst w \<and>
    fst (snd (snd (ha_get_state cf r (h, w)))) = fst w \<and>
    fst (snd (snd (ha_subscribe cf (h, w)))) = fst w"
proof -
  have door: "\<not> released_domain released ''lock''" for released
    by (simp add: released_domain_def RELEASABLE_DOMAINS_def)
  from execute_logged[OF assms, of r c h w] show ?thesis
  proof (elim disjE exE conjE)
    fix i call body
    assume call: "r = ha_ref i" "od_get (hp_kinds h) i \<noteq> None" "call_for c = Inr call"
      "od_get body ''entity_id'' = Some (JStr i)"
      "fst (snd (snd (ha_execute cf r c (h, w)))) =
         fst w @ [(service_path (before_dot i) (hl_service call), Some (JObj body))]"
      and rel: "released_domain (hf_released cf) (before_dot i)"
    have "before_dot i \<noteq> ''lock''" using rel door by auto
    moreover have "before_dot i \<in> hf_released cf" "before_dot i \<in> set RELEASABLE_DOMAINS"
      using rel by (simp_all add: released_domain_def)
    ultimately show ?thesis
      using call discover_logged[OF assms] get_state_logged[OF assms] subscribe_logged[OF assms] by blast
  qed (simp add: discover_logged[OF assms] get_state_logged[OF assms] subscribe_logged[OF assms])
qed

theorem ha_calls_once_witness:
  "fst (snd (snd (ha_execute (sample_ha (posts_logged sample_home)) (ha_ref ''light.desk'') light_on
      (sample_home_state, [], ())))) =
     [(''/api/services/light/turn_on'', Some (JObj [(''entity_id'', JStr ''light.desk'')]))] \<and>
   ''light'' \<in> set RELEASABLE_DOMAINS"
proof -
  have net: "hf_net (sample_ha (posts_logged sample_home)) = posts_logged sample_home" by (simp add: sample_ha_def)
  have bd: "before_dot ''light.desk'' = ''light''" by (simp add: before_dot_def)
  from ha_calls_once[OF net, of "ha_ref ''light.desk''" light_on sample_home_state "([], ())"] sample_home_switches bd
  show ?thesis by (auto simp: ha_ref_def)
qed


lemma call_for_cases:
  assumes "call_for c = Inr call"
  obtains (power) on where "pc_params c = OnOffParams on" "hl_expected call = empty_state\<lparr>ds_power := Some on\<rparr>"
  | (dark) "pc_params c = BrightnessParams 0" "hl_expected call = empty_state\<lparr>ds_power := Some False\<rparr>"
  | (bright) b where "pc_params c = BrightnessParams b" "b \<noteq> 0"
      "hl_expected call = empty_state\<lparr>ds_power := Some True, ds_brightness := Some b\<rparr>"
  | (volume) v where "pc_params c = VolumeParams v" "hl_expected call = empty_state\<lparr>ds_volume := Some v\<rparr>"
  | (play) p where "pc_params c = PlaybackParams p" "hl_expected call = empty_state"
  | (target) t where "pc_params c = TargetTemperatureParams t"
      "hl_expected call = empty_state\<lparr>ds_target_temperature_c := Some t\<rparr>"
proof (cases "pc_params c")
  case (OnOffParams on)
  with assms have "hl_expected call = empty_state\<lparr>ds_power := Some on\<rparr>"
    by (cases "pc_action c") (auto simp: call_for_def)
  with OnOffParams show thesis by (rule power)
next
  case (BrightnessParams b)
  with assms have "hl_expected call =
      (if b = 0 then empty_state\<lparr>ds_power := Some False\<rparr>
       else empty_state\<lparr>ds_power := Some True, ds_brightness := Some b\<rparr>)"
    by (cases "pc_action c") (auto simp: call_for_def)
  with BrightnessParams dark bright show thesis by (cases "b = 0") auto
next
  case (VolumeParams v)
  with assms have "hl_expected call = empty_state\<lparr>ds_volume := Some v\<rparr>"
    by (cases "pc_action c") (auto simp: call_for_def)
  with VolumeParams show thesis by (rule volume)
next
  case (PlaybackParams p)
  with assms have "hl_expected call = empty_state"
    by (cases "pc_action c") (auto simp: call_for_def)
  with PlaybackParams show thesis by (rule play)
next
  case (TargetTemperatureParams t)
  with assms have "hl_expected call = empty_state\<lparr>ds_target_temperature_c := Some t\<rparr>"
    by (cases "pc_action c") (auto simp: call_for_def)
  with TargetTemperatureParams show thesis by (rule target)
next
  case (LockStateParams l)
  then have "call_for c = Inl (Provider ProviderRejectedError)" by (cases "pc_action c") (simp_all add: call_for_def)
  with assms show thesis by simp
next
  case NoParams
  then have "call_for c = Inl (Provider ProviderRejectedError)" by (cases "pc_action c") (simp_all add: call_for_def)
  with assms show thesis by simp
qed


text \<open>Playback has no expected state, so whatever is read passes for its confirmation.\<close>

lemma playback_always_matches:
  assumes "call_for c = Inr call" and "pc_params c = PlaybackParams p"
  shows "ha_matches e kind (hl_expected call) = Inr True"
  using assms(1) by (cases rule: call_for_cases) (simp_all add: assms(2) ha_matches_def)



text \<open>
  C30. Discovery offers no control that was not released: every device it returns is one the
  adapter will answer for, as the kind it advertised; outside the released and releasable
  domains it carries no capability that any action requires, so that the command pipeline
  refuses every command for it; and a lock carries no capability at all.
\<close>

theorem ha_discovery_gated:
  assumes "ha_discover cf s = (Inr ds, h', w')" and "pd \<in> set ds"
  shows "\<exists>i. pd_ref pd = ha_ref i \<and> known_entity (pd_ref pd) h' = Inr i \<and>
    od_get (hp_kinds h') i = Some (pd_kind pd) \<and>
    (\<not> (before_dot i \<in> hf_released cf \<and> before_dot i \<in> set RELEASABLE_DOMAINS) \<longrightarrow>
      (\<forall>a p k. required_capability_for a p = Some k \<longrightarrow> k \<notin> set (pd_capabilities pd))) \<and>
    (pd_kind pd = device_kind.LOCK \<longrightarrow> pd_capabilities pd = [])"
proof -
  from ha_discover_described[OF assms] obtain e m rooms where
    m: "describe e = Some m" and pd: "pd = described (hf_released cf) rooms e m"
    and k: "od_get (hp_kinds h') (he_entity_id e) = Some (hm_kind m)" by metis
  have "k \<notin> set (pd_capabilities pd)"
    if "\<not> (before_dot (he_entity_id e) \<in> hf_released cf \<and> before_dot (he_entity_id e) \<in> set RELEASABLE_DOMAINS)"
      and req: "required_capability_for a p = Some k" for a p k
  proof -
    have "set (pd_capabilities pd) = set (hm_capabilities m) - set (hm_writable m)"
      using that(1) by (auto simp: pd described_def offered_def released_domain_def domain_of_def)
    with describe_reads[OF m] reads_not_required[OF req] show ?thesis by blast
  qed
  moreover have "pd_capabilities pd = []" if "pd_kind pd = device_kind.LOCK"
  proof -
    have "domain_of e = ''lock''"
      using that describe_kind[OF m] by (simp add: pd described_def split: if_splits)
    with describe_lock[OF m] show ?thesis by (simp add: pd described_def offered_def)
  qed
  ultimately show ?thesis
    using k by (intro exI[of _ "he_entity_id e"])
      (simp add: pd described_def known_entity_def ha_ref_def)
qed

theorem ha_discovery_gated_witness:
  "\<exists>ds h'. ha_discover (sample_ha sample_home) (new_ha, ()) = (Inr ds, h', ()) \<and>
     pd_kind (ds ! 1) = device_kind.LOCK \<and> pd_capabilities (ds ! 1) = []"
proof -
  obtain ds h' where run: "ha_discover (sample_ha sample_home) (new_ha, ()) = (Inr ds, h', ())"
    and knd: "map pd_kind ds = [LIGHT, device_kind.LOCK]" and kinds: "hp_kinds h' = sample_kinds"
    by (rule sample_home_discovers)
  from arg_cong[OF knd, of length] have len: "length ds = 2" by simp
  then have "ds ! 1 \<in> set ds" by simp
  from ha_discovery_gated[OF run this] obtain i where i: "od_get sample_kinds i = Some (pd_kind (ds ! 1))"
    "pd_kind (ds ! 1) = device_kind.LOCK \<longrightarrow> pd_capabilities (ds ! 1) = []" by (auto simp: kinds)
  have "pd_kind (ds ! 1) = device_kind.LOCK" using arg_cong[OF knd, of "\<lambda>ks. ks ! 1"] len by simp
  then show ?thesis using run i(2) by blast
qed

text \<open>
  A thermostat that is switched off keeps reading as heating: the adapter reports no heater
  state for "off", and merging keeps a field that is not reported. Whatever arrives with a
  reading of "off" for a device that was heating, the gateway goes on showing it as reachable
  and heating.
\<close>

lemma thermostat_off_keeps_heating:
  assumes "registry_inv (gw_registry g)" and "id_for_ref (ha_ref (he_entity_id e)) (gw_registry g) = Some j"
    and "svc_get j g = Inr before" and "ds_heater (dev_state before) = Some True"
    and "he_state e = ''off''" and "od_get (hp_kinds h) (he_entity_id e) = Some THERMOSTAT"
    and "ha_snapshot cf e (h, w) = (Inr st, s1)"
  shows "\<exists>after. svc_get j (snd (ingest (ha_ref (he_entity_id e)) st src corr g)) = Inr after \<and>
    dev_availability after = availability.ONLINE \<and> ds_heater (dev_state after) = Some True"
proof -
  have dev: "od_get (reg_devices (gw_registry g)) j = Some before" using assms(3) by (simp add: svc_get_Inr)
  from ha_snapshot_Inr[OF assms(7)] assms(6) have
    "normalise e THERMOSTAT = Normalised (ps_state st)" and avail: "ps_availability st = ha_availability e" by auto
  moreover have "ds_heater x = None" if "normalise e THERMOSTAT = Normalised x" for x
    using that[symmetric] assms(5)
    by (simp add: normalise_def checked_def UNAVAILABLE_STATE_def UNKNOWN_STATE_def empty_state_def
        split: if_split_asm)
  ultimately have "ds_heater (ps_state st) = None" by blast
  then have "ds_heater (merged_with (dev_state before) (fst (with_derived before (ps_state st) g))) = Some True"
    using assms(4) by (simp add: merged_with_def with_derived_def Let_def split_beta)
  moreover have "ha_availability e = availability.ONLINE"
    using assms(5) by (simp add: ha_availability_def UNAVAILABLE_STATE_def UNKNOWN_STATE_def)
  ultimately show ?thesis
    using ingest_devices[OF assms(1,2) dev, of st src corr] avail
    by (simp add: svc_get_Inr applied_def)
qed

end
