(* ===== verification/Api_Schemas.thy ===== *)
theory Api_Schemas
  imports Client_Auth Schedule_Model Audit_Log
begin

section \<open>What clients receive\<close>

text \<open>
  \<open>api/schemas.py\<close>, the response models and how each is built from a domain object, and
  \<open>api/errors.py\<close>, the problem document every failure becomes. Fields carry the source's names
  with a prefix; the rendering of a model as JSON is the library's.
\<close>

text \<open>The state and the constraints of a response have the fields of the domain classes.\<close>

type_synonym device_state_response = device_state
type_synonym device_constraints_response = device_constraints

definition state_response :: "device_state \<Rightarrow> device_state_response" where
  "state_response s = s"

definition constraints_response :: "device_constraints \<Rightarrow> device_constraints_response" where
  "constraints_response c = c"

record device_response =
  dr_id :: uuid
  dr_display_name :: string
  dr_kind :: device_kind
  dr_room_id :: "uuid option"
  dr_room_name :: "string option"
  dr_capabilities :: "capability list"
  dr_availability :: availability
  dr_state :: device_state_response
  dr_constraints :: device_constraints_response
  dr_state_observed_at :: datetime
  dr_last_seen_at :: datetime
  dr_state_source :: state_source
  dr_is_stale :: bool

definition device_response_of :: "device \<Rightarrow> datetime \<Rightarrow> int \<Rightarrow> device_response" where
  "device_response_of d now stale_after_seconds =
     \<lparr>dr_id = dev_id d, dr_display_name = dev_display_name d, dr_kind = dev_kind d,
      dr_room_id = dev_room_id d, dr_room_name = dev_room_name d,
      dr_capabilities = dev_capabilities d, dr_availability = dev_availability d,
      dr_state = state_response (dev_state d), dr_constraints = constraints_response (dev_constraints d),
      dr_state_observed_at = dev_state_observed_at d, dr_last_seen_at = dev_last_seen_at d,
      dr_state_source = dev_state_source d,
      dr_is_stale = is_stale d now stale_after_seconds\<rparr>"

record schedule_response =
  sr_id :: uuid
  sr_device_id :: uuid
  sr_kind :: schedule_kind
  sr_action :: action
  sr_desired :: bool
  sr_created_at :: datetime
  sr_due_at :: datetime
  sr_status :: schedule_status
  sr_failure_code :: "string option"

definition schedule_response_of :: "schedule \<Rightarrow> schedule_response" where
  "schedule_response_of s =
     \<lparr>sr_id = sc_id s, sr_device_id = sc_device_id s, sr_kind = sc_kind s, sr_action = sc_action s,
      sr_desired = sc_desired s, sr_created_at = sc_created_at s, sr_due_at = sc_due_at s,
      sr_status = sc_status s, sr_failure_code = sc_failure_code s\<rparr>"

record create_schedule_request =
  cs_action :: action
  cs_kind :: schedule_kind
  cs_hours :: rat

definition schedule_request_ok :: "create_schedule_request \<Rightarrow> bool" where
  "schedule_request_ok q \<longleftrightarrow> 0 < cs_hours q \<and> cs_hours q \<le> 48"

record room_response =
  rr_id :: uuid
  rr_name :: string

definition room_response_of :: "room \<Rightarrow> room_response" where
  "room_response_of r = \<lparr>rr_id = room_id r, rr_name = room_name r\<rparr>"

record submit_command_request =
  sq_action :: action
  sq_parameters :: "(string, json) odict"

record command_response =
  cr_id :: uuid
  cr_device_id :: uuid
  cr_action :: action
  cr_parameters :: "(string, json) odict"
  cr_risk_class :: risk_class
  cr_status :: command_status
  cr_failure_code :: "string option"
  cr_correlation_id :: string
  cr_created_at :: datetime
  cr_started_at :: "datetime option"
  cr_completed_at :: "datetime option"

definition command_response_of :: "command \<Rightarrow> command_response" where
  "command_response_of c =
     \<lparr>cr_id = cmd_id c, cr_device_id = cmd_device_id c, cr_action = cmd_action c,
      cr_parameters = cmd_parameters c, cr_risk_class = cmd_risk_class c, cr_status = cmd_status c,
      cr_failure_code = cmd_failure_code c, cr_correlation_id = cmd_correlation_id c,
      cr_created_at = cmd_created_at c, cr_started_at = cmd_started_at c,
      cr_completed_at = cmd_completed_at c\<rparr>"

record me_response =
  me_user_id :: uuid
  me_client_id :: uuid
  me_display_name :: string
  me_demo_mode :: bool

definition me_response_of :: "principal \<Rightarrow> bool \<Rightarrow> me_response" where
  "me_response_of p demo_mode =
     \<lparr>me_user_id = pr_user_id p, me_client_id = pr_client_id p,
      me_display_name = pr_display_name p, me_demo_mode = demo_mode\<rparr>"

record ticket_response =
  tr_ticket :: string
  tr_expires_in_seconds :: int

record activity_response =
  ar_id :: uuid
  ar_occurred_at :: datetime
  ar_event :: string
  ar_device_id :: "uuid option"
  ar_command_id :: "uuid option"
  ar_action :: "action option"
  ar_risk_class :: "risk_class option"
  ar_outcome :: "string option"

definition activity_response_of :: "audit_entry \<Rightarrow> activity_response" where
  "activity_response_of e =
     \<lparr>ar_id = ae_id e, ar_occurred_at = ae_occurred_at e, ar_event = ae_event e,
      ar_device_id = ae_device_id e, ar_command_id = ae_command_id e, ar_action = ae_action e,
      ar_risk_class = ae_risk_class e, ar_outcome = ae_outcome e\<rparr>"

subsection \<open>Problem documents\<close>

text \<open>
  What ends a request without a response: an exception of the domain, a request the framework
  could not validate, or a status the framework answers with.
\<close>

datatype api_error = Failed failure | RequestInvalid | HttpStatus int

record problem =
  pb_type :: string
  pb_title :: string
  pb_status :: int
  pb_detail :: detail_text
  pb_correlation_id :: string

definition status_titles :: "(int, string \<times> string) odict" where
  "status_titles =
     [(400, (''bad_request'', ''Bad request'')), (401, (''unauthenticated'', ''Authentication required'')),
      (403, (''forbidden'', ''Not permitted'')), (404, (''not_found'', ''Not found'')),
      (405, (''method_not_allowed'', ''Method not allowed'')), (409, (''conflict'', ''Conflict'')),
      (413, (''payload_too_large'', ''Payload too large'')), (429, (''rate_limited'', ''Too many requests''))]"

definition problem_of :: "string \<Rightarrow> api_error \<Rightarrow> problem" where
  "problem_of corr e =
     (case e of
        Failed (Raised x) \<Rightarrow>
          \<lparr>pb_type = problem_type (he_kind x), pb_title = error_title (he_kind x),
           pb_status = error_status (he_kind x), pb_detail = he_detail x, pb_correlation_id = corr\<rparr>
      | Failed (Crashed _) \<Rightarrow>
          \<lparr>pb_type = ''internal_error'', pb_title = ''Internal error'', pb_status = 500,
           pb_detail = Authored ''The request could not be completed.'', pb_correlation_id = corr\<rparr>
      | RequestInvalid \<Rightarrow>
          \<lparr>pb_type = ''invalid_request'', pb_title = ''Invalid request'', pb_status = 422,
           pb_detail = Authored ''The request body or parameters are invalid.'', pb_correlation_id = corr\<rparr>
      | HttpStatus n \<Rightarrow>
          (case (case od_get status_titles n of
                   None \<Rightarrow> (''error'', ''Request failed'') | Some t \<Rightarrow> t) of
             (type_, title) \<Rightarrow>
               \<lparr>pb_type = type_, pb_title = title, pb_status = n, pb_detail = Authored (title @ ''.''),
                pb_correlation_id = corr\<rparr>))"

end
