(* ===== verification/Api_Routes.thy ===== *)
theory Api_Routes
  imports Api_Schemas Composition Schedule_Service
begin

section \<open>The HTTP interface\<close>

text \<open>
  \<open>api/deps.py\<close>, \<open>api/v1/router.py\<close> and \<open>api/v1/auth.py\<close>: who a request is from, what it may
  spend, and what each route does for it, over the container of \<open>container.py\<close>. The framework
  hands a handler a request whose path and body it validated; what it validated by bounds of
  the source is checked here. A route resolves its client first; an authentication failure
  wins over an invalid body.
\<close>

record http_request =
  rq_authorization :: "string option"
  rq_peer :: "string option"
  rq_protocols :: "string option"
  rq_correlation_id :: "string option"

definition BEARER_PREFIX :: string where "BEARER_PREFIX = ''Bearer ''"
definition WEBSOCKET_SUBPROTOCOL :: string where "WEBSOCKET_SUBPROTOCOL = ''homeflow.v1''"

definition bearer_token :: "string option \<Rightarrow> string option" where
  "bearer_token header =
     (case header of
        None \<Rightarrow> None
      | Some h \<Rightarrow>
          if h = [] \<or> \<not> starts_with BEARER_PREFIX h then None
          else (let token = py_strip (drop (length BEARER_PREFIX) h) in
                if token = [] then None else Some token))"

definition peer_of :: "http_request \<Rightarrow> string" where
  "peer_of q = (case rq_peer q of None \<Rightarrow> ''unknown'' | Some p \<Rightarrow> p)"

definition correlation_id :: "http_request \<Rightarrow> string" where
  "correlation_id q = (case rq_correlation_id q of None \<Rightarrow> ''unknown'' | Some c \<Rightarrow> c)"

subsection \<open>Identity and budgets\<close>

text \<open>A use of one of the limiters, or of the ticket store, reads the clock the container shares.\<close>

definition container_now :: "container \<Rightarrow> datetime \<times> container" where
  "container_now c = (let (t, g) = clock_now (ct_gateway c) in (t, c\<lparr>ct_gateway := g\<rparr>))"

definition spend_auth :: "string \<Rightarrow> container \<Rightarrow> bool \<times> container" where
  "spend_auth key c =
     (let (t, c1) = container_now c; (ok, rl) = allow (ct_auth_rate_limiter c1) key t
      in (ok, c1\<lparr>ct_auth_rate_limiter := rl\<rparr>))"

definition spend_command :: "string \<Rightarrow> container \<Rightarrow> bool \<times> container" where
  "spend_command key c =
     (let (t, c1) = container_now c; (ok, rl) = allow (ct_command_rate_limiter c1) key t
      in (ok, c1\<lparr>ct_command_rate_limiter := rl\<rparr>))"

definition too_many_attempts :: failure where
  "too_many_attempts = raise_detail RateLimitedError (Authored ''Too many failed authentication attempts.'')"

definition api_authenticate ::
  "(string \<Rightarrow> string) \<Rightarrow> http_request \<Rightarrow> container \<Rightarrow> (failure + principal) \<times> container"
where
  "api_authenticate digest q c =
     (case client_authenticate digest (ct_clients c) (bearer_token (rq_authorization q)) of
        Inr p \<Rightarrow> (Inr p, c)
      | Inl e \<Rightarrow>
          (let (ok, c1) = spend_auth (peer_of q) c in
           (Inl (if ok then e else too_many_attempts), c1)))"

definition refuse_websocket :: "http_request \<Rightarrow> container \<Rightarrow> failure \<times> container" where
  "refuse_websocket q c =
     (let (ok, c1) = spend_auth (peer_of q) c in
      (if ok then raise_kind UnauthenticatedError else too_many_attempts, c1))"

definition offered_protocols :: "http_request \<Rightarrow> string list" where
  "offered_protocols q = split_list (case rq_protocols q of None \<Rightarrow> [] | Some s \<Rightarrow> s)"

text \<open>The loop over the offered protocols: the first that carries a ticket decides.\<close>

fun redeem_offered ::
  "(string \<Rightarrow> string) \<Rightarrow> http_request \<Rightarrow> string list \<Rightarrow> string list \<Rightarrow> container
     \<Rightarrow> (failure + principal \<times> string option) \<times> container"
where
  "redeem_offered digest q protocols [] c =
     (let (e, c1) = refuse_websocket q c in (Inl e, c1))"
| "redeem_offered digest q protocols (protocol # rest) c =
     (case ticket_from_protocol protocol of
        None \<Rightarrow> redeem_offered digest q protocols rest c
      | Some ticket \<Rightarrow>
          (let (t, c1) = container_now c in
           (case redeem digest (Some ticket) t (ct_tickets c1) of
              (Inl e, ts) \<Rightarrow>
                (let (e2, c2) = refuse_websocket q (c1\<lparr>ct_tickets := ts\<rparr>) in (Inl e2, c2))
            | (Inr p, ts) \<Rightarrow>
                (Inr (p, Some (if WEBSOCKET_SUBPROTOCOL \<in> set protocols then WEBSOCKET_SUBPROTOCOL else protocol)),
                 c1\<lparr>ct_tickets := ts\<rparr>))))"

definition authenticate_websocket ::
  "(string \<Rightarrow> string) \<Rightarrow> http_request \<Rightarrow> container \<Rightarrow> (failure + principal \<times> string option) \<times> container"
where
  "authenticate_websocket digest q c =
     (case bearer_token (rq_authorization q) of
        Some token \<Rightarrow>
          (case client_authenticate digest (ct_clients c) (Some token) of
             Inr p \<Rightarrow> (Inr (p, None), c)
           | Inl e \<Rightarrow> (let (e2, c1) = refuse_websocket q c in (Inl e2, c1)))
      | None \<Rightarrow> redeem_offered digest q (offered_protocols q) (offered_protocols q) c)"

definition command_budget ::
  "(string \<Rightarrow> string) \<Rightarrow> http_request \<Rightarrow> container \<Rightarrow> (failure + principal) \<times> container"
where
  "command_budget digest q c =
     (case api_authenticate digest q c of
        (Inl e, c1) \<Rightarrow> (Inl e, c1)
      | (Inr p, c1) \<Rightarrow>
          (let (ok, c2) = spend_command (uuid_str (pr_client_id p)) c1 in
           if ok then (Inr p, c2)
           else (Inl (raise_detail RateLimitedError (Authored ''Too many commands. Slow down and retry shortly.'')),
                 c2)))"

subsection \<open>Routes\<close>

text \<open>A validated call; issuing a ticket is given the random ticket that is drawn for it.\<close>

datatype api_call =
    ReadMe
  | ListRooms
  | ListDevices
  | ReadDevice uuid
  | SubmitCommand uuid submit_command_request
  | ListSchedules uuid
  | CreateSchedule uuid create_schedule_request
  | CancelSchedule uuid
  | ReadCommand uuid
  | ReadActivity int
  | IssueTicket string

datatype api_reply =
    MeReply me_response
  | RoomsReply "room_response list"
  | DevicesReply "device_response list"
  | DeviceReply device_response
  | CommandReply command_response
  | SchedulesReply "schedule_response list"
  | ScheduleReply schedule_response
  | ActivityReply "activity_response list"
  | TicketReply ticket_response

text \<open>The routes whose client is a \<open>CommandPrincipal\<close>.\<close>

fun spends_command :: "api_call \<Rightarrow> bool" where
  "spends_command (SubmitCommand d q) = True"
| "spends_command (CreateSchedule d q) = True"
| "spends_command (CancelSchedule i) = True"
| "spends_command _ = False"

fun call_valid :: "api_call \<Rightarrow> bool" where
  "call_valid (CreateSchedule d q) = schedule_request_ok q"
| "call_valid (ReadActivity limit) = (1 \<le> limit \<and> limit \<le> 200)"
| "call_valid _ = True"

type_synonym 'w env = "coercions \<times> (string \<Rightarrow> 'w device_provider option)"

definition device_reply :: "uuid \<Rightarrow> container \<Rightarrow> (api_error + api_reply) \<times> container" where
  "device_reply d c =
     (case svc_get d (ct_gateway c) of
        Inl e \<Rightarrow> (Inl (Failed e), c)
      | Inr dev \<Rightarrow>
          (let (now, c1) = container_now c in
           (Inr (DeviceReply (device_response_of dev now (st_stale_after_seconds (ct_settings c)))), c1)))"

definition devices_reply :: "container \<Rightarrow> (api_error + api_reply) \<times> container" where
  "devices_reply c =
     (let (now, c1) = container_now c in
      (Inr (DevicesReply
         (map (\<lambda>d. device_response_of d now (st_stale_after_seconds (ct_settings c)))
           (svc_list_devices (ct_gateway c1)))), c1))"

text \<open>The reply a domain result becomes.\<close>

definition reply :: "('a \<Rightarrow> api_reply) \<Rightarrow> failure + 'a \<Rightarrow> api_error + api_reply" where
  "reply f r = (case r of Inl e \<Rightarrow> Inl (Failed e) | Inr x \<Rightarrow> Inr (f x))"

definition submit_route ::
  "'w env \<Rightarrow> principal \<Rightarrow> uuid \<Rightarrow> submit_command_request \<Rightarrow> string \<Rightarrow> container \<times> 'w
     \<Rightarrow> (api_error + api_reply) \<times> container \<times> 'w"
where
  "submit_route env p d q corr = (\<lambda>(c, w).
     (let (r, g, w1) = submit (fst env) (snd env) p d (sq_action q) (sq_parameters q) corr (ct_gateway c, w)
      in (reply (\<lambda>x. CommandReply (command_response_of x)) r, c\<lparr>ct_gateway := g\<rparr>, w1)))"

definition create_schedule_route ::
  "'w env \<Rightarrow> principal \<Rightarrow> uuid \<Rightarrow> create_schedule_request \<Rightarrow> string \<Rightarrow> container \<times> 'w
     \<Rightarrow> (api_error + api_reply) \<times> container \<times> 'w"
where
  "create_schedule_route env p d q corr = (\<lambda>(c, w).
     (let (r, g, w1) = create_schedule (ct_settings c) (submit (fst env) (snd env)) p d (cs_action q)
              (cs_kind q) (cs_hours q) corr (ct_gateway c, w)
      in (reply (\<lambda>x. ScheduleReply (schedule_response_of x)) r, c\<lparr>ct_gateway := g\<rparr>, w1)))"

definition cancel_schedule_route ::
  "principal \<Rightarrow> uuid \<Rightarrow> container \<Rightarrow> (api_error + api_reply) \<times> container"
where
  "cancel_schedule_route p i c =
     (let (r, g) = cancel_schedule p i (ct_gateway c)
      in (reply (\<lambda>x. ScheduleReply (schedule_response_of x)) r, c\<lparr>ct_gateway := g\<rparr>))"

definition ticket_route ::
  "(string \<Rightarrow> string) \<Rightarrow> principal \<Rightarrow> string \<Rightarrow> container \<Rightarrow> (api_error + api_reply) \<times> container"
where
  "ticket_route digest p ticket c =
     (let (now, c1) = container_now c
      in (Inr (TicketReply \<lparr>tr_ticket = ticket, tr_expires_in_seconds = ts_ttl (ct_tickets c) div usec_per_sec\<rparr>),
          c1\<lparr>ct_tickets := issue digest p ticket now (ct_tickets c1)\<rparr>))"

text \<open>The routes that only read, and a ticket.\<close>

fun answer ::
  "(string \<Rightarrow> string) \<Rightarrow> principal \<Rightarrow> api_call \<Rightarrow> container \<Rightarrow> (api_error + api_reply) \<times> container"
where
  "answer digest p ReadMe c = (Inr (MeReply (me_response_of p (st_demo_mode (ct_settings c)))), c)"
| "answer digest p ListRooms c = (Inr (RoomsReply (map room_response_of (svc_rooms (ct_gateway c)))), c)"
| "answer digest p ListDevices c = devices_reply c"
| "answer digest p (ReadDevice d) c = device_reply d c"
| "answer digest p (ListSchedules d) c =
     (case svc_get d (ct_gateway c) of
        Inl e \<Rightarrow> (Inl (Failed e), c)
      | Inr dev \<Rightarrow>
          (Inr (SchedulesReply (map schedule_response_of (for_device d (ct_gateway c)))), c))"
| "answer digest p (CancelSchedule i) c = cancel_schedule_route p i c"
| "answer digest p (ReadCommand i) c =
     (reply (\<lambda>x. CommandReply (command_response_of x)) (get_command i (ct_gateway c)), c)"
| "answer digest p (ReadActivity limit) c =
     (Inr (ActivityReply (map activity_response_of (audit_recent (gw_audit (ct_gateway c)) limit))), c)"
| "answer digest p (IssueTicket ticket) c = ticket_route digest p ticket c"
| "answer digest p _ c = (Inl RequestInvalid, c)"

definition handle ::
  "(string \<Rightarrow> string) \<Rightarrow> 'w env \<Rightarrow> principal \<Rightarrow> api_call \<Rightarrow> string \<Rightarrow> container \<times> 'w
     \<Rightarrow> (api_error + api_reply) \<times> container \<times> 'w"
where
  "handle digest env p call corr s =
     (case call of
        SubmitCommand d q \<Rightarrow> submit_route env p d q corr s
      | CreateSchedule d q \<Rightarrow> create_schedule_route env p d q corr s
      | _ \<Rightarrow> (let (r, c1) = answer digest p call (fst s) in (r, c1, snd s)))"

definition resolve_principal ::
  "(string \<Rightarrow> string) \<Rightarrow> api_call \<Rightarrow> http_request \<Rightarrow> container \<Rightarrow> (failure + principal) \<times> container"
where
  "resolve_principal digest call q c =
     (if spends_command call then command_budget digest q c else api_authenticate digest q c)"

definition serve ::
  "(string \<Rightarrow> string) \<Rightarrow> 'w env \<Rightarrow> api_call \<Rightarrow> http_request \<Rightarrow> container \<times> 'w
     \<Rightarrow> (api_error + api_reply) \<times> container \<times> 'w"
where
  "serve digest env call q = (\<lambda>(c, w).
     (case resolve_principal digest call q c of
        (Inl e, c1) \<Rightarrow> (Inl (Failed e), c1, w)
      | (Inr p, c1) \<Rightarrow>
          if \<not> call_valid call then (Inl RequestInvalid, c1, w)
          else handle digest env p call (correlation_id q) (c1, w)))"

end
