(* ===== verification/Api_Stream.thy ===== *)
theory Api_Stream
  imports Api_Routes
begin

section \<open>The live stream\<close>

text \<open>
  \<open>api/v1/ws.py\<close>: the handshake, the frames the writer task sends for a subscription, and what
  the reader task accepts from a client. Whether a frame can still be sent is the parameter
  \<open>deliver\<close>. A received text is its length and what it parses to; texts arrive with the reading
  of the clock at which they are handled, and the peer is gone after the last one.
\<close>

definition MAX_INBOUND :: nat where "MAX_INBOUND = 4096"
definition CLOSE_POLICY_VIOLATION :: int where "CLOSE_POLICY_VIOLATION = 1008"
definition ACCEPTED_INBOUND_TYPES :: "string set" where "ACCEPTED_INBOUND_TYPES = {''Ping'', ''Pong''}"
definition STREAM_PROTOCOL_VERSION :: int where "STREAM_PROTOCOL_VERSION = 1"

record event_frame =
  ef_type :: event_type
  ef_occurred_at :: datetime
  ef_correlation_id :: "string option"
  ef_command_id :: "uuid option"
  ef_payload :: "(string, json) odict option"
  ef_device_id :: "uuid option"
  ef_device :: "device_response option"

datatype out_frame =
    HelloFrame int datetime bool
  | PingFrame datetime
  | ResyncFrame
  | EventFrame event_frame

subsection \<open>Handshake\<close>

datatype handshake = Closed int | Accepted principal "string option" out_frame

definition stream_handshake ::
  "(string \<Rightarrow> string) \<Rightarrow> http_request \<Rightarrow> container \<Rightarrow> handshake \<times> container"
where
  "stream_handshake digest q c =
     (case authenticate_websocket digest q c of
        (Inl e, c1) \<Rightarrow> (Closed CLOSE_POLICY_VIOLATION, c1)
      | (Inr (p, subprotocol), c1) \<Rightarrow>
          (let (now, c2) = container_now c1
           in (Accepted p subprotocol
                 (HelloFrame STREAM_PROTOCOL_VERSION now (st_demo_mode (ct_settings c))), c2)))"

subsection \<open>Writing\<close>

text \<open>The device in a frame is the one of the moment the frame is built.\<close>

definition frame_of :: "domain_event \<Rightarrow> container \<Rightarrow> event_frame \<times> container" where
  "frame_of e c =
     (let base = \<lparr>ef_type = ev_type e, ef_occurred_at = ev_occurred_at e,
                  ef_correlation_id = ev_correlation_id e, ef_command_id = ev_command_id e,
                  ef_payload = (if ev_payload e = [] then None else Some (ev_payload e)),
                  ef_device_id = ev_device_id e, ef_device = None\<rparr>
      in (case ev_device_id e of
            None \<Rightarrow> (base, c)
          | Some i \<Rightarrow>
              (case reg_get i (gw_registry (ct_gateway c)) of
                 None \<Rightarrow> (base, c)
               | Some d \<Rightarrow>
                   (let (now, c1) = container_now c
                    in (base\<lparr>ef_device :=
                          Some (device_response_of d now (st_stale_after_seconds (ct_settings c)))\<rparr>, c1)))))"

text \<open>
  One turn of \<open>_forward\<close>: the heartbeat when the wait timed out, or the next item of the
  subscription. The frames it tried to send, and whether the loop goes on.
\<close>

definition forward_turn ::
  "(out_frame \<Rightarrow> bool) \<Rightarrow> bool \<Rightarrow> domain_event subscription \<times> container
     \<Rightarrow> out_frame list \<times> bool \<times> domain_event subscription \<times> container"
where
  "forward_turn deliver timed_out = (\<lambda>(s, c).
     if timed_out then
       (let (now, c1) = container_now c in ([PingFrame now], deliver (PingFrame now), s, c1))
     else
       (case anext s of
          (Blocked, s1) \<Rightarrow> ([], True, s1, c)
        | (StopAsyncIteration, s1) \<Rightarrow> ([], False, s1, c)
        | (Event e, s1) \<Rightarrow>
            (let (lagged, s2) = take_lagged s1 in
             if lagged \<and> \<not> deliver ResyncFrame then ([ResyncFrame], False, s2, c)
             else
               (let (f, c1) = frame_of e c
                in ((if lagged then [ResyncFrame] else []) @ [EventFrame f], deliver (EventFrame f), s2, c1)))))"

subsection \<open>Reading\<close>

record inbound =
  in_length :: nat
  in_json :: "json option"

datatype reader_end = PeerGone | PolicyClose int | ReaderCrash

text \<open>\<open>message.get("type") not in _ACCEPTED_INBOUND_TYPES\<close>: a list or an object is not hashable.\<close>

datatype inbound_check = Heartbeat | Refused | Unhashable

definition check_inbound :: "inbound \<Rightarrow> inbound_check" where
  "check_inbound m =
     (case in_json m of
        Some (JObj obj) \<Rightarrow>
          (case od_get obj ''type'' of
             Some (JStr t) \<Rightarrow> if t \<in> ACCEPTED_INBOUND_TYPES then Heartbeat else Refused
           | Some (JList xs) \<Rightarrow> Unhashable
           | Some (JObj kvs) \<Rightarrow> Unhashable
           | _ \<Rightarrow> Refused)
      | _ \<Rightarrow> Refused)"

text \<open>The loop of \<open>_receive\<close>: how it ends, and the texts it had accepted by then.\<close>

fun receive_loop ::
  "rate_limiter \<Rightarrow> (datetime \<times> inbound) list \<Rightarrow> reader_end \<times> (datetime \<times> inbound) list"
where
  "receive_loop rl [] = (PeerGone, [])"
| "receive_loop rl ((t, m) # ms) =
     (let (ok, rl1) = allow rl ''inbound'' t in
      if \<not> ok \<or> MAX_INBOUND < in_length m then (PolicyClose CLOSE_POLICY_VIOLATION, [])
      else
        (case check_inbound m of
           Refused \<Rightarrow> (PolicyClose CLOSE_POLICY_VIOLATION, [])
         | Unhashable \<Rightarrow> (ReaderCrash, [])
         | Heartbeat \<Rightarrow> (let (e, acc) = receive_loop rl1 ms in (e, (t, m) # acc))))"

definition read_client :: "settings \<Rightarrow> (datetime \<times> inbound) list \<Rightarrow> reader_end \<times> (datetime \<times> inbound) list" where
  "read_client st ms =
     receive_loop (new_rate_limiter (st_websocket_rate_limit_per_minute st) None MAX_RATE_KEYS) ms"

end
