(* ===== verification/Api_Properties.thy ===== *)
theory Api_Properties
  imports Api_Stream Sample_Gateway
begin

section \<open>The interface to clients: properties\<close>

text \<open>
  Who is let in and what a refused or reading request can change; which handshakes succeed and
  what they consume; and how much a connected client may say.
\<close>

subsection \<open>What the limiters and the clock leave alone\<close>

text \<open>Everything of a gateway but its clock.\<close>

definition same_household :: "gateway \<Rightarrow> gateway \<Rightarrow> bool" where
  "same_household g g' \<longleftrightarrow> g' = g\<lparr>gw_ticks := gw_ticks g'\<rparr>"

lemma same_household_refl [simp]: "same_household g g"
  by (simp add: same_household_def)

lemma same_household_clock [simp]: "same_household g (snd (clock_now g))"
  by (simp add: same_household_def clock_now_def)

lemma container_now_frame [simp]:
  "same_household (ct_gateway c) (ct_gateway (snd (container_now c)))"
  "ct_tickets (snd (container_now c)) = ct_tickets c" "ct_clients (snd (container_now c)) = ct_clients c"
  "ct_settings (snd (container_now c)) = ct_settings c"
  "ct_auth_rate_limiter (snd (container_now c)) = ct_auth_rate_limiter c"
  "ct_command_rate_limiter (snd (container_now c)) = ct_command_rate_limiter c"
  "fst (container_now c) = gw_clock (ct_gateway c) (gw_ticks (ct_gateway c))"
  by (simp_all add: container_now_def Let_def case_prod_unfold)

lemma spend_auth_frame [simp]:
  "same_household (ct_gateway c) (ct_gateway (snd (spend_auth k c)))"
  "ct_tickets (snd (spend_auth k c)) = ct_tickets c"
  by (simp_all add: spend_auth_def Let_def case_prod_unfold)

lemma spend_command_frame [simp]:
  "same_household (ct_gateway c) (ct_gateway (snd (spend_command k c)))"
  "ct_auth_rate_limiter (snd (spend_command k c)) = ct_auth_rate_limiter c"
  by (simp_all add: spend_command_def Let_def case_prod_unfold)

lemma client_authenticate_Inl:
  "client_authenticate digest cs tok = Inl e \<Longrightarrow> e = raise_kind UnauthenticatedError"
  by (auto simp: client_authenticate_def Let_def split: option.splits if_splits)

lemma too_many_attempts_kind [simp]: "failure_kind too_many_attempts = Some RateLimitedError"
  by (simp add: too_many_attempts_def)

subsection \<open>Requests\<close>

lemma resolve_refused:
  assumes "client_authenticate digest (ct_clients c) (bearer_token (rq_authorization q)) = Inl e"
    and "allow (ct_auth_rate_limiter c) (peer_of q) (gw_clock (ct_gateway c) (gw_ticks (ct_gateway c))) = (ok, rl)"
  obtains x where "resolve_principal digest call q c =
      (Inl x, c\<lparr>ct_gateway := snd (clock_now (ct_gateway c)), ct_auth_rate_limiter := rl\<rparr>)"
    and "failure_kind x = Some (if ok then UnauthenticatedError else RateLimitedError)"
proof -
  have "spend_auth (peer_of q) c = (ok, c\<lparr>ct_gateway := snd (clock_now (ct_gateway c)), ct_auth_rate_limiter := rl\<rparr>)"
    using assms(2) by (simp add: spend_auth_def container_now_def clock_now_def Let_def)
  then have "resolve_principal digest call q c = (Inl (if ok then e else too_many_attempts),
      c\<lparr>ct_gateway := snd (clock_now (ct_gateway c)), ct_auth_rate_limiter := rl\<rparr>)"
    using assms(1) by (simp add: resolve_principal_def command_budget_def api_authenticate_def)
  with that show thesis using client_authenticate_Inl[OF assms(1)] by simp
qed

lemma resolve_known:
  assumes "client_authenticate digest (ct_clients c) (bearer_token (rq_authorization q)) = Inr p"
    and "resolve_principal digest call q c = (r, c1)"
  shows "same_household (ct_gateway c) (ct_gateway c1)" and "ct_auth_rate_limiter c1 = ct_auth_rate_limiter c"
    and "r = Inr p \<or> (spends_command call \<and> (\<exists>x. r = Inl x \<and> failure_kind x = Some RateLimitedError))"
    and "\<not> spends_command call \<Longrightarrow> r = Inr p \<and> c1 = c"
  using assms spend_command_frame[where c = c and k = "uuid_str (pr_client_id p)"]
  by (auto simp: resolve_principal_def command_budget_def api_authenticate_def Let_def case_prod_unfold
      split: if_splits)

lemma answer_reads:
  assumes "\<not> spends_command call"
  shows "same_household (ct_gateway c) (ct_gateway (snd (answer digest p call c)))"
  using assms
  by (cases call)
    (auto simp: devices_reply_def device_reply_def ticket_route_def Let_def case_prod_unfold split: sum.splits)

lemma answer_limiter: "ct_auth_rate_limiter (snd (answer digest p call c)) = ct_auth_rate_limiter c"
  by (cases call)
    (auto simp: devices_reply_def device_reply_def ticket_route_def cancel_schedule_route_def Let_def
      case_prod_unfold split: sum.splits)

lemma handle_reads:
  "\<not> spends_command call \<Longrightarrow>
     handle digest env p call corr (c, w) =
       (fst (answer digest p call c), snd (answer digest p call c), w)"
  by (cases call) (simp_all add: handle_def Let_def case_prod_unfold)

lemma handle_limiter:
  "ct_auth_rate_limiter (fst (snd (handle digest env p call corr (c, w)))) = ct_auth_rate_limiter c"
  using answer_limiter[of digest p call c]
  by (cases call)
    (simp_all add: handle_def submit_route_def create_schedule_route_def Let_def case_prod_unfold)

text \<open>
  Neither the routes nor the identification of a registered client look at the limiter of failed
  attempts: with another one in its place everything happens as before, and it is left in its place.
\<close>

lemma container_now_unthrottled:
  "container_now (c\<lparr>ct_auth_rate_limiter := rl\<rparr>) =
     (fst (container_now c), snd (container_now c)\<lparr>ct_auth_rate_limiter := rl\<rparr>)"
  by (simp add: container_now_def Let_def case_prod_unfold)

lemma answer_unthrottled:
  "answer digest p call (c\<lparr>ct_auth_rate_limiter := rl\<rparr>) =
     (fst (answer digest p call c), snd (answer digest p call c)\<lparr>ct_auth_rate_limiter := rl\<rparr>)"
  by (cases call)
    (auto simp: devices_reply_def device_reply_def ticket_route_def cancel_schedule_route_def Let_def
      case_prod_unfold container_now_unthrottled split: sum.splits)

lemma handle_unthrottled:
  "handle digest env p call corr (c\<lparr>ct_auth_rate_limiter := rl\<rparr>, w) =
     (let (r, c', w') = handle digest env p call corr (c, w) in (r, c'\<lparr>ct_auth_rate_limiter := rl\<rparr>, w'))"
  by (cases call)
    (simp_all add: handle_def submit_route_def create_schedule_route_def answer_unthrottled Let_def case_prod_unfold
      del: answer.simps)

lemma resolve_unthrottled:
  assumes "client_authenticate digest (ct_clients c) (bearer_token (rq_authorization q)) = Inr p"
  shows "resolve_principal digest call q (c\<lparr>ct_auth_rate_limiter := rl\<rparr>) =
     (let (r, c') = resolve_principal digest call q c in (r, c'\<lparr>ct_auth_rate_limiter := rl\<rparr>))"
  using assms
  by (simp add: resolve_principal_def command_budget_def api_authenticate_def spend_command_def
      container_now_unthrottled Let_def case_prod_unfold)

lemma serve_unthrottled:
  assumes "client_authenticate digest (ct_clients c) (bearer_token (rq_authorization q)) = Inr p"
    and "serve digest env call q (c, w) = (r, c', w')"
  shows "serve digest env call q (c\<lparr>ct_auth_rate_limiter := rl\<rparr>, w) = (r, c'\<lparr>ct_auth_rate_limiter := rl\<rparr>, w')"
  using assms(2) resolve_unthrottled[OF assms(1), of call rl]
  by (auto simp: serve_def handle_unthrottled split: prod.splits sum.splits if_splits)

text \<open>
  C32. Only registered clients reach the house. Whatever is asked, a request without the token of a
  registered, unrevoked client is refused, as unauthenticated while the peer's budget of failed
  attempts has a token left and as one attempt too many afterwards; it reaches no device, and
  of the whole container only the clock is read and that one attempt is charged to that peer:
  the command budgets, the settings, the clients, the tickets and the providers are as they
  were. With such a token the count of failures is neither consulted nor charged: the request
  has the same reply and the same effects whatever failures were counted before, so that no
  number of failed attempts locks a registered client out; and a request that is not a command
  changes nothing of the household.
\<close>

theorem api_guarded:
  assumes "serve digest env call q (c, w) = (r, c', w')"
  shows "case client_authenticate digest (ct_clients c) (bearer_token (rq_authorization q)) of
      Inl e \<Rightarrow>
        (let (ok, rl) = allow (ct_auth_rate_limiter c) (peer_of q) (gw_clock (ct_gateway c) (gw_ticks (ct_gateway c)))
         in (\<exists>x. r = Inl (Failed x) \<and> failure_kind x = Some (if ok then UnauthenticatedError else RateLimitedError)) \<and>
            c' = c\<lparr>ct_gateway := ct_gateway c', ct_auth_rate_limiter := rl\<rparr>) \<and>
        w' = w \<and> same_household (ct_gateway c) (ct_gateway c')
    | Inr p \<Rightarrow>
        ct_auth_rate_limiter c' = ct_auth_rate_limiter c \<and>
        (\<forall>rl. serve digest env call q (c\<lparr>ct_auth_rate_limiter := rl\<rparr>, w) = (r, c'\<lparr>ct_auth_rate_limiter := rl\<rparr>, w')) \<and>
        (\<not> spends_command call \<longrightarrow>
          w' = w \<and> same_household (ct_gateway c) (ct_gateway c') \<and>
          (call_valid call \<longrightarrow> r = fst (answer digest p call c)))"
proof (cases "client_authenticate digest (ct_clients c) (bearer_token (rq_authorization q))")
  case (Inl e)
  obtain ok rl where al: "allow (ct_auth_rate_limiter c) (peer_of q)
      (gw_clock (ct_gateway c) (gw_ticks (ct_gateway c))) = (ok, rl)" by (rule prod.exhaust)
  obtain x where "resolve_principal digest call q c =
      (Inl x, c\<lparr>ct_gateway := snd (clock_now (ct_gateway c)), ct_auth_rate_limiter := rl\<rparr>)"
    "failure_kind x = Some (if ok then UnauthenticatedError else RateLimitedError)"
    using Inl al by (rule resolve_refused)
  with assms Inl al show ?thesis by (auto simp: serve_def)
next
  case (Inr p)
  obtain res c1 where rs: "resolve_principal digest call q c = (res, c1)" by (rule prod.exhaust)
  note known = resolve_known[OF Inr rs]
  have "ct_auth_rate_limiter c' = ct_auth_rate_limiter c"
  proof (cases "res = Inr p \<and> call_valid call")
    case True
    with assms rs known(2) handle_limiter[of digest env p call "correlation_id q" c1 w] show ?thesis
      by (simp add: serve_def)
  next
    case False
    with assms rs known(2,3) show ?thesis by (auto simp: serve_def)
  qed
  moreover have "w' = w \<and> same_household (ct_gateway c) (ct_gateway c') \<and>
      (call_valid call \<longrightarrow> r = fst (answer digest p call c))" if "\<not> spends_command call"
    using assms rs known(4)[OF that] handle_reads[OF that, of digest env p "correlation_id q" c w] answer_reads[OF that, of c digest p]
    by (auto simp: serve_def split: if_splits)
  ultimately show ?thesis using Inr serve_unthrottled[OF Inr assms] by simp
qed

definition sample_container :: container where
  "sample_container =
     \<lparr>ct_settings = default_settings,
      ct_gateway = new_gateway (\<lambda>n. int n * usec_per_sec) (\<lambda>n. of_nat n) ''salt'' 8 50,
      ct_clients = [sample_client],
      ct_tickets = \<lparr>ts_ttl = 30 * usec_per_sec, ts_tickets =
        [(''tk'', \<lparr>is_principal = client_principal sample_client, is_expires_at = 10 * usec_per_sec\<rparr>)]\<rparr>,
      ct_providers = [], ct_auth_rate_limiter = new_rate_limiter 30 (Some 10) MAX_RATE_KEYS,
      ct_command_rate_limiter = new_rate_limiter 60 None MAX_RATE_KEYS\<rparr>"

definition sample_request :: "string option \<Rightarrow> string option \<Rightarrow> http_request" where
  "sample_request header protocols =
     \<lparr>rq_authorization = header, rq_peer = None, rq_protocols = protocols, rq_correlation_id = None\<rparr>"

theorem api_guarded_witness:
  "\<exists>c'. serve (\<lambda>s. s) (sample_coercions, sample_providers) ListRooms (sample_request (Some ''Bearer secret'') None) (sample_container, (False, 0)) =
     (Inr (RoomsReply []), c', (False, 0)) \<and> ct_auth_rate_limiter c' = ct_auth_rate_limiter sample_container"
proof -
  let ?q = "sample_request (Some ''Bearer secret'') None"
  obtain r s where "serve (\<lambda>s. s) (sample_coercions, sample_providers) ListRooms ?q (sample_container, (False, 0)) = (r, s)" by (rule prod.exhaust)
  then obtain c' w where run: "serve (\<lambda>s. s) (sample_coercions, sample_providers) ListRooms ?q (sample_container, (False, 0)) = (r, c', w)"
    by (cases s) auto
  have auth: "client_authenticate (\<lambda>s. s) (ct_clients sample_container) (bearer_token (rq_authorization ?q)) =
      Inr (client_principal sample_client)"
    by (simp add: sample_request_def bearer_token_def starts_with_def BEARER_PREFIX_def py_strip_def is_space_def
        client_authenticate_def matching_client_def sample_container_def sample_client_def or_empty_def)
  have "svc_rooms (ct_gateway sample_container) = []"
    by (simp add: svc_rooms_def reg_rooms_def sample_container_def new_gateway_def new_registry_def)
  with api_guarded[OF run] auth run show ?thesis by simp
qed

subsection \<open>Handshakes\<close>

lemma redeem_offered_Inr:
  assumes "redeem_offered digest q protocols ps c = (Inr (p, sub), c')" and "tickets_inv (ct_tickets c)"
  obtains protocol t i where "protocol \<in> set ps" "ticket_from_protocol protocol = Some t"
    and "od_get (ts_tickets (ct_tickets c)) (digest t) = Some i" "is_principal i = p"
    and "gw_clock (ct_gateway c) (gw_ticks (ct_gateway c)) < is_expires_at i"
    and "od_get (ts_tickets (ct_tickets c')) (digest t) = None"
    and "sub = Some (if WEBSOCKET_SUBPROTOCOL \<in> set protocols then WEBSOCKET_SUBPROTOCOL else protocol)"
  using assms(1)
proof (induction ps arbitrary: thesis)
  case Nil
  then show ?case by (simp add: refuse_websocket_def case_prod_unfold Let_def)
next
  case (Cons protocol ps)
  show ?case
  proof (cases "ticket_from_protocol protocol")
    case None
    with Cons.prems(2) have "redeem_offered digest q protocols ps c = (Inr (p, sub), c')" by simp
    from Cons.IH[OF _ this] Cons.prems(1) show ?thesis by (metis list.set_intros(2))
  next
    case (Some t)
    let ?now = "gw_clock (ct_gateway c) (gw_ticks (ct_gateway c))"
    obtain c1 where now: "container_now c = (?now, c1)" by (simp add: container_now_def clock_now_def)
    then have c1: "ct_tickets c1 = ct_tickets c" using container_now_frame(2)[of c] by simp
    have ne: "t \<noteq> []" using Some by (auto simp: ticket_from_protocol_def Let_def split: if_splits)
    obtain res ts where rd: "redeem digest (Some t) ?now (ct_tickets c) = (res, ts)" by (rule prod.exhaust)
    from Cons.prems(2) Some now c1 rd obtain x where res: "res = Inr x" and p: "x = p"
      and sub: "sub = Some (if WEBSOCKET_SUBPROTOCOL \<in> set protocols then WEBSOCKET_SUBPROTOCOL else protocol)"
      and c': "c' = c1\<lparr>ct_tickets := ts\<rparr>"
      by (cases res) (auto simp: case_prod_unfold Let_def)
    from rd res p redeem_cases[OF assms(2), of digest "Some t" ?now] obtain i where
      i: "od_get (ts_tickets (ct_tickets c)) (digest t) = Some i" "?now < is_expires_at i" "is_principal i = p"
      and ts: "ts = (ct_tickets c)\<lparr>ts_tickets := od_del (digest t) (prune ?now (ts_tickets (ct_tickets c)))\<rparr>"
      by (auto simp: or_empty_def split: option.splits if_splits)
    have "od_get (ts_tickets (ct_tickets c')) (digest t) = None" by (simp add: c' ts od_get_del)
    with Cons.prems(1)[of protocol t i] Some i sub show ?thesis by simp
  qed
qed

text \<open>
  C33. A handshake that succeeds was paid for. Either the header carries the token of a registered
  client, and nothing is consumed; or there is no token and an offered subprotocol carries an
  outstanding, unexpired ticket, which is used up by it and decides whom the stream is for. The
  subprotocol sent back is one the client offered, and does not repeat the ticket if the client
  offered the plain one.
\<close>

theorem handshake_paid:
  assumes "authenticate_websocket digest q c = (Inr (p, sub), c')" and "tickets_inv (ct_tickets c)"
  shows "(\<exists>token. bearer_token (rq_authorization q) = Some token \<and>
      client_authenticate digest (ct_clients c) (Some token) = Inr p \<and> sub = None \<and> c' = c) \<or>
    (bearer_token (rq_authorization q) = None \<and>
      (\<exists>t i s. ticket_protocol t \<in> set (offered_protocols q) \<and>
         od_get (ts_tickets (ct_tickets c)) (digest t) = Some i \<and> is_principal i = p \<and>
         gw_clock (ct_gateway c) (gw_ticks (ct_gateway c)) < is_expires_at i \<and>
         od_get (ts_tickets (ct_tickets c')) (digest t) = None \<and>
         sub = Some s \<and> s \<in> set (offered_protocols q) \<and>
         (WEBSOCKET_SUBPROTOCOL \<in> set (offered_protocols q) \<longrightarrow> s = WEBSOCKET_SUBPROTOCOL)))"
proof (cases "bearer_token (rq_authorization q)")
  case (Some token)
  with assms(1) show ?thesis
    by (auto simp: authenticate_websocket_def case_prod_unfold Let_def split: sum.splits)
next
  case None
  with assms(1) have "redeem_offered digest q (offered_protocols q) (offered_protocols q) c = (Inr (p, sub), c')"
    by (simp add: authenticate_websocket_def)
  then obtain protocol t i where t: "protocol \<in> set (offered_protocols q)" "ticket_from_protocol protocol = Some t"
      "od_get (ts_tickets (ct_tickets c)) (digest t) = Some i" "is_principal i = p"
      "gw_clock (ct_gateway c) (gw_ticks (ct_gateway c)) < is_expires_at i"
      "od_get (ts_tickets (ct_tickets c')) (digest t) = None"
      "sub = Some (if WEBSOCKET_SUBPROTOCOL \<in> set (offered_protocols q) then WEBSOCKET_SUBPROTOCOL else protocol)"
    using assms(2) by (rule redeem_offered_Inr)
  have "protocol = ticket_protocol t"
    using t(2) by (auto simp: ticket_from_protocol_def ticket_protocol_def starts_with_def Let_def split: if_splits)
      (metis append_take_drop_id)
  with t None show ?thesis by auto
qed

theorem handshake_paid_witness:
  "\<exists>c'. authenticate_websocket (\<lambda>s. s) (sample_request None (Some ''homeflow.v1, homeflow.ticket.tk'')) sample_container =
      (Inr (client_principal sample_client, Some ''homeflow.v1''), c') \<and>
    od_get (ts_tickets (ct_tickets c')) ''tk'' = None"
proof -
  let ?q = "sample_request None (Some ''homeflow.v1, homeflow.ticket.tk'')"
  have offered: "offered_protocols ?q = [''homeflow.v1'', ''homeflow.ticket.tk'']"
    by (simp add: offered_protocols_def sample_request_def split_list_def py_strip_def is_space_def)
  have inv: "tickets_inv (ct_tickets sample_container)"
    by (simp add: tickets_inv_def sample_container_def od_wf_def max_outstanding_def)
  obtain c' where run: "authenticate_websocket (\<lambda>s. s) ?q sample_container =
      (Inr (client_principal sample_client, Some ''homeflow.v1''), c')"
    unfolding authenticate_websocket_def offered
    by (simp add: sample_request_def bearer_token_def ticket_from_protocol_def protocol_prefix_def starts_with_def
        container_now_def clock_now_def redeem_def prune_def find_ticket_def sample_container_def new_gateway_def
        usec_per_sec_def or_empty_def WEBSOCKET_SUBPROTOCOL_def)
  have "ticket_protocol t \<in> {''homeflow.v1'', ''homeflow.ticket.tk''} \<longleftrightarrow> t = ''tk''" for t
    by (auto simp: ticket_protocol_def protocol_prefix_def)
  with handshake_paid[OF run inv] offered run show ?thesis
    by (auto simp: sample_request_def bearer_token_def)
qed

subsection \<open>What a client may say\<close>

lemma receive_accepted:
  assumes "receive_loop rl ms = (e, acc)"
  shows "acc = take (length acc) ms \<and> (\<forall>(t, m) \<in> set acc. check_inbound m = Heartbeat \<and> in_length m \<le> MAX_INBOUND) \<and>
    fst (allow_all rl (map (\<lambda>(t, m). (''inbound'', t)) acc)) = replicate (length acc) True \<and>
    (e = PeerGone \<longleftrightarrow> acc = ms)"
  using assms
proof (induction rl ms arbitrary: e acc rule: receive_loop.induct)
  case (2 rl t m ms)
  obtain ok rl1 where al: "allow rl ''inbound'' t = (ok, rl1)" by (rule prod.exhaust)
  show ?case
  proof (cases "ok \<and> in_length m \<le> MAX_INBOUND \<and> check_inbound m = Heartbeat")
    case True
    obtain e1 acc1 where rest: "receive_loop rl1 ms = (e1, acc1)" by (rule prod.exhaust)
    with 2(2) al True have "e = e1" "acc = (t, m) # acc1" by auto
    moreover have "acc1 = take (length acc1) ms \<and>
        (\<forall>(t, m) \<in> set acc1. check_inbound m = Heartbeat \<and> in_length m \<le> MAX_INBOUND) \<and>
        fst (allow_all rl1 (map (\<lambda>(t, m). (''inbound'', t)) acc1)) = replicate (length acc1) True \<and>
        (e1 = PeerGone \<longleftrightarrow> acc1 = ms)"
      using 2(1)[OF al[symmetric] refl] True rest by simp
    ultimately show ?thesis using al True by (auto simp: Let_def case_prod_unfold)
  next
    case False
    with 2(2) al show ?thesis by (auto split: inbound_check.splits if_splits)
  qed
qed auto

text \<open>The text that ended the reading, if one did, broke one of the three rules.\<close>

lemma receive_refused:
  assumes "receive_loop rl ms = (e, acc)" and "e \<noteq> PeerGone"
  shows "\<exists>t m rest. ms = acc @ (t, m) # rest \<and>
    (MAX_INBOUND < in_length m \<or> check_inbound m \<noteq> Heartbeat \<or>
      fst (allow_all rl (map (\<lambda>(t, m). (''inbound'', t)) (acc @ [(t, m)]))) = replicate (length acc) True @ [False]) \<and>
    e = (if in_length m \<le> MAX_INBOUND \<and> check_inbound m = Unhashable \<and>
        fst (allow_all rl (map (\<lambda>(t, m). (''inbound'', t)) (acc @ [(t, m)]))) = replicate (Suc (length acc)) True
      then ReaderCrash else PolicyClose CLOSE_POLICY_VIOLATION)"
  using assms
proof (induction rl ms arbitrary: e acc rule: receive_loop.induct)
  case (2 rl t m ms)
  obtain ok rl1 where al: "allow rl ''inbound'' t = (ok, rl1)" by (rule prod.exhaust)
  show ?case
  proof (cases "ok \<and> in_length m \<le> MAX_INBOUND \<and> check_inbound m = Heartbeat")
    case True
    obtain e1 acc1 where rest: "receive_loop rl1 ms = (e1, acc1)" by (rule prod.exhaust)
    with 2(2) al True have e: "e = e1" "acc = (t, m) # acc1" by auto
    from 2(1)[OF al[symmetric] refl _ _ rest] True e 2(3) al show ?thesis
      by (auto simp: Let_def case_prod_unfold)
  next
    case False
    with 2(2) al have "acc = []" by (auto split: inbound_check.splits if_splits)
    with False 2(2) al show ?thesis by (auto split: inbound_check.splits if_splits)
  qed
qed simp

lemma spent_all: "spent ''inbound'' (map (\<lambda>(t, m). (''inbound'', t)) acc) (replicate (length acc) True) = length acc"
  by (induction acc) (auto simp: spent_def)

lemma times_from_take: "times_from t (map f ms) \<Longrightarrow> times_from t (map f (take n ms))"
proof (induction ms arbitrary: t n)
  case (Cons a ms)
  then show ?case by (cases n; cases "f a") auto
qed simp

text \<open>
  C34. A connected client can only keep alive. For a clock that does not go back, the reader
  accepts a first part of the texts a client sends, all of them heartbeats of at most 4096
  characters, and no more than the configured number a minute with a burst of as many. It
  reads to the end exactly if it accepted every one. Otherwise it stops at the first text that
  is too long, is no heartbeat or comes when the budget is spent, reads nothing after it, and
  asks for the policy-violation close, except for a frame type that is not hashable, where the
  reading fails instead. When the close that is asked for happens is stated over the whole
  session in \<open>Stream_Session\<close>.
\<close>

theorem inbound_policed:
  assumes "read_client st ms = (e, acc)" and "fields_ok st"
    and "times_from t (map (\<lambda>(t, m). (''inbound'', t)) ms)"
  shows "acc = take (length acc) ms \<and>
    (\<forall>(t, m) \<in> set acc. check_inbound m = Heartbeat \<and> in_length m \<le> MAX_INBOUND) \<and>
    (e = PeerGone \<longleftrightarrow> acc = ms) \<and>
    of_nat (length acc) \<le> of_int (st_websocket_rate_limit_per_minute st) +
      of_int (st_websocket_rate_limit_per_minute st) / 60 *
        (timestamp (last_time t (map (\<lambda>(t, m). (''inbound'', t)) acc)) - timestamp t) \<and>
    (e \<noteq> PeerGone \<longrightarrow> (\<exists>t m rest. ms = acc @ (t, m) # rest \<and>
      (let allowed = fst (allow_all (new_rate_limiter (st_websocket_rate_limit_per_minute st) None MAX_RATE_KEYS)
          (map (\<lambda>(t, m). (''inbound'', t)) (acc @ [(t, m)])))
       in (MAX_INBOUND < in_length m \<or> check_inbound m \<noteq> Heartbeat \<or> allowed = replicate (length acc) True @ [False]) \<and>
          e = (if in_length m \<le> MAX_INBOUND \<and> check_inbound m = Unhashable \<and> allowed = replicate (Suc (length acc)) True
            then ReaderCrash else PolicyClose CLOSE_POLICY_VIOLATION))))"
proof -
  let ?n = "st_websocket_rate_limit_per_minute st" and ?key = "\<lambda>(t, m :: inbound). (''inbound'', t :: int)"
  let ?rl = "new_rate_limiter ?n None MAX_RATE_KEYS" and ?rs = "map ?key acc"
  have n: "1 \<le> ?n" using assms(2) by (simp add: fields_ok_def)
  from receive_accepted[OF assms(1)[unfolded read_client_def]] have acc:
    "acc = take (length acc) ms" "\<forall>(t, m) \<in> set acc. check_inbound m = Heartbeat \<and> in_length m \<le> MAX_INBOUND"
    "e = PeerGone \<longleftrightarrow> acc = ms" and oks: "fst (allow_all ?rl ?rs) = replicate (length acc) True" by auto
  obtain rl' where run: "allow_all ?rl ?rs = (replicate (length acc) True, rl')"
    using oks by (metis prod.collapse)
  have "rate_limiter_inv ?rl" using n by (intro rate_limiter_inv_new) (auto simp: MAX_RATE_KEYS_def)
  moreover have "roomy ?rl (map fst ?rs)"
  proof -
    have "set (map fst ?rs) \<subseteq> {''inbound''}" by auto
    then have "card (set (map fst ?rs)) \<le> 1" using card_mono[of "{''inbound''}" "set (map fst ?rs)"] by simp
    then show ?thesis by (simp add: roomy_def new_rate_limiter_def MAX_RATE_KEYS_def)
  qed
  moreover have "not_ahead ?rl ''inbound'' t" by (simp add: not_ahead_def new_rate_limiter_def)
  moreover have "times_from t ?rs" using times_from_take[OF assms(3), of "length acc"] acc(1) by simp
  ultimately have "of_nat (spent ''inbound'' ?rs (replicate (length acc) True)) \<le> potential ?rl ''inbound'' t +
      rl_rate_per_second ?rl * (timestamp (last_time t ?rs) - timestamp t)"
    using run by (rule allow_all_budget)
  then have "of_nat (length acc) \<le> of_int ?n + of_int ?n / 60 * (timestamp (last_time t ?rs) - timestamp t)"
    by (simp add: spent_all potential_def new_rate_limiter_def)
  with acc receive_refused[OF assms(1)[unfolded read_client_def]] show ?thesis by (simp add: Let_def)
qed

theorem inbound_policed_witness:
  "read_client default_settings [(0, \<lparr>in_length = 15, in_json = Some (JObj [(''type'', JStr ''Ping'')])\<rparr>),
      (1, \<lparr>in_length = 4097, in_json = None\<rparr>)] =
    (PolicyClose 1008, [(0, \<lparr>in_length = 15, in_json = Some (JObj [(''type'', JStr ''Ping'')])\<rparr>)])"
proof -
  let ?m = "\<lparr>in_length = 15, in_json = Some (JObj [(''type'', JStr ''Ping'')])\<rparr>"
  let ?ms = "[(0 :: int, ?m), (1, \<lparr>in_length = 4097, in_json = None\<rparr>)]"
  obtain rl1 where a: "allow (new_rate_limiter 120 None MAX_RATE_KEYS) ''inbound'' 0 = (True, rl1)"
    by (simp add: allow_def touch_def new_rate_limiter_def od_get_def Let_def)
  have run: "read_client default_settings ?ms = (PolicyClose 1008, [(0, ?m)])"
    using a by (simp add: read_client_def default_settings_def check_inbound_def od_get_def
        ACCEPTED_INBOUND_TYPES_def MAX_INBOUND_def CLOSE_POLICY_VIOLATION_def case_prod_unfold Let_def)
  have "fields_ok default_settings" using default_settings_valid by (simp add: settings_valid_def)
  from inbound_policed[OF run this, of 0] run show ?thesis by simp
qed

end
