(* ===== verification/Stream_Supervisor.thy ===== *)
theory Stream_Supervisor
  imports Device_Service
begin

section \<open>Keeping the adapters' streams running\<close>

text \<open>
  \<open>run_provider_stream\<close> of \<open>main.py\<close>: each adapter's events are ingested as they come, and a
  stream that fails is started again after a pause that doubles up to a minute and starts over
  with the next event. A turn is one run of the stream: the events it yields and how it stops.

  What the supervisor needs of \<open>DeviceProvider.subscribe\<close> is the locale \<open>event_source\<close>: an adapter's
  generator resumes from its own state, yields some events, and leaves the state it resumes from.
\<close>

definition STREAM_INITIAL_BACKOFF :: rat where "STREAM_INITIAL_BACKOFF = 1"
definition STREAM_MAX_BACKOFF :: rat where "STREAM_MAX_BACKOFF = 60"

datatype stream_stop = StreamEnded | StreamFailed | StreamCancelled

text \<open>An exception of \<open>ingest\<close> is caught like one of the stream.\<close>

fun consume_stream ::
  "provider_event list \<Rightarrow> stream_stop \<Rightarrow> gateway \<times> rat \<Rightarrow> stream_stop \<times> gateway \<times> rat"
where
  "consume_stream [] stop s = (stop, s)"
| "consume_stream (e # es) stop (g, b) =
     (case ingest (pe_ref e) (pe_state e) PROVIDER_EVENT None g of
        (Inl x, g1) \<Rightarrow> (StreamFailed, g1, b)
      | (Inr d, g1) \<Rightarrow> consume_stream es stop (g1, STREAM_INITIAL_BACKOFF))"

text \<open>The seconds until the stream is started again, \<open>None\<close> when the task was cancelled.\<close>

definition supervise_turn ::
  "provider_event list \<Rightarrow> stream_stop \<Rightarrow> rat \<Rightarrow> gateway \<times> rat \<Rightarrow> rat option \<times> gateway \<times> rat"
where
  "supervise_turn es stop jitter s =
     (case consume_stream es stop s of
        (StreamEnded, g, b) \<Rightarrow> (Some 0, g, b)
      | (StreamFailed, g, b) \<Rightarrow>
          (Some (min (b + jitter) STREAM_MAX_BACKOFF), g, min (b * 2) STREAM_MAX_BACKOFF)
      | (StreamCancelled, g, b) \<Rightarrow> (None, g, b))"

lemma consume_stream_inv:
  assumes "registry_inv (gw_registry g)" and "\<forall>e \<in> set es. device_state_ok (ps_state (pe_state e))"
    and "consume_stream es stop (g, b) = (stop', g', b')"
  shows "registry_inv (gw_registry g') \<and> stop' = stop \<and> b' = (if es = [] then b else STREAM_INITIAL_BACKOFF)"
  using assms
proof (induction es arbitrary: g b)
  case (Cons e es)
  obtain r where r: "fst (ingest (pe_ref e) (pe_state e) PROVIDER_EVENT None g) = Inr r"
    using ingest_total[OF Cons.prems(1)] by blast
  then obtain g1 where run: "ingest (pe_ref e) (pe_state e) PROVIDER_EVENT None g = (Inr r, g1)"
    by (metis prod.collapse)
  have "registry_inv (gw_registry g1)"
    using ingest_inv[OF Cons.prems(1), of "pe_state e" "pe_ref e" PROVIDER_EVENT None] Cons.prems(2) run by simp
  from Cons.IH[OF this, of STREAM_INITIAL_BACKOFF] Cons.prems(2,3) run show ?case by (auto split: if_splits)
qed simp

text \<open>
  Over a consistent registry a turn keeps it consistent; a failed turn pauses at least the current
  backoff and at most a minute, and a turn that delivered an event starts over from one second.
\<close>

lemma supervise_turn_bounds:
  assumes "registry_inv (gw_registry g)" and "\<forall>e \<in> set es. device_state_ok (ps_state (pe_state e))"
    and "STREAM_INITIAL_BACKOFF \<le> b" and "b \<le> STREAM_MAX_BACKOFF" and "0 \<le> jitter"
    and "supervise_turn es stop jitter (g, b) = (pause, g', b')"
  shows "registry_inv (gw_registry g') \<and> STREAM_INITIAL_BACKOFF \<le> b' \<and> b' \<le> STREAM_MAX_BACKOFF \<and>
    (stop = StreamFailed \<longrightarrow> (\<exists>d. pause = Some d \<and> d \<le> STREAM_MAX_BACKOFF \<and>
       (if es = [] then b \<le> d else d \<le> STREAM_INITIAL_BACKOFF + jitter)))"
proof -
  obtain stop' g1 b1 where run: "consume_stream es stop (g, b) = (stop', g1, b1)" by (metis prod.exhaust)
  note inv = consume_stream_inv[OF assms(1,2) run]
  show ?thesis
    using assms(3-6) run inv
    by (cases stop) (auto simp: supervise_turn_def STREAM_INITIAL_BACKOFF_def STREAM_MAX_BACKOFF_def split: if_splits)
qed

subsection \<open>The contract of \<open>subscribe\<close>\<close>

text \<open>What an observation leaves alone of the gateway.\<close>

definition quiet_stream :: "gateway \<Rightarrow> gateway \<Rightarrow> bool" where
  "quiet_stream g g' \<longleftrightarrow>
     gw_commands g' = gw_commands g \<and> gw_locks g' = gw_locks g \<and> gw_next_lock g' = gw_next_lock g \<and>
     gw_schedules g' = gw_schedules g \<and> gw_audit g' = gw_audit g \<and> gw_uuids g' = gw_uuids g \<and>
     gw_issued g' = gw_issued g"

lemma consume_stream_evolves:
  assumes "registry_inv (gw_registry g)" and "\<forall>e \<in> set es. device_state_ok (ps_state (pe_state e))"
    and "consume_stream es stop (g, b) = (stop', g', b')"
  shows "evolves (gw_registry g) (gw_registry g') \<and> quiet_stream g g'"
  using assms
proof (induction es arbitrary: g b)
  case (Cons e es)
  obtain r where r: "fst (ingest (pe_ref e) (pe_state e) PROVIDER_EVENT None g) = Inr r"
    using ingest_total[OF Cons.prems(1)] by blast
  then obtain g1 where run: "ingest (pe_ref e) (pe_state e) PROVIDER_EVENT None g = (Inr r, g1)"
    by (metis prod.collapse)
  have ev: "evolves (gw_registry g) (gw_registry g1)"
    using ingest_evolves[OF Cons.prems(1), of "pe_state e" "pe_ref e" PROVIDER_EVENT None] Cons.prems(2) run by simp
  then have inv: "registry_inv (gw_registry g1)" using Cons.prems(1) by (simp add: evolves_def)
  have "quiet_stream g g1"
    using ingest_frame[OF Cons.prems(1), of "pe_ref e" "pe_state e" PROVIDER_EVENT None] run
    by (simp add: quiet_stream_def)
  with Cons.IH[OF inv, of STREAM_INITIAL_BACKOFF] Cons.prems(2,3) run ev evolves_trans show ?case
    by (auto simp: quiet_stream_def)
qed (simp add: quiet_stream_def)

locale event_source =
  fixes turn :: "'s \<Rightarrow> provider_event list \<times> 's"
    and source_ok :: "'s \<Rightarrow> bool"
  assumes events_ok: "source_ok s \<Longrightarrow> e \<in> set (fst (turn s)) \<Longrightarrow> device_state_ok (ps_state (pe_state e))"
    and turn_keeps: "source_ok s \<Longrightarrow> source_ok (snd (turn s))"

text \<open>What a stream has yielded after some turns of its loop.\<close>

primrec turns :: "('s \<Rightarrow> provider_event list \<times> 's) \<Rightarrow> nat \<Rightarrow> 's \<Rightarrow> provider_event list \<times> 's" where
  "turns turn 0 s = ([], s)"
| "turns turn (Suc n) s = (let (es, s1) = turn s; (es', s2) = turns turn n s1 in (es @ es', s2))"

context event_source
begin

lemma turns_ok:
  "source_ok s \<Longrightarrow>
     source_ok (snd (turns turn n s)) \<and> (\<forall>e \<in> set (fst (turns turn n s)). device_state_ok (ps_state (pe_state e)))"
proof (induction n arbitrary: s)
  case (Suc n)
  with Suc.IH[OF turn_keeps[OF Suc.prems]] events_ok[OF Suc.prems] show ?case
    by (auto simp: split_beta Let_def)
qed simp

text \<open>A supervised stream changes what it reports of the devices, and nothing else of the gateway.\<close>

lemma supervised_stream:
  assumes "registry_inv (gw_registry g)" and "source_ok s"
    and "supervise_turn (fst (turns turn n s)) stop jitter (g, b) = (pause, g', b')"
  shows "evolves (gw_registry g) (gw_registry g') \<and> quiet_stream g g'"
proof -
  let ?es = "fst (turns turn n s)"
  obtain stop' g1 b1 where run: "consume_stream ?es stop (g, b) = (stop', g1, b1)" by (metis prod.exhaust)
  have "\<forall>e \<in> set ?es. device_state_ok (ps_state (pe_state e))" using turns_ok[OF assms(2)] by blast
  from consume_stream_evolves[OF assms(1) this run] assms(3) run show ?thesis
    by (cases stop') (auto simp: supervise_turn_def)
qed

end

end
