(* ===== verification/Log_Scrub.thy ===== *)
theory Log_Scrub
  imports Prelude
begin

section \<open>Scrubbing text\<close>

text \<open>
  \<open>_PATTERNS\<close> and \<open>_scrub_text\<close> of \<open>log.py\<close>, with what they use of the \<open>re\<close> module: a pattern
  yields the lengths it can match at a position in the order a backtracking, greedy search tries
  them, and \<open>sub\<close> replaces the first of each leftmost match. Text is ASCII.
\<close>

definition REDACTED :: string where "REDACTED = ''[redacted]''"

subsection \<open>Patterns\<close>

datatype regex = One "char \<Rightarrow> bool" | Edge | Seq regex regex | Many nat "nat option" "char \<Rightarrow> bool"

definition is_letter_char :: "char \<Rightarrow> bool" where
  "is_letter_char c = (let n = (of_char c :: nat) in (65 \<le> n \<and> n \<le> 90) \<or> (97 \<le> n \<and> n \<le> 122))"

definition is_digit_char :: "char \<Rightarrow> bool" where
  "is_digit_char c = (let n = (of_char c :: nat) in 48 \<le> n \<and> n \<le> 57)"

definition is_alnum :: "char \<Rightarrow> bool" where
  "is_alnum c \<longleftrightarrow> is_letter_char c \<or> is_digit_char c"

definition is_word :: "char \<Rightarrow> bool" where
  "is_word c \<longleftrightarrow> is_alnum c \<or> c = CHR ''_''"

definition is_hex :: "char \<Rightarrow> bool" where
  "is_hex c \<longleftrightarrow> is_digit_char c \<or> lower_char c \<in> set ''abcdef''"

definition holds :: "(char \<Rightarrow> bool) \<Rightarrow> char option \<Rightarrow> bool" where
  "holds P c = (case c of None \<Rightarrow> False | Some x \<Rightarrow> P x)"

definition first_char :: "string \<Rightarrow> char option" where
  "first_char s = (case s of [] \<Rightarrow> None | c # cs \<Rightarrow> Some c)"

text \<open>The character before position \<open>k\<close> of a text that follows \<open>p\<close>.\<close>

definition prev_at :: "char option \<Rightarrow> string \<Rightarrow> nat \<Rightarrow> char option" where
  "prev_at p s k = (if k = 0 then p else Some (s ! (k - 1)))"

fun ends :: "regex \<Rightarrow> char option \<Rightarrow> string \<Rightarrow> nat list" where
  "ends (One P) p s = (if holds P (first_char s) then [1] else [])"
| "ends Edge p s = (if holds is_word p \<noteq> holds is_word (first_char s) then [0] else [])"
| "ends (Seq a b) p s =
     concat (map (\<lambda>k. map (\<lambda>j. k + j) (ends b (prev_at p s k) (drop k s))) (ends a p s))"
| "ends (Many lo hi P) p s =
     (let n = length (takeWhile P s); m = (case hi of None \<Rightarrow> n | Some h \<Rightarrow> min n h) in rev [lo..<Suc m])"

text \<open>\<open>pattern.sub(REDACTED, s)\<close> for a pattern that matches no empty text.\<close>

function sub_all :: "regex \<Rightarrow> char option \<Rightarrow> string \<Rightarrow> string" where
  "sub_all r p s =
     (case s of
        [] \<Rightarrow> []
      | c # cs \<Rightarrow>
          (case ends r p s of
             Suc k # ks \<Rightarrow> REDACTED @ sub_all r (Some (s ! k)) (drop k cs)
           | _ \<Rightarrow> c # sub_all r (Some c) cs))"
  by pat_completeness auto
termination
  by (relation "measure (\<lambda>(r, p, s). length s)") auto

declare sub_all.simps [simp del]

primrec times :: "nat \<Rightarrow> regex \<Rightarrow> regex \<Rightarrow> regex" where
  "times 0 r rest = rest"
| "times (Suc n) r rest = Seq r (times n r rest)"

primrec literal :: "(char \<Rightarrow> char) \<Rightarrow> string \<Rightarrow> regex \<Rightarrow> regex" where
  "literal fold_case [] rest = rest"
| "literal fold_case (c # cs) rest = Seq (One (\<lambda>x. fold_case x = c)) (literal fold_case cs rest)"

subsection \<open>The five patterns\<close>

definition BEARER_PATTERN :: regex where
  "BEARER_PATTERN =
     Seq Edge (literal lower_char ''bearer''
       (Seq (Many 1 None is_space)
         (Seq (Many 1 None (\<lambda>c. is_alnum c \<or> c \<in> set ''._~+/-'')) (Many 0 None (\<lambda>c. c = CHR ''='')))))"

definition hex_pair :: regex where "hex_pair = Many 2 (Some 2) is_hex"

definition MAC_PATTERN :: regex where
  "MAC_PATTERN =
     Seq Edge (Seq (times 5 (Seq hex_pair (One (\<lambda>c. c \<in> set '':-''))) hex_pair) Edge)"

definition JWT_PATTERN :: regex where
  "JWT_PATTERN = Seq Edge (literal (\<lambda>c. c) ''eyJ'' (Many 20 None (\<lambda>c. is_alnum c \<or> c \<in> set ''._-'')))"

definition TSKEY_PATTERN :: regex where
  "TSKEY_PATTERN =
     Seq Edge (literal lower_char ''tskey-''
       (Seq (Many 1 None is_letter_char) (Seq (One (\<lambda>c. c = CHR ''-'')) (Many 6 None is_alnum))))"

definition decimal_group :: regex where "decimal_group = Many 1 (Some 3) is_digit_char"

definition IPV4_PATTERN :: regex where
  "IPV4_PATTERN =
     Seq Edge (Seq (times 3 (Seq decimal_group (One (\<lambda>c. c = CHR ''.''))) decimal_group) Edge)"

definition PATTERNS :: "regex list" where
  "PATTERNS = [BEARER_PATTERN, MAC_PATTERN, JWT_PATTERN, TSKEY_PATTERN, IPV4_PATTERN]"

definition scrub_text :: "string \<Rightarrow> string" where
  "scrub_text value = fold (\<lambda>r s. sub_all r None s) PATTERNS value"

subsection \<open>Matches\<close>

lemma ends_bound: "k \<in> set (ends r p s) \<Longrightarrow> k \<le> length s"
proof (induction r arbitrary: k p s)
  case (Many lo hi P)
  then show ?case
    using length_takeWhile_le[of P s] by (auto simp: Let_def split: option.splits)
next
  case (Seq a b)
  then obtain i j where "i \<in> set (ends a p s)" "j \<in> set (ends b (prev_at p s i) (drop i s))" "k = i + j" by auto
  with Seq.IH show ?case by fastforce
qed (auto simp: holds_def first_char_def split: if_splits option.splits list.splits)

lemma ends_Seq:
  assumes "k \<in> set (ends (Seq a b) p s)"
  obtains i j where "i \<in> set (ends a p s)" "j \<in> set (ends b (prev_at p s i) (drop i s))" "k = i + j"
  using assms by auto

lemma ends_Many: "k \<in> set (ends (Many lo hi P) p s) \<longleftrightarrow>
    lo \<le> k \<and> k \<le> length s \<and> (\<forall>i < k. P (s ! i)) \<and> (\<forall>h. hi = Some h \<longrightarrow> k \<le> h)"
proof -
  have "k \<le> length (takeWhile P s) \<longleftrightarrow> k \<le> length s \<and> (\<forall>i < k. P (s ! i))"
  proof
    assume k: "k \<le> length (takeWhile P s)"
    then show "k \<le> length s \<and> (\<forall>i < k. P (s ! i))"
      using length_takeWhile_le[of P s] by (metis le_trans nth_mem order_less_le_trans set_takeWhileD takeWhile_nth)
  next
    assume "k \<le> length s \<and> (\<forall>i < k. P (s ! i))"
    then have "takeWhile P (take k s) = take k s" by (auto simp: takeWhile_eq_all_conv in_set_conv_nth)
    with \<open>k \<le> length s \<and> (\<forall>i < k. P (s ! i))\<close> show "k \<le> length (takeWhile P s)"
      by (metis append_take_drop_id length_append length_take le_add1 min.absorb2 takeWhile_append2 takeWhile_eq_all_conv)
  qed
  then show ?thesis by (cases hi) (auto simp: Let_def)
qed

text \<open>What can be said of every match of a pattern: its first, its last and some of its characters.\<close>

definition begins :: "regex \<Rightarrow> (char \<Rightarrow> bool) \<Rightarrow> bool" where
  "begins r P \<longleftrightarrow> (\<forall>p s k. k \<in> set (ends r p s) \<longrightarrow> 0 < k \<and> P (s ! 0))"

definition stops :: "regex \<Rightarrow> (char \<Rightarrow> bool) \<Rightarrow> bool" where
  "stops r P \<longleftrightarrow> (\<forall>p s k. k \<in> set (ends r p s) \<longrightarrow> 0 < k \<and> P (s ! (k - 1)))"

definition contains :: "regex \<Rightarrow> (char \<Rightarrow> bool) \<Rightarrow> bool" where
  "contains r P \<longleftrightarrow> (\<forall>p s k. k \<in> set (ends r p s) \<longrightarrow> (\<exists>i < k. P (s ! i)))"

definition only :: "regex \<Rightarrow> (char \<Rightarrow> bool) \<Rightarrow> bool" where
  "only r P \<longleftrightarrow> (\<forall>p s k. k \<in> set (ends r p s) \<longrightarrow> (\<forall>i < k. P (s ! i)))"

lemma one_rules:
  "(\<And>c. P c \<Longrightarrow> Q c) \<Longrightarrow> begins (One P) Q" "(\<And>c. P c \<Longrightarrow> Q c) \<Longrightarrow> stops (One P) Q"
  "(\<And>c. P c \<Longrightarrow> Q c) \<Longrightarrow> contains (One P) Q" "(\<And>c. P c \<Longrightarrow> Q c) \<Longrightarrow> only (One P) Q"
  by (auto simp: begins_def stops_def contains_def only_def holds_def first_char_def split: list.splits if_splits)

lemma many_rules:
  "(\<And>c. P c \<Longrightarrow> Q c) \<Longrightarrow> 0 < lo \<Longrightarrow> begins (Many lo hi P) Q"
  "(\<And>c. P c \<Longrightarrow> Q c) \<Longrightarrow> 0 < lo \<Longrightarrow> stops (Many lo hi P) Q"
  "(\<And>c. P c \<Longrightarrow> Q c) \<Longrightarrow> only (Many lo hi P) Q"
  by (auto simp: begins_def stops_def only_def ends_Many simp del: ends.simps)

lemma seq_begins: "begins a P \<Longrightarrow> begins (Seq a b) P"
  unfolding begins_def by (auto elim!: ends_Seq simp del: ends.simps)

lemma seq_stops: "stops b P \<Longrightarrow> stops (Seq a b) P"
proof -
  assume b: "stops b P"
  have "0 < k \<and> P (s ! (k - 1))" if "k \<in> set (ends (Seq a b) p s)" for p s k
    using that
  proof (rule ends_Seq)
    fix i j
    assume ij: "i \<in> set (ends a p s)" "j \<in> set (ends b (prev_at p s i) (drop i s))" "k = i + j"
    with b have "0 < j \<and> P (drop i s ! (j - 1))" unfolding stops_def by blast
    moreover have "i \<le> length s" using ij(1) by (rule ends_bound)
    ultimately show ?thesis using ij(3) by (cases j) (auto simp: add.commute)
  qed
  then show ?thesis by (auto simp: stops_def)
qed

lemma seq_part:
  assumes "k \<in> set (ends (Seq a b) p s)"
  obtains i j where "i \<in> set (ends a p s)" "j \<in> set (ends b (prev_at p s i) (drop i s))" "k = i + j"
    "\<And>m. m < j \<Longrightarrow> drop i s ! m = s ! (i + m)"
  using assms
proof (rule ends_Seq)
  fix i j
  assume ij: "i \<in> set (ends a p s)" "j \<in> set (ends b (prev_at p s i) (drop i s))" "k = i + j"
  then have "i \<le> length s" by (blast dest: ends_bound)
  with ij show thesis by (intro that) auto
qed

lemma seq_contains: "contains a P \<or> contains b P \<Longrightarrow> contains (Seq a b) P"
proof -
  assume ab: "contains a P \<or> contains b P"
  have "\<exists>m < k. P (s ! m)" if "k \<in> set (ends (Seq a b) p s)" for p s k
    using that
  proof (rule seq_part)
    fix i j
    assume ij: "i \<in> set (ends a p s)" "j \<in> set (ends b (prev_at p s i) (drop i s))" "k = i + j"
      "\<And>m. m < j \<Longrightarrow> drop i s ! m = s ! (i + m)"
    from ab show ?thesis
    proof
      assume "contains a P"
      then obtain m where "m < i" "P (s ! m)" using ij(1) unfolding contains_def by blast
      then show ?thesis using ij(3) by (intro exI[of _ m]) simp
    next
      assume "contains b P"
      then obtain m where "m < j" "P (drop i s ! m)" using ij(2) unfolding contains_def by blast
      then show ?thesis using ij(3,4) by (intro exI[of _ "i + m"]) simp
    qed
  qed
  then show ?thesis by (auto simp: contains_def)
qed

lemma seq_only: "only a P \<Longrightarrow> only b P \<Longrightarrow> only (Seq a b) P"
proof -
  assume ab: "only a P" "only b P"
  have "P (s ! m)" if "k \<in> set (ends (Seq a b) p s)" "m < k" for p s k m
    using that(1)
  proof (rule seq_part)
    fix i j
    assume ij: "i \<in> set (ends a p s)" "j \<in> set (ends b (prev_at p s i) (drop i s))" "k = i + j"
      "\<And>m. m < j \<Longrightarrow> drop i s ! m = s ! (i + m)"
    show ?thesis
    proof (cases "m < i")
      case True
      with ab(1) ij(1) show ?thesis unfolding only_def by blast
    next
      case False
      then have "m - i < j" using that(2) ij(3) by simp
      moreover from this have "P (drop i s ! (m - i))" using ab(2) ij(2) unfolding only_def by blast
      ultimately show ?thesis using ij(4)[of "m - i"] False by simp
    qed
  qed
  then show ?thesis by (auto simp: only_def)
qed

lemma times_rules:
  "only a P \<Longrightarrow> only b P \<Longrightarrow> only (times n a b) P"
  "stops b P \<Longrightarrow> stops (times n a b) P"
  "begins a P \<Longrightarrow> begins (times (Suc n) a b) P"
  "contains a P \<Longrightarrow> contains (times (Suc n) a b) P"
  by (induction n) (auto intro: seq_only seq_stops seq_begins seq_contains)

subsection \<open>Matching is local\<close>

text \<open>
  Whether a pattern matches the next \<open>k\<close> characters depends on these, and on whether a word
  character stands before and after them.
\<close>

definition next_word :: "string \<Rightarrow> nat \<Rightarrow> bool" where
  "next_word s k = holds is_word (first_char (drop k s))"

lemma next_word_nth: "k < length s \<Longrightarrow> next_word s k = is_word (s ! k)"
  by (simp add: next_word_def holds_def first_char_def Cons_nth_drop_Suc[symmetric])

lemma first_take: "0 < k \<Longrightarrow> take k s' = take k s \<Longrightarrow> first_char s' = first_char s"
  by (cases s; cases s'; cases k) (auto simp: first_char_def)

lemma take_nth: "take k s' = take k s \<Longrightarrow> m < k \<Longrightarrow> s' ! m = s ! m"
  by (metis nth_take)

lemma take_split: "take (i + j) s' = take (i + j) s \<Longrightarrow> take i s' = take i s \<and> take j (drop i s') = take j (drop i s)"
  by (metis add.commute le_add1 min.absorb1 take_drop take_take)

lemma prev_agree:
  assumes "take k s' = take k s" "i \<le> k" "holds is_word p' = holds is_word p"
  shows "holds is_word (prev_at p' s' i) = holds is_word (prev_at p s i)"
proof (cases i)
  case 0
  with assms show ?thesis by (simp add: prev_at_def)
next
  case (Suc m)
  with assms have "s' ! m = s ! m" by (auto intro: take_nth)
  with Suc show ?thesis by (simp add: prev_at_def)
qed

lemma many_local:
  "k \<in> set (ends (Many lo hi P) p s) \<Longrightarrow> k \<le> length s' \<Longrightarrow> take k s' = take k s \<Longrightarrow>
   k \<in> set (ends (Many lo hi P) p' s')"
  unfolding ends_Many by (metis take_nth)

lemma one_local:
  "k \<in> set (ends (One P) p s) \<Longrightarrow> take k s' = take k s \<Longrightarrow> k \<in> set (ends (One P) p' s')"
  using first_take[of k s' s] by (auto split: if_splits)

lemma ends_SeqI:
  "i \<in> set (ends a p s) \<Longrightarrow> j \<in> set (ends b (prev_at p s i) (drop i s)) \<Longrightarrow> i + j \<in> set (ends (Seq a b) p s)"
  by auto

lemma ends_local:
  "k \<in> set (ends r p s) \<Longrightarrow> k \<le> length s' \<Longrightarrow> take k s' = take k s \<Longrightarrow>
   holds is_word p' = holds is_word p \<Longrightarrow> next_word s' k = next_word s k \<Longrightarrow> k \<in> set (ends r p' s')"
proof (induction r arbitrary: k p s p' s')
  case (Seq a b)
  from Seq.prems(1) obtain i j where
    ij: "i \<in> set (ends a p s)" "j \<in> set (ends b (prev_at p s i) (drop i s))" "k = i + j" by (rule ends_Seq)
  then have parts: "take i s' = take i s" "take j (drop i s') = take j (drop i s)"
    using Seq.prems(3) take_split by blast+
  have size: "k \<le> length s" using Seq.prems(1) by (rule ends_bound)
  have "next_word s' i = next_word s i"
  proof (cases j)
    case 0
    with ij Seq.prems show ?thesis by simp
  next
    case (Suc n)
    with ij size Seq.prems(2) have "i < length s" "i < length s'" "i < k" by auto
    then show ?thesis using take_nth[OF Seq.prems(3)] by (simp add: next_word_nth)
  qed
  then have "i \<in> set (ends a p' s')" using ij(3) Seq.prems(2,4) parts(1) by (intro Seq.IH(1)[OF ij(1)]) auto
  moreover have "j \<in> set (ends b (prev_at p' s' i) (drop i s'))"
  proof (rule Seq.IH(2)[OF ij(2)])
    show "j \<le> length (drop i s')" using ij(3) Seq.prems(2) by simp
    show "take j (drop i s') = take j (drop i s)" by (rule parts)
    show "holds is_word (prev_at p' s' i) = holds is_word (prev_at p s i)"
      using Seq.prems(3,4) ij(3) by (intro prev_agree) auto
    show "next_word (drop i s') j = next_word (drop i s) j"
      using Seq.prems(5) ij(3) by (simp add: next_word_def add.commute)
  qed
  ultimately show ?case unfolding ij(3) by (rule ends_SeqI)
next
  case Edge
  then show ?case by (auto simp: next_word_def split: if_splits)
next
  case (One P)
  then show ?case by (blast intro: one_local)
next
  case (Many lo hi P)
  then show ?case by (blast intro: many_local)
qed

primrec edge_free :: "regex \<Rightarrow> bool" where
  "edge_free (One P) = True"
| "edge_free Edge = False"
| "edge_free (Seq a b) \<longleftrightarrow> edge_free a \<and> edge_free b"
| "edge_free (Many lo hi P) = True"

lemma ends_free:
  "edge_free r \<Longrightarrow> k \<in> set (ends r p s) \<Longrightarrow> k \<le> length s' \<Longrightarrow> take k s' = take k s \<Longrightarrow> k \<in> set (ends r p' s')"
proof (induction r arbitrary: k p s p' s')
  case (Seq a b)
  from Seq.prems(2) obtain i j where
    ij: "i \<in> set (ends a p s)" "j \<in> set (ends b (prev_at p s i) (drop i s))" "k = i + j" by (rule ends_Seq)
  then have parts: "take i s' = take i s" "take j (drop i s') = take j (drop i s)"
    using Seq.prems(4) take_split by blast+
  have "i \<in> set (ends a p' s')" using ij(3) Seq.prems parts(1) by (intro Seq.IH(1)[OF _ ij(1)]) auto
  moreover have "j \<in> set (ends b (prev_at p' s' i) (drop i s'))"
    using ij(3) Seq.prems parts(2) by (intro Seq.IH(2)[OF _ ij(2)]) auto
  ultimately show ?case unfolding ij(3) by (rule ends_SeqI)
next
  case (One P)
  then show ?case by (blast intro: one_local)
next
  case (Many lo hi P)
  then show ?case by (blast intro: many_local)
qed simp

subsection \<open>Fenced patterns\<close>

text \<open>
  A pattern that opens at a word boundary with a letter or digit, whose matches contain no bracket
  and something that is not in the mark, and which closes at a word boundary after a letter or
  digit unless it does not look behind its end.
\<close>

definition outside_mark :: "char \<Rightarrow> bool" where
  "outside_mark c \<longleftrightarrow> c \<notin> set ''redacted''"

definition no_bracket :: "char \<Rightarrow> bool" where
  "no_bracket c \<longleftrightarrow> c \<noteq> CHR ''['' \<and> c \<noteq> CHR '']''"

definition fenced :: "regex \<Rightarrow> bool" where
  "fenced r \<longleftrightarrow> (\<exists>body. begins body is_alnum \<and> only body no_bracket \<and> contains body outside_mark \<and>
     (r = Seq Edge (Seq body Edge) \<and> stops body is_alnum \<or> r = Seq Edge body \<and> edge_free body))"

text \<open>The match that is taken ends where no letter or digit can be glued to it.\<close>

definition sealed :: "regex \<Rightarrow> bool" where
  "sealed q \<longleftrightarrow> (\<forall>p s k ks. ends q p s = k # ks \<longrightarrow> 0 < k \<and> \<not> holds is_word p \<and>
     (\<not> holds is_alnum (first_char (drop k s)) \<or> \<not> is_word (s ! (k - 1))))"

lemma alnum_word: "is_alnum c \<Longrightarrow> is_word c" by (simp add: is_word_def)

lemma alnum_no_bracket: "is_alnum c \<Longrightarrow> no_bracket c"
  by (auto simp: is_alnum_def is_letter_char_def is_digit_char_def no_bracket_def)

lemma prev_self [simp]: "prev_at p s 0 = p" by (simp add: prev_at_def)

lemma ends_edge_seq: "k \<in> set (ends (Seq Edge b) p s) \<longleftrightarrow> holds is_word p \<noteq> next_word s 0 \<and> k \<in> set (ends b p s)"
  by (auto simp: next_word_def)

lemma ends_seq_edge: "k \<in> set (ends (Seq b Edge) p s) \<longleftrightarrow>
    k \<in> set (ends b p s) \<and> holds is_word (prev_at p s k) \<noteq> next_word s k"
  by (auto simp: next_word_def)

lemma fenced_cases:
  assumes "fenced r"
  obtains body where "begins body is_alnum" "only body no_bracket" "contains body outside_mark"
    "\<And>p s k. k \<in> set (ends r p s) \<Longrightarrow> k \<in> set (ends body p s)"
  using assms unfolding fenced_def by (elim exE conjE disjE) (auto simp: ends_edge_seq ends_seq_edge simp del: ends.simps)

lemma fenced_match:
  assumes "fenced r" "k \<in> set (ends r p s)"
  shows "0 < k \<and> k \<le> length s \<and> is_alnum (s ! 0) \<and> (\<forall>i < k. no_bracket (s ! i)) \<and> (\<exists>i < k. outside_mark (s ! i))"
  using assms(1)
proof (rule fenced_cases)
  fix body
  assume body: "begins body is_alnum" "only body no_bracket" "contains body outside_mark"
    "\<And>p s k. k \<in> set (ends r p s) \<Longrightarrow> k \<in> set (ends body p s)"
  then have k: "k \<in> set (ends body p s)" using assms(2) by blast
  with body(1-3) show ?thesis using ends_bound[OF k] unfolding begins_def only_def contains_def by blast
qed

lemma fenced_transfer:
  assumes r: "fenced r" "k \<in> set (ends r p s)"
    and same: "k \<le> length s'" "take k s' = take k s" "holds is_word p' = holds is_word p"
    and after: "next_word s' k = next_word s k \<or> \<not> is_word (s ! (k - 1))"
  shows "k \<in> set (ends r p' s')"
proof -
  from r(1) obtain body where body: "begins body is_alnum"
    "r = Seq Edge (Seq body Edge) \<and> stops body is_alnum \<or> r = Seq Edge body \<and> edge_free body"
    unfolding fenced_def by blast
  from body(2) show ?thesis
  proof (elim disjE conjE)
    assume shape: "r = Seq Edge (Seq body Edge)" "stops body is_alnum"
    with r(2) have "k \<in> set (ends body p s)" by (simp add: ends_edge_seq ends_seq_edge del: ends.simps)
    with shape(2) have "is_alnum (s ! (k - 1))" unfolding stops_def by blast
    with after have "next_word s' k = next_word s k" by (auto dest: alnum_word)
    with r(2) same show ?thesis by (rule_tac ends_local)
  next
    assume shape: "r = Seq Edge body" "edge_free body"
    with r(2) have k: "k \<in> set (ends body p s)" "holds is_word p \<noteq> next_word s 0"
      by (simp_all add: ends_edge_seq del: ends.simps)
    then have "0 < k" using body(1) unfolding begins_def by blast
    then have "next_word s' 0 = next_word s 0" using first_take[OF _ same(2)] by (simp add: next_word_def)
    with k same ends_free[OF shape(2) k(1) same(1,2)] show ?thesis
      unfolding shape(1) by (simp add: ends_edge_seq del: ends.simps)
  qed
qed

subsection \<open>What substitution leaves\<close>

fun occurs :: "regex \<Rightarrow> char option \<Rightarrow> string \<Rightarrow> bool" where
  "occurs r p [] \<longleftrightarrow> ends r p [] \<noteq> []"
| "occurs r p (c # cs) \<longleftrightarrow> ends r p (c # cs) \<noteq> [] \<or> occurs r (Some c) cs"

lemma occurs_drop: "occurs r (Some (s ! k)) (drop (Suc k) s) \<Longrightarrow> k < length s \<Longrightarrow> occurs r p s"
proof (induction k arbitrary: p s)
  case 0
  then show ?case by (cases s) auto
next
  case (Suc k)
  then show ?case by (cases s) (auto)
qed

lemma occurs_empty: "fenced r \<Longrightarrow> \<not> occurs r p []"
  using fenced_match[of r _ p "[]"] by (cases "ends r p []") fastforce+

lemma sub_cases:
  assumes "sealed q"
  obtains "s = []" "sub_all q p s = []"
  | c cs where "s = c # cs" "ends q p s = []" "sub_all q p s = c # sub_all q (Some c) cs"
  | k ks where "ends q p s = Suc k # ks" "Suc k \<le> length s"
      "sub_all q p s = REDACTED @ sub_all q (Some (s ! k)) (drop (Suc k) s)"
proof (cases s)
  case Nil
  then show thesis by (intro that(1)) (simp_all add: sub_all.simps)
next
  case (Cons c cs)
  show thesis
  proof (cases "ends q p s")
    case Nil
    with Cons show thesis by (intro that(2)) (simp_all add: sub_all.simps[of q p "c # cs"])
  next
    case (Cons k ks)
    with assms obtain n where n: "k = Suc n" unfolding sealed_def by (cases k) blast+
    have "k \<in> set (ends q p s)" using Cons by simp
    with n have "Suc n \<le> length s" using ends_bound by blast
    with Cons n \<open>s = c # cs\<close> show thesis by (intro that(3)[of n ks]) (simp_all add: sub_all.simps[of q p "c # cs"])
  qed
qed

lemma mark_first: "no_bracket (REDACTED ! 0) \<longleftrightarrow> False"
  by (simp add: no_bracket_def REDACTED_def)

lemma next_word_Cons: "next_word (c # s) (Suc k) = next_word s k" "next_word (c # s) 0 = is_word c"
  by (simp_all add: next_word_def holds_def first_char_def)

text \<open>Up to the first mark the text is the original one.\<close>

lemma sub_agree:
  assumes "sealed q"
  shows "k \<le> length (sub_all q p s) \<Longrightarrow> \<forall>i < k. no_bracket (sub_all q p s ! i) \<Longrightarrow>
    k \<le> length s \<and> take k (sub_all q p s) = take k s \<and>
    (next_word (sub_all q p s) k = next_word s k \<or> \<not> holds is_word (prev_at p s k))"
proof (induction s arbitrary: p k)
  case Nil
  then show ?case by (simp add: sub_all.simps)
next
  case (Cons c cs)
  from assms show ?case
  proof (rule sub_cases[of q "c # cs" p])
    fix d ds
    assume step: "c # cs = d # ds" "ends q p (c # cs) = []" "sub_all q p (c # cs) = d # sub_all q (Some d) ds"
    show ?thesis
    proof (cases k)
      case 0
      with step show ?thesis by (simp add: next_word_Cons)
    next
      case (Suc n)
      have "\<forall>i < n. no_bracket (sub_all q (Some c) cs ! i)"
      proof (intro allI impI)
        fix i
        assume "i < n"
        then show "no_bracket (sub_all q (Some c) cs ! i)" using Cons.prems(2)[rule_format, of "Suc i"] Suc step by simp
      qed
      with Cons.prems Suc step Cons.IH[of n "Some c"] show ?thesis
        by (cases n) (auto simp: next_word_Cons prev_at_def)
    qed
  next
    fix n ks
    assume hit: "ends q p (c # cs) = Suc n # ks"
      "sub_all q p (c # cs) = REDACTED @ sub_all q (Some ((c # cs) ! n)) (drop (Suc n) (c # cs))"
    have "k = 0"
    proof (rule ccontr)
      assume "k \<noteq> 0"
      then have "no_bracket ((REDACTED @ sub_all q (Some ((c # cs) ! n)) (drop (Suc n) (c # cs))) ! 0)"
        using Cons.prems(2) unfolding hit(2) by blast
      then show False by (simp add: nth_append mark_first REDACTED_def no_bracket_def)
    qed
    moreover have "\<not> holds is_word p" using assms hit(1) unfolding sealed_def by blast
    ultimately show ?thesis by simp
  qed simp
qed

text \<open>Nothing begins in the mark.\<close>

lemma occurs_append:
  assumes "\<And>i. i < length m \<Longrightarrow> ends r (prev_at p m i) (drop i m @ s) = []"
    and "m \<noteq> []" and "\<not> occurs r (Some (last m)) s"
  shows "\<not> occurs r p (m @ s)"
  using assms
proof (induction m arbitrary: p)
  case (Cons c m)
  have head: "ends r p (c # m @ s) = []" using Cons.prems(1)[of 0] by simp
  show ?case
  proof (cases m)
    case Nil
    with head Cons.prems show ?thesis by simp
  next
    case (Cons d ds)
    have "ends r (prev_at (Some c) m i) (drop i m @ s) = []" if "i < length m" for i
      using Cons.prems(1)[of "Suc i"] that by (cases i) (auto simp: prev_at_def)
    with Cons.IH[of "Some c"] Cons.prems(3) Cons head show ?thesis by simp
  qed
qed simp

lemma mark_chars:
  "length REDACTED = 10" "REDACTED ! 0 = CHR ''[''" "REDACTED ! 9 = CHR '']''"
  "\<forall>m \<in> set [1..<9]. REDACTED ! m \<in> set ''redacted''"
  by code_simp+

lemma no_match_in_mark:
  assumes "fenced r" "i < length REDACTED"
  shows "ends r p (drop i REDACTED @ s) = []"
proof (rule ccontr)
  let ?t = "drop i REDACTED @ s"
  assume "ends r p ?t \<noteq> []"
  then obtain k where "k \<in> set (ends r p ?t)" by fastforce
  from fenced_match[OF assms(1) this] obtain j where k: "is_alnum (?t ! 0)" "\<forall>n < k. no_bracket (?t ! n)" "j < k"
    "outside_mark (?t ! j)" by blast
  have nth: "?t ! n = REDACTED ! (i + n)" if "i + n < 10" for n
    using that assms(2) by (auto simp: nth_append mark_chars(1))
  have i: "i < 10" "i \<noteq> 0" "i \<noteq> 9"
    using assms(2) alnum_no_bracket[OF k(1)] nth[of 0] mark_chars(1-3) by (auto simp: no_bracket_def) (metis gr0I)
  then have "\<not> no_bracket (?t ! (9 - i))" using nth[of "9 - i"] mark_chars(3) by (simp add: no_bracket_def)
  then have "j < 9 - i" using k(2,3) by (metis not_less_iff_gr_or_eq order_less_trans)
  then have "i + j \<in> set [1..<9]" using i by simp
  then have "REDACTED ! (i + j) \<in> set ''redacted''" using mark_chars(4) by blast
  with k(4) nth[of j] \<open>j < 9 - i\<close> show False by (simp add: outside_mark_def)
qed

text \<open>The text a match leaves behind, seen from what stood before it and from what stands there now.\<close>

definition after :: "char option \<Rightarrow> char option \<Rightarrow> string \<Rightarrow> bool" where
  "after p p' s \<longleftrightarrow> holds is_word p' = holds is_word p \<or> \<not> holds is_word p' \<and> \<not> holds is_alnum (first_char s)"

lemma no_new_head:
  assumes q: "sealed q" and r: "fenced r" and p': "after p p' s"
    and none: "ends r p s = []"
  shows "ends r p' (sub_all q p s) = []"
proof (rule ccontr)
  let ?t = "sub_all q p s"
  assume "ends r p' ?t \<noteq> []"
  then obtain k where k: "k \<in> set (ends r p' ?t)" by fastforce
  from fenced_match[OF r k] have m: "0 < k" "k \<le> length ?t" "is_alnum (?t ! 0)" "\<forall>i < k. no_bracket (?t ! i)" by blast+
  from sub_agree[OF q m(2,4)] have same: "k \<le> length s" "take k ?t = take k s"
    "next_word ?t k = next_word s k \<or> \<not> holds is_word (prev_at p s k)" by blast+
  have "s ! 0 = ?t ! 0" using take_nth[OF same(2) m(1)] by simp
  then have "holds is_alnum (first_char s)" using m(1,3) same(1) by (cases s) (auto simp: first_char_def holds_def)
  with p' have "holds is_word p = holds is_word p'" unfolding after_def by blast
  moreover have "?t ! (k - 1) = s ! (k - 1)" using take_nth[OF same(2), of "k - 1"] m(1) by simp
  then have "next_word s k = next_word ?t k \<or> \<not> is_word (?t ! (k - 1))"
    using same(3) m(1) by (auto simp: prev_at_def holds_def)
  ultimately have "k \<in> set (ends r p s)" using fenced_transfer[OF r k same(1)] same(2) by simp
  with none show False by simp
qed

lemma sub_keeps_free:
  assumes q: "sealed q" and r: "fenced r"
  shows "q = r \<or> \<not> occurs r p s \<Longrightarrow> after p p' s \<Longrightarrow> \<not> occurs r p' (sub_all q p s)"
proof (induction s arbitrary: p p' rule: length_induct)
  case (1 s)
  from q show ?case
  proof (rule sub_cases[of q s p])
    assume "sub_all q p s = []"
    then show ?thesis using occurs_empty[OF r, of p'] by metis
  next
    fix c cs
    assume step: "s = c # cs" "ends q p s = []" "sub_all q p s = c # sub_all q (Some c) cs"
    then have "\<not> occurs r (Some c) (sub_all q (Some c) cs)" using 1 by (simp add: after_def) blast
    moreover have "ends r p s = []" using 1(2) step(1,2) by auto
    then have "ends r p' (sub_all q p s) = []" by (rule no_new_head[OF q r 1(3)])
    ultimately show ?thesis unfolding step(3) by simp
  next
    fix k ks
    let ?rest = "drop (Suc k) s"
    assume hit: "ends q p s = Suc k # ks" "Suc k \<le> length s" "sub_all q p s = REDACTED @ sub_all q (Some (s ! k)) ?rest"
    have "\<not> holds is_alnum (first_char ?rest) \<or> \<not> is_word (s ! k)"
      using q hit(1) unfolding sealed_def by (metis diff_Suc_1)
    then have "after (Some (s ! k)) (Some (CHR '']'')) ?rest"
      by (auto simp: after_def holds_def is_word_def is_alnum_def is_letter_char_def is_digit_char_def)
    moreover have "q = r \<or> \<not> occurs r (Some (s ! k)) ?rest" using 1(2) hit(2) occurs_drop[of r s k p] by auto
    ultimately have "\<not> occurs r (Some (CHR '']'')) (sub_all q (Some (s ! k)) ?rest)"
      using 1(1)[rule_format, of ?rest "Some (s ! k)" "Some (CHR '']'')"] hit(2) by simp
    then show ?thesis unfolding hit(3)
      by (intro occurs_append no_match_in_mark r) (simp_all add: REDACTED_def)
  qed
qed

lemma sub_free:
  assumes "sealed q" "fenced r" "q = r \<or> \<not> occurs r p s"
  shows "\<not> occurs r p (sub_all q p s)"
  using sub_keeps_free[OF assms] by (simp add: after_def)

text \<open>A text without a match is left as it is.\<close>

lemma sub_id: "\<not> occurs r p s \<Longrightarrow> sub_all r p s = s"
  by (induction s arbitrary: p) (simp_all add: sub_all.simps)

subsection \<open>The five patterns are fenced and sealed\<close>

definition seals :: "regex \<Rightarrow> bool" where
  "seals b \<longleftrightarrow> (\<forall>p s k ks. ends b p s = k # ks \<longrightarrow>
     \<not> holds is_alnum (first_char (drop k s)) \<or> 0 < k \<and> \<not> is_word (s ! (k - 1)))"

lemma first_end:
  "concat (map (\<lambda>i. map (\<lambda>j. i + j) (f i)) xs) = k # ks \<Longrightarrow> \<exists>i j js. i \<in> set xs \<and> f i = j # js \<and> k = i + (j :: nat)"
proof (induction xs)
  case (Cons i xs)
  then show ?case by (cases "f i") auto
qed simp

lemma first_end_Seq:
  assumes "ends (Seq a b) p s = k # ks"
  obtains i j js where "i \<in> set (ends a p s)" "ends b (prev_at p s i) (drop i s) = j # js" "k = i + j"
  using first_end[of "\<lambda>i. ends b (prev_at p s i) (drop i s)" "ends a p s" k ks] assms by auto

lemma seals_seq:
  assumes b: "seals b"
  shows "seals (Seq a b)"
proof -
  have "\<not> holds is_alnum (first_char (drop k s)) \<or> 0 < k \<and> \<not> is_word (s ! (k - 1))"
    if "ends (Seq a b) p s = k # ks" for p s k ks
    using that
  proof (rule first_end_Seq)
    fix i j js
    assume ij: "i \<in> set (ends a p s)" "ends b (prev_at p s i) (drop i s) = j # js" "k = i + j"
    then have "i \<le> length s" by (blast dest: ends_bound)
    moreover have "\<not> holds is_alnum (first_char (drop j (drop i s))) \<or> 0 < j \<and> \<not> is_word (drop i s ! (j - 1))"
      using b ij(2) unfolding seals_def by blast
    ultimately show ?thesis using ij(3) by (cases j) (auto simp: add.commute)
  qed
  then show ?thesis unfolding seals_def by blast
qed

lemma greedy_stop:
  assumes "\<And>c. is_alnum c \<Longrightarrow> P c"
  shows "\<not> holds is_alnum (first_char (dropWhile P s))"
proof (cases "dropWhile P s")
  case Nil
  show ?thesis unfolding Nil by (simp add: first_char_def holds_def)
next
  case (Cons c cs)
  then have "\<not> P c" using hd_dropWhile[of P s] by (metis list.distinct(1) list.sel(1))
  then have "\<not> is_alnum c" using assms by blast
  then show ?thesis unfolding Cons by (simp add: first_char_def holds_def)
qed

lemma seals_many:
  assumes "\<And>c. is_alnum c \<Longrightarrow> P c"
  shows "seals (Many lo None P)"
proof -
  have "\<not> holds is_alnum (first_char (drop k s))" if "ends (Many lo None P) p s = k # ks" for p s k ks
  proof -
    have "k = length (takeWhile P s)" using that by (auto simp: Let_def split: if_splits)
    then have "drop k s = dropWhile P s" by (simp add: dropWhile_eq_drop)
    then show ?thesis using greedy_stop[OF assms] by simp
  qed
  then show ?thesis unfolding seals_def by blast
qed

lemma seals_edge:
  assumes "stops b is_alnum"
  shows "seals (Seq b Edge)"
proof -
  have "\<not> holds is_alnum (first_char (drop k s))" if "ends (Seq b Edge) p s = k # ks" for p s k ks
  proof -
    have "k \<in> set (ends (Seq b Edge) p s)" using that by (metis list.set_intros(1))
    then have k: "k \<in> set (ends b p s)" "holds is_word (prev_at p s k) \<noteq> next_word s k" by (metis ends_seq_edge)+
    then have "0 < k" "is_alnum (s ! (k - 1))" using assms unfolding stops_def by blast+
    with k(2) have "\<not> next_word s k" by (auto simp: prev_at_def holds_def alnum_word)
    then show ?thesis by (auto simp: next_word_def holds_def alnum_word split: option.splits)
  qed
  then show ?thesis unfolding seals_def by blast
qed

lemma sealed_edge:
  assumes "begins b is_alnum" "seals b"
  shows "sealed (Seq Edge b)"
proof -
  have "0 < k \<and> \<not> holds is_word p \<and> (\<not> holds is_alnum (first_char (drop k s)) \<or> \<not> is_word (s ! (k - 1)))"
    if "ends (Seq Edge b) p s = k # ks" for p s k ks
  proof -
    have "k \<in> set (ends (Seq Edge b) p s)" using that by (metis list.set_intros(1))
    then have k: "k \<in> set (ends b p s)" "holds is_word p \<noteq> next_word s 0" by (metis ends_edge_seq)+
    then have "0 < k" "is_alnum (s ! 0)" using assms(1) unfolding begins_def by blast+
    moreover from this have "next_word s 0" using ends_bound[OF k(1)] by (subst next_word_nth) (auto simp: alnum_word)
    moreover have "\<not> holds is_alnum (first_char (drop k s)) \<or> 0 < k \<and> \<not> is_word (s ! (k - 1))"
      using seals_seq[OF assms(2), of Edge] that unfolding seals_def by blast
    ultimately show ?thesis using k(2) by blast
  qed
  then show ?thesis unfolding sealed_def by blast
qed

lemma edge_rule:
  assumes "begins body is_alnum" "stops body is_alnum" "only body no_bracket" "contains body outside_mark"
  shows "fenced (Seq Edge (Seq body Edge)) \<and> sealed (Seq Edge (Seq body Edge))"
  using assms unfolding fenced_def by (blast intro: sealed_edge seals_edge seq_begins)

lemma free_rule:
  assumes "begins body is_alnum" "only body no_bracket" "contains body outside_mark" "edge_free body" "seals body"
  shows "fenced (Seq Edge body) \<and> sealed (Seq Edge body)"
  using assms unfolding fenced_def by (blast intro: sealed_edge)

lemma literal_rules:
  "(\<And>x. f x = c \<Longrightarrow> P x) \<Longrightarrow> begins (literal f (c # cs) rest) P"
  "(\<And>c x. c \<in> set cs \<Longrightarrow> f x = c \<Longrightarrow> P x) \<Longrightarrow> only rest P \<Longrightarrow> only (literal f cs rest) P"
  "contains rest P \<Longrightarrow> contains (literal f cs rest) P"
  "edge_free rest \<Longrightarrow> edge_free (literal f cs rest)"
  "seals rest \<Longrightarrow> seals (literal f cs rest)"
proof -
  show "(\<And>x. f x = c \<Longrightarrow> P x) \<Longrightarrow> begins (literal f (c # cs) rest) P" by (auto intro!: seq_begins one_rules)
  show "(\<And>c x. c \<in> set cs \<Longrightarrow> f x = c \<Longrightarrow> P x) \<Longrightarrow> only rest P \<Longrightarrow> only (literal f cs rest) P"
    by (induction cs) (auto intro!: seq_only one_rules)
  show "contains rest P \<Longrightarrow> contains (literal f cs rest) P" by (induction cs) (auto intro: seq_contains)
  show "edge_free rest \<Longrightarrow> edge_free (literal f cs rest)" by (induction cs) auto
  show "seals rest \<Longrightarrow> seals (literal f cs rest)" by (induction cs) (auto intro: seals_seq)
qed

lemma literal_part:
  "c \<in> set cs \<Longrightarrow> (\<And>x. f x = c \<Longrightarrow> P x) \<Longrightarrow> contains (literal f cs rest) P"
  by (induction cs) (auto intro: seq_contains one_rules)

lemma char_facts:
  "is_hex c \<Longrightarrow> is_alnum c" "is_digit_char c \<Longrightarrow> is_alnum c" "is_letter_char c \<Longrightarrow> is_alnum c"
  by (auto simp: is_hex_def is_alnum_def is_letter_char_def is_digit_char_def lower_char_def Let_def split: if_splits)

lemma folded_alnum: "lower_char c = d \<Longrightarrow> is_letter_char d \<Longrightarrow> is_alnum c"
  by (auto simp: is_alnum_def is_letter_char_def lower_char_def Let_def split: if_splits)

lemma folded_plain: "lower_char c = d \<Longrightarrow> no_bracket d \<Longrightarrow> no_bracket c"
  by (auto simp: no_bracket_def lower_char_def Let_def split: if_splits)

lemma folded_mark: "lower_char c = CHR ''-'' \<Longrightarrow> outside_mark c"
  by (auto simp: outside_mark_def lower_char_def Let_def split: if_splits)

lemma separators:
  "c \<in> set '':-'' \<Longrightarrow> no_bracket c \<and> outside_mark c" "c = CHR ''.'' \<Longrightarrow> no_bracket c \<and> outside_mark c"
  "c = CHR ''-'' \<Longrightarrow> no_bracket c \<and> outside_mark c" "is_space c \<Longrightarrow> no_bracket c \<and> outside_mark c"
  by (auto simp: no_bracket_def outside_mark_def is_space_def)

lemma mac_pattern: "fenced MAC_PATTERN \<and> sealed MAC_PATTERN"
proof -
  let ?pair = "Seq hex_pair (One (\<lambda>c. c \<in> set '':-''))"
  have hex: "begins hex_pair is_alnum" "stops hex_pair is_alnum" "only hex_pair no_bracket"
    unfolding hex_pair_def by (auto intro!: many_rules dest: char_facts alnum_no_bracket)
  have "only ?pair no_bracket" using separators(1) by (intro seq_only hex one_rules) blast
  then show ?thesis unfolding MAC_PATTERN_def numeral_eq_Suc using separators(1)
    by (intro edge_rule times_rules seq_begins seq_contains disjI2 one_rules hex) blast+
qed

lemma ipv4_pattern: "fenced IPV4_PATTERN \<and> sealed IPV4_PATTERN"
proof -
  let ?group = "Seq decimal_group (One (\<lambda>c. c = CHR ''.''))"
  have dec: "begins decimal_group is_alnum" "stops decimal_group is_alnum" "only decimal_group no_bracket"
    unfolding decimal_group_def by (auto intro!: many_rules dest: char_facts alnum_no_bracket)
  have "only ?group no_bracket" using separators(2) by (intro seq_only dec one_rules) blast
  then show ?thesis unfolding IPV4_PATTERN_def numeral_eq_Suc using separators(2)
    by (intro edge_rule times_rules seq_begins seq_contains disjI2 one_rules dec) blast+
qed

lemma jwt_pattern: "fenced JWT_PATTERN \<and> sealed JWT_PATTERN"
  unfolding JWT_PATTERN_def
proof (intro free_rule)
  let ?tail = "Many 20 None (\<lambda>c. is_alnum c \<or> c \<in> set ''._-'')"
  show "begins (literal (\<lambda>c. c) ''eyJ'' ?tail) is_alnum"
    by (rule literal_rules) (simp add: is_alnum_def is_letter_char_def)
  show "only (literal (\<lambda>c. c) ''eyJ'' ?tail) no_bracket"
    by (intro literal_rules many_rules) (auto simp: no_bracket_def dest: alnum_no_bracket)
  show "contains (literal (\<lambda>c. c) ''eyJ'' ?tail) outside_mark"
    by (rule literal_part[of "CHR ''J''"]) (simp_all add: outside_mark_def)
  show "edge_free (literal (\<lambda>c. c) ''eyJ'' ?tail)" by (simp add: literal_rules)
  show "seals (literal (\<lambda>c. c) ''eyJ'' ?tail)" by (intro literal_rules seals_many) simp
qed

lemma tskey_pattern: "fenced TSKEY_PATTERN \<and> sealed TSKEY_PATTERN"
  unfolding TSKEY_PATTERN_def
proof (intro free_rule)
  let ?tail = "Seq (Many 1 None is_letter_char) (Seq (One (\<lambda>c. c = CHR ''-'')) (Many 6 None is_alnum))"
  have plain: "no_bracket c" if "c \<in> set ''tskey-''" for c
    using that by (auto simp: no_bracket_def)
  show "begins (literal lower_char ''tskey-'' ?tail) is_alnum"
    by (rule literal_rules) (auto intro!: folded_alnum simp: is_letter_char_def)
  show "only (literal lower_char ''tskey-'' ?tail) no_bracket"
  proof (rule literal_rules)
    show "no_bracket x" if "c \<in> set ''tskey-''" "lower_char x = c" for c x
      using folded_plain[OF that(2) plain[OF that(1)]] .
    show "only ?tail no_bracket"
      by (intro seq_only many_rules one_rules) (auto dest: char_facts alnum_no_bracket simp: no_bracket_def is_letter_char_def)
  qed
  show "contains (literal lower_char ''tskey-'' ?tail) outside_mark"
    by (rule literal_part[of "CHR ''-''"]) (auto intro: folded_mark)
  show "edge_free (literal lower_char ''tskey-'' ?tail)" by (simp add: literal_rules)
  show "seals (literal lower_char ''tskey-'' ?tail)" by (intro literal_rules seals_seq seals_many)
qed

lemma padded_seals:
  assumes P: "\<And>c. is_alnum c \<Longrightarrow> P c" and pad: "\<not> is_word e"
  shows "seals (Seq (Many 1 None P) (Many 0 None (\<lambda>c. c = e)))"
proof -
  have "\<not> holds is_alnum (first_char (drop k s)) \<or> 0 < k \<and> \<not> is_word (s ! (k - 1))"
    if ends: "ends (Seq (Many 1 None P) (Many 0 None (\<lambda>c. c = e))) p s = k # ks" for p s k ks
  proof -
    define n m where "n = length (takeWhile P s)" and "m = length (takeWhile (\<lambda>c. c = e) (drop n s))"
    have k: "k = n + m" "1 \<le> n"
      using ends unfolding n_def m_def by (auto simp: Let_def split: if_splits)
    show ?thesis
    proof (cases m)
      case 0
      with k(1) have "drop k s = dropWhile P s" unfolding n_def by (simp add: dropWhile_eq_drop)
      then show ?thesis using greedy_stop[of P s] P by metis
    next
      case (Suc j)
      then have j: "j < length (takeWhile (\<lambda>c. c = e) (drop n s))" by (simp add: m_def)
      then have "takeWhile (\<lambda>c. c = e) (drop n s) ! j = e" by (meson nth_mem set_takeWhileD)
      with j have "drop n s ! j = e" by (simp add: takeWhile_nth)
      moreover have "n \<le> length s" unfolding n_def by (rule length_takeWhile_le)
      ultimately have "s ! (n + j) = e" by simp
      with k Suc pad show ?thesis by simp
    qed
  qed
  then show ?thesis unfolding seals_def by blast
qed

lemma bearer_pattern: "fenced BEARER_PATTERN \<and> sealed BEARER_PATTERN"
  unfolding BEARER_PATTERN_def
proof (intro free_rule)
  let ?rest = "Seq (Many 1 None (\<lambda>c. is_alnum c \<or> c \<in> set ''._~+/-'')) (Many 0 None (\<lambda>c. c = CHR ''=''))"
  let ?tail = "Seq (Many 1 None is_space) ?rest"
  have plain: "no_bracket c" if "c \<in> set ''bearer''" for c
    using that by (auto simp: no_bracket_def)
  show "begins (literal lower_char ''bearer'' ?tail) is_alnum"
    by (rule literal_rules) (auto intro!: folded_alnum simp: is_letter_char_def)
  show "only (literal lower_char ''bearer'' ?tail) no_bracket"
  proof (rule literal_rules)
    show "no_bracket x" if "c \<in> set ''bearer''" "lower_char x = c" for c x
      using folded_plain[OF that(2) plain[OF that(1)]] .
    show "only ?tail no_bracket"
      by (intro seq_only many_rules) (auto simp: no_bracket_def dest: alnum_no_bracket separators)
  qed
  have "contains (Many 1 None is_space) outside_mark"
    unfolding contains_def ends_Many using separators(4) by (metis less_numeral_extra(1) order_less_le_trans)
  then show "contains (literal lower_char ''bearer'' ?tail) outside_mark"
    by (intro literal_rules seq_contains) blast
  show "edge_free (literal lower_char ''bearer'' ?tail)" by (simp add: literal_rules)
  show "seals (literal lower_char ''bearer'' ?tail)" by (intro literal_rules seals_seq padded_seals) (simp, code_simp)
qed

lemma all_patterns: "r \<in> set PATTERNS \<Longrightarrow> fenced r \<and> sealed r"
  using bearer_pattern mac_pattern jwt_pattern tskey_pattern ipv4_pattern by (auto simp: PATTERNS_def)

lemma scrub_step:
  "set done \<subseteq> set PATTERNS \<Longrightarrow> set rs \<subseteq> set PATTERNS \<Longrightarrow> \<forall>r \<in> set done. \<not> occurs r None s \<Longrightarrow>
   r \<in> set (done @ rs) \<Longrightarrow> \<not> occurs r None (fold (\<lambda>r s. sub_all r None s) rs s)"
proof (induction rs arbitrary: "done" s)
  case (Cons q rs)
  have "\<not> occurs r None (sub_all q None s)" if "r \<in> set (done @ [q])" for r
    using that Cons.prems by (intro sub_free) (auto dest: all_patterns)
  with Cons.IH[of "done @ [q]" "sub_all q None s"] Cons.prems show ?case by simp
qed simp

lemma scrub_text_clean: "r \<in> set PATTERNS \<Longrightarrow> \<not> occurs r None (scrub_text s)"
  unfolding scrub_text_def by (rule scrub_step[of "[]"]) simp_all

lemma scrub_text_id: "\<forall>r \<in> set PATTERNS. \<not> occurs r None s \<Longrightarrow> scrub_text s = s"
  unfolding scrub_text_def PATTERNS_def by (simp add: sub_id)

lemma scrub_text_idem: "scrub_text (scrub_text s) = scrub_text s"
  by (rule scrub_text_id) (simp add: scrub_text_clean)

lemma scrub_examples:
  "sub_all BEARER_PATTERN None ''Bearer a.c-9='' = ''[redacted]''"
  "sub_all IPV4_PATTERN None ''at 10.0.0.7'' = ''at [redacted]''"
  "sub_all MAC_PATTERN None ''aa:BB:0c:dd:ee:ff.'' = ''[redacted].''"
  by code_simp+

end
