(* ===== verification/Log_Leaks.thy ===== *)
theory Log_Leaks
  imports Log_Scrub
begin

section \<open>What must not be read in a log\<close>

text \<open>
  The five kinds of text a log must not show, said without patterns: which characters stand next
  to each other in it. A text in which no pattern of \<open>log.py\<close> occurs shows none of them, so a
  pattern that is missing or too narrow for its kind leaves one of the proofs here undone.
\<close>

subsection \<open>The five kinds\<close>

definition digits :: "char set" where "digits = set ''0123456789''"

definition hex_digits :: "char set" where "hex_digits = set ''0123456789abcdefABCDEF''"

definition letters :: "char set" where
  "letters = set ''abcdefghijklmnopqrstuvwxyzABCDEFGHIJKLMNOPQRSTUVWXYZ''"

definition stands_free :: "string \<Rightarrow> string \<Rightarrow> bool" where
  "stands_free pre post \<longleftrightarrow>
     (pre = [] \<or> last pre \<notin> letters \<union> digits \<union> {CHR ''_''}) \<and>
     (post = [] \<or> hd post \<notin> letters \<union> digits \<union> {CHR ''_''})"

text \<open>The word bearer in any case, blanks, and the first character of a credential.\<close>

definition shows_bearer :: "string \<Rightarrow> bool" where
  "shows_bearer s \<longleftrightarrow>
     (\<exists>pre word blanks c post. s = pre @ word @ blanks @ [c] @ post \<and> stands_free pre [] \<and>
        map lower_char word = ''bearer'' \<and> blanks \<noteq> [] \<and> list_all is_space blanks \<and>
        c \<in> letters \<union> digits \<union> set ''._~+/-'')"

text \<open>Six pairs of hexadecimal digits, with colons or hyphens between them.\<close>

definition shows_mac :: "string \<Rightarrow> bool" where
  "shows_mac s \<longleftrightarrow>
     (\<exists>pre pairs x y post. s = pre @ concat (map (\<lambda>(a, b, sep). [a, b, sep]) pairs) @ [x, y] @ post \<and>
        stands_free pre post \<and> length pairs = 5 \<and>
        (\<forall>(a, b, sep) \<in> set pairs. a \<in> hex_digits \<and> b \<in> hex_digits \<and> sep \<in> set '':-'') \<and>
        x \<in> hex_digits \<and> y \<in> hex_digits)"

text \<open>The beginning of a JSON web token and twenty characters of it.\<close>

definition shows_jwt :: "string \<Rightarrow> bool" where
  "shows_jwt s \<longleftrightarrow>
     (\<exists>pre body post. s = pre @ ''eyJ'' @ body @ post \<and> stands_free pre [] \<and> length body = 20 \<and>
        set body \<subseteq> letters \<union> digits \<union> set ''._-'')"

text \<open>A Tailscale key: its prefix, its kind and six characters of it.\<close>

definition shows_tskey :: "string \<Rightarrow> bool" where
  "shows_tskey s \<longleftrightarrow>
     (\<exists>pre word kind body post. s = pre @ word @ kind @ ''-'' @ body @ post \<and> stands_free pre [] \<and>
        map lower_char word = ''tskey-'' \<and> kind \<noteq> [] \<and> set kind \<subseteq> letters \<and>
        length body = 6 \<and> set body \<subseteq> letters \<union> digits)"

text \<open>Four groups of one to three digits, with dots between them.\<close>

definition decimal :: "string \<Rightarrow> bool" where
  "decimal g \<longleftrightarrow> length g \<in> {1, 2, 3} \<and> set g \<subseteq> digits"

definition shows_ipv4 :: "string \<Rightarrow> bool" where
  "shows_ipv4 s \<longleftrightarrow>
     (\<exists>pre a b c d post. s = pre @ a @ ''.'' @ b @ ''.'' @ c @ ''.'' @ d @ post \<and> stands_free pre post \<and>
        decimal a \<and> decimal b \<and> decimal c \<and> decimal d)"

definition leaks :: "string \<Rightarrow> bool" where
  "leaks s \<longleftrightarrow> shows_bearer s \<or> shows_mac s \<or> shows_jwt s \<or> shows_tskey s \<or> shows_ipv4 s"

subsection \<open>What a pattern matches\<close>

text \<open>A pattern that stands before a text, in the middle of what precedes and what follows it.\<close>

definition last_char :: "char option \<Rightarrow> string \<Rightarrow> char option" where
  "last_char p x = (if x = [] then p else Some (last x))"

definition matches :: "regex \<Rightarrow> char option \<Rightarrow> string \<Rightarrow> string \<Rightarrow> bool" where
  "matches r p x post \<longleftrightarrow> length x \<in> set (ends r p (x @ post))"

lemma last_char_simps [simp]: "last_char p [] = p" "x \<noteq> [] \<Longrightarrow> last_char p x = Some (last x)"
  by (simp_all add: last_char_def)

lemma matches_Edge: "holds is_word p \<noteq> holds is_word (first_char post) \<Longrightarrow> matches Edge p [] post"
  by (simp add: matches_def)

lemma matches_One: "P c \<Longrightarrow> matches (One P) p [c] post"
  by (simp add: matches_def holds_def first_char_def)

lemma matches_Many:
  "lo \<le> length x \<Longrightarrow> (\<And>h. hi = Some h \<Longrightarrow> length x \<le> h) \<Longrightarrow> (\<And>c. c \<in> set x \<Longrightarrow> P c) \<Longrightarrow> matches (Many lo hi P) p x post"
  unfolding matches_def ends_Many by (auto simp: nth_append)

lemma matches_Seq: "matches a p x (y @ post) \<Longrightarrow> matches b (last_char p x) y post \<Longrightarrow> matches (Seq a b) p (x @ y) post"
proof -
  assume a: "matches a p x (y @ post)" and b: "matches b (last_char p x) y post"
  have "prev_at p (x @ y @ post) (length x) = last_char p x"
    by (cases x rule: rev_cases) (simp_all add: prev_at_def nth_append)
  with a b show ?thesis
    unfolding matches_def using ends_SeqI[of "length x" a p "x @ y @ post" "length y" b] by simp
qed

lemma matches_literal:
  "map f x = cs \<Longrightarrow> matches r (last_char p x) y post \<Longrightarrow> matches (literal f cs r) p (x @ y) post"
proof (induction x arbitrary: cs p)
  case (Cons c x)
  then obtain d ds where cs: "cs = d # ds" "f c = d" "map f x = ds" by auto
  have "last_char (Some c) x = last_char p (c # x)" by (simp add: last_char_def)
  with Cons cs have "matches (literal f ds r) (last_char p [c]) (x @ y) post" by simp
  then have "matches (Seq (One (\<lambda>x. f x = d)) (literal f ds r)) p ([c] @ x @ y) post"
    using cs(2) by (intro matches_Seq matches_One) simp_all
  with cs show ?case by simp
qed simp

lemma matches_times:
  assumes "\<And>p x post. x \<in> set xs \<Longrightarrow> matches a p x post" and "[] \<notin> set xs"
    and "\<And>q. matches b q y post"
  shows "matches (times (length xs) a b) p (concat xs @ y) post"
  using assms by (induction xs arbitrary: p) (auto intro: matches_Seq)

text \<open>Where a match stands in a text, the pattern occurs in it.\<close>

lemma matches_occurs:
  assumes "matches r (last_char None pre) x post"
  shows "occurs r None (pre @ x @ post)"
proof (cases pre rule: rev_cases)
  case Nil
  with assms have "ends r None (x @ post) \<noteq> []" by (auto simp: matches_def)
  with Nil show ?thesis by (cases "x @ post") auto
next
  case (snoc ps c)
  let ?s = "pre @ x @ post"
  have "ends r (Some c) (x @ post) \<noteq> []" using assms snoc by (auto simp: matches_def)
  then have "occurs r (Some c) (x @ post)" by (cases "x @ post") auto
  with snoc have "occurs r (Some (?s ! length ps)) (drop (Suc (length ps)) ?s)" by simp
  then show ?thesis by (rule occurs_drop) (simp add: snoc)
qed

subsection \<open>A text without a match shows none of the kinds\<close>

lemma classes:
  "c \<in> letters \<longleftrightarrow> is_letter_char c" "c \<in> digits \<longleftrightarrow> is_digit_char c" "c \<in> hex_digits \<longleftrightarrow> is_hex c"
proof -
  have all: "\<forall>c :: char. (c \<in> letters \<longleftrightarrow> is_letter_char c) \<and> (c \<in> digits \<longleftrightarrow> is_digit_char c) \<and> (c \<in> hex_digits \<longleftrightarrow> is_hex c)"
    unfolding letters_def digits_def hex_digits_def by code_simp
  then show "c \<in> letters \<longleftrightarrow> is_letter_char c" "c \<in> digits \<longleftrightarrow> is_digit_char c" "c \<in> hex_digits \<longleftrightarrow> is_hex c"
    by blast+
qed

lemma word_class: "c \<in> letters \<union> digits \<union> {CHR ''_''} \<longleftrightarrow> is_word c"
  by (auto simp: classes is_word_def is_alnum_def)

lemma free_before: "stands_free pre post \<Longrightarrow> \<not> holds is_word (last_char None pre)"
  unfolding stands_free_def word_class by (auto simp: last_char_def holds_def)

lemma free_after: "stands_free pre post \<Longrightarrow> \<not> holds is_word (first_char post)"
  unfolding stands_free_def word_class by (auto simp: holds_def first_char_def split: list.splits)

lemma edge_start:
  assumes "stands_free pre post'" "is_word c" "matches r (last_char None pre) (c # x) post"
  shows "matches (Seq Edge r) (last_char None pre) (c # x) post"
proof -
  have "\<not> holds is_word (last_char None pre)" using assms(1) by (rule free_before)
  then have "matches Edge (last_char None pre) [] ((c # x) @ post)"
    using assms(2) by (intro matches_Edge) (simp add: holds_def first_char_def)
  from matches_Seq[OF this] assms(3) show ?thesis by simp
qed

lemma edge_end:
  assumes "stands_free pre post" "is_word c" "matches r p (x @ [c]) post"
  shows "matches (Seq r Edge) p (x @ [c]) post"
proof -
  have "\<not> holds is_word (first_char post)" using assms(1) by (rule free_after)
  then have "matches Edge (last_char p (x @ [c])) [] post"
    using assms(2) by (intro matches_Edge) (simp add: holds_def)
  from matches_Seq[OF _ this] assms(3) show ?thesis by simp
qed

lemma word_of: "c \<in> letters \<Longrightarrow> is_word c" "c \<in> digits \<Longrightarrow> is_word c" "c \<in> hex_digits \<Longrightarrow> is_word c"
  using char_facts by (auto simp: classes is_word_def is_alnum_def)

lemma folded_word: "map lower_char word = c # cs \<Longrightarrow> is_letter_char c \<Longrightarrow> word \<noteq> [] \<and> is_word (hd word)"
  using folded_alnum by (cases word) (auto simp: is_word_def)

lemma bearer_found: "shows_bearer s \<Longrightarrow> occurs BEARER_PATTERN None s"
proof -
  assume "shows_bearer s"
  then obtain pre word blanks c post where s: "s = pre @ word @ blanks @ [c] @ post" and free: "stands_free pre []"
    and w: "map lower_char word = ''bearer''" "blanks \<noteq> []" "list_all is_space blanks"
    "c \<in> letters \<union> digits \<union> set ''._~+/-''" unfolding shows_bearer_def by (elim exE conjE) (rule that)
  let ?tok = "Many 1 None (\<lambda>c. is_alnum c \<or> c \<in> set ''._~+/-'')"
  have "matches (Seq ?tok (Many 0 None (\<lambda>c. c = CHR ''=''))) p ([c] @ []) post" for p
    using w(4) by (intro matches_Seq matches_Many) (auto simp: classes is_alnum_def)
  then have "matches (Seq (Many 1 None is_space) (Seq ?tok (Many 0 None (\<lambda>c. c = CHR ''='')))) p (blanks @ [c]) post" for p
    using w(2,3) by (intro matches_Seq matches_Many) (auto simp: list_all_iff Suc_le_eq)
  then have m: "matches (literal lower_char ''bearer'' (Seq (Many 1 None is_space) (Seq ?tok (Many 0 None (\<lambda>c. c = CHR ''=''))))) p (word @ blanks @ [c]) post" for p
    using w(1) by (intro matches_literal)
  obtain h t where "word = h # t" and h: "is_word h" using folded_word[OF w(1)] by (cases word) (auto simp: is_letter_char_def)
  then have x: "word @ blanks @ [c] = h # t @ blanks @ [c]" and sx: "s = pre @ (h # t @ blanks @ [c]) @ post" using s by simp_all
  have "matches BEARER_PATTERN (last_char None pre) (h # t @ blanks @ [c]) post"
    unfolding BEARER_PATTERN_def using m[unfolded x] by (rule edge_start[OF free h])
  then show ?thesis unfolding sx by (rule matches_occurs)
qed

lemma jwt_found: "shows_jwt s \<Longrightarrow> occurs JWT_PATTERN None s"
proof -
  assume "shows_jwt s"
  then obtain pre body post where s: "s = pre @ (''eyJ'' @ body) @ post" and free: "stands_free pre []"
    and w: "length body = 20" "set body \<subseteq> letters \<union> digits \<union> set ''._-''" unfolding shows_jwt_def by auto
  have "matches (Many 20 None (\<lambda>c. is_alnum c \<or> c \<in> set ''._-'')) p body post" for p
    using w by (intro matches_Many) (auto simp: classes is_alnum_def)
  then have "matches (literal (\<lambda>c. c) ''eyJ'' (Many 20 None (\<lambda>c. is_alnum c \<or> c \<in> set ''._-''))) p (''eyJ'' @ body) post" for p
    by (intro matches_literal) simp_all
  then have "matches JWT_PATTERN (last_char None pre) (''eyJ'' @ body) post"
    unfolding JWT_PATTERN_def using edge_start[OF free] by (simp add: is_word_def is_alnum_def is_letter_char_def)
  then show ?thesis unfolding s by (rule matches_occurs)
qed

lemma tskey_found: "shows_tskey s \<Longrightarrow> occurs TSKEY_PATTERN None s"
proof -
  assume "shows_tskey s"
  then obtain pre word kind body post where s: "s = pre @ word @ kind @ ''-'' @ body @ post" and free: "stands_free pre []"
    and w: "map lower_char word = ''tskey-''" "kind \<noteq> []" "set kind \<subseteq> letters" "length body = 6" "set body \<subseteq> letters \<union> digits"
    unfolding shows_tskey_def by (elim exE conjE) (rule that)
  let ?key = "Seq (One (\<lambda>c. c = CHR ''-'')) (Many 6 None is_alnum)"
  have "matches ?key p (''-'' @ body) post" for p
    using w(4,5) by (intro matches_Seq matches_One matches_Many) (auto simp: classes is_alnum_def)
  then have "matches (Seq (Many 1 None is_letter_char) ?key) p (kind @ ''-'' @ body) post" for p
    using w(2,3) by (intro matches_Seq[where b = ?key] matches_Many) (auto simp: classes Suc_le_eq)
  then have m: "matches (literal lower_char ''tskey-'' (Seq (Many 1 None is_letter_char) ?key)) p (word @ kind @ ''-'' @ body) post" for p
    using w(1) by (intro matches_literal)
  obtain h t where "word = h # t" and h: "is_word h" using folded_word[OF w(1)] by (cases word) (auto simp: is_letter_char_def)
  then have x: "word @ kind @ ''-'' @ body = h # t @ kind @ ''-'' @ body" and sx: "s = pre @ (h # t @ kind @ ''-'' @ body) @ post" using s by simp_all
  have "matches TSKEY_PATTERN (last_char None pre) (h # t @ kind @ ''-'' @ body) post"
    unfolding TSKEY_PATTERN_def using m[unfolded x] by (rule edge_start[OF free h])
  then show ?thesis unfolding sx by (rule matches_occurs)
qed

lemma mac_found: "shows_mac s \<Longrightarrow> occurs MAC_PATTERN None s"
proof -
  assume "shows_mac s"
  then obtain pre pairs x y post where free: "stands_free pre post" and xy: "x \<in> hex_digits" "y \<in> hex_digits"
    and s: "s = pre @ (concat (map (\<lambda>(a, b, sep). [a, b, sep]) pairs) @ [x, y]) @ post" and len: "length pairs = 5"
    and ps: "\<forall>(a, b, sep) \<in> set pairs. a \<in> hex_digits \<and> b \<in> hex_digits \<and> sep \<in> set '':-''"
    unfolding shows_mac_def by auto
  let ?pair = "Seq hex_pair (One (\<lambda>c. c \<in> set '':-''))" and ?cells = "map (\<lambda>(a, b, sep). [a, b, sep]) pairs"
  have two: "matches hex_pair p [a, b] post" if "a \<in> hex_digits" "b \<in> hex_digits" for a b p post
    unfolding hex_pair_def using that by (intro matches_Many) (auto simp: classes)
  have "matches ?pair p c post" if "c \<in> set ?cells" for c p post
  proof -
    from that ps obtain a b sep where c: "c = [a, b] @ [sep]" "a \<in> hex_digits" "b \<in> hex_digits" "sep \<in> set '':-''" by fastforce
    then show ?thesis unfolding c(1) by (intro matches_Seq two matches_One) simp_all
  qed
  then have "matches (times (length ?cells) ?pair hex_pair) p (concat ?cells @ [x, y]) post" for p
    by (intro matches_times two xy) auto
  then have m: "matches (times 5 ?pair hex_pair) p ((concat ?cells @ [x]) @ [y]) post" for p using len by simp
  obtain a b sep ps' where "pairs = (a, b, sep) # ps'" using len by (cases pairs) auto
  then obtain t where t: "concat ?cells @ [x, y] = a # t" "a \<in> hex_digits" using ps by auto
  have "matches (Seq (times 5 ?pair hex_pair) Edge) p (a # t) post" for p
    using edge_end[OF free word_of(3)[OF xy(2)] m] t(1) by simp
  then have "matches MAC_PATTERN (last_char None pre) (a # t) post"
    unfolding MAC_PATTERN_def using free word_of(3)[OF t(2)] by (intro edge_start)
  then show ?thesis unfolding s t(1) by (rule matches_occurs)
qed

lemma ipv4_found: "shows_ipv4 s \<Longrightarrow> occurs IPV4_PATTERN None s"
proof -
  assume "shows_ipv4 s"
  then obtain pre a b c d post where free: "stands_free pre post" and
    s: "s = pre @ (concat [a @ ''.'', b @ ''.'', c @ ''.''] @ d) @ post"
    and g: "decimal a" "decimal b" "decimal c" "decimal d" unfolding shows_ipv4_def by auto
  let ?group = "Seq decimal_group (One (\<lambda>c. c = CHR ''.''))" and ?gs = "[a @ ''.'', b @ ''.'', c @ ''.'']"
  have dec: "matches decimal_group p g post" if "decimal g" for g p post
    unfolding decimal_group_def using that by (intro matches_Many) (auto simp: decimal_def classes)
  have "matches ?group p x post" if "x \<in> set ?gs" for x p post
    using that g by (auto intro!: matches_Seq dec matches_One)
  then have "matches (times (length ?gs) ?group decimal_group) p (concat ?gs @ d) post" for p
    by (intro matches_times dec g) auto
  then have m: "matches (times 3 ?group decimal_group) p (concat ?gs @ d) post" for p by (simp add: numeral_3_eq_3)
  obtain h t where h: "a = h # t" "h \<in> digits" using g(1) by (cases a) (auto simp: decimal_def)
  obtain u z where z: "d = u @ [z]" "z \<in> digits" using g(4) by (cases d rule: rev_cases) (auto simp: decimal_def)
  have "matches (Seq (times 3 ?group decimal_group) Edge) p ((concat ?gs @ u) @ [z]) post" for p
    using m z by (intro edge_end[OF free] word_of(2)) simp_all
  then have "matches IPV4_PATTERN (last_char None pre) (concat ?gs @ d) post"
    unfolding IPV4_PATTERN_def h z using free word_of(2)[OF h(2)] edge_start by simp
  then show ?thesis unfolding s by (rule matches_occurs)
qed

lemma scrubbed_shows_nothing: "\<not> leaks (scrub_text s)"
proof -
  have "\<not> occurs r None (scrub_text s)" if "r \<in> {BEARER_PATTERN, MAC_PATTERN, JWT_PATTERN, TSKEY_PATTERN, IPV4_PATTERN}" for r
    using that by (intro scrub_text_clean) (auto simp: PATTERNS_def)
  then show ?thesis
    unfolding leaks_def using bearer_found mac_found jwt_found tskey_found ipv4_found by blast
qed

end
