(* ===== verification/Log_Redaction.thy ===== *)
theory Log_Redaction
  imports Log_Leaks Ordered_Dict Text_Format
begin

section \<open>What reaches the log\<close>

text \<open>
  \<open>redact\<close> of \<open>log.py\<close>, through which every field of a log record goes, and the record that is
  written. A logged value is JSON-like, bytes, or another object, of which only \<open>str(value)\<close>
  matters; keys of a mapping are text, as those of keyword arguments and of the payloads that are
  logged. \<open>str.lower\<close> is on ASCII text. The JSON text of the record is left to the standard library.
\<close>

datatype log_value =
    LogNull
  | LogBool bool
  | LogInt int
  | LogFloat rat
  | LogText string
  | LogBytes "byte list"
  | LogList "log_value list"
  | LogMap "(string \<times> log_value) list"
  | LogObject string

definition SENSITIVE_KEYS :: "string list" where
  "SENSITIVE_KEYS =
     [''authorization'', ''token'', ''access_token'', ''refresh_token'', ''id_token'',
      ''client_secret'', ''secret'', ''password'', ''passwd'', ''api_key'', ''apikey'', ''cookie'',
      ''set-cookie'', ''mac'', ''bssid'', ''ssid'', ''uid'', ''serial'', ''serial_number'',
      ''device_uid'', ''entity_id'', ''provider_entity_id'', ''provider_device_id'',
      ''provider_id'', ''email'', ''address'', ''latitude'', ''longitude'', ''resident'',
      ''resident_name'', ''camera_url'', ''stream_url'', ''snapshot_url'', ''signed_url'',
      ''tailnet'', ''hostname'', ''host'', ''ip'', ''ip_address'']"

definition SENSITIVE_SUFFIXES :: "string list" where
  "SENSITIVE_SUFFIXES =
     [''_token'', ''_secret'', ''_password'', ''_key'', ''_uid'', ''_mac'', ''_email'', ''_url'']"

definition ends_with :: "string \<Rightarrow> string \<Rightarrow> bool" where
  "ends_with s suffix \<longleftrightarrow> length suffix \<le> length s \<and> drop (length s - length suffix) s = suffix"

definition is_sensitive_key :: "string \<Rightarrow> bool" where
  "is_sensitive_key key \<longleftrightarrow>
     (let lowered = py_casefold key in
      lowered \<in> set SENSITIVE_KEYS \<or> list_ex (ends_with lowered) SENSITIVE_SUFFIXES)"

fun redact :: "log_value \<Rightarrow> log_value" where
  "redact (LogMap items) =
     LogMap (map (\<lambda>(k, v). (k, if is_sensitive_key k then LogText REDACTED else redact v)) items)"
| "redact (LogText s) = LogText (scrub_text s)"
| "redact (LogList vs) = LogList (map redact vs)"
| "redact (LogBytes bs) = LogText REDACTED"
| "redact v = v"

text \<open>\<open>StructuredLogger._log\<close>: the fields of a record are redacted as one mapping.\<close>

definition record_fields :: "(string \<times> log_value) list \<Rightarrow> log_value" where
  "record_fields fields = redact (LogMap fields)"

text \<open>
  A record of the \<open>logging\<close> module: when it was made, its level, its message, its logger, the
  fields of \<open>homeflow_fields\<close>, and what is known of an exception: nothing, that there is one, or
  its type.
\<close>

record log_record =
  lr_created :: datetime
  lr_levelname :: string
  lr_message :: string
  lr_name :: string
  lr_fields :: log_value
  lr_exc_info :: "string option option"

text \<open>\<open>json.dumps\<close> with \<open>default=str\<close>: an object it does not know is written as its text.\<close>

fun written :: "log_value \<Rightarrow> log_value" where
  "written (LogObject s) = LogText s"
| "written (LogList vs) = LogList (map written vs)"
| "written (LogMap items) = LogMap (map (\<lambda>(k, v). (k, written v)) items)"
| "written v = v"

text \<open>\<open>JsonFormatter.format\<close>, up to the JSON text of the payload.\<close>

definition format_payload :: "log_record \<Rightarrow> log_value" where
  "format_payload r =
     (let payload =
            [(''timestamp'', LogText (isoformat (lr_created r))), (''level'', LogText (lr_levelname r)),
             (''event'', LogText (lr_message r)), (''logger'', LogText (lr_name r))];
          payload = (case lr_fields r of LogMap items \<Rightarrow> fold (\<lambda>(k, v). od_set k v) items payload | _ \<Rightarrow> payload);
          payload = (case lr_exc_info r of
                       None \<Rightarrow> payload
                     | Some t \<Rightarrow> od_set ''error_type'' (LogText (case t of None \<Rightarrow> ''unknown'' | Some n \<Rightarrow> n)) payload)
      in written (LogMap payload))"

text \<open>\<open>StructuredLogger._log\<close> and \<open>exception\<close>: a record below the level of the logger is not made.\<close>

definition log_call :: "bool \<Rightarrow> datetime \<Rightarrow> string \<Rightarrow> string \<Rightarrow> string \<Rightarrow> (string \<times> log_value) list \<Rightarrow>
    string option option \<Rightarrow> log_record option" where
  "log_call enabled now name level event given exc_info =
     (if \<not> enabled then None
      else Some \<lparr>lr_created = now, lr_levelname = level, lr_message = event, lr_name = name,
                 lr_fields = record_fields given, lr_exc_info = exc_info\<rparr>)"

text \<open>
  \<open>configure_logging\<close>: the root logger is left with one handler, the one that writes JSON; whatever
  stood there before, and would have written fields its own way, is gone.
\<close>

datatype formatter = JsonFormatter | OtherFormatter

record root_logger =
  lg_handlers :: "formatter list"
  lg_level :: string

definition upper_char :: "char \<Rightarrow> char" where
  "upper_char c = (let n = (of_char c :: nat) in if 97 \<le> n \<and> n \<le> 122 then char_of (n - 32) else c)"

definition configure_logging :: "string \<Rightarrow> root_logger \<Rightarrow> root_logger" where
  "configure_logging level lg =
     (let lg = lg\<lparr>lg_handlers := []\<rparr>;
          lg = lg\<lparr>lg_handlers := lg_handlers lg @ [JsonFormatter]\<rparr>
      in lg\<lparr>lg_level := map upper_char level\<rparr>)"

text \<open>\<open>pseudonymize\<close>, over the hexadecimal digest of the salted \<open>hmac\<close>.\<close>

definition pseudonymize :: "(string \<Rightarrow> string) \<Rightarrow> string \<Rightarrow> string" where
  "pseudonymize hexdigest value = ''px_'' @ take 16 (hexdigest value)"

subsection \<open>What the log may show\<close>

text \<open>
  The names of fields nothing may be shown of, in any case: of credentials, of what identifies a
  device, a person or a place, and every name that ends as one of these.
\<close>

definition credential_names :: "string set" where
  "credential_names =
     {''authorization'', ''token'', ''access_token'', ''refresh_token'', ''id_token'', ''client_secret'',
      ''secret'', ''password'', ''passwd'', ''api_key'', ''apikey'', ''cookie'', ''set-cookie''}"

definition device_names :: "string set" where
  "device_names =
     {''mac'', ''bssid'', ''ssid'', ''uid'', ''serial'', ''serial_number'', ''device_uid'', ''entity_id'',
      ''provider_entity_id'', ''provider_device_id'', ''provider_id''}"

definition personal_names :: "string set" where
  "personal_names =
     {''email'', ''address'', ''latitude'', ''longitude'', ''resident'', ''resident_name'', ''camera_url'',
      ''stream_url'', ''snapshot_url'', ''signed_url''}"

definition network_names :: "string set" where
  "network_names = {''tailnet'', ''hostname'', ''host'', ''ip'', ''ip_address''}"

definition private_name :: "string \<Rightarrow> bool" where
  "private_name k \<longleftrightarrow>
     map lower_char k \<in> credential_names \<union> device_names \<union> personal_names \<union> network_names \<or>
     (\<exists>stem. map lower_char k \<in> (\<lambda>suffix. stem @ suffix) `
        {''_token'', ''_secret'', ''_password'', ''_key'', ''_uid'', ''_mac'', ''_email'', ''_url''})"

text \<open>
  Two values that agree in everything but what stands, at any depth, under a private name, or
  is bytes.
\<close>

inductive public_eq :: "log_value \<Rightarrow> log_value \<Rightarrow> bool" where
  pe_refl: "public_eq v v"
| pe_bytes: "public_eq (LogBytes bs) (LogBytes cs)"
| pe_list: "list_all2 public_eq vs ws \<Longrightarrow> public_eq (LogList vs) (LogList ws)"
| pe_map: "list_all2 (\<lambda>x y. fst x = fst y \<and> (private_name (fst x) \<or> public_eq (snd x) (snd y))) xs ys \<Longrightarrow>
    public_eq (LogMap xs) (LogMap ys)"

text \<open>
  The texts that stand in a value, whether it has bytes, and, outside of private names, the texts
  of its objects and the names of its fields.
\<close>

fun texts :: "log_value \<Rightarrow> string list" where
  "texts (LogText s) = [s]"
| "texts (LogList vs) = concat (map texts vs)"
| "texts (LogMap items) = concat (map (\<lambda>(k, v). texts v) items)"
| "texts v = []"

fun has_bytes :: "log_value \<Rightarrow> bool" where
  "has_bytes (LogBytes bs) = True"
| "has_bytes (LogList vs) = list_ex has_bytes vs"
| "has_bytes (LogMap items) = list_ex (\<lambda>(k, v). has_bytes v) items"
| "has_bytes v = False"

fun objects :: "log_value \<Rightarrow> string set" where
  "objects (LogObject s) = {s}"
| "objects (LogList vs) = \<Union> (set (map objects vs))"
| "objects (LogMap items) = \<Union> (set (map (\<lambda>(k, v). if private_name k then {} else objects v) items))"
| "objects v = {}"

fun names :: "log_value \<Rightarrow> string set" where
  "names (LogList vs) = \<Union> (set (map names vs))"
| "names (LogMap items) = \<Union> (set (map (\<lambda>(k, v). insert k (if private_name k then {} else names v)) items))"
| "names v = {}"

lemma ends_with_iff: "ends_with s suffix \<longleftrightarrow> (\<exists>stem. s = stem @ suffix)"
  by (auto simp: ends_with_def) (metis append_take_drop_id)

lemma private_sensitive: "is_sensitive_key k \<longleftrightarrow> private_name k"
proof -
  have "set SENSITIVE_KEYS = credential_names \<union> device_names \<union> personal_names \<union> network_names"
    unfolding SENSITIVE_KEYS_def credential_names_def device_names_def personal_names_def network_names_def
    by (simp only: list.set Un_insert_left Un_empty_left)
  moreover have "list_ex (ends_with s) SENSITIVE_SUFFIXES \<longleftrightarrow> (\<exists>stem. s \<in> (\<lambda>suffix. stem @ suffix) `
      {''_token'', ''_secret'', ''_password'', ''_key'', ''_uid'', ''_mac'', ''_email'', ''_url''})" for s
    unfolding SENSITIVE_SUFFIXES_def by (simp add: ends_with_iff ex_disj_distrib)
  ultimately show ?thesis
    unfolding is_sensitive_key_def private_name_def Let_def py_casefold_def by simp
qed

lemma mark_shows_nothing: "\<not> leaks REDACTED"
proof -
  have "scrub_text REDACTED = REDACTED" by code_simp
  then show ?thesis using scrubbed_shows_nothing by metis
qed

lemma redact_public: "public_eq v w \<Longrightarrow> redact v = redact w"
proof (induction rule: public_eq.induct)
  case (pe_list vs ws)
  then show ?case by (auto simp: list_all2_conv_all_nth intro: nth_equalityI)
next
  case (pe_map xs ys)
  then have len: "length xs = length ys" by (auto dest: list_all2_lengthD)
  have "fst (xs ! i) = fst (ys ! i) \<and> (private_name (fst (ys ! i)) \<or>
      redact (snd (xs ! i)) = redact (snd (ys ! i)))" if "i < length ys" for i
    using pe_map that by (auto simp: list_all2_conv_all_nth)
  with len show ?case
    unfolding redact.simps case_prod_unfold private_sensitive
    by (intro arg_cong[where f = LogMap] nth_equalityI) auto
qed simp_all

text \<open>
  What is written of a redacted value: texts that show nothing, the texts of its objects as they
  stand, and the names of its fields as they stand.
\<close>

lemma written_texts: "set (texts (written (redact v))) \<subseteq> {t. \<not> leaks t} \<union> objects v"
proof (induction v)
  case (LogMap items)
  then show ?case by (fastforce simp: mark_shows_nothing private_sensitive split: if_splits)
qed (use scrubbed_shows_nothing mark_shows_nothing in auto)

lemma written_objects: "objects v \<subseteq> set (texts (written (redact v)))"
proof (induction v)
  case (LogMap items)
  then have "s \<in> set (texts (written (redact (LogMap items))))"
    if "(k, v) \<in> set items" "\<not> private_name k" "s \<in> objects v" for s k v
    using that by (auto simp: private_sensitive intro!: bexI[of _ "(k, v)"]) blast
  then show ?case by (auto simp del: redact.simps split: if_splits)
qed auto

lemma written_names: "names (written (redact v)) = names v"
proof (induction v)
  case (LogMap items)
  then have "names (written (redact v)) = names v" if "(k, v) \<in> set items" for k v
    using that by simp
  then have "(\<lambda>(k, v). insert k (if private_name k then {} else names (written (if private_name k then LogText REDACTED else redact v)))) x =
      (\<lambda>(k, v). insert k (if private_name k then {} else names v)) x" if "x \<in> set items" for x
    using that by (cases x) simp
  then have "\<Union> ((\<lambda>(k, v). insert k (if private_name k then {} else names (written (if private_name k then LogText REDACTED else redact v)))) ` set items) =
      \<Union> ((\<lambda>(k, v). insert k (if private_name k then {} else names v)) ` set items)"
    by (rule SUP_cong[OF refl])
  then show ?case by (simp add: private_sensitive comp_def image_image case_prod_unfold cong: if_cong)
qed auto

lemma written_no_bytes: "\<not> has_bytes (written (redact v))"
proof (induction v)
  case (LogMap items)
  then show ?case by (fastforce simp: list_ex_iff split: if_splits)
qed (auto simp: list_ex_iff)

text \<open>The texts of a payload are those its fields bring, and those it had.\<close>

lemma od_set_items: "set (od_set k v d) \<subseteq> insert (k, v) (set d)"
  unfolding od_set_def by (induction d) auto

lemma fold_items: "set (fold (\<lambda>(k, v). od_set k v) items d) \<subseteq> set items \<union> set d"
proof (induction items arbitrary: d)
  case (Cons x items)
  obtain k v where "x = (k, v)" by (rule prod.exhaust)
  with Cons[of "od_set k v d"] od_set_items[of k v d] show ?case by auto
qed simp

definition error_texts :: "string option option \<Rightarrow> string set" where
  "error_texts exc_info = (case exc_info of None \<Rightarrow> {} | Some None \<Rightarrow> {''unknown''} | Some (Some n) \<Rightarrow> {n})"

lemma payload_items:
  assumes "log_call enabled now name level event given exc_info = Some r"
  obtains items where "format_payload r = written (LogMap items)"
    and "\<And>k v. (k, v) \<in> set items \<Longrightarrow>
      v \<in> LogText ` ({isoformat now, level, event, name} \<union> error_texts exc_info) \<or>
      (\<exists>fields. record_fields given = LogMap fields \<and> (k, v) \<in> set fields)"
proof -
  obtain fields where f: "record_fields given = LogMap fields" by (simp add: record_fields_def)
  have r: "lr_created r = now" "lr_levelname r = level" "lr_message r = event" "lr_name r = name"
    "lr_fields r = LogMap fields" "lr_exc_info r = exc_info"
    using assms f by (auto simp: log_call_def split: if_splits)
  define base where "base =
    [(''timestamp'', LogText (isoformat now)), (''level'', LogText level), (''event'', LogText event), (''logger'', LogText name)]"
  define full where "full = fold (\<lambda>(k, v). od_set k v) fields base"
  define all where "all = (case exc_info of None \<Rightarrow> full
    | Some t \<Rightarrow> od_set ''error_type'' (LogText (case t of None \<Rightarrow> ''unknown'' | Some n \<Rightarrow> n)) full)"
  have "format_payload r = written (LogMap all)"
    unfolding format_payload_def all_def full_def base_def r Let_def log_value.case ..
  moreover have "set full \<subseteq> set fields \<union> set base" unfolding full_def by (rule fold_items)
  then have "(k, v) \<in> set fields \<or> v \<in> LogText ` ({isoformat now, level, event, name} \<union> error_texts exc_info)"
    if "(k, v) \<in> set all" for k v
    using that od_set_items[of "''error_type''" _ full]
    by (auto simp: all_def base_def error_texts_def split: option.splits dest!: subsetD)
  ultimately show thesis using that f by blast
qed

lemma payload_texts:
  assumes "log_call enabled now name level event given exc_info = Some r"
  shows "set (texts (format_payload r)) \<subseteq>
      {isoformat now, level, event, name} \<union> error_texts exc_info \<union> {t. \<not> leaks t} \<union> objects (LogMap given)"
    and "\<not> has_bytes (format_payload r)"
proof -
  obtain items where fp: "format_payload r = written (LogMap items)" and
    it: "\<And>k v. (k, v) \<in> set items \<Longrightarrow>
      v \<in> LogText ` ({isoformat now, level, event, name} \<union> error_texts exc_info) \<or>
      (\<exists>fields. record_fields given = LogMap fields \<and> (k, v) \<in> set fields)"
    using payload_items[OF assms] by metis
  have field: "set (texts (written v)) \<subseteq> set (texts (written (record_fields given)))"
      "has_bytes (written v) \<Longrightarrow> has_bytes (written (record_fields given))"
    if "record_fields given = LogMap fields" "(k, v) \<in> set fields" for fields k v
    using that(2) unfolding that(1) by (force simp: list_ex_iff)+
  have "set (texts (written v)) \<subseteq>
      {isoformat now, level, event, name} \<union> error_texts exc_info \<union> {t. \<not> leaks t} \<union> objects (LogMap given) \<and>
      \<not> has_bytes (written v)" if "(k, v) \<in> set items" for k v
    using it[OF that]
  proof
    assume "\<exists>fields. record_fields given = LogMap fields \<and> (k, v) \<in> set fields"
    then show ?thesis
      using field[of _ k v] written_texts[of "LogMap given"] written_no_bytes[of "LogMap given"]
      unfolding record_fields_def[symmetric] by blast
  qed auto
  then show "set (texts (format_payload r)) \<subseteq>
      {isoformat now, level, event, name} \<union> error_texts exc_info \<union> {t. \<not> leaks t} \<union> objects (LogMap given)"
    and "\<not> has_bytes (format_payload r)" unfolding fp by (fastforce simp: list_ex_iff)+
qed

text \<open>
  C37. What stands under a private name does not reach the log. Two calls whose fields differ only
  there, at any depth and in whatever case the name is written, or in bytes, make the same
  record and write the same line. In the line that is written, the texts besides the time, the
  level, the event, the logger and the type of an exception show no bearer credential, MAC
  address, JSON web token, Tailscale key or IPv4 address, except for the texts of objects the
  standard library writes: those stand in the line as they are, as do the names of the fields
  themselves, although the module promises that no call site can leak a value.
\<close>

theorem log_hides_sensitive:
  assumes "public_eq (LogMap given) (LogMap given')"
  shows "map_option format_payload (log_call enabled now name level event given exc_info) =
      map_option format_payload (log_call enabled now name level event given' exc_info) \<and>
    (\<forall>r. log_call enabled now name level event given exc_info = Some r \<longrightarrow>
      set (texts (format_payload r)) \<subseteq>
        {isoformat now, level, event, name} \<union> error_texts exc_info \<union> {t. \<not> leaks t} \<union> objects (LogMap given) \<and>
      \<not> has_bytes (format_payload r)) \<and>
    objects (LogMap given) \<subseteq> set (texts (written (record_fields given))) \<and>
    names (written (record_fields given)) = names (LogMap given)"
proof -
  have "record_fields given = record_fields given'"
    unfolding record_fields_def by (rule redact_public[OF assms])
  then show ?thesis
    using payload_texts written_objects[of "LogMap given"] written_names[of "LogMap given"]
    unfolding log_call_def record_fields_def[symmetric] by auto
qed

text \<open>
  A name in capitals, and an address in a text, in an object and as a name: the first two are
  hidden, the last two are written.
\<close>

theorem log_hides_sensitive_witness:
  "map_option format_payload (log_call True 0 ''homeflow'' ''INFO'' ''ready''
     [(''device'', LogMap [(''Entity_ID'', LogText ''light.bedroom'')]), (''peer'', LogText ''at 10.0.0.7''),
      (''from'', LogObject ''10.0.0.8'')] None) =
   map_option format_payload (log_call True 0 ''homeflow'' ''INFO'' ''ready''
     [(''device'', LogMap [(''Entity_ID'', LogText ''lock.door'')]), (''peer'', LogText ''at 10.0.0.7''),
      (''from'', LogObject ''10.0.0.8'')] None) \<and>
   record_fields [(''device'', LogMap [(''Entity_ID'', LogText ''light.bedroom'')]), (''peer'', LogText ''at 10.0.0.7''),
      (''from'', LogObject ''10.0.0.8'')] =
     LogMap [(''device'', LogMap [(''Entity_ID'', LogText REDACTED)]), (''peer'', LogText ''at [redacted]''),
      (''from'', LogObject ''10.0.0.8'')] \<and>
   shows_ipv4 ''at 10.0.0.7'' \<and> shows_ipv4 ''10.0.0.8''"
proof -
  let ?rest = "[(''peer'', LogText ''at 10.0.0.7''), (''from'', LogObject ''10.0.0.8'')]"
  have key: "is_sensitive_key ''Entity_ID''" "\<not> is_sensitive_key ''device''" "\<not> is_sensitive_key ''peer''"
    "\<not> is_sensitive_key ''from''" "scrub_text ''at 10.0.0.7'' = ''at [redacted]''" by code_simp+
  then have "public_eq (LogMap [(''Entity_ID'', LogText ''light.bedroom'')]) (LogMap [(''Entity_ID'', LogText ''lock.door'')])"
    by (intro pe_map) (simp add: private_sensitive[symmetric])
  then have "public_eq (LogMap ((''device'', LogMap [(''Entity_ID'', LogText ''light.bedroom'')]) # ?rest))
      (LogMap ((''device'', LogMap [(''Entity_ID'', LogText ''lock.door'')]) # ?rest))"
    by (intro pe_map) (simp add: pe_refl)
  note same = log_hides_sensitive[OF this, of True 0 "''homeflow''" "''INFO''" "''ready''" None]
  have "shows_ipv4 ''at 10.0.0.7''" unfolding shows_ipv4_def decimal_def stands_free_def
    by (rule exI[of _ "''at ''"], rule exI[of _ "''10''"], rule exI[of _ "''0''"], rule exI[of _ "''0''"],
        rule exI[of _ "''7''"], rule exI[of _ "[]"]) code_simp
  moreover have "shows_ipv4 ''10.0.0.8''" unfolding shows_ipv4_def decimal_def stands_free_def
    by (rule exI[of _ "[]"], rule exI[of _ "''10''"], rule exI[of _ "''0''"], rule exI[of _ "''0''"],
        rule exI[of _ "''8''"], rule exI[of _ "[]"]) code_simp
  ultimately show ?thesis using same key by (simp add: record_fields_def)
qed

text \<open>An object is written as its text, which nothing scrubs: an address object shows the address.\<close>

lemma object_bypasses_scrubber: "written (redact (LogObject s)) = LogText s"
  by simp

end
