(* ===== verification/Stream_Session.thy ===== *)
theory Stream_Session
  imports Api_Properties
begin

section \<open>One live connection\<close>

text \<open>
  \<open>stream\<close> of \<open>api/v1/ws.py\<close> after the handshake: the reader and the writer task of one connection,
  interleaved with events that are published and with the peer leaving. The handler waits for both
  tasks, so it closes the connection only once both have ended. A frame can be sent as long as the
  peer is there; the writer's wait for an event times out only while its queue is empty.
\<close>

record session =
  sn_subscription :: "domain_event subscription"
  sn_container :: container
  sn_budget :: rate_limiter
  sn_reader :: "reader_end option"
  sn_writing :: bool
  sn_sent :: "out_frame list"
  sn_peer :: bool

definition new_session :: "container \<Rightarrow> session" where
  "new_session c =
     \<lparr>sn_subscription = new_subscription (nat (st_event_queue_size (ct_settings c))), sn_container = c,
      sn_budget = new_rate_limiter (st_websocket_rate_limit_per_minute (ct_settings c)) None MAX_RATE_KEYS,
      sn_reader = None, sn_writing = True, sn_sent = [], sn_peer = True\<rparr>"

text \<open>The reader ends in \<open>finally\<close>: the subscription is closed, whatever ended it.\<close>

definition end_reading :: "reader_end \<Rightarrow> session \<Rightarrow> session" where
  "end_reading e s = s\<lparr>sn_reader := Some e, sn_subscription := close_queue (sn_subscription s)\<rparr>"

definition read_text :: "datetime \<Rightarrow> inbound \<Rightarrow> session \<Rightarrow> session" where
  "read_text t m s =
     (let (ok, rl) = allow (sn_budget s) ''inbound'' t; s1 = s\<lparr>sn_budget := rl\<rparr> in
      if \<not> ok \<or> MAX_INBOUND < in_length m then end_reading (PolicyClose CLOSE_POLICY_VIOLATION) s1
      else
        (case check_inbound m of
           Refused \<Rightarrow> end_reading (PolicyClose CLOSE_POLICY_VIOLATION) s1
         | Unhashable \<Rightarrow> end_reading ReaderCrash s1
         | Heartbeat \<Rightarrow> s1))"

definition write_turn :: "session \<Rightarrow> session" where
  "write_turn s =
     (case forward_turn (\<lambda>_. sn_peer s) (sub_queue (sn_subscription s) = []) (sn_subscription s, sn_container s) of
        (fs, go, sub, c) \<Rightarrow>
          s\<lparr>sn_subscription := sub, sn_container := c, sn_writing := go,
            sn_sent := sn_sent s @ (if sn_peer s then fs else [])\<rparr>)"

inductive session_step :: "session \<Rightarrow> session \<Rightarrow> bool" where
  session_event:
    "session_step s (s\<lparr>sn_subscription := offer e (sn_subscription s), sn_container := c\<rparr>)"
| session_leave: "session_step s (s\<lparr>sn_peer := False\<rparr>)"
| session_read: "sn_reader s = None \<Longrightarrow> sn_peer s \<Longrightarrow> session_step s (read_text t m s)"
| session_disconnect: "sn_reader s = None \<Longrightarrow> \<not> sn_peer s \<Longrightarrow> session_step s (end_reading PeerGone s)"
| session_write: "sn_writing s \<Longrightarrow> session_step s (write_turn s)"

abbreviation session_runs :: "session \<Rightarrow> session \<Rightarrow> bool" where
  "session_runs \<equiv> session_step\<^sup>*\<^sup>*"

text \<open>What the handler does with the connection once both tasks have ended.\<close>

datatype handler_end = ClosesWith int | Returns | Raises

definition handler_end :: "session \<Rightarrow> handler_end option" where
  "handler_end s =
     (if sn_writing s then None
      else map_option (\<lambda>e. case e of PolicyClose code \<Rightarrow> ClosesWith code | PeerGone \<Rightarrow> Returns | ReaderCrash \<Rightarrow> Raises)
        (sn_reader s))"

subsection \<open>A writer without an end marker\<close>

text \<open>
  A connection whose reader has ended but whose queue holds no end marker: what the writer is left
  with when the subscription was closed while its queue was full.
\<close>

definition unmarked :: "session \<Rightarrow> bool" where
  "unmarked s \<longleftrightarrow> sn_reader s \<noteq> None \<and> sn_writing s \<and> sub_closed (sn_subscription s) \<and>
     None \<notin> set (sub_queue (sn_subscription s))"

lemma forward_turn_empty:
  "forward_turn deliver True (s, c) =
     (let (now, c1) = container_now c in ([PingFrame now], deliver (PingFrame now), s, c1))"
  by (simp add: forward_turn_def)

lemma forward_turn_event:
  assumes "sub_queue sub = Some e # q" and "\<And>f. deliver f"
  shows "forward_turn deliver False (sub, c) =
    ((if sub_lagged sub then [ResyncFrame] else []) @ [EventFrame (fst (frame_of e c))], True,
     sub\<lparr>sub_queue := q, sub_lagged := False\<rparr>, snd (frame_of e c))"
  using assms
  by (simp add: forward_turn_def anext_def get_nowait_def take_lagged_def case_prod_unfold Let_def)

lemma peer_write [simp]: "sn_peer (write_turn s) = sn_peer s"
  by (simp add: write_turn_def case_prod_unfold)

lemma unmarked_write:
  assumes "unmarked s" and "sn_peer s"
  shows "unmarked (write_turn s)"
proof (cases "sub_queue (sn_subscription s)")
  case Nil
  with assms show ?thesis by (simp add: unmarked_def write_turn_def forward_turn_empty case_prod_unfold Let_def)
next
  case (Cons x q)
  with assms(1) obtain e where x: "x = Some e" by (cases x) (auto simp: unmarked_def)
  with assms Cons show ?thesis
    by (simp add: unmarked_def write_turn_def forward_turn_event[of "sn_subscription s" e q])
qed

lemma unmarked_step:
  assumes "session_step s s'" and "unmarked s" and "sn_peer s'"
  shows "unmarked s'"
  using assms
proof cases
  case (session_event e c)
  with assms show ?thesis by (simp add: unmarked_def)
next
  case session_write
  with assms show ?thesis by (simp add: unmarked_write)
qed (auto simp: unmarked_def)

lemma peer_step: "session_step s s' \<Longrightarrow> sn_peer s' \<Longrightarrow> sn_peer s"
  by (induction rule: session_step.induct)
    (auto simp: read_text_def end_reading_def case_prod_unfold Let_def split: if_splits inbound_check.splits)

lemma unmarked_runs:
  assumes "session_runs s s'" and "unmarked s" and "sn_peer s'"
  shows "unmarked s'"
  using assms
proof (induction rule: rtranclp_induct)
  case (step y z)
  from peer_step[OF step.hyps(2)] step have "unmarked y" by blast
  from unmarked_step[OF step.hyps(2) this] step.prems(2) show ?case .
qed

subsection \<open>A writer with an end marker\<close>

text \<open>A frame carries the event it was built for.\<close>

definition carries :: "domain_event \<Rightarrow> event_frame \<Rightarrow> bool" where
  "carries e f \<longleftrightarrow> ef_type f = ev_type e \<and> ef_occurred_at f = ev_occurred_at e \<and>
     ef_device_id f = ev_device_id e \<and> ef_command_id f = ev_command_id e"

definition event_frames :: "out_frame list \<Rightarrow> event_frame list" where
  "event_frames fs = List.map_filter (\<lambda>f. case f of EventFrame x \<Rightarrow> Some x | _ \<Rightarrow> None) fs"

lemma event_frames_simps [simp]:
  "event_frames [] = []" "event_frames (fs @ gs) = event_frames fs @ event_frames gs"
  "event_frames [EventFrame x] = [x]" "event_frames [ResyncFrame] = []" "event_frames [PingFrame t] = []"
  by (simp_all add: event_frames_def List.map_filter_def)

lemma frame_of_carries: "carries e (fst (frame_of e c))"
  by (simp add: carries_def frame_of_def Let_def case_prod_unfold split: option.split)

lemma write_turn_event:
  assumes "sub_queue (sn_subscription s) = Some e # q" and "sn_peer s"
  obtains f c1 fs where "carries e f" "event_frames fs = [f]"
    "write_turn s = s\<lparr>sn_subscription := (sn_subscription s)\<lparr>sub_queue := q, sub_lagged := False\<rparr>,
       sn_container := c1, sn_writing := True, sn_sent := sn_sent s @ fs\<rparr>"
proof (rule that[OF frame_of_carries[of e "sn_container s"]])
  let ?fs = "(if sub_lagged (sn_subscription s) then [ResyncFrame] else []) @ [EventFrame (fst (frame_of e (sn_container s)))]"
  show "event_frames ?fs = [fst (frame_of e (sn_container s))]" by simp
  show "write_turn s = s\<lparr>sn_subscription := (sn_subscription s)\<lparr>sub_queue := q, sub_lagged := False\<rparr>,
       sn_container := snd (frame_of e (sn_container s)), sn_writing := True, sn_sent := sn_sent s @ ?fs\<rparr>"
    using assms by (simp add: write_turn_def forward_turn_event[of "sn_subscription s" e q])
qed

lemma write_turn_marker:
  assumes "sub_queue (sn_subscription s) = None # q"
  shows "sn_writing (write_turn s) = False" and "sn_sent (write_turn s) = sn_sent s"
    and "sn_reader (write_turn s) = sn_reader s"
  using assms by (simp_all add: write_turn_def forward_turn_def anext_def get_nowait_def)

lemma marked_writer_ends:
  assumes "sub_queue (sn_subscription s) = map Some es @ [None]" and "sn_peer s"
  shows "sn_writing ((write_turn ^^ Suc (length es)) s) = False \<and>
    sn_reader ((write_turn ^^ Suc (length es)) s) = sn_reader s \<and>
    (\<exists>fs. sn_sent ((write_turn ^^ Suc (length es)) s) = sn_sent s @ fs \<and> list_all2 carries es (event_frames fs))"
  using assms
proof (induction es arbitrary: s)
  case Nil
  then show ?case by (simp add: write_turn_marker)
next
  case (Cons e es)
  have q: "sub_queue (sn_subscription s) = Some e # map Some es @ [None]" using Cons.prems(1) by simp
  obtain f c1 fs where f: "carries e f" "event_frames fs = [f]"
    and turn: "write_turn s = s\<lparr>sn_subscription := (sn_subscription s)\<lparr>sub_queue := map Some es @ [None], sub_lagged := False\<rparr>,
       sn_container := c1, sn_writing := True, sn_sent := sn_sent s @ fs\<rparr>"
    using write_turn_event[OF q Cons.prems(2)] by blast
  have "(write_turn ^^ Suc (length (e # es))) s = (write_turn ^^ Suc (length es)) (write_turn s)"
    by (simp add: funpow_swap1)
  with Cons.IH[of "write_turn s"] Cons.prems(2) f show ?case by (auto simp: turn)
qed

lemma write_turn_gone:
  assumes "\<not> sn_peer s"
  shows "sn_writing (write_turn s) = False"
proof (cases "sub_queue (sn_subscription s)")
  case Nil
  with assms show ?thesis by (simp add: write_turn_def forward_turn_empty case_prod_unfold Let_def)
next
  case (Cons x q)
  with assms show ?thesis
    by (cases x) (simp_all add: write_turn_def forward_turn_def anext_def get_nowait_def case_prod_unfold Let_def)
qed

lemma read_text_closes:
  assumes "sn_reader s = None" and "sn_reader (read_text t m s) = Some e"
  shows "\<exists>rl. read_text t m s = end_reading e (s\<lparr>sn_budget := rl\<rparr>)"
proof -
  obtain ok rl where "allow (sn_budget s) ''inbound'' t = (ok, rl)" by (rule prod.exhaust)
  with assms have "read_text t m s = end_reading e (s\<lparr>sn_budget := rl\<rparr>)"
    by (cases "\<not> ok \<or> MAX_INBOUND < in_length m"; cases "check_inbound m")
      (simp_all add: read_text_def end_reading_def Let_def)
  then show ?thesis by blast
qed

lemma read_refused:
  assumes "check_inbound m = Refused"
  shows "\<exists>rl. read_text t m s = end_reading (PolicyClose CLOSE_POLICY_VIOLATION) (s\<lparr>sn_budget := rl\<rparr>)"
proof -
  obtain ok rl where "allow (sn_budget s) ''inbound'' t = (ok, rl)" by (rule prod.exhaust)
  with assms have "read_text t m s = end_reading (PolicyClose CLOSE_POLICY_VIOLATION) (s\<lparr>sn_budget := rl\<rparr>)"
    by (simp add: read_text_def Let_def)
  then show ?thesis by blast
qed

text \<open>
  C35. When a violated policy closes a connection. A text that breaks the rules ends the reader with
  a close code. If the queue of the subscription has room for the end marker, the writer still
  delivers the queued events in order, ends after one turn more, and the handler closes with that
  code. If the queue is full, the writer goes on for ever as long as the peer stays, whatever
  happens, and the connection is never closed; only when the peer leaves does the writer end, at
  its next turn.
\<close>

theorem violation_closes_iff_room:
  assumes "sn_reader s = None" and "sn_writing s" and "sn_peer s"
    and "\<not> sub_closed (sn_subscription s)" and "sub_queue (sn_subscription s) = map Some es"
    and "sn_reader (read_text t m s) = Some (PolicyClose code)"
  shows "if queue_full (sn_subscription s)
    then (\<forall>s2. session_runs (read_text t m s) s2 \<longrightarrow>
      (if sn_peer s2 then sn_writing s2 \<and> handler_end s2 = None else \<not> sn_writing (write_turn s2)))
    else let s2 = (write_turn ^^ Suc (length es)) (read_text t m s) in
      handler_end s2 = Some (ClosesWith code) \<and>
      (\<exists>fs. sn_sent s2 = sn_sent s @ fs \<and> list_all2 carries es (event_frames fs))"
proof -
  obtain rl where s1: "read_text t m s = end_reading (PolicyClose code) (s\<lparr>sn_budget := rl\<rparr>)"
    using read_text_closes[OF assms(1,6)] by blast
  show ?thesis
  proof (cases "queue_full (sn_subscription s)")
    case True
    have "unmarked (read_text t m s)"
      using assms(2,5) close_when_full[OF assms(4) True] by (auto simp: s1 unmarked_def end_reading_def)
    then have "if sn_peer s2 then sn_writing s2 \<and> handler_end s2 = None else \<not> sn_writing (write_turn s2)"
      if "session_runs (read_text t m s) s2" for s2
      using unmarked_runs[OF that] write_turn_gone[of s2] by (cases "sn_peer s2") (simp_all add: unmarked_def handler_end_def)
    with True show ?thesis by simp
  next
    case False
    have "sub_queue (sn_subscription (read_text t m s)) = map Some es @ [None]" and "sn_peer (read_text t m s)"
      using assms(3,5) close_with_room[OF assms(4) False] by (simp_all add: s1 end_reading_def)
    from marked_writer_ends[OF this] False show ?thesis
      by (auto simp: Let_def handler_end_def s1 end_reading_def)
  qed
qed

definition silent_text :: inbound where
  "silent_text = \<lparr>in_length = 3, in_json = None\<rparr>"

definition full_session :: session where
  "full_session =
     \<lparr>sn_subscription = \<lparr>sub_queue = [Some (device_event DEVICE_STATE_CHANGED 0 1 None)], sub_maxsize = 1,
        sub_lagged = False, sub_closed = False\<rparr>,
      sn_container = sample_container, sn_budget = new_rate_limiter 120 None MAX_RATE_KEYS,
      sn_reader = None, sn_writing = True, sn_sent = [], sn_peer = True\<rparr>"

theorem violation_closes_iff_room_witness:
  "sn_reader (read_text 0 silent_text full_session) = Some (PolicyClose 1008) \<and>
   handler_end (write_turn (read_text 0 silent_text full_session)) = None"
proof -
  let ?s = "full_session" and ?e = "device_event DEVICE_STATE_CHANGED 0 1 None"
  have "check_inbound silent_text = Refused" by (simp add: silent_text_def check_inbound_def)
  then obtain rl where s1: "read_text 0 silent_text ?s = end_reading (PolicyClose CLOSE_POLICY_VIOLATION) (?s\<lparr>sn_budget := rl\<rparr>)"
    using read_refused by blast
  then have refused: "sn_reader (read_text 0 silent_text ?s) = Some (PolicyClose 1008)"
    by (simp add: end_reading_def CLOSE_POLICY_VIOLATION_def)
  have start: "sn_reader ?s = None" "sn_writing ?s" "sn_peer ?s" "\<not> sub_closed (sn_subscription ?s)"
    "sub_queue (sn_subscription ?s) = map Some [?e]" and full: "queue_full (sn_subscription ?s)"
    by (simp_all add: full_session_def queue_full_def)
  note stuck = violation_closes_iff_room[OF start refused, unfolded if_P[OF full]]
  let ?s1 = "read_text 0 silent_text ?s"
  have peer: "sn_peer ?s1" unfolding s1 by (simp add: end_reading_def full_session_def)
  have "sn_writing ?s1" using stuck[rule_format, OF rtranclp.rtrancl_refl] peer by simp
  then have "session_runs ?s1 (write_turn ?s1)" by (intro r_into_rtranclp session_write)
  from stuck[rule_format, OF this] peer refused show ?thesis by simp
qed

end
