(* ===== verification/Bestway_Probe.thy ===== *)
theory Bestway_Probe
  imports Bestway_Provider Text_Format
begin

unbundle bit_operations_syntax

section \<open>The diagnostic script for a controller\<close>

text \<open>
  \<open>scripts/bestway_probe.py\<close>: the dumps it prints, the comparison of two readings, the loop that
  keeps reading, and the diagnosis that shows the handshake byte by byte while blanking out the
  passcode. Printed lines are values; where a line is a dump its text is computed. What arrives
  from the controller within a window, and whether it closed the connection meanwhile, is input.
\<close>

subsection \<open>Hexadecimal dumps\<close>

definition byte_hex :: "byte \<Rightarrow> string" where
  "byte_hex b = digits 16 2 (unat b)"

definition byte_bits :: "byte \<Rightarrow> string" where
  "byte_bits b = digits 2 8 (unat b)"

text \<open>\<open>data.hex(" ")\<close>\<close>

definition hex_text :: "bytes \<Rightarrow> string" where
  "hex_text bs = py_join '' '' (map byte_hex bs)"

text \<open>\<open>text.replace(old, new)\<close> for an \<open>old\<close> that is not empty.\<close>

function py_replace :: "string \<Rightarrow> string \<Rightarrow> string \<Rightarrow> string" where
  "py_replace old new s =
     (if s = [] \<or> old = [] then s
      else if starts_with old s then new @ py_replace old new (drop (length old) s)
      else hd s # py_replace old new (tl s))"
  by pat_completeness auto
termination
  by (relation "measure (\<lambda>(old, new, s). length s)") auto

declare py_replace.simps [simp del]

definition blanked :: "bytes \<Rightarrow> string" where
  "blanked secret = py_join '' '' (replicate (length secret) ''xx'')"

definition redact_hex :: "bytes \<Rightarrow> bytes list \<Rightarrow> string" where
  "redact_hex data secrets =
     fold (\<lambda>secret text. if secret = [] then text else py_replace (hex_text secret) (blanked secret) text)
       secrets (hex_text data)"

text \<open>Slices of eight, from the start on.\<close>

function eights :: "'a list \<Rightarrow> 'a list list" where
  "eights xs = (if xs = [] then [] else take 8 xs # eights (drop 8 xs))"
  by pat_completeness auto
termination
  by (relation "measure length") auto

declare eights.simps [simp del]

definition decimal :: "nat \<Rightarrow> string" where
  "decimal n = (if n < 10 then digits 10 1 n else if n < 100 then digits 10 2 n
     else if n < 1000 then digits 10 3 n else digits 10 4 n)"

definition pad_right :: "nat \<Rightarrow> string \<Rightarrow> string" where
  "pad_right w s = s @ replicate (w - length s) (CHR '' '')"

definition pad_left :: "nat \<Rightarrow> string \<Rightarrow> string" where
  "pad_left w s = replicate (w - length s) (CHR '' '') @ s"

definition hex_dump :: "bytes \<Rightarrow> string" where
  "hex_dump payload =
     py_join [char_of (10::nat)]
       (map (\<lambda>(row, chunk). ''  ['' @ pad_left 2 (decimal (8 * row)) @ ''] '' @ pad_right 23 (hex_text chunk) @
               ''  '' @ py_join '' '' (map byte_bits chunk))
         (enumerate 0 (eights payload)))"

definition decimal_table :: "bytes \<Rightarrow> string" where
  "decimal_table payload =
     py_join [char_of (10::nat)]
       (map (\<lambda>row. ''  '' @ py_join ''  '' row)
         (eights (map (\<lambda>(index, b). ''['' @ decimal index @ '']='' @ decimal (unat b)) (enumerate 0 payload))))"

subsection \<open>Comparing two readings\<close>

datatype change = LengthChanged nat | ByteChanged nat byte byte "nat list"

definition byte_at :: "bytes \<Rightarrow> nat \<Rightarrow> byte option" where
  "byte_at bs offset = (if offset < length bs then Some (bs ! offset) else None)"

definition moved_bits :: "byte \<Rightarrow> byte \<Rightarrow> nat list" where
  "moved_bits old new = filter (\<lambda>k. drop_bit k old AND 1 \<noteq> drop_bit k new AND 1) [0..<8]"

definition change_at :: "bytes \<Rightarrow> bytes \<Rightarrow> nat \<Rightarrow> change option" where
  "change_at previous current offset =
     (case (byte_at previous offset, byte_at current offset) of
        (Some old, Some new) \<Rightarrow> if old = new then None else Some (ByteChanged offset old new (moved_bits old new))
      | (None, None) \<Rightarrow> None
      | _ \<Rightarrow> Some (LengthChanged offset))"

definition differences :: "bytes \<Rightarrow> bytes \<Rightarrow> change list" where
  "differences previous current =
     List.map_filter (change_at previous current) [0..<max (length previous) (length current)]"

subsection \<open>Reading with the current layout\<close>

text \<open>What is shown for a datapoint: a mark, a temperature with its raw value, or the number.\<close>

datatype shown = ShownMark bool | ShownCelsius rat dp_value | ShownNumber dp_value

datatype description = DoesNotFit profile_error | Decoded "(datapoint \<times> shown \<times> location) list"

definition all_datapoints :: "datapoint list" where
  "all_datapoints =
     [datapoint.CURRENT_TEMPERATURE, datapoint.TARGET_TEMPERATURE, HEATER, FILTER_PUMP,
      datapoint.BUBBLES, datapoint.CONTROL_PANEL_LOCK, UNIT_IS_FAHRENHEIT]"

definition show_value :: "bool \<Rightarrow> datapoint \<Rightarrow> dp_value \<Rightarrow> shown" where
  "show_value fahrenheit d raw =
     (case raw of
        DBool b \<Rightarrow> ShownMark b
      | DInt n \<Rightarrow>
          if d = datapoint.CURRENT_TEMPERATURE \<or> d = datapoint.TARGET_TEMPERATURE
          then ShownCelsius (to_celsius (of_int n) fahrenheit) raw else ShownNumber raw)"

text \<open>Every decoded datapoint has a location, so the lookup in the loop does not raise.\<close>

definition probe_describe :: "datapoint_profile \<Rightarrow> bytes \<Rightarrow> description" where
  "probe_describe p payload =
     (case decode p payload of
        Inl e \<Rightarrow> DoesNotFit e
      | Inr decoded \<Rightarrow>
          Decoded (List.map_filter
            (\<lambda>d. case (od_get decoded d, location_for p d) of
                  (Some raw, Inr l) \<Rightarrow> Some (d, show_value (fahrenheit_of decoded) d raw, l)
                | _ \<Rightarrow> None) all_datapoints))"

datatype probe_line =
    ProbeFirst nat string string
  | ProbeDescribed description
  | ProbeMisfit int nat
  | ProbeChanges "change list"
  | ProbeTable string
  | ProbeUnreachable
  | ProbeFailed

text \<open>One reading that succeeded, with the reading before it.\<close>

definition report_reading :: "datapoint_profile \<Rightarrow> bytes option \<Rightarrow> bytes \<Rightarrow> probe_line list" where
  "report_reading p previous payload =
     (let fits = (int (length payload) = pf_minimum_payload_length p) in
      case previous of
        None \<Rightarrow>
          ProbeFirst (length payload) (hex_dump payload) (decimal_table payload) #
          [if fits then ProbeDescribed (probe_describe p payload)
           else ProbeMisfit (pf_minimum_payload_length p) (length payload)]
      | Some old \<Rightarrow>
          if payload = old then []
          else [ProbeChanges (differences old payload),
                if fits then ProbeDescribed (probe_describe p payload) else ProbeTable (decimal_table payload)])"

text \<open>
  The loop of \<open>probe\<close> over what its attempts to read come to; a failed attempt closes the
  connection and is only fatal without \<open>--watch\<close>. The exit code, or None when the user interrupts
  the watch.
\<close>

fun probe_loop ::
  "datapoint_profile \<Rightarrow> bool \<Rightarrow> bytes option \<Rightarrow> bytes option list \<Rightarrow> probe_line list \<times> int option"
where
  "probe_loop p watch previous [] = ([], None)"
| "probe_loop p watch previous (None # readings) =
     (if watch then probe_loop p watch previous readings else ([ProbeFailed], Some 1))"
| "probe_loop p watch previous (Some payload # readings) =
     (let lines = report_reading p previous payload in
      if \<not> watch then (lines, Some 0)
      else (let (rest, code) = probe_loop p watch (Some payload) readings in (lines @ rest, code)))"

definition probe ::
  "datapoint_profile \<Rightarrow> bool \<Rightarrow> bool \<Rightarrow> bytes option list \<Rightarrow> probe_line list \<times> int option"
where
  "probe p watch connects readings =
     (if connects then probe_loop p watch None readings else ([ProbeUnreachable], Some 1))"

subsection \<open>The diagnosis\<close>

datatype diag_line =
    ClosedByPeer string
  | NothingReceived string
  | ReceivedCount string nat
  | RawLine string
  | NotFramed protocol_error
  | NoFrameYet
  | FrameLine wire_command byte nat
  | SentLine string string
  | PasscodeLine nat
  | TcpFailed
  | DoneLine

record diagnosis =
  dg_buffer :: bytes
  dg_secrets :: "bytes list"
  dg_lines :: "diag_line list"
  dg_sent :: "bytes list"

definition diag_print :: "diag_line list \<Rightarrow> diagnosis \<Rightarrow> diagnosis" where
  "diag_print ls s = s\<lparr>dg_lines := dg_lines s @ ls\<rparr>"

text \<open>A window: the bytes that arrived in it, and whether the controller closed the connection.\<close>

type_synonym diag_window = "bytes \<times> bool"

definition is_passcode :: "frame \<Rightarrow> bool" where
  "is_passcode f \<longleftrightarrow> fr_command f = Known PASSCODE_RESPONSE"

definition learn_secrets :: "frame list \<Rightarrow> bytes list" where
  "learn_secrets frames =
     concat (map (\<lambda>f. if is_passcode f
                     then fr_payload f # (case decode_length_prefixed (fr_payload f) of Inl e \<Rightarrow> [] | Inr pw \<Rightarrow> [pw])
                     else []) frames)"

definition collect :: "string \<Rightarrow> diag_window \<Rightarrow> diagnosis \<Rightarrow> frame list \<times> diagnosis" where
  "collect label = (\<lambda>(received, closed) s.
     (let s1 = diag_print (if closed then [ClosedByPeer label] else []) s in
      if received = [] then ([], diag_print [NothingReceived label] s1)
      else
        (case feed received (dg_buffer s1) of
           (Inl e, buffer) \<Rightarrow>
             ([], diag_print [ReceivedCount label (length received), RawLine (redact_hex received (dg_secrets s1)),
                              NotFramed e] (s1\<lparr>dg_buffer := buffer\<rparr>))
         | (Inr parsed, buffer) \<Rightarrow>
             (let secrets = dg_secrets s1 @ learn_secrets parsed in
              (parsed,
               diag_print
                 ([ReceivedCount label (length received), RawLine (redact_hex received secrets)] @
                  (if parsed = [] then [NoFrameYet] else []) @
                  map (\<lambda>f. FrameLine (fr_command f) (fr_flag f) (length (fr_payload f))) parsed)
                 (s1\<lparr>dg_buffer := buffer, dg_secrets := secrets\<rparr>))))))"

datatype diag_error = DiagProtocol protocol_error | DiagConnection

text \<open>\<open>send\<close>: the frame is printed before it is written; writing may fail.\<close>

definition diag_send :: "bool \<Rightarrow> string \<Rightarrow> frame \<Rightarrow> diagnosis \<Rightarrow> (diag_error + unit) \<times> diagnosis" where
  "diag_send writes label f s =
     (case frame_encode f of
        Inl e \<Rightarrow> (Inl (DiagProtocol e), s)
      | Inr bs \<Rightarrow>
          (let s1 = diag_print [SentLine label (redact_hex bs (dg_secrets s))] s in
           if writes then (Inr (), s1\<lparr>dg_sent := dg_sent s1 @ [bs]\<rparr>) else (Inl DiagConnection, s1)))"

definition plain_frame :: "gcommand \<Rightarrow> bytes \<Rightarrow> frame" where
  "plain_frame c payload = \<lparr>fr_command = Known c, fr_payload = payload, fr_flag = 0\<rparr>"

fun take_passcode :: "frame list \<Rightarrow> bytes option \<Rightarrow> diagnosis \<Rightarrow> (diag_error + bytes option) \<times> diagnosis" where
  "take_passcode [] pw s = (Inr pw, s)"
| "take_passcode (f # fs) pw s =
     (if is_passcode f
      then (case decode_length_prefixed (fr_payload f) of
              Inl e \<Rightarrow> (Inl (DiagProtocol e), s)
            | Inr p \<Rightarrow> take_passcode fs (Some p) (diag_print [PasscodeLine (length p)] s))
      else take_passcode fs pw s)"

definition diag_login :: "bool \<Rightarrow> diag_window \<Rightarrow> bytes option \<Rightarrow> diagnosis \<Rightarrow> (diag_error + unit) \<times> diagnosis" where
  "diag_login writes window pw s =
     (case pw of
        None \<Rightarrow> (Inr (), s)
      | Some p \<Rightarrow>
          (case encode_length_prefixed p of
             Inl e \<Rightarrow> (Inl (DiagProtocol e), s)
           | Inr field \<Rightarrow>
               (case diag_send writes ''login request'' (plain_frame LOGIN_REQUEST field) s of
                  (Inl e, s1) \<Rightarrow> (Inl e, s1)
                | (Inr u, s1) \<Rightarrow> (Inr (), snd (collect ''reply'' window s1)))))"

definition diag_status ::
  "bool \<Rightarrow> diag_window \<Rightarrow> diag_window \<Rightarrow> diagnosis \<Rightarrow> (diag_error + int) \<times> diagnosis"
where
  "diag_status writes reply unsolicited s =
     (case diag_send writes ''status read'' (plain_frame STATUS_REQUEST STATUS_READ_PAYLOAD) s of
        (Inl e, s1) \<Rightarrow> (Inl e, s1)
      | (Inr u, s1) \<Rightarrow>
          (let s2 = snd (collect ''reply'' reply s1);
               s3 = snd (collect ''unsolicited'' unsolicited s2)
           in (Inr 0, diag_print [DoneLine] s3)))"

definition diagnose ::
  "bool \<Rightarrow> (nat \<Rightarrow> bool) \<Rightarrow> (nat \<Rightarrow> diag_window) \<Rightarrow> (diag_error + int) \<times> diagnosis"
where
  "diagnose connects writes windows =
     (let s0 = \<lparr>dg_buffer = [], dg_secrets = [], dg_lines = [], dg_sent = []\<rparr> in
      if \<not> connects then (Inr 1, diag_print [TcpFailed] s0)
      else
        (let s1 = snd (collect ''passive'' (windows 0) s0) in
         (case diag_send (writes 0) ''passcode request'' (plain_frame PASSCODE_REQUEST []) s1 of
            (Inl e, s2) \<Rightarrow> (Inl e, s2)
          | (Inr u, s2) \<Rightarrow>
              (let (answered, s3) = collect ''reply'' (windows 1) s2 in
               (case take_passcode answered None s3 of
                  (Inl e, s4) \<Rightarrow> (Inl e, s4)
                | (Inr pw, s4) \<Rightarrow>
                    (case diag_login (writes 1) (windows 2) pw s4 of
                       (Inl e, s5) \<Rightarrow> (Inl e, s5)
                     | (Inr u, s5) \<Rightarrow> diag_status (writes 2) (windows 3) (windows 4) s5))))))"

end
