(* ===== verification/Probe_Properties.thy ===== *)
theory Probe_Properties
  imports Bestway_Probe "HOL-Library.Sublist"
begin

section \<open>What the diagnostic script shows and sends\<close>

text \<open>
  Replacing text in a hexadecimal dump is masking bytes in a row of cells, so a redacted dump
  contains no credential the script knows. Two readings differ exactly where a difference is
  listed. The diagnosis only ever sends the three frames of the reading handshake.
\<close>

subsection \<open>Dumps as rows of cells\<close>

text \<open>
  A dump is a row of two-character cells, a byte or a blank; replacing the text of a secret is
  masking its bytes, because a match can only begin where a cell begins.
\<close>

type_synonym cells = "byte option list"

definition cell_text :: "byte option \<Rightarrow> string" where
  "cell_text c = (case c of None \<Rightarrow> ''xx'' | Some b \<Rightarrow> byte_hex b)"

definition render :: "cells \<Rightarrow> string" where
  "render cs = py_join '' '' (map cell_text cs)"

function masked :: "bytes \<Rightarrow> cells \<Rightarrow> cells" where
  "masked old cs =
     (if cs = [] \<or> old = [] then cs
      else if prefix (map Some old) cs then replicate (length old) None @ masked old (drop (length old) cs)
      else hd cs # masked old (tl cs))"
  by pat_completeness auto
termination
  by (relation "measure (length \<circ> snd)") auto

declare masked.simps [simp del]

lemma render_simps [simp]: "render [] = []" "render [c] = cell_text c"
  "cs \<noteq> [] \<Longrightarrow> render (c # cs) = cell_text c @ CHR '' '' # render cs"
  by (simp_all add: render_def, cases cs, simp_all)

lemma render_Cons: "render (c # cs) = cell_text c @ (if cs = [] then [] else CHR '' '' # render cs)"
  by simp

lemma render_append: "ps \<noteq> [] \<Longrightarrow> render (ps @ qs) = render ps @ (if qs = [] then [] else CHR '' '' # render qs)"
  by (induction ps) (auto simp: render_Cons simp del: render_simps(3))

lemma hex_text_render: "hex_text bs = render (map Some bs)"
  by (simp add: hex_text_def render_def cell_text_def comp_def)

lemma blanked_render: "blanked secret = render (replicate (length secret) None)"
  by (simp add: blanked_def render_def cell_text_def)

lemma digit_char_plain: "a < 16 \<Longrightarrow> digit_char a \<noteq> CHR '' '' \<and> digit_char a \<noteq> CHR ''x''"
proof -
  assume "a < 16"
  then have "a \<in> {0..<16}" by simp
  moreover have "\<forall>a \<in> {0..<16}. digit_char a \<noteq> CHR '' '' \<and> digit_char a \<noteq> CHR ''x''" by code_simp
  ultimately show ?thesis by blast
qed

lemma byte_hex_split:
  "byte_hex b = [digit_char (unat b div 16 mod 16), digit_char (unat b mod 16)]"
  by (simp add: byte_hex_def numeral_2_eq_2)

lemma byte_hex_inject [simp]: "byte_hex a = byte_hex b \<longleftrightarrow> a = b"
proof
  assume eq: "byte_hex a = byte_hex b"
  have "unat a < 256" "unat b < 256" using unsigned_less[of a] unsigned_less[of b] by simp_all
  then have small: "unat a div 16 < 16" "unat b div 16 < 16" by simp_all
  with eq have "unat a div 16 = unat b div 16" "unat a mod 16 = unat b mod 16"
    by (simp_all add: byte_hex_split digit_char_inject)
  then have "unat a = unat b" by (metis div_mult_mod_eq)
  then show "a = b" by (simp add: word_unat_eq_iff)
qed simp

lemma cell_text_cases: obtains x y where "cell_text c = [x, y]" "x \<noteq> CHR '' ''" "y \<noteq> CHR '' ''"
  using digit_char_plain by (cases c) (auto simp: cell_text_def byte_hex_split)

lemma cell_text_Some [simp]: "cell_text c = byte_hex b \<longleftrightarrow> c = Some b"
proof (cases c)
  case None
  then show ?thesis using digit_char_plain[of "unat b mod 16"] by (auto simp: cell_text_def byte_hex_split[of b])
qed (simp add: cell_text_def)

lemma length_cell_text [simp]: "length (cell_text c) = 2"
  by (rule cell_text_cases[of c]) simp

lemma starts_with_Cons: "starts_with (x # xs) s \<longleftrightarrow> s \<noteq> [] \<and> hd s = x \<and> starts_with xs (tl s)"
  by (cases s) (auto simp: starts_with_def)

lemma starts_with_Nil [simp]: "starts_with [] s" by (simp add: starts_with_def)

lemma starts_with_same_length:
  "length u = length v \<Longrightarrow> starts_with (u @ xs) (v @ ys) \<longleftrightarrow> u = v \<and> starts_with xs ys"
  by (auto simp: starts_with_def)

text \<open>A match at the beginning of a cell is one of cells.\<close>

lemma starts_with_render:
  "old \<noteq> [] \<Longrightarrow> starts_with (render (map Some old)) (render cs) \<longleftrightarrow> prefix (map Some old) cs"
proof (induction old arbitrary: cs)
  case (Cons b old)
  have cell: "cell_text (Some b) = byte_hex b" by (simp add: cell_text_def)
  show ?case
  proof (cases cs)
    case Nil
    obtain x y where "cell_text (Some b) = [x, y]" by (rule cell_text_cases)
    with Nil show ?thesis by (simp add: render_Cons starts_with_def)
  next
    case cs: (Cons c cs')
    let ?old = "if old = [] then [] else CHR '' '' # render (map Some old)"
    let ?cs = "if cs' = [] then [] else CHR '' '' # render cs'"
    have "render (map Some (b # old)) = byte_hex b @ ?old" and "render cs = cell_text c @ ?cs"
      by (simp_all add: cs render_Cons cell del: render_simps(3))
    then have "starts_with (render (map Some (b # old))) (render cs) \<longleftrightarrow> byte_hex b = cell_text c \<and> starts_with ?old ?cs"
      using starts_with_same_length[of "byte_hex b" "cell_text c" ?old ?cs] length_cell_text[of "Some b"] by (simp add: cell)
    also have "\<dots> \<longleftrightarrow> Some b = c \<and> starts_with ?old ?cs"
      by (metis cell_text_Some)
    also have "\<dots> \<longleftrightarrow> Some b = c \<and> prefix (map Some old) cs'"
    proof (cases "old = []")
      case False
      have "\<not> prefix (map Some old) []" using False by simp
      with Cons.IH[OF False, of cs'] False show ?thesis by (auto simp: starts_with_Cons)
    qed simp
    finally show ?thesis by (simp add: cs)
  qed
qed simp

lemma hex_text_ne: "old \<noteq> [] \<Longrightarrow> hex_text old \<noteq> []"
  using length_cell_text[of "Some (hd old)"] by (cases old) (auto simp: hex_text_render render_Cons simp del: render_simps(3) length_cell_text)

text \<open>Nowhere else does one begin.\<close>

lemma hex_text_two:
  assumes "old \<noteq> []"
  obtains x y t where "hex_text old = x # y # t" "x \<noteq> CHR '' ''" "y \<noteq> CHR '' ''"
proof -
  obtain b bs where old: "old = b # bs" using assms by (cases old) auto
  obtain x y where "cell_text (Some b) = [x, y]" "x \<noteq> CHR '' ''" "y \<noteq> CHR '' ''" by (rule cell_text_cases)
  then show ?thesis
    by (intro that[of x y "if bs = [] then [] else CHR '' '' # render (map Some bs)"])
      (simp_all add: old hex_text_render render_Cons)
qed

lemma no_match_inside:
  assumes "old \<noteq> []" and "s = [] \<or> hd s = CHR '' ''"
  shows "\<not> starts_with (hex_text old) (y # s)" and "\<not> starts_with (hex_text old) s"
proof -
  obtain x y' t where "hex_text old = x # y' # t" "x \<noteq> CHR '' ''" "y' \<noteq> CHR '' ''" by (rule hex_text_two[OF assms(1)])
  with assms(2) show "\<not> starts_with (hex_text old) (y # s)" "\<not> starts_with (hex_text old) s"
    by (auto simp: starts_with_Cons)
qed

lemma py_replace_step:
  "old \<noteq> [] \<Longrightarrow> \<not> starts_with old (c # s) \<Longrightarrow> py_replace old new (c # s) = c # py_replace old new s"
  by (simp add: py_replace.simps[of old new "c # s"])

lemma py_replace_match:
  "old \<noteq> [] \<Longrightarrow> py_replace old new (old @ s) = new @ py_replace old new s"
  by (simp add: py_replace.simps[of old new "old @ s"] starts_with_def)

lemma py_replace_Nil [simp]: "py_replace old new [] = []"
  by (simp add: py_replace.simps)

lemma mask_Nil_iff [simp]: "masked old cs = [] \<longleftrightarrow> cs = []"
  by (simp add: masked.simps[of old cs])

lemma masked_match:
  "old \<noteq> [] \<Longrightarrow> masked old (map Some old @ qs) = replicate (length old) None @ masked old qs"
  by (simp add: masked.simps[of old "map Some old @ qs"])

lemma masked_step:
  "old \<noteq> [] \<Longrightarrow> \<not> prefix (map Some old) (c # cs) \<Longrightarrow> masked old (c # cs) = c # masked old cs"
  by (simp add: masked.simps[of old "c # cs"])

lemma py_replace_rest:
  assumes "old \<noteq> []" and "py_replace (hex_text old) new (render cs) = render (masked old cs)"
  shows "py_replace (hex_text old) new (if cs = [] then [] else CHR '' '' # render cs) =
    (if cs = [] then [] else CHR '' '' # render (masked old cs))"
proof (cases "cs = []")
  case False
  have "hex_text old \<noteq> []" using assms(1) by (rule hex_text_ne)
  moreover have "\<not> starts_with (hex_text old) (CHR '' '' # render cs)"
    by (rule no_match_inside(2)[OF assms(1)]) simp
  ultimately show ?thesis using False assms(2) by (simp add: py_replace_step)
qed simp

lemma py_replace_no_match:
  assumes "old \<noteq> []" and "\<not> prefix (map Some old) (c # cs)"
    and IH: "py_replace (hex_text old) (blanked old) (render cs) = render (masked old cs)"
  shows "py_replace (hex_text old) (blanked old) (render (c # cs)) = render (masked old (c # cs))"
proof -
  have ne: "hex_text old \<noteq> []" using assms(1) by (rule hex_text_ne)
  let ?rest = "if cs = [] then [] else CHR '' '' # render cs"
  obtain x y where c: "cell_text c = [x, y]" by (rule cell_text_cases)
  have start: "\<not> starts_with (hex_text old) (x # y # ?rest)"
    using starts_with_render[OF assms(1), of "c # cs"] assms(2) c
    by (simp add: render_Cons hex_text_render del: render_simps(3))
  have inside: "\<not> starts_with (hex_text old) (y # ?rest)" by (rule no_match_inside(1)[OF assms(1)]) simp
  have "masked old (c # cs) = c # masked old cs" using assms(2) masked_step[OF assms(1)] by simp
  moreover have "render (c # cs) = x # y # ?rest" using c by (simp add: render_Cons del: render_simps(3))
  ultimately show ?thesis
    using py_replace_rest[OF assms(1) IH] c
    by (simp only: py_replace_step[OF ne start] py_replace_step[OF ne inside])
      (simp add: render_Cons del: render_simps(3))
qed

lemma py_replace_render:
  "old \<noteq> [] \<Longrightarrow> py_replace (hex_text old) (blanked old) (render cs) = render (masked old cs)"
proof (induction old cs rule: masked.induct)
  case (1 old cs)
  have ne: "hex_text old \<noteq> []" using 1(3) by (rule hex_text_ne)
  show ?case
  proof (cases cs)
    case Nil
    then show ?thesis by (simp add: masked.simps)
  next
    case (Cons c cs')
    show ?thesis
    proof (cases "prefix (map Some old) cs")
      case True
      then obtain qs where cs: "cs = map Some old @ qs" by (auto simp: prefix_def)
      then have drop: "drop (length old) cs = qs" by simp
      have IH: "py_replace (hex_text old) (blanked old) (render qs) = render (masked old qs)"
        using 1(1)[OF _ True 1(3)] Cons 1(3) drop by simp
      have "masked old cs = replicate (length old) None @ masked old qs"
        unfolding cs by (rule masked_match[OF 1(3)])
      moreover have "render cs = hex_text old @ (if qs = [] then [] else CHR '' '' # render qs)"
        using 1(3) by (simp add: cs render_append hex_text_render)
      ultimately show ?thesis
        using py_replace_rest[OF 1(3) IH] 1(3)
        by (simp add: py_replace_match[OF ne] render_append blanked_render)
    next
      case False
      have IH: "py_replace (hex_text old) (blanked old) (render cs') = render (masked old cs')"
        using 1(2)[OF _ False 1(3)] Cons 1(3) by simp
      show ?thesis using py_replace_no_match[OF 1(3) _ IH] False by (simp add: Cons)
    qed
  qed
qed

subsection \<open>What a redacted dump still shows\<close>

definition covers :: "cells \<Rightarrow> cells \<Rightarrow> bool" where
  "covers cs' cs \<longleftrightarrow> list_all2 (\<lambda>a b. a = None \<or> a = b) cs' cs"

lemma covers_refl [simp]: "covers cs cs"
  by (simp add: covers_def list_all2_refl)

lemma covers_trans: "covers cs'' cs' \<Longrightarrow> covers cs' cs \<Longrightarrow> covers cs'' cs"
  unfolding covers_def by (erule (1) list_all2_trans[rotated]) auto

lemma masked_covers: "covers (masked old cs) cs"
proof (induction old cs rule: masked.induct)
  case (1 old cs)
  show ?case
  proof (cases "cs = [] \<or> old = []")
    case True
    then show ?thesis by (simp add: masked.simps[of old cs])
  next
    case False
    show ?thesis
    proof (cases "prefix (map Some old) cs")
      case True
      then obtain qs where cs: "cs = map Some old @ qs" by (auto simp: prefix_def)
      have "covers (replicate (length old) None) (map Some old)"
        by (simp add: covers_def list_all2_conv_all_nth)
      with 1(1)[OF False True] False show ?thesis
        by (simp add: cs masked_match covers_def list_all2_appendI)
    next
      case no: False
      with 1(2)[OF False no] False show ?thesis
        by (cases cs) (simp_all add: masked_step covers_def)
    qed
  qed
qed

lemma covers_sublist:
  assumes "covers cs' cs" and "sublist (map Some s) cs'"
  shows "sublist (map Some s) cs"
proof -
  obtain u v where "cs' = u @ map Some s @ v" using assms(2) by (auto simp: sublist_def)
  with assms(1) obtain a b c where cs: "cs = a @ b @ c" and b: "covers (map Some s) b"
    by (auto simp: covers_def list_all2_append1)
  have "b = map Some s"
    using b by (auto simp: covers_def list_all2_conv_all_nth intro!: nth_equalityI)
  with cs show ?thesis by (auto simp: sublist_def)
qed

lemma masked_hides: "old \<noteq> [] \<Longrightarrow> \<not> sublist (map Some old) (masked old cs)"
proof (induction old cs rule: masked.induct)
  case (1 old cs)
  show ?case
  proof (cases "cs = []")
    case True
    with 1(3) show ?thesis by (simp add: masked.simps[of old "[]"])
  next
    case False
    then have ne: "\<not> (cs = [] \<or> old = [])" using 1(3) by simp
    show ?thesis
    proof (cases "prefix (map Some old) cs")
      case True
      then obtain qs where cs: "cs = map Some old @ qs" by (auto simp: prefix_def)
      have IH: "\<not> sublist (map Some old) (masked old qs)" using 1(1)[OF ne True 1(3)] by (simp add: cs)
      have "\<not> sublist (map Some old) (replicate n None @ masked old qs)" for n
        using IH 1(3) by (induction n) (auto simp: sublist_Cons_right prefix_Cons)
      then show ?thesis by (simp add: cs masked_match 1(3))
    next
      case no: False
      obtain c cs' where cs: "cs = c # cs'" using False by (cases cs) auto
      have IH: "\<not> sublist (map Some old) (masked old cs')" using 1(2)[OF ne no 1(3)] by (simp add: cs)
      have "\<not> prefix (map Some old) (c # masked old cs')"
      proof
        assume "prefix (map Some old) (c # masked old cs')"
        then obtain v where v: "c # masked old cs' = map Some old @ v" by (auto simp: prefix_def)
        have "covers (c # masked old cs') cs" using masked_covers[of old cs'] by (simp add: covers_def cs)
        then obtain b w where cw: "cs = b @ w" and "covers (map Some old) b"
          unfolding v by (auto simp: covers_def list_all2_append1)
        then have "b = map Some old" by (auto simp: covers_def list_all2_conv_all_nth intro!: nth_equalityI)
        with cw no show False by simp
      qed
      with IH no 1(3) show ?thesis by (simp add: cs masked_step sublist_Cons_right)
    qed
  qed
qed

lemma render_sublist:
  assumes "s \<noteq> []" and "render cs = a @ t" and "starts_with (hex_text s) t"
  shows "sublist (map Some s) cs"
  using assms(2)
proof (induction cs arbitrary: a)
  case Nil
  with assms(3) hex_text_ne[OF assms(1)] show ?case by (simp add: starts_with_def)
next
  case (Cons c cs)
  let ?rest = "if cs = [] then [] else CHR '' '' # render cs"
  obtain x y where c: "cell_text c = [x, y]" by (rule cell_text_cases)
  then have r: "render (c # cs) = x # y # ?rest" by (simp add: render_Cons del: render_simps(3))
  consider "a = []" | "a = [x]" | "a = [x, y]" | a' where "a = x # y # CHR '' '' # a'" "cs \<noteq> []" "render cs = a' @ t"
    using Cons.prems unfolding r by (auto simp: Cons_eq_append_conv split: if_splits)
  then show ?case
  proof cases
    case 1
    with Cons.prems assms(3) have "prefix (map Some s) (c # cs)"
      using starts_with_render[OF assms(1), of "c # cs"] by (simp add: hex_text_render)
    then show ?thesis by simp
  next
    case 2
    with Cons.prems r have "t = y # ?rest" by simp
    with no_match_inside(1)[OF assms(1), of ?rest y] assms(3) show ?thesis by (simp split: if_splits)
  next
    case 3
    with Cons.prems r have "t = ?rest" by simp
    with no_match_inside(2)[OF assms(1), of t] assms(3) show ?thesis by (simp split: if_splits)
  next
    case 4
    from Cons.IH[OF 4(3)] show ?thesis by (simp add: sublist_Cons_right)
  qed
qed

definition masked_all :: "bytes list \<Rightarrow> cells \<Rightarrow> cells" where
  "masked_all secrets cs = fold (\<lambda>s cs. if s = [] then cs else masked s cs) secrets cs"

lemma redact_hex_render: "redact_hex data secrets = render (masked_all secrets (map Some data))"
proof -
  have "fold (\<lambda>secret text. if secret = [] then text else py_replace (hex_text secret) (blanked secret) text)
      secrets (render cs) = render (masked_all secrets cs)" for cs
    by (induction secrets arbitrary: cs) (simp_all add: masked_all_def py_replace_render)
  then show ?thesis by (simp add: redact_hex_def hex_text_render)
qed

lemma masked_all_covers: "covers (masked_all secrets cs) cs"
proof (induction secrets arbitrary: cs)
  case (Cons s secrets)
  show ?case
    using Cons[of "if s = [] then cs else masked s cs"] masked_covers[of s cs]
    by (auto simp: masked_all_def intro: covers_trans)
qed (simp add: masked_all_def)

lemma redact_hex_hides:
  assumes "secret \<in> set secrets" and "secret \<noteq> []"
  shows "\<not> sublist (hex_text secret) (redact_hex data secrets)"
proof
  assume "sublist (hex_text secret) (redact_hex data secrets)"
  then obtain a b where "render (masked_all secrets (map Some data)) = a @ hex_text secret @ b"
    by (auto simp: sublist_def redact_hex_render)
  from render_sublist[OF assms(2) this] have shown: "sublist (map Some secret) (masked_all secrets (map Some data))"
    by (simp add: starts_with_def)
  obtain us vs where "secrets = us @ secret # vs" using assms(1) by (auto simp: in_set_conv_decomp)
  then have "masked_all secrets (map Some data) = masked_all vs (masked secret (masked_all us (map Some data)))"
    using assms(2) by (simp add: masked_all_def)
  with shown have "sublist (map Some secret) (masked secret (masked_all us (map Some data)))"
    using covers_sublist[OF masked_all_covers] by metis
  with masked_hides[OF assms(2)] show False by blast
qed

subsection \<open>Comparing readings\<close>

lemma change_at_None: "change_at p c i = None \<longleftrightarrow> byte_at p i = byte_at c i"
  by (auto simp: change_at_def split: option.splits)

lemma differences_exact:
  "set (differences previous current) = {x. \<exists>i. change_at previous current i = Some x}"
proof -
  have "i < max (length previous) (length current)" if "change_at previous current i = Some x" for i x
    using that by (auto simp: change_at_def byte_at_def split: option.splits if_splits)
  then show ?thesis by (force simp: differences_def List.map_filter_def)
qed

lemma no_differences_iff: "differences previous current = [] \<longleftrightarrow> previous = current"
proof
  assume none: "differences previous current = []"
  have same: "byte_at previous i = byte_at current i" for i
  proof (rule ccontr)
    assume "byte_at previous i \<noteq> byte_at current i"
    then obtain x where "change_at previous current i = Some x" using change_at_None[of previous current i] by blast
    with none differences_exact[of previous current] show False by force
  qed
  have "\<not> length previous < length current" "\<not> length current < length previous"
    using same[of "length previous"] same[of "length current"] by (auto simp: byte_at_def split: if_splits)
  then have len: "length previous = length current" by simp
  show "previous = current"
  proof (rule nth_equalityI[OF len])
    show "previous ! i = current ! i" if "i < length previous" for i
      using same[of i] that len by (simp add: byte_at_def)
  qed
next
  assume "previous = current"
  then have "change_at previous current i = None" for i by (simp add: change_at_None)
  then show "differences previous current = []" using differences_exact[of previous current] by simp
qed

subsection \<open>The diagnosis reads and discloses nothing\<close>

lemma dg_sent_collect [simp]: "dg_sent (snd (collect label window s)) = dg_sent s"
  by (cases window) (auto simp: collect_def diag_print_def Let_def case_prod_unfold split: sum.splits prod.splits)

definition reads_only :: "diagnosis \<Rightarrow> bool" where
  "reads_only s \<longleftrightarrow> (\<forall>bs \<in> set (dg_sent s). \<exists>c payload.
     frame_encode (plain_frame c payload) = Inr bs \<and> c \<in> {PASSCODE_REQUEST, LOGIN_REQUEST, STATUS_REQUEST})"

lemma reads_only_print [simp]: "reads_only (diag_print ls s) = reads_only s"
  by (simp add: reads_only_def diag_print_def)

lemma reads_only_collect [simp]: "reads_only (snd (collect label window s)) = reads_only s"
  by (simp add: reads_only_def)

lemma reads_only_send:
  assumes "reads_only s" and "c \<in> {PASSCODE_REQUEST, LOGIN_REQUEST, STATUS_REQUEST}"
  shows "reads_only (snd (diag_send ok label (plain_frame c payload) s))"
proof (cases "frame_encode (plain_frame c payload)")
  case (Inr bs)
  with assms show ?thesis
    by (cases ok) (auto simp: diag_send_def reads_only_def diag_print_def Let_def)
qed (simp add: diag_send_def assms(1))

lemma reads_only_passcode: "reads_only s \<Longrightarrow> reads_only (snd (take_passcode fs pw s))"
  by (induction fs pw s rule: take_passcode.induct) (auto split: sum.splits)

lemma reads_only_login: "reads_only s \<Longrightarrow> reads_only (snd (diag_login ok window pw s))"
proof (cases pw)
  case (Some p)
  assume inv: "reads_only s"
  show ?thesis
  proof (cases "encode_length_prefixed p")
    case (Inr field)
    then show ?thesis
      using reads_only_send[OF inv, of LOGIN_REQUEST ok "''login request''" field] Some
      by (auto simp: diag_login_def split: prod.splits sum.splits)
  qed (simp add: diag_login_def Some inv)
qed (simp add: diag_login_def)

lemma reads_only_status: "reads_only s \<Longrightarrow> reads_only (snd (diag_status ok reply unsolicited s))"
  using reads_only_send[of s STATUS_REQUEST ok "''status read''" STATUS_READ_PAYLOAD]
  by (auto simp: diag_status_def Let_def split: prod.splits sum.splits)

lemma diagnose_reads_only: "reads_only (snd (diagnose connects writes windows))"
proof -
  let ?s0 = "\<lparr>dg_buffer = [], dg_secrets = [], dg_lines = [], dg_sent = []\<rparr>"
  have s0: "reads_only ?s0" by (simp add: reads_only_def)
  let ?s1 = "snd (collect ''passive'' (windows 0) ?s0)"
  obtain r s2 where s2: "diag_send (writes 0) ''passcode request'' (plain_frame PASSCODE_REQUEST []) ?s1 = (r, s2)"
    by (rule prod.exhaust)
  have r2: "reads_only s2"
    using reads_only_send[of ?s1 PASSCODE_REQUEST "writes 0" "''passcode request''" "[]"] s0 s2 by simp
  obtain answered s3 where s3: "collect ''reply'' (windows 1) s2 = (answered, s3)" by (rule prod.exhaust)
  have r3: "reads_only s3" using r2 reads_only_collect[of "''reply''" "windows 1" s2] unfolding s3 by simp
  obtain rp s4 where s4: "take_passcode answered None s3 = (rp, s4)" by (rule prod.exhaust)
  have r4: "reads_only s4" using reads_only_passcode[OF r3, of answered None] s4 by simp
  have r5: "reads_only (snd (diag_login (writes 1) (windows 2) pw s4))" for pw by (rule reads_only_login[OF r4])
  have r6: "reads_only (snd (diag_status (writes 2) (windows 3) (windows 4) (snd (diag_login (writes 1) (windows 2) pw s4))))" for pw
    by (rule reads_only_status[OF r5])
  show ?thesis
    using s0 r2 r4 r5 r6
    by (simp add: diagnose_def Let_def s2 s3 s4 case_prod_unfold split: sum.split del: One_nat_def)
qed

definition discloses :: "bytes \<Rightarrow> diag_line list \<Rightarrow> bool" where
  "discloses secret ls \<longleftrightarrow> (\<exists>raw. RawLine raw \<in> set ls \<and> sublist (hex_text secret) raw)"

lemma redact_hex_unknown: "redact_hex data [] = hex_text data"
  by (simp add: redact_hex_def)

text \<open>
  C38. A passcode the script decoded is not shown. Whatever a window of the diagnosis prints as raw
  bytes contains no credential known by then, as the field or as the value in it: those learned
  in earlier windows, and those in the frames this window completed, which stay known for the
  windows to come; the dump blanks the whole occurrence wherever it stands. The script's promise
  that a passcode does not reach the screen goes no further. If the bytes of a window cannot be
  framed to their end, no frame of it is decoded, nothing is learned from it, and with no
  credential known before all its bytes are printed as they came, a passcode among them
  (\<open>unrecognised_passcode_shown\<close> is such a window).
\<close>

theorem recognised_passcode_hidden:
  assumes "collect label window s = (frames, s')"
  shows "set (dg_secrets s) \<subseteq> set (dg_secrets s') \<and>
    (\<forall>f \<in> set frames. is_passcode f \<longrightarrow> fr_payload f \<in> set (dg_secrets s') \<and>
       (\<forall>pw. decode_length_prefixed (fr_payload f) = Inr pw \<longrightarrow> pw \<in> set (dg_secrets s'))) \<and>
    (\<exists>printed. dg_lines s' = dg_lines s @ printed \<and>
       (\<forall>secret \<in> set (dg_secrets s'). secret \<noteq> [] \<longrightarrow> \<not> discloses secret printed) \<and>
       (fst window \<noteq> [] \<longrightarrow>
         (case fst (feed (fst window) (dg_buffer s)) of
            Inr parsed \<Rightarrow> frames = parsed
          | Inl e \<Rightarrow> frames = [] \<and> dg_secrets s' = dg_secrets s \<and>
              (dg_secrets s = [] \<longrightarrow> RawLine (hex_text (fst window)) \<in> set printed))))"
proof -
  obtain received closed where w: "window = (received, closed)" by (rule prod.exhaust)
  let ?closed = "if closed then [ClosedByPeer label] else []"
  show ?thesis
  proof (cases "received = []")
    case True
    with assms w show ?thesis by (auto simp: collect_def diag_print_def discloses_def)
  next
    case False
    obtain res buffer where fd: "feed received (dg_buffer s) = (res, buffer)" by (rule prod.exhaust)
    show ?thesis
    proof (cases res)
      case (Inl e)
      with assms False w fd have "frames = []" "dg_secrets s' = dg_secrets s"
        "dg_lines s' = dg_lines s @ ?closed @
          [ReceivedCount label (length received), RawLine (redact_hex received (dg_secrets s)), NotFramed e]"
        by (auto simp: collect_def diag_print_def)
      then show ?thesis using redact_hex_hides[of _ "dg_secrets s" received] w fd Inl
        by (auto simp: discloses_def redact_hex_unknown)
    next
      case (Inr parsed)
      let ?known = "dg_secrets s @ learn_secrets parsed"
      have "frames = parsed" "dg_secrets s' = ?known"
        "\<exists>shown. dg_lines s' = dg_lines s @ ?closed @ [ReceivedCount label (length received), RawLine (redact_hex received ?known)] @
          shown \<and> (\<forall>raw. RawLine raw \<notin> set shown)"
        using assms False w fd Inr by (auto simp: collect_def diag_print_def Let_def)
      moreover have "\<not> discloses secret (?closed @ [ReceivedCount label n, RawLine (redact_hex received ?known)] @ shown)"
        if "secret \<in> set ?known" "secret \<noteq> []" "\<forall>raw. RawLine raw \<notin> set shown" for secret shown n
        using redact_hex_hides[OF that(1,2), of received] that(3) by (auto simp: discloses_def)
      ultimately show ?thesis using w fd Inr by (force simp: learn_secrets_def)
    qed
  qed
qed

definition sample_answer :: bytes where
  "sample_answer = MAGIC @ [6, 0, 0, 7, 0xAB, 0xCD, 0xEF]"

definition sample_passcode_frame :: frame where
  "sample_passcode_frame = \<lparr>fr_command = Known PASSCODE_RESPONSE, fr_payload = [0xAB, 0xCD, 0xEF], fr_flag = 0\<rparr>"

definition fresh_diagnosis :: diagnosis where
  "fresh_diagnosis = \<lparr>dg_buffer = [], dg_secrets = [], dg_lines = [], dg_sent = []\<rparr>"

lemma sample_answer_decodes: "decode_frame (sample_answer @ rest) = Inr (sample_passcode_frame, 11)"
  by (simp add: decode_frame_def sample_answer_def MAGIC_def decode_varint_def MAX_VARINT_BYTES_def upt_rec
      Let_def MAX_PAYLOAD_BYTES_def sample_passcode_frame_def from_be_def wire_command_of_def all_gcommands_def)

lemma feed_sample_answer:
  "feed sample_answer [] = (Inr [sample_passcode_frame], [])"
  "feed (sample_answer @ [1, 1, 1, 1]) [] =
     (Inl (ProtocolError ''frame does not start with the protocol magic''), [1, 1, 1, 1])"
proof -
  have len: "length sample_answer = 11" by (simp add: sample_answer_def MAGIC_def)
  then have ne: "sample_answer \<noteq> []" by auto
  have junk: "decode_frame [1, 1, 1, 1] = Inl (ProtocolError ''frame does not start with the protocol magic'')"
    by (simp add: decode_frame_def MAGIC_def)
  show "feed sample_answer [] = (Inr [sample_passcode_frame], [])"
    using len ne sample_answer_decodes[of "[]"]
    by (simp add: feed_def Let_def MAX_PAYLOAD_BYTES_def parse_frames.simps[of sample_answer] parse_frames.simps[of "[]"])
  show "feed (sample_answer @ [1, 1, 1, 1]) [] =
     (Inl (ProtocolError ''frame does not start with the protocol magic''), [1, 1, 1, 1])"
    using len ne sample_answer_decodes[of "[1, 1, 1, 1]"] junk
    by (simp add: feed_def Let_def MAX_PAYLOAD_BYTES_def parse_frames.simps[of "sample_answer @ _"] parse_frames.simps[of "[1, 1, 1, 1]"])
qed

theorem recognised_passcode_hidden_witness:
  "\<exists>s'. collect ''reply'' (sample_answer, False) fresh_diagnosis = ([sample_passcode_frame], s') \<and>
     \<not> discloses [0xAB, 0xCD, 0xEF] (dg_lines s')"
proof -
  obtain frames s' where run: "collect ''reply'' (sample_answer, False) fresh_diagnosis = (frames, s')" by (rule prod.exhaust)
  have start: "dg_lines fresh_diagnosis = []" "dg_buffer fresh_diagnosis = []" by (simp_all add: fresh_diagnosis_def)
  have "sample_answer \<noteq> []" by (simp add: sample_answer_def)
  then have f: "frames = [sample_passcode_frame]"
    using run start feed_sample_answer(1) by (auto simp: collect_def diag_print_def Let_def)
  with recognised_passcode_hidden[OF run] run start show ?thesis
    by (auto simp: is_passcode_def sample_passcode_frame_def)
qed

text \<open>
  A passcode that is not recognised is shown: when bytes after the answer cannot be framed, the
  answer before them is lost with them.
\<close>

lemma sample_digits:
  "digit_char 0 = CHR ''0''" "digit_char 1 = CHR ''1''" "digit_char 3 = CHR ''3''" "digit_char 6 = CHR ''6''"
  "digit_char 7 = CHR ''7''" "digit_char 10 = CHR ''a''" "digit_char 11 = CHR ''b''" "digit_char 12 = CHR ''c''"
  "digit_char 13 = CHR ''d''" "digit_char 14 = CHR ''e''" "digit_char 15 = CHR ''f''"
  by code_simp+

lemma sample_bytes_hex:
  "byte_hex 0 = ''00''" "byte_hex 1 = ''01''" "byte_hex 3 = ''03''" "byte_hex 6 = ''06''" "byte_hex 7 = ''07''"
  "byte_hex 0xAB = ''ab''" "byte_hex 0xCD = ''cd''" "byte_hex 0xEF = ''ef''"
  by (simp_all add: byte_hex_split sample_digits sample_digits[unfolded One_nat_def])

lemma unrecognised_passcode_shown:
  "discloses [0xAB, 0xCD, 0xEF]
     (dg_lines (snd (collect ''reply'' (sample_answer @ [1, 1, 1, 1], False) fresh_diagnosis)))"
proof -
  let ?raw = "redact_hex (sample_answer @ [1, 1, 1, 1]) []"
  have "?raw = ''00 00 00 03 06 00 00 07 '' @ hex_text [0xAB, 0xCD, 0xEF] @ '' 01 01 01 01''"
    by (simp add: redact_hex_def hex_text_def sample_answer_def MAGIC_def sample_bytes_hex)
  then have "sublist (hex_text [0xAB, 0xCD, 0xEF]) ?raw" by (metis sublist_appendI)
  moreover have "RawLine ?raw \<in> set (dg_lines (snd (collect ''reply'' (sample_answer @ [1, 1, 1, 1], False) fresh_diagnosis)))"
    using feed_sample_answer(2) by (simp add: collect_def diag_print_def fresh_diagnosis_def)
  ultimately show ?thesis unfolding discloses_def by blast
qed

end
