(* ===== verification/Gateway_Process.thy ===== *)
theory Gateway_Process
  imports Api_Routes Stream_Supervisor Log_Redaction
begin

section \<open>The gateway as a process\<close>

text \<open>
  \<open>main.py\<close> and \<open>api/middleware.py\<close>: how the gateway starts and stops, what it serves, and what
  surrounds every request. What the web framework does around the source is written as the
  source relies on it: the middleware added last is the outermost, an exception passes through a
  middleware that does not catch it, and the handler of \<open>Exception\<close> answers outside all of them.
  The check of the host name and the file server are parameters; headers the framework adds of its
  own, such as the length, are left out.
\<close>

subsection \<open>Responses\<close>

text \<open>Header names are compared without case, so they are kept in lower case.\<close>

datatype reply_body = ProblemBody problem | ReplyBody api_reply | HealthBody | FileBody string

record http_response =
  rs_status :: int
  rs_headers :: "(string, string) odict"
  rs_body :: reply_body

definition set_header :: "string \<Rightarrow> string \<Rightarrow> http_response \<Rightarrow> http_response" where
  "set_header name value r = r\<lparr>rs_headers := od_set (py_casefold name) value (rs_headers r)\<rparr>"

definition header :: "string \<Rightarrow> http_response \<Rightarrow> string option" where
  "header name r = od_get (rs_headers r) (py_casefold name)"

definition header_default :: "string \<Rightarrow> string \<Rightarrow> http_response \<Rightarrow> http_response" where
  "header_default name value r = (if header name r = None then set_header name value r else r)"

definition CORRELATION_HEADER :: string where "CORRELATION_HEADER = ''X-Correlation-Id''"

text \<open>\<open>_problem\<close> of \<open>api/errors.py\<close>.\<close>

definition problem_response :: "string \<Rightarrow> api_error \<Rightarrow> http_response" where
  "problem_response corr e =
     (let p = problem_of corr e in
      \<lparr>rs_status = pb_status p,
       rs_headers = [(py_casefold CORRELATION_HEADER, pb_correlation_id p),
                     (''content-type'', ''application/problem+json'')],
       rs_body = ProblemBody p\<rparr>)"

text \<open>What the exception handlers inside the middleware turn into a response; others pass through.\<close>

definition handled :: "string \<Rightarrow> api_error + api_reply \<Rightarrow> string + http_response" where
  "handled corr r =
     (case r of
        Inl (Failed (Crashed m)) \<Rightarrow> Inl m
      | Inl e \<Rightarrow> Inr (problem_response corr e)
      | Inr x \<Rightarrow> Inr \<lparr>rs_status = 200, rs_headers = [(''content-type'', ''application/json'')], rs_body = ReplyBody x\<rparr>)"

subsection \<open>Middleware\<close>

text \<open>An application: a request with its path, over a state, to a response or an exception.\<close>

type_synonym 's application = "string \<Rightarrow> http_request \<Rightarrow> 's \<Rightarrow> (string + http_response) \<times> 's"

definition CONTENT_SECURITY_POLICY :: string where
  "CONTENT_SECURITY_POLICY =
     concat [''default-src 'none'; '', ''script-src 'self'; '', ''style-src 'self'; '', ''img-src 'self' data:; '',
       ''font-src 'self'; '', ''connect-src 'self'; '', ''manifest-src 'self'; '', ''worker-src 'self'; '',
       ''base-uri 'none'; '', ''form-action 'none'; '', ''frame-ancestors 'none'' @ [CHR 0x27]]"

definition correlation_dispatch :: "uuid \<Rightarrow> 's application \<Rightarrow> 's application" where
  "correlation_dispatch u call_next path q s =
     (let correlation_id = uuid_hex u in
      case call_next path (q\<lparr>rq_correlation_id := Some correlation_id\<rparr>) s of
        (Inl e, s1) \<Rightarrow> (Inl e, s1)
      | (Inr r, s1) \<Rightarrow> (Inr (set_header CORRELATION_HEADER correlation_id r), s1))"

definition secured :: "string \<Rightarrow> http_response \<Rightarrow> http_response" where
  "secured path r =
     (let r = header_default ''X-Content-Type-Options'' ''nosniff'' r;
          r = header_default ''Referrer-Policy'' ''no-referrer'' r;
          r = header_default ''X-Frame-Options'' ''DENY'' r;
          r = header_default ''Content-Security-Policy'' CONTENT_SECURITY_POLICY r
      in if starts_with ''/v1'' path then header_default ''Cache-Control'' ''no-store'' r
         else header_default ''Cache-Control'' ''no-cache'' r)"

definition security_dispatch :: "'s application \<Rightarrow> 's application" where
  "security_dispatch call_next path q s =
     (case call_next path q s of
        (Inl e, s1) \<Rightarrow> (Inl e, s1)
      | (Inr r, s1) \<Rightarrow> (Inr (secured path r), s1))"

text \<open>
  The application \<open>create_app\<close> puts together. The identifier of the request is in its scope, so the
  outermost handler still finds it.
\<close>

definition gateway_http ::
  "('s application \<Rightarrow> 's application) \<Rightarrow> 's application \<Rightarrow> uuid \<Rightarrow> string \<Rightarrow> http_request \<Rightarrow> 's
     \<Rightarrow> http_response \<times> 's"
where
  "gateway_http host_check app u path q s =
     (case correlation_dispatch u (security_dispatch (host_check app)) path q s of
        (Inl e, s1) \<Rightarrow>
          (problem_response (correlation_id (q\<lparr>rq_correlation_id := Some (uuid_hex u)\<rparr>)) (Failed (Crashed e)), s1)
      | (Inr r, s1) \<Rightarrow> (r, s1))"

text \<open>The routes of the API, and the probe for liveness.\<close>

definition api_app ::
  "(string \<Rightarrow> string) \<Rightarrow> 'w env \<Rightarrow> api_call \<Rightarrow> (container \<times> 'w) application"
where
  "api_app digest env call path q s =
     (let (r, s1) = serve digest env call q s in (handled (correlation_id q) r, s1))"

definition healthz :: "'s application" where
  "healthz path q s =
     (Inr \<lparr>rs_status = 200, rs_headers = [(''content-type'', ''application/json'')], rs_body = HealthBody\<rparr>, s)"

subsection \<open>Starting and stopping\<close>

text \<open>The directory of the client that is served, over the file system and the place of the program.\<close>

definition resolve_web_client_dir :: "(string \<Rightarrow> bool) \<Rightarrow> string \<Rightarrow> settings \<Rightarrow> string option" where
  "resolve_web_client_dir is_dir shipped s =
     (case st_web_client_dir s of
        Some d \<Rightarrow> if is_dir d then Some d else None
      | None \<Rightarrow> if is_dir shipped then Some shipped else None)"

record app_config =
  ac_docs_url :: "string option"
  ac_openapi_url :: "string option"
  ac_allowed_hosts :: "string list"
  ac_web_client :: "string option"

definition create_app :: "(string \<Rightarrow> bool) \<Rightarrow> string \<Rightarrow> settings \<Rightarrow> root_logger \<Rightarrow> app_config \<times> root_logger" where
  "create_app is_dir shipped s lg =
     (let lg = configure_logging (st_log_level s) lg;
          is_dev = (st_env s \<noteq> PRODUCTION)
      in (\<lparr>ac_docs_url = (if is_dev then Some ''/docs'' else None),
           ac_openapi_url = (if is_dev then Some ''/openapi.json'' else None),
           ac_allowed_hosts = st_allowed_hosts s,
           ac_web_client = resolve_web_client_dir is_dir shipped s\<rparr>, lg))"

datatype process_task = ProviderStream string | Timers

record process =
  pr_container :: container
  pr_tasks :: "process_task list"

datatype start_error = BuildFailed build_error | BootstrapFailed adapter_exn

text \<open>
  The part of \<open>lifespan\<close> before requests are served: \<open>adapter\<close> gives what an adapter built by
  \<open>container.py\<close> does.
\<close>

definition start_process ::
  "hmac \<Rightarrow> (built_provider \<Rightarrow> 'w device_provider) \<Rightarrow> build_error + container \<Rightarrow> 'w \<Rightarrow> (start_error + process) \<times> 'w"
where
  "start_process h adapter built w =
     (case built of
        Inl e \<Rightarrow> (Inl (BuildFailed e), w)
      | Inr c \<Rightarrow>
          (case bootstrap h (map (adapter \<circ> snd) (ct_providers c)) (ct_gateway c, w) of
             (Inl e, g, w1) \<Rightarrow> (Inl (BootstrapFailed e), w1)
           | (Inr _, g, w1) \<Rightarrow>
               (Inr \<lparr>pr_container = c\<lparr>ct_gateway := g\<rparr>,
                     pr_tasks = map (ProviderStream \<circ> fst) (ct_providers c) @ [Timers]\<rparr>, w1)))"

text \<open>Closing: each adapter that has an \<open>aclose\<close> is closed, an exception of one is dropped.\<close>

primrec close_providers ::
  "(built_provider \<Rightarrow> ('w \<Rightarrow> (adapter_exn + unit) \<times> 'w) option) \<Rightarrow> built_provider list \<Rightarrow> 'w \<Rightarrow> 'w"
where
  "close_providers closer [] w = w"
| "close_providers closer (p # ps) w =
     (case closer p of
        None \<Rightarrow> close_providers closer ps w
      | Some aclose \<Rightarrow> (case aclose w of (r, w1) \<Rightarrow> close_providers closer ps w1))"

definition stop_process ::
  "(built_provider \<Rightarrow> ('w \<Rightarrow> (adapter_exn + unit) \<times> 'w) option) \<Rightarrow> process \<Rightarrow> 'w \<Rightarrow> process \<times> 'w"
where
  "stop_process closer pr w =
     (pr\<lparr>pr_tasks := []\<rparr>, close_providers closer (map snd (ct_providers (pr_container pr))) w)"

subsection \<open>Every response carries the identifier of the server\<close>

lemma header_set: "header m (set_header n v r) = (if py_casefold m = py_casefold n then Some v else header m r)"
  by (simp add: header_def set_header_def)

lemma header_default_get:
  "header m (header_default n v r) = (if py_casefold m = py_casefold n \<and> header m r = None then Some v else header m r)"
  by (auto simp: header_default_def header_set) (auto simp: header_def)

lemma header_names:
  "py_casefold CORRELATION_HEADER = ''x-correlation-id''"
  "py_casefold ''X-Content-Type-Options'' = ''x-content-type-options''"
  "py_casefold ''Referrer-Policy'' = ''referrer-policy''"
  "py_casefold ''X-Frame-Options'' = ''x-frame-options''"
  "py_casefold ''Content-Security-Policy'' = ''content-security-policy''"
  "py_casefold ''Cache-Control'' = ''cache-control''"
  by code_simp+

lemma problem_headers:
  "header CORRELATION_HEADER (problem_response corr e) = Some corr"
  "header ''Cache-Control'' (problem_response corr e) = None"
  "header ''Content-Security-Policy'' (problem_response corr e) = None"
  by (cases e; simp add: header_def header_names problem_response_def problem_of_def od_get_def Let_def
      split: failure.split prod.split)+

lemma secured_headers:
  "header ''X-Content-Type-Options'' (secured path r) \<noteq> None"
  "header ''Referrer-Policy'' (secured path r) \<noteq> None"
  "header ''X-Frame-Options'' (secured path r) \<noteq> None"
  "header ''Content-Security-Policy'' (secured path r) \<noteq> None"
  by (simp_all add: secured_def header_default_get header_names Let_def)

lemma secured_cache:
  "header ''Cache-Control'' (secured path r) =
     (case header ''Cache-Control'' r of
        None \<Rightarrow> Some (if starts_with ''/v1'' path then ''no-store'' else ''no-cache'') | Some v \<Rightarrow> Some v)"
  by (auto simp: secured_def header_default_get header_names Let_def split: option.split)

lemma header_kept: "py_casefold m \<noteq> py_casefold n \<Longrightarrow> header m (set_header n v r) = header m r"
  by (simp add: header_set)

text \<open>
  Every response, of a crash too, carries the identifier the server drew for the request, and the
  identifier a client may have sent is not looked at.
\<close>

lemma response_correlated:
  "header CORRELATION_HEADER (fst (gateway_http check app u path q s)) = Some (uuid_hex u)"
  by (auto simp: gateway_http_def correlation_dispatch_def correlation_id_def problem_headers header_set Let_def
      split: prod.split sum.split)

lemma response_ignores_client_id:
  "gateway_http check app u path (q\<lparr>rq_correlation_id := i\<rparr>) s = gateway_http check app u path q s"
  by (simp add: gateway_http_def correlation_dispatch_def correlation_id_def Let_def split: prod.split sum.split)

text \<open>
  A response that came out of the application is secured, and not cached under \<open>/v1\<close> unless the
  application said so itself; the answer to a crash is made outside and is not.
\<close>

lemma response_secured:
  assumes "check app path (q\<lparr>rq_correlation_id := Some (uuid_hex u)\<rparr>) s = (Inr r, s1)"
  shows "header ''Content-Security-Policy'' (fst (gateway_http check app u path q s)) \<noteq> None \<and>
    header ''Cache-Control'' (fst (gateway_http check app u path q s)) =
      (case header ''Cache-Control'' r of
         None \<Rightarrow> Some (if starts_with ''/v1'' path then ''no-store'' else ''no-cache'') | Some v \<Rightarrow> Some v)"
  using assms
  by (simp add: gateway_http_def correlation_dispatch_def security_dispatch_def header_set header_names
      secured_headers secured_cache Let_def)

lemma crash_unsecured:
  assumes "check app path (q\<lparr>rq_correlation_id := Some (uuid_hex u)\<rparr>) s = (Inl e, s1)"
  shows "rs_status (fst (gateway_http check app u path q s)) = 500 \<and>
    header ''Content-Security-Policy'' (fst (gateway_http check app u path q s)) = None \<and>
    header ''Cache-Control'' (fst (gateway_http check app u path q s)) = None"
  using assms
  by (simp add: gateway_http_def correlation_dispatch_def security_dispatch_def problem_headers Let_def)
    (simp add: problem_response_def problem_of_def)

text \<open>The body of a problem names the identifier of the header.\<close>

lemma problem_of_id [simp]: "pb_correlation_id (problem_of c e) = c"
  by (cases e) (auto simp: problem_of_def split: failure.split prod.split)

lemma problem_response_body:
  "rs_body (problem_response c e) = ProblemBody (problem_of c e)"
  "rs_status (problem_response c e) = pb_status (problem_of c e)"
  by (simp_all add: problem_response_def Let_def)

lemma handled_problem:
  assumes "handled corr r = Inr x" and "rs_body x = ProblemBody p"
  shows "pb_correlation_id p = corr \<and> rs_status x = pb_status p"
proof (cases r)
  case (Inl e)
  then have "x = problem_response corr e"
    using assms(1) by (simp add: handled_def split: api_error.splits failure.splits)
  then show ?thesis using assms(2) by (auto simp: problem_response_body)
next
  case (Inr y)
  then show ?thesis using assms by (auto simp: handled_def)
qed

lemma set_header_body [simp]:
  "rs_body (set_header n v x) = rs_body x" "rs_status (set_header n v x) = rs_status x"
  "rs_body (header_default n v x) = rs_body x" "rs_status (header_default n v x) = rs_status x"
  by (simp_all add: set_header_def header_default_def)

lemma secured_body [simp]: "rs_body (secured path x) = rs_body x" "rs_status (secured path x) = rs_status x"
  by (simp_all add: secured_def Let_def)

lemma problem_names_id:
  assumes "gateway_http (\<lambda>a. a) (api_app digest env call) u path q s = (r, s1)" and "rs_body r = ProblemBody p"
  shows "pb_correlation_id p = uuid_hex u \<and> rs_status r = pb_status p"
proof -
  let ?q = "q\<lparr>rq_correlation_id := Some (uuid_hex u)\<rparr>"
  obtain res s2 where run: "serve digest env call ?q s = (res, s2)" by (rule prod.exhaust)
  have id: "correlation_id ?q = uuid_hex u" by (simp add: correlation_id_def)
  show ?thesis
  proof (cases "handled (uuid_hex u) res")
    case (Inl m)
    then have "r = problem_response (uuid_hex u) (Failed (Crashed m))"
      using assms(1) run id by (simp add: gateway_http_def correlation_dispatch_def security_dispatch_def api_app_def Let_def)
    then show ?thesis using assms(2) by (auto simp: problem_response_body)
  next
    case (Inr x)
    then have "r = set_header CORRELATION_HEADER (uuid_hex u) (secured path x)"
      using assms(1) run id by (simp add: gateway_http_def correlation_dispatch_def security_dispatch_def api_app_def Let_def)
    then show ?thesis using assms(2) handled_problem[OF Inr] by simp
  qed
qed

subsection \<open>A started process\<close>

lemma started_process:
  assumes "start_process h adapter built w = (Inr pr, w1)" "built = Inr c"
    and "\<forall>p \<in> set (ct_providers c). adapter_contract (adapter (snd p)) refs world_ok"
    and "world_ok w"
    and "discovery_inv h known (gw_registry (ct_gateway c))"
    and "inj_on (id_of_ref h (reg_id_salt (gw_registry (ct_gateway c)))) known"
    and "discovered h (map (adapter \<circ> snd) (ct_providers c)) (ct_gateway c, w) \<subseteq> known"
  shows "discovery_inv h known (gw_registry (ct_gateway (pr_container pr))) \<and> world_ok w1 \<and>
    pr_tasks pr = map (ProviderStream \<circ> fst) (ct_providers c) @ [Timers]"
proof -
  obtain r g w2 where run: "bootstrap h (map (adapter \<circ> snd) (ct_providers c)) (ct_gateway c, w) = (r, g, w2)"
    by (metis prod.collapse)
  have "discovery_inv h known (gw_registry g) \<and> world_ok w2"
    using bootstrap_inv[where world_ok = world_ok and refs = refs, OF _ assms(5-7,4) run] assms(3) by simp
  with assms(1,2) run show ?thesis by (auto simp: start_process_def split: sum.splits)
qed

text \<open>
  An adapter whose device cannot be read while the gateway starts keeps the whole gateway from
  starting.
\<close>

lemma outage_stops_start:
  assumes "ct_providers c = (n, b) # ps"
    and "dp_discover_devices (adapter b) w = (Inr (pd # pds), w1)"
    and "dp_get_state (adapter b) (pd_ref pd) w1 = (Inl e, w2)"
  shows "start_process h adapter (Inr c) w = (Inl (BootstrapFailed e), w2)"
  using assms by (simp add: start_process_def)

text \<open>Every adapter that can be closed is closed, also after one that failed to.\<close>

lemma closes_all:
  assumes "\<And>p. p \<in> set ps \<Longrightarrow> closer p = Some (\<lambda>gone. (outcome p, gone @ [p]))"
  shows "close_providers closer ps gone = gone @ ps"
  using assms by (induction ps arbitrary: gone) auto

end
