(* ===== verification/Adapter_Closing.thy ===== *)
theory Adapter_Closing
  imports Gateway_Process
begin

section \<open>What the adapters hold open, and letting go of it\<close>

text \<open>
  The adapters of Home Assistant and of the weather service use an HTTP client they were given, or
  make one of their own when the first request needs it; \<open>aclose\<close> closes the one they made.
  The adapter of the pool holds a socket. \<open>main.py\<close> closes all of them when the gateway stops. The
  HTTP library is a parameter: it makes clients, named by numbers, and closes them.
\<close>

record 'w http_library =
  hl_new :: "'w \<Rightarrow> nat \<times> 'w"
  hl_close :: "nat \<Rightarrow> 'w \<Rightarrow> (adapter_exn + unit) \<times> 'w"

record http_holder =
  hh_given :: "nat option"
  hh_owned :: "nat option"

subsection \<open>The two adapters\<close>

text \<open>\<open>_client\<close> and \<open>aclose\<close> of \<open>HomeAssistantClient\<close>.\<close>

definition ha_http_client :: "'w http_library \<Rightarrow> http_holder \<times> 'w \<Rightarrow> nat \<times> http_holder \<times> 'w" where
  "ha_http_client L = (\<lambda>(h, w).
     (case hh_given h of
        Some c \<Rightarrow> (c, h, w)
      | None \<Rightarrow>
          (case hh_owned h of
             None \<Rightarrow> (let (c, w1) = hl_new L w in (c, h\<lparr>hh_owned := Some c\<rparr>, w1))
           | Some c \<Rightarrow> (c, h, w))))"

definition ha_aclose :: "'w http_library \<Rightarrow> http_holder \<times> 'w \<Rightarrow> (adapter_exn + unit) \<times> http_holder \<times> 'w" where
  "ha_aclose L = (\<lambda>(h, w).
     (case hh_owned h of
        None \<Rightarrow> (Inr (), h, w)
      | Some c \<Rightarrow>
          (case hl_close L c w of
             (Inl e, w1) \<Rightarrow> (Inl e, h, w1)
           | (Inr _, w1) \<Rightarrow> (Inr (), h\<lparr>hh_owned := None\<rparr>, w1))))"

text \<open>\<open>_ensure_client\<close>, the choice at the head of \<open>_fetch\<close>, and \<open>aclose\<close> of \<open>OpenMeteoProvider\<close>.\<close>

definition weather_ensure_client :: "'w http_library \<Rightarrow> http_holder \<times> 'w \<Rightarrow> nat \<times> http_holder \<times> 'w" where
  "weather_ensure_client L = (\<lambda>(h, w).
     (let (h, w) = (if hh_owned h = None then (let (c, w1) = hl_new L w in (h\<lparr>hh_owned := Some c\<rparr>, w1)) else (h, w))
      in (the (hh_owned h), h, w)))"

definition weather_http_client :: "'w http_library \<Rightarrow> http_holder \<times> 'w \<Rightarrow> nat \<times> http_holder \<times> 'w" where
  "weather_http_client L s =
     (case hh_given (fst s) of Some c \<Rightarrow> (c, s) | None \<Rightarrow> weather_ensure_client L s)"

definition weather_aclose :: "'w http_library \<Rightarrow> http_holder \<times> 'w \<Rightarrow> (adapter_exn + unit) \<times> http_holder \<times> 'w" where
  "weather_aclose L = (\<lambda>(h, w).
     (case hh_owned h of
        None \<Rightarrow> (Inr (), h, w)
      | Some c \<Rightarrow>
          (case hl_close L c w of
             (Inl e, w1) \<Rightarrow> (Inl e, h, w1)
           | (Inr _, w1) \<Rightarrow> (Inr (), h\<lparr>hh_owned := None\<rparr>, w1))))"

subsection \<open>Owning at most one client\<close>

text \<open>
  A life of such an adapter: requests with the client it is handed, and closings. What the
  library promises is stated over the set of clients that are open: a new client was not open before, and
  making or closing one changes no other.
\<close>

datatype 'w client_use = Request "nat \<Rightarrow> 'w \<Rightarrow> 'w" | Shut

primrec client_uses ::
  "(http_holder \<times> 'w \<Rightarrow> nat \<times> http_holder \<times> 'w) \<Rightarrow> (http_holder \<times> 'w \<Rightarrow> (adapter_exn + unit) \<times> http_holder \<times> 'w)
     \<Rightarrow> 'w client_use list \<Rightarrow> http_holder \<times> 'w \<Rightarrow> http_holder \<times> 'w"
where
  "client_uses obtain_client shut [] s = s"
| "client_uses obtain_client shut (u # us) s =
     client_uses obtain_client shut us
       (case u of
          Request f \<Rightarrow> (let (c, h, w) = obtain_client s in (h, f c w))
        | Shut \<Rightarrow> snd (shut s))"

definition library_laws :: "(nat \<Rightarrow> 'w \<Rightarrow> bool) \<Rightarrow> 'w http_library \<Rightarrow> bool" where
  "library_laws is_open L \<longleftrightarrow>
     (\<forall>w c w1. hl_new L w = (c, w1) \<longrightarrow> \<not> is_open c w \<and> (\<forall>d. d \<noteq> c \<longrightarrow> is_open d w1 = is_open d w)) \<and>
     (\<forall>w c r w1. hl_close L c w = (r, w1) \<longrightarrow>
        (\<forall>d. d \<noteq> c \<longrightarrow> is_open d w1 = is_open d w) \<and> (r = Inr () \<longrightarrow> \<not> is_open c w1))"

definition holds_only :: "(nat \<Rightarrow> 'w \<Rightarrow> bool) \<Rightarrow> 'w \<Rightarrow> http_holder \<times> 'w \<Rightarrow> bool" where
  "holds_only is_open w0 s \<longleftrightarrow>
     (\<forall>d. hh_owned (fst s) \<noteq> Some d \<longrightarrow> is_open d (snd s) = is_open d w0) \<and>
     (\<forall>d. hh_owned (fst s) = Some d \<longrightarrow> \<not> is_open d w0)"

locale client_owner =
  fixes obtain_client :: "'w http_library \<Rightarrow> http_holder \<times> 'w \<Rightarrow> nat \<times> http_holder \<times> 'w"
    and shut :: "'w http_library \<Rightarrow> http_holder \<times> 'w \<Rightarrow> (adapter_exn + unit) \<times> http_holder \<times> 'w"
  assumes given: "hh_given h = Some c \<Longrightarrow> obtain_client L (h, w) = (c, h, w)"
    and owned: "hh_given h = None \<Longrightarrow> hh_owned h = Some c \<Longrightarrow> obtain_client L (h, w) = (c, h, w)"
    and made: "hh_given h = None \<Longrightarrow> hh_owned h = None \<Longrightarrow> hl_new L w = (c, w1) \<Longrightarrow>
      obtain_client L (h, w) = (c, h\<lparr>hh_owned := Some c\<rparr>, w1)"
    and nothing_to_shut: "hh_owned h = None \<Longrightarrow> shut L (h, w) = (Inr (), h, w)"
    and shut_raises: "hh_owned h = Some c \<Longrightarrow> hl_close L c w = (Inl e, w1) \<Longrightarrow> shut L (h, w) = (Inl e, h, w1)"
    and shut_owned: "hh_owned h = Some c \<Longrightarrow> hl_close L c w = (Inr (), w1) \<Longrightarrow>
      shut L (h, w) = (Inr (), h\<lparr>hh_owned := None\<rparr>, w1)"
begin

lemma obtain_keeps:
  assumes "library_laws is_open L" and "holds_only is_open w0 s" and "obtain_client L s = (c, s1)"
  shows "holds_only is_open w0 s1 \<and> (hh_given (fst s) = Some c \<or> hh_owned (fst s1) = Some c)"
proof (cases s)
  case (Pair h w)
  obtain k w1 where new: "hl_new L w = (k, w1)" by (rule prod.exhaust)
  have "\<not> is_open k w" "\<And>d. d \<noteq> k \<Longrightarrow> is_open d w1 = is_open d w"
    using assms(1) new by (auto simp: library_laws_def)
  then show ?thesis
    using assms(2,3) given[of h _ L w] owned[of h _ L w] made[OF _ _ new]
    by (cases "hh_given h"; cases "hh_owned h") (auto simp: Pair holds_only_def)
qed

lemma shut_keeps:
  assumes "library_laws is_open L" and "holds_only is_open w0 s" and "shut L s = (r, s1)"
  shows "holds_only is_open w0 s1 \<and> (r = Inr () \<longrightarrow> hh_owned (fst s1) = None)"
proof (cases s)
  case (Pair h w)
  show ?thesis
  proof (cases "hh_owned h")
    case None
    then show ?thesis using assms nothing_to_shut[of h L w] by (auto simp: Pair)
  next
    case (Some c)
    obtain q w1 where close: "hl_close L c w = (q, w1)" by (rule prod.exhaust)
    then have "\<And>d. d \<noteq> c \<Longrightarrow> is_open d w1 = is_open d w" "q = Inr () \<Longrightarrow> \<not> is_open c w1"
      using assms(1) unfolding library_laws_def by blast+
    then show ?thesis
      using assms(2,3) Some close shut_raises[OF Some] shut_owned[OF Some]
      by (cases q) (auto simp: Pair holds_only_def, metis+)
  qed
qed

text \<open>
  Whatever the adapter is used for, the only client it ever has open besides those that were
  open before is the one it owns; a client it was given stays as it was. A closing that returns
  leaves exactly the clients that were open before.
\<close>

lemma uses_hold_only:
  assumes "library_laws is_open L" and "holds_only is_open w0 s"
    and "\<And>f c d w. Request f \<in> set us \<Longrightarrow> is_open d (f c w) = is_open d w"
  shows "holds_only is_open w0 (client_uses (obtain_client L) (shut L) us s)"
  using assms(2,3)
proof (induction us arbitrary: s)
  case (Cons u us)
  show ?case
  proof (cases u)
    case (Request f)
    obtain c s1 where o: "obtain_client L s = (c, s1)" by (rule prod.exhaust)
    have "holds_only is_open w0 (fst s1, f c (snd s1))"
      using obtain_keeps[OF assms(1) Cons.prems(1) o] Cons.prems(2)[of f] Request by (simp add: holds_only_def)
    then show ?thesis using Cons.IH Cons.prems(2) by (simp add: Request o split_beta)
  next
    case Shut
    obtain r s1 where "shut L s = (r, s1)" by (rule prod.exhaust)
    with shut_keeps[OF assms(1) Cons.prems(1)] Cons.IH[of s1] Cons.prems(2) show ?thesis by (simp add: Shut)
  qed
qed simp

lemma shut_restores:
  assumes "library_laws is_open L" and "holds_only is_open w0 s" and "shut L s = (Inr (), s1)"
  shows "is_open d (snd s1) = is_open d w0"
  using shut_keeps[OF assms] by (simp add: holds_only_def)

end

interpretation ha_owner: client_owner ha_http_client ha_aclose
  by unfold_locales (simp_all add: ha_http_client_def ha_aclose_def)

interpretation weather_owner: client_owner weather_http_client weather_aclose
  by unfold_locales (simp_all add: weather_http_client_def weather_ensure_client_def weather_aclose_def)

subsection \<open>Stopping\<close>

text \<open>What the adapters of one gateway hold, and the \<open>aclose\<close> of each; the simulation has none.\<close>

record 'w adapters =
  ad_pool :: bestway_client
  ad_home :: http_holder
  ad_weather :: http_holder
  ad_world :: 'w

definition bestway_aclose :: "'w network \<Rightarrow> 'w adapters \<Rightarrow> (adapter_exn + unit) \<times> 'w adapters" where
  "bestway_aclose n a =
     (let (c, w) = close_client n (ad_pool a, ad_world a) in (Inr (), a\<lparr>ad_pool := c, ad_world := w\<rparr>))"

definition ha_provider_aclose :: "'w http_library \<Rightarrow> 'w adapters \<Rightarrow> (adapter_exn + unit) \<times> 'w adapters" where
  "ha_provider_aclose L a =
     (let (r, h, w) = ha_aclose L (ad_home a, ad_world a) in (r, a\<lparr>ad_home := h, ad_world := w\<rparr>))"

definition weather_provider_aclose :: "'w http_library \<Rightarrow> 'w adapters \<Rightarrow> (adapter_exn + unit) \<times> 'w adapters" where
  "weather_provider_aclose L a =
     (let (r, h, w) = weather_aclose L (ad_weather a, ad_world a) in (r, a\<lparr>ad_weather := h, ad_world := w\<rparr>))"

definition adapter_closer ::
  "'w network \<Rightarrow> 'w http_library \<Rightarrow> built_provider \<Rightarrow> ('w adapters \<Rightarrow> (adapter_exn + unit) \<times> 'w adapters) option"
where
  "adapter_closer n L p =
     (case p of
        BuiltDemo _ _ \<Rightarrow> None
      | BuiltBestway _ _ _ _ \<Rightarrow> Some (bestway_aclose n)
      | BuiltHomeAssistant _ _ _ _ \<Rightarrow> Some (ha_provider_aclose L)
      | BuiltWeather _ _ _ _ \<Rightarrow> Some (weather_provider_aclose L))"

primrec let_go :: "built_provider \<Rightarrow> 'w adapters \<Rightarrow> bool" where
  "let_go (BuiltDemo r t) a \<longleftrightarrow> True"
| "let_go (BuiltBestway h p l s) a \<longleftrightarrow> \<not> bc_open (ad_pool a) \<and> bc_passcode (ad_pool a) = []"
| "let_go (BuiltHomeAssistant u t s r) a \<longleftrightarrow> hh_owned (ad_home a) = None"
| "let_go (BuiltWeather x y d s) a \<longleftrightarrow> hh_owned (ad_weather a) = None"

lemma aclose_owned:
  "ha_aclose L (h, w) = (Inr (), h', w') \<Longrightarrow> hh_owned h' = None"
  "weather_aclose L (h, w) = (Inr (), h', w') \<Longrightarrow> hh_owned h' = None"
  "ha_aclose L (h, w) = (r, h', w') \<Longrightarrow> hh_owned h = None \<Longrightarrow> hh_owned h' = None"
  "weather_aclose L (h, w) = (r, h', w') \<Longrightarrow> hh_owned h = None \<Longrightarrow> hh_owned h' = None"
  by (auto simp: ha_aclose_def weather_aclose_def split: option.splits prod.splits sum.splits)

lemma aclose_frames:
  "bestway_aclose n a = (r, a') \<Longrightarrow>
     \<not> bc_open (ad_pool a') \<and> bc_passcode (ad_pool a') = [] \<and> ad_home a' = ad_home a \<and> ad_weather a' = ad_weather a"
  "ha_provider_aclose L a = (r, a') \<Longrightarrow>
     (r = Inr () \<or> hh_owned (ad_home a) = None \<longrightarrow> hh_owned (ad_home a') = None) \<and>
     ad_pool a' = ad_pool a \<and> ad_weather a' = ad_weather a"
  "weather_provider_aclose L a = (r, a') \<Longrightarrow>
     (r = Inr () \<or> hh_owned (ad_weather a) = None \<longrightarrow> hh_owned (ad_weather a') = None) \<and>
     ad_pool a' = ad_pool a \<and> ad_home a' = ad_home a"
  by (auto simp: bestway_aclose_def ha_provider_aclose_def weather_provider_aclose_def close_client_def
      split: prod.splits) (metis aclose_owned)+

lemma closer_effect:
  assumes "adapter_closer n L p = Some f" and "f a = (r, a')"
  shows "(r = Inr () \<longrightarrow> let_go p a') \<and> (let_go q a \<longrightarrow> let_go q a')"
  using assms
  by (cases p) (auto simp: adapter_closer_def dest!: aclose_frames; cases q; auto)+

lemma close_providers_keep: "let_go q a \<Longrightarrow> let_go q (close_providers (adapter_closer n L) ps a)"
  by (induction ps arbitrary: a) (auto simp: closer_effect split: option.split prod.split)

text \<open>
  When the gateway stops, every adapter lets go of what it held, as long as closing its HTTP client
  does not fail; if one fails, the others still let go, and the socket to the pool always does.
\<close>

lemma close_providers_let_go:
  assumes "p \<in> set ps" and "\<And>f a. adapter_closer n L p = Some f \<Longrightarrow> fst (f a) = Inr ()"
  shows "let_go p (close_providers (adapter_closer n L) ps a)"
  using assms(1)
proof (induction ps arbitrary: a)
  case (Cons q qs)
  show ?case
  proof (cases "adapter_closer n L q")
    case None
    then have "let_go q a" by (cases q) (auto simp: adapter_closer_def)
    with None Cons show ?thesis by (auto intro: close_providers_keep)
  next
    case (Some f)
    obtain r a' where fa: "f a = (r, a')" by (rule prod.exhaust)
    have "p = q \<Longrightarrow> let_go p a'" using closer_effect[OF Some fa] assms(2)[of f a] Some fa by simp
    with Some fa Cons show ?thesis by (auto intro: close_providers_keep)
  qed
qed simp

lemma aclose_returns:
  assumes "\<And>c w. fst (hl_close L c w) = Inr ()"
  shows "fst (ha_aclose L s) = Inr () \<and> fst (weather_aclose L s) = Inr ()"
proof -
  have "hl_close L c w \<noteq> (Inl e, w1)" for c w e w1 using assms[of c w] by auto
  then show ?thesis
    by (cases s) (auto simp: ha_aclose_def weather_aclose_def split: option.split prod.split sum.split)
qed

lemma stop_lets_go:
  assumes "stop_process (adapter_closer n L) pr a = (pr', a')" and "(k, p) \<in> set (ct_providers (pr_container pr))"
    and "is_BuiltBestway p \<or> (\<forall>c w. fst (hl_close L c w) = Inr ())"
  shows "let_go p a' \<and> pr_tasks pr' = []"
proof -
  have "fst (f b) = Inr ()" if "adapter_closer n L p = Some f" for f b
    using that assms(3) aclose_returns[of L]
    by (cases p) (auto simp: adapter_closer_def bestway_aclose_def ha_provider_aclose_def
        weather_provider_aclose_def split_beta Let_def)
  moreover have "p \<in> set (map snd (ct_providers (pr_container pr)))" using assms(2) by force
  ultimately have "let_go p (close_providers (adapter_closer n L) (map snd (ct_providers (pr_container pr))) a)"
    by (intro close_providers_let_go)
  then show ?thesis using assms(1) by (auto simp: stop_process_def)
qed

end
