(* ===== verification/Demo_Deployment.thy ===== *)
theory Demo_Deployment
  imports Gateway_Process Demo_Properties Command_Properties
begin

section \<open>The gateway over the synthetic household\<close>

text \<open>
  The parts put together as \<open>main.py\<close> does with \<open>demo_mode\<close> on, which is the default: the container is
  built, the synthetic household discovered, then commands of clients and ticks of the simulation
  interleave, each tick's events being ingested. The lemmas of the components carry the result; the
  adapter enters through the interpretation \<open>demo\<close> of its contract.
\<close>

definition demo_ids :: "string list" where
  "demo_ids = map (ref_provider_device_id \<circ> pd_ref \<circ> dd_definition) build_devices"

text \<open>The adapters of a container by name, as \<open>CommandService\<close> is given them.\<close>

definition adapters_of :: "(built_provider \<Rightarrow> 'w device_provider) \<Rightarrow> container \<Rightarrow> string \<Rightarrow> 'w device_provider option" where
  "adapters_of adapter c name = map_option adapter (od_get (ct_providers c) name)"

inductive household_step ::
  "coercions \<Rightarrow> (string \<Rightarrow> demo_provider device_provider option) \<Rightarrow> gateway \<times> demo_provider \<Rightarrow>
     gateway \<times> demo_provider \<Rightarrow> bool" for co provs
where
  command: "submit co provs pr i a raw corr (g, m) = (r, g', m') \<Longrightarrow> household_step co provs (g, m) (g', m')"
| simulate: "0 \<le> elapsed \<Longrightarrow> tick elapsed m = (es, m') \<Longrightarrow> consume_stream es StreamEnded (g, b) = (stop, g', b') \<Longrightarrow>
    household_step co provs (g, m) (g', m')"

definition household_inv :: "gateway \<times> demo_provider \<Rightarrow> bool" where
  "household_inv s \<longleftrightarrow> registry_inv (gw_registry (fst s)) \<and> demo_world (set demo_ids) (snd s)"

subsection \<open>Steps keep the invariant\<close>

lemma tick_devices_keys:
  "fst ` set ds \<subseteq> fst ` set (dm_devices m) \<Longrightarrow> tick_devices t ds (es, m) = (es', m') \<Longrightarrow>
   fst ` set (dm_devices m') = fst ` set (dm_devices m)"
proof (induction t ds "(es, m)" arbitrary: es m rule: tick_devices.induct)
  case (2 t i d ds es m)
  let ?d = "d\<lparr>dd_state := demo_advance d t\<rparr>"
  let ?m = "m\<lparr>dm_devices := od_set i ?d (dm_devices m)\<rparr>"
  obtain st m2 where snap: "demo_snapshot ?d ?m = (st, m2)" by fastforce
  have keys: "fst ` set (dm_devices ?m) = fst ` set (dm_devices m)"
    using 2(4) by (auto simp: keys_od_set)
  then have keys2: "fst ` set (dm_devices m2) = fst ` set (dm_devices m)"
    using demo_snapshot_frame(1)[OF snap] by simp
  have rest: "fst ` set ds \<subseteq> fst ` set (dm_devices m)" using 2(4) by simp
  consider (offline) "dd_availability d = availability.OFFLINE"
    | (changed) "dd_availability d \<noteq> availability.OFFLINE" "dd_state ?d \<noteq> dd_state d"
    | (same) "dd_availability d \<noteq> availability.OFFLINE" "dd_state ?d = dd_state d" by blast
  then show ?case
  proof cases
    case offline
    with 2(5) 2(1)[OF offline rest] show ?thesis by simp
  next
    case changed
    with 2(5) snap have "tick_devices t ds (es @ [\<lparr>pe_ref = pd_ref (dd_definition d), pe_state = st\<rparr>], m2) = (es', m')"
      by (simp add: Let_def)
    then show ?thesis
      using 2(2)[OF changed(1) refl refl changed(2) snap[symmetric] refl] rest keys2 by simp
  next
    case same
    with 2(5) have "tick_devices t ds (es, ?m) = (es', m')" by (simp add: Let_def)
    with 2(3)[OF same(1) refl refl] same(2) rest keys show ?thesis by simp
  qed
qed simp

lemma tick_world:
  assumes "demo_world ids m" and "0 \<le> elapsed" and "tick elapsed m = (es, m')"
  shows "demo_world ids m' \<and> (\<forall>e \<in> set es. device_state_ok (ps_state (pe_state e)))"
proof -
  have run: "tick_devices (elapsed * dm_time_scale m) (dm_devices m) ([], m) = (es, m')"
    using assms(3) by (simp add: tick_def Let_def)
  have inv: "demo_inv m" and ids: "fst ` set (dm_devices m) \<subseteq> ids" using assms(1) by (simp_all add: demo_world_def)
  then have "demo_inv m' \<and> (\<forall>e \<in> set es. device_state_ok (ps_state (pe_state e)))"
    using assms(2) by (intro tick_devices_inv[OF _ _ _ _ run]) (auto simp: demo_inv_def)
  with tick_devices_keys[OF _ run] ids show ?thesis by (simp add: demo_world_def)
qed

lemma household_step_inv:
  assumes "household_step co provs s s'" and "household_inv s"
    and con: "\<And>n p. provs n = Some p \<Longrightarrow> adapter_contract p (demo_ref ` set demo_ids) (demo_world (set demo_ids))"
  shows "household_inv s'"
  using assms(1)
proof cases
  case (command pr i a raw corr g m r g' m')
  then have inv: "registry_inv (gw_registry g)" and w: "demo_world (set demo_ids) m"
    using assms(2) by (simp_all add: household_inv_def)
  have "evolves (gw_registry g) (gw_registry (fst (snd (submit co provs pr i a raw corr (g, m))))) \<and>
      demo_world (set demo_ids) (snd (snd (submit co provs pr i a raw corr (g, m))))"
    by (rule submit_evolves[where world_ok = "demo_world (set demo_ids)", OF inv _ w]) (rule con)
  with command inv show ?thesis by (simp add: household_inv_def evolves_def)
next
  case (simulate elapsed m es m' g b stop g' b')
  then have inv: "registry_inv (gw_registry g)" and w: "demo_world (set demo_ids) m"
    using assms(2) by (simp_all add: household_inv_def)
  from tick_world[OF w simulate(3,4)] have es: "demo_world (set demo_ids) m'"
    "\<forall>e \<in> set es. device_state_ok (ps_state (pe_state e))" by blast+
  with consume_stream_inv[OF inv es(2) simulate(5)] simulate show ?thesis by (simp add: household_inv_def)
qed

lemma household_steps_inv:
  assumes "(household_step co provs)\<^sup>*\<^sup>* s s'" and "household_inv s"
    and con: "\<And>n p. provs n = Some p \<Longrightarrow> adapter_contract p (demo_ref ` set demo_ids) (demo_world (set demo_ids))"
  shows "household_inv s'"
  using assms(1)
proof (induction rule: rtranclp_induct)
  case base
  show ?case by (rule assms(2))
next
  case (step s1 s2)
  show ?case by (rule household_step_inv[OF step(2,3)]) (rule con)
qed

subsection \<open>The start\<close>

text \<open>Discovery of the synthetic household never fails: nothing is asked of a network.\<close>

definition known_to :: "demo_provider \<Rightarrow> provider_device list \<Rightarrow> bool" where
  "known_to m pds \<longleftrightarrow> (\<forall>pd \<in> set pds. \<exists>d. demo_require (pd_ref pd) m = Inr d)"

lemma known_to_frame: "dm_devices m1 = dm_devices m \<Longrightarrow> known_to m1 pds = known_to m pds"
  by (simp add: known_to_def demo_require_def)

lemma demo_bootstrap_devices:
  "known_to m pds \<Longrightarrow> \<exists>g' m'. bootstrap_devices h demo_adapter pds (g, m) = (Inr (), g', m')"
proof (induction pds arbitrary: g m)
  case (Cons pd pds)
  then obtain i d where "demo_require (pd_ref pd) m = Inr (i, d)" by (auto simp: known_to_def)
  then have get: "dp_get_state demo_adapter (pd_ref pd) m = (Inr (fst (demo_snapshot d m)), snd (demo_snapshot d m))"
    by (simp add: demo_adapter_def demo_get_state_def split_beta)
  have "known_to (snd (demo_snapshot d m)) pds"
    using Cons.prems by (subst known_to_frame[of _ m]) (auto simp: demo_snapshot_def known_to_def)
  from Cons.IH[OF this] show ?case by (auto simp: get Let_def split_beta)
qed simp

lemma new_demo_known:
  "known_to (new_demo_provider clk rng rate secs) (map (dd_definition \<circ> snd) (dm_devices (new_demo_provider clk rng rate secs)))"
proof -
  let ?m = "new_demo_provider clk rng rate secs"
  have "\<exists>x. demo_require (pd_ref (dd_definition d)) ?m = Inr x" if "(i, d) \<in> set (dm_devices ?m)" for i d
  proof -
    have "demo_inv ?m" by (rule new_demo_inv)
    then have "od_get (dm_devices ?m) i = Some d" "pd_ref (dd_definition d) = demo_ref i"
      using that by (auto simp: demo_inv_def demo_device_ok_def od_get_iff)
    then show ?thesis by (auto simp: demo_require_Inr)
  qed
  then show ?thesis by (auto simp: known_to_def)
qed

lemma new_demo_world: "demo_world (set demo_ids) (new_demo_provider clk rng rate secs)"
  using new_demo_inv by (simp add: demo_world_def demo_ids_def new_demo_devices image_comp comp_def)

subsection \<open>Property\<close>

lemma demo_contract: "adapter_contract demo_adapter (demo_ref ` ids) (demo_world ids)"
  by (rule demo.adapter_contract_axioms)

lemma demo_discovered:
  "discovered h [demo_adapter] (g, new_demo_provider clk rng rate secs) \<subseteq> demo_ref ` set demo_ids"
proof -
  have "fst (dp_discover_devices demo_adapter (new_demo_provider clk rng rate secs)) =
      Inr (map (dd_definition \<circ> snd) (dm_devices (new_demo_provider clk rng rate secs)))"
    by (simp add: demo_adapter_def demo_discover_def)
  from adapter_contract.discover_refs[OF demo_contract new_demo_world this] show ?thesis
    by (auto simp: demo_adapter_def demo_discover_def split: prod.splits sum.splits)
qed

lemma demo_started:
  assumes "ct_providers c = [(DEMO_PROVIDER_NAME, b)]" and "adapter b = demo_adapter"
    and "gw_registry (ct_gateway c) = new_registry salt"
    and "inj_on (id_of_ref h salt) (demo_ref ` set demo_ids)"
  shows "\<exists>pr m0. start_process h adapter (Inr c) (new_demo_provider clk rng rate secs) = (Inr pr, m0) \<and>
    pr_tasks pr = [ProviderStream ''demo'', Timers] \<and> household_inv (ct_gateway (pr_container pr), m0)"
proof -
  let ?m = "new_demo_provider clk rng rate secs"
  have disc: "dp_discover_devices demo_adapter ?m = (Inr (map (dd_definition \<circ> snd) (dm_devices ?m)), ?m)"
    by (simp add: demo_adapter_def demo_discover_def)
  obtain g0 m0 where "bootstrap h [demo_adapter] (ct_gateway c, ?m) = (Inr (), g0, m0)"
    using demo_bootstrap_devices[OF new_demo_known[of clk rng rate secs], of h "ct_gateway c"] disc by auto
  then have run: "start_process h adapter (Inr c) ?m =
      (Inr \<lparr>pr_container = c\<lparr>ct_gateway := g0\<rparr>, pr_tasks = [ProviderStream ''demo'', Timers]\<rparr>, m0)"
    using assms(1,2) by (simp add: start_process_def DEMO_PROVIDER_NAME_def)
  have "discovery_inv h (demo_ref ` set demo_ids) (gw_registry (ct_gateway c))"
    using assms(3) by (simp add: discovery_inv_def registry_inv_new registry_keyed_new) (simp add: new_registry_def)
  moreover have "\<forall>p \<in> set (ct_providers c). adapter_contract (adapter (snd p)) (demo_ref ` set demo_ids) (demo_world (set demo_ids))"
    using assms(1,2) demo_contract by simp
  moreover have "inj_on (id_of_ref h (reg_id_salt (gw_registry (ct_gateway c)))) (demo_ref ` set demo_ids)"
    using assms(3,4) by (simp add: new_registry_def)
  moreover have "discovered h (map (adapter \<circ> snd) (ct_providers c)) (ct_gateway c, ?m) \<subseteq> demo_ref ` set demo_ids"
    using demo_discovered assms(1,2) by simp
  ultimately have "discovery_inv h (demo_ref ` set demo_ids) (gw_registry g0) \<and> demo_world (set demo_ids) m0"
    using started_process[where world_ok = "demo_world (set demo_ids)" and refs = "demo_ref ` set demo_ids",
        OF run refl _ new_demo_world] by simp
  with run show ?thesis by (simp add: household_inv_def discovery_inv_def)
qed

text \<open>
  C11. In demo mode the gateway starts, and stays consistent: the household is discovered without a
  failure, and after any commands of clients, whatever their device, action and parameters, in any order
  with ticks of the simulation, the registry maps devices and references onto each other, every
  state it holds is within the bounds of the state model, and the simulated water is neither colder
  than the air nor warmer than its limit, with the pump running whenever it is heated.
\<close>

theorem demo_deployment_consistent:
  assumes "st_demo_mode s" and "build_container load ipv6_ok h digest clk uuids s = Inr c"
    and adapter: "\<And>rate secs. adapter (BuiltDemo rate secs) = demo_adapter"
    and "inj_on (id_of_ref h (effective_id_salt s)) (demo_ref ` set demo_ids)"
  shows "\<exists>pr m0. start_process h adapter (Inr c) (new_demo_provider clk rng (st_demo_failure_rate s) (st_demo_tick_seconds s)) =
        (Inr pr, m0) \<and> pr_tasks pr = [ProviderStream ''demo'', Timers] \<and>
      (\<forall>g m. (household_step co (adapters_of adapter c))\<^sup>*\<^sup>* (ct_gateway (pr_container pr), m0) (g, m) \<longrightarrow>
         registry_inv (gw_registry g) \<and> demo_inv m)"
proof -
  have providers: "ct_providers c = [(DEMO_PROVIDER_NAME, BuiltDemo (st_demo_failure_rate s) (st_demo_tick_seconds s))]"
    using built_adapters(1)[OF assms(2)] assms(1) by (simp add: build_providers_def)
  have registry: "gw_registry (ct_gateway c) = new_registry (effective_id_salt s)"
    using built_adapters(2)[OF assms(2)] by (simp add: new_gateway_def)
  from demo_started[where adapter = adapter, OF providers adapter registry assms(4)] obtain pr m0 where
    start: "start_process h adapter (Inr c) (new_demo_provider clk rng (st_demo_failure_rate s) (st_demo_tick_seconds s)) = (Inr pr, m0)"
      "pr_tasks pr = [ProviderStream ''demo'', Timers]" and inv: "household_inv (ct_gateway (pr_container pr), m0)" by metis
  have con: "adapter_contract p (demo_ref ` set demo_ids) (demo_world (set demo_ids))"
    if "adapters_of adapter c n = Some p" for n p
    using that demo_contract by (auto simp: adapters_of_def providers adapter od_get_def split: if_splits)
  have "registry_inv (gw_registry g) \<and> demo_inv m"
    if "(household_step co (adapters_of adapter c))\<^sup>*\<^sup>* (ct_gateway (pr_container pr), m0) (g, m)" for g m
    using household_steps_inv[OF that inv con] by (simp add: household_inv_def demo_world_def)
  with start show ?thesis by blast
qed

theorem demo_deployment_consistent_witness:
  "\<exists>c pr m0. build_container (\<lambda>path. Inl (ProfileError ''none'')) (\<lambda>host. True) (\<lambda>salt m. [of_char (last m) + of_nat (length m)])
     (\<lambda>t. t) (\<lambda>n. 0) (\<lambda>n. 0) default_settings = Inr c \<and>
   start_process (\<lambda>salt m. [of_char (last m) + of_nat (length m)]) (\<lambda>b. demo_adapter) (Inr c)
     (new_demo_provider (\<lambda>n. 0) (\<lambda>n. 0) (st_demo_failure_rate default_settings) (st_demo_tick_seconds default_settings)) = (Inr pr, m0) \<and>
   registry_inv (gw_registry (ct_gateway (pr_container pr))) \<and> demo_inv m0"
proof -
  obtain c where run: "build_container (\<lambda>path. Inl (ProfileError ''none'')) (\<lambda>host. True)
      (\<lambda>salt m. [of_char (last m) + of_nat (length m)]) (\<lambda>t. t) (\<lambda>n. 0) (\<lambda>n. 0) default_settings = Inr c"
    by (simp add: build_container_def build_providers_def default_settings_def)
  have demo: "st_demo_mode default_settings" by (simp add: default_settings_def)
  have inj: "inj_on (id_of_ref (\<lambda>salt m. [of_char (last m) + of_nat (length m)]) (effective_id_salt default_settings))
      (demo_ref ` set demo_ids)"
    by (simp add: demo_ids_def build_devices_def demo_device_of_def demo_ref_def id_of_ref_def device_uuid_def
        derive_uuid_def bytes_to_uuid_int_def uuid_with_version_def DEMO_PROVIDER_NAME_def inj_on_def)
  from demo_deployment_consistent[where adapter = "\<lambda>b. demo_adapter", OF demo run refl inj] run
  show ?thesis by blast
qed

end
