(* ===== verification/Stream_Sources.thy ===== *)
theory Stream_Sources
  imports Stage_Properties Stream_Supervisor Bestway_Properties HA_Properties Demo_Deployment Weather_Provider
begin

section \<open>The streams of the adapters\<close>

text \<open>
  Each adapter's \<open>subscribe\<close> as an \<open>event_source\<close>: a turn takes what the generator remembers between
  two events, and the adapter's world, and yields the events of one round. A round that ends the
  generator with an exception yields what came before it.
\<close>

definition bestway_stream ::
  "'w bestway_config \<Rightarrow> bytes option \<times> bestway \<times> 'w \<Rightarrow> provider_event list \<times> bytes option \<times> bestway \<times> 'w"
where
  "bestway_stream cf = (\<lambda>(previous, s).
     (case poll cf previous s of
        (Inl e, s1) \<Rightarrow> ([], previous, s1)
      | (Inr (ev, previous'), s1) \<Rightarrow> (case ev of None \<Rightarrow> [] | Some e \<Rightarrow> [e], previous', s1)))"

definition weather_stream ::
  "'w weather_config \<Rightarrow> rat \<Rightarrow> rat \<times> 'w weather \<Rightarrow> provider_event list \<times> rat \<times> 'w weather"
where
  "weather_stream cf random = (\<lambda>(backoff, s).
     (case weather_turn cf random backoff s of
        (Inl e, s1) \<Rightarrow> ([], backoff, s1)
      | (Inr (out, backoff'), s1) \<Rightarrow> (case out of Inl pause \<Rightarrow> [] | Inr e \<Rightarrow> [e], backoff', s1)))"

definition ha_stream ::
  "'w ha_config \<Rightarrow> ha_adapter_state \<times> 'w \<Rightarrow> provider_event list \<times> ha_adapter_state \<times> 'w"
where
  "ha_stream cf s = (case ha_subscribe cf s of ((es, e), s1) \<Rightarrow> (es, s1))"

definition demo_stream :: "demo_provider \<Rightarrow> provider_event list \<times> demo_provider" where
  "demo_stream m = tick (dm_tick_seconds m) m"

interpretation bestway_stream: event_source "bestway_stream cf" "\<lambda>s. True"
proof unfold_locales
  fix s :: "bytes option \<times> bestway \<times> 'a" and e
  assume e: "e \<in> set (fst (bestway_stream cf s))"
  obtain previous t where s: "s = (previous, t)" by (cases s)
  have offline: "device_state_ok (ps_state (fst (stamped cf empty_state a u)))" for a u
    by (cases u) (simp add: stamped_def device_state_ok_def empty_state_def opt_between_def)
  have online: "device_state_ok (ps_state st)" if "snapshot cf payload u = (Inr st, u')" for payload u st u'
    using snapshot_Inr[OF that] to_state_ok by metis
  obtain out t1 where run: "poll cf previous t = (out, t1)" by (rule prod.exhaust)
  with e s obtain previous' where "out = Inr (Some e, previous')"
    by (auto simp: bestway_stream_def split: sum.splits option.splits)
  with run show "device_state_ok (ps_state (pe_state e))"
    using offline
    by (auto simp: poll_def split_beta Let_def intro: online split: sum.splits prod.splits adapter_exn.splits if_splits)
qed simp

interpretation weather_stream: event_source "weather_stream cf random" "\<lambda>s. True"
  by unfold_locales
    (auto simp: weather_stream_def weather_turn_def split: prod.splits sum.splits adapter_exn.splits if_splits)

lemma relay_ok:
  "relay cf es s = ((evs, x), s') \<Longrightarrow> e \<in> set evs \<Longrightarrow> device_state_ok (ps_state (pe_state e))"
proof (induction cf es s arbitrary: evs x s' rule: relay.induct)
  case (2 cf d es s)
  show ?case
  proof (cases "od_get (hp_kinds (fst s)) (he_entity_id d)")
    case None
    with 2 show ?thesis by simp
  next
    case (Some k)
    obtain r s1 where Pair: "ha_snapshot cf d s = (r, s1)" by (rule prod.exhaust)
    show ?thesis
    proof (cases r)
      case (Inl y)
      with 2(3,4) Some Pair show ?thesis by simp
    next
      case (Inr st)
      obtain evs' y s2 where rest: "relay cf es s1 = ((evs', y), s2)" by (metis prod.exhaust)
      have "ha_snapshot cf d (fst s, snd s) = (Inr st, s1)" using Pair Inr by simp
      then have "device_state_ok (ps_state st)" by (rule ha_snapshot_Inr) (rule normalise_ok)
      moreover have "evs = \<lparr>pe_ref = ha_ref (he_entity_id d), pe_state = st\<rparr> # evs'"
        using 2(3) Some Pair Inr rest by simp
      ultimately show ?thesis using 2(2)[OF _ Pair[symmetric] Inr rest] Some 2(4) by auto
    qed
  qed
qed simp

interpretation ha_stream: event_source "ha_stream cf" "\<lambda>s. True"
proof unfold_locales
  fix s :: "ha_adapter_state \<times> 'a" and e
  assume "e \<in> set (fst (ha_stream cf s))"
  then show "device_state_ok (ps_state (pe_state e))"
    by (cases s) (auto simp: ha_stream_def ha_subscribe_def dest: relay_ok split: prod.splits sum.splits option.splits)
qed simp

text \<open>The simulation ticks by the seconds it sleeps, which no tick changes.\<close>

lemma tick_devices_seconds:
  "dm_tick_seconds (snd (tick_devices t ds s)) = dm_tick_seconds (snd s)"
proof (induction ds arbitrary: s)
  case (Cons x ds)
  then show ?case by (cases x; cases s) (simp add: Let_def demo_snapshot_def)
qed (metis prod.collapse tick_devices.simps(1))

interpretation demo_stream: event_source demo_stream "\<lambda>m. demo_world ids m \<and> 0 \<le> dm_tick_seconds m"
proof unfold_locales
  fix m and e
  assume m: "demo_world ids m \<and> 0 \<le> dm_tick_seconds m"
  have run: "tick (dm_tick_seconds m) m = (fst (demo_stream m), snd (demo_stream m))"
    by (simp add: demo_stream_def)
  from tick_world[OF _ _ run] m
  have "demo_world ids (snd (demo_stream m))" "e \<in> set (fst (demo_stream m)) \<Longrightarrow> device_state_ok (ps_state (pe_state e))"
    by blast+
  moreover have "dm_tick_seconds (snd (demo_stream m)) = dm_tick_seconds m"
    by (simp add: demo_stream_def tick_def Let_def tick_devices_seconds)
  ultimately show "demo_world ids (snd (demo_stream m)) \<and> 0 \<le> dm_tick_seconds (snd (demo_stream m))"
    and "e \<in> set (fst (demo_stream m)) \<Longrightarrow> device_state_ok (ps_state (pe_state e))" using m by simp_all
qed

text \<open>A supervised stream is one of the bystanders of the submissions in \<open>Command_Stages\<close>.\<close>

context event_source
begin

lemma stream_bystander:
  assumes "registry_inv (gw_registry g)" and "source_ok s"
    and "supervise_turn (fst (turns turn n s)) stop jitter (g, b) = (pause, g', b')"
  shows "bystander g g'"
  using supervised_stream[OF assms] by (simp add: quiet_stream_def bystander_def calm_def grown_def)

end

end
