(* ===== verification/Icon_Generator.thy ===== *)
theory Icon_Generator
  imports Prelude
begin

section \<open>The icon of the web client\<close>

text \<open>
  \<open>scripts/generate_web_icons.py\<close> draws the icon, a roof over two waves on a gradient, at four times
  its size, averages it down and writes it as PNG. Lengths are reals: the square roots, sines and
  cosines of the source are the functions, not their floating point approximations, so the drawing
  does not evaluate. A \<open>bytearray\<close> is a list of bytes; \<open>None\<close> is the \<open>IndexError\<close> of an index past its
  end, the \<open>ValueError\<close> of a value that is no byte, or the \<open>struct.error\<close> of a number too large.
\<close>

unbundle bit_operations_syntax

text \<open>A \<open>for\<close> loop whose body may raise.\<close>

primrec each :: "('a \<Rightarrow> 's \<Rightarrow> 's option) \<Rightarrow> 'a list \<Rightarrow> 's \<Rightarrow> 's option" where
  "each f [] s = Some s"
| "each f (x # xs) s = Option.bind (f x s) (each f xs)"

text \<open>\<open>int(x)\<close> truncates, \<open>round(x)\<close> takes the even neighbour of a tie.\<close>

definition py_int :: "real \<Rightarrow> int" where
  "py_int x = (if 0 \<le> x then \<lfloor>x\<rfloor> else \<lceil>x\<rceil>)"

definition round_even :: "real \<Rightarrow> int" where
  "round_even x =
     (let f = \<lfloor>x\<rfloor>; d = x - of_int f in
      if d < 1 / 2 then f
      else if 1 / 2 < d then f + 1
      else if even f then f else f + 1)"

definition byte_value :: "int \<Rightarrow> bool" where
  "byte_value v \<longleftrightarrow> 0 \<le> v \<and> v \<le> 255"

definition put_byte :: "nat \<Rightarrow> int \<Rightarrow> byte list \<Rightarrow> byte list option" where
  "put_byte i v bs = (if i < length bs \<and> byte_value v then Some (bs[i := word_of_int v]) else None)"

definition bytes_of :: "int list \<Rightarrow> byte list option" where
  "bytes_of vs = (if list_all byte_value vs then Some (map word_of_int vs) else None)"

subsection \<open>The design\<close>

definition SIZES :: "nat list" where "SIZES = [180, 192, 512]"
definition SUPERSAMPLE :: nat where "SUPERSAMPLE = 4"
definition GRADIENT_TOP :: "int list" where "GRADIENT_TOP = [11, 59, 111]"
definition GRADIENT_BOTTOM :: "int list" where "GRADIENT_BOTTOM = [27, 127, 208]"
definition INK :: "int list" where "INK = [255, 255, 255]"
definition DESIGN :: real where "DESIGN = 64"
definition CONTENT_INSET :: real where "CONTENT_INSET = 14 / 100"
definition STROKE :: real where "STROKE = 5"
definition ROOF :: "(real \<times> real) list" where "ROOF = [(12, 27), (32, 11), (52, 27)]"

record wave =
  wv_baseline :: real
  wv_amplitude :: real
  wv_opacity :: real

definition WAVES :: "wave list" where
  "WAVES =
     [\<lparr>wv_baseline = 40, wv_amplitude = 42 / 10, wv_opacity = 1\<rparr>,
      \<lparr>wv_baseline = 52, wv_amplitude = 42 / 10, wv_opacity = 45 / 100\<rparr>]"

definition WAVE_START :: real where "WAVE_START = 7"
definition WAVE_END :: real where "WAVE_END = 57"
definition WAVE_LENGTH :: real where "WAVE_LENGTH = 25"

subsection \<open>Distances\<close>

definition lerp :: "real \<Rightarrow> real \<Rightarrow> real \<Rightarrow> real" where
  "lerp a b t = a + (b - a) * t"

definition hypot :: "real \<Rightarrow> real \<Rightarrow> real" where
  "hypot x y = sqrt (x\<^sup>2 + y\<^sup>2)"

definition distance_to_segment :: "real \<Rightarrow> real \<Rightarrow> real \<times> real \<Rightarrow> real \<times> real \<Rightarrow> real" where
  "distance_to_segment px py a b =
     (let (ax, ay) = a; (bx, by') = b; dx = bx - ax; dy = by' - ay;
          length_squared = dx * dx + dy * dy
      in if length_squared = 0 then hypot (px - ax) (py - ay)
         else (let t = max 0 (min 1 (((px - ax) * dx + (py - ay) * dy) / length_squared))
               in hypot (px - (ax + t * dx)) (py - (ay + t * dy))))"

definition wave_y :: "real \<Rightarrow> real \<Rightarrow> real \<Rightarrow> real" where
  "wave_y x baseline amplitude = baseline + amplitude * sin (2 * pi * (x - WAVE_START) / WAVE_LENGTH)"

definition wave_distance :: "real \<Rightarrow> real \<Rightarrow> real \<Rightarrow> real \<Rightarrow> real" where
  "wave_distance px py baseline amplitude =
     (if px < WAVE_START \<or> WAVE_END < px then
        (let end' = (if px < WAVE_START then WAVE_START else WAVE_END)
         in hypot (px - end') (py - wave_y end' baseline amplitude))
      else
        (let slope = amplitude * (2 * pi / WAVE_LENGTH) * cos (2 * pi * (px - WAVE_START) / WAVE_LENGTH)
         in \<bar>py - wave_y px baseline amplitude\<bar> / hypot 1 slope))"

definition roof_distance :: "real \<Rightarrow> real \<Rightarrow> real" where
  "roof_distance x y =
     min (distance_to_segment x y (ROOF ! 0) (ROOF ! 1)) (distance_to_segment x y (ROOF ! 1) (ROOF ! 2))"

subsection \<open>Drawing\<close>

definition origin :: "nat \<Rightarrow> real" where
  "origin hi = real hi * CONTENT_INSET"

definition scale :: "nat \<Rightarrow> real" where
  "scale hi = real hi * (1 - 2 * CONTENT_INSET) / DESIGN"

definition half_stroke :: real where
  "half_stroke = STROKE / 2"

text \<open>One row of the background: a slice of the array is replaced by a slice as long.\<close>

definition gradient_row :: "nat \<Rightarrow> nat \<Rightarrow> byte list \<Rightarrow> byte list option" where
  "gradient_row hi y pixels =
     (let t = real y / (real hi - 1) in
      map_option (\<lambda>rgb. take (y * hi * 3) pixels @ concat (replicate hi rgb) @ drop ((y + 1) * hi * 3) pixels)
        (bytes_of (map2 (\<lambda>a b. round_even (lerp (of_int a) (of_int b) t)) GRADIENT_TOP GRADIENT_BOTTOM)))"

definition ink_pixel :: "real \<Rightarrow> nat \<Rightarrow> byte list \<Rightarrow> byte list option" where
  "ink_pixel opacity index pixels =
     (if 1 \<le> opacity then each (\<lambda>channel. put_byte (index + channel) (INK ! channel)) [0, 1, 2] pixels
      else each (\<lambda>channel current.
        if index + channel < length current then
          put_byte (index + channel)
            (round_even (lerp (of_int (uint (current ! (index + channel)))) (of_int (INK ! channel)) opacity)) current
        else None) [0, 1, 2] pixels)"

text \<open>The body of the loops of \<open>paint\<close>, for the pixel in column \<open>px\<close> of row \<open>py\<close>.\<close>

definition design_at :: "nat \<Rightarrow> nat \<Rightarrow> real" where
  "design_at hi p = (real p + 1 / 2 - origin hi) / scale hi"

definition dab :: "nat \<Rightarrow> (real \<Rightarrow> real \<Rightarrow> real) \<Rightarrow> real \<Rightarrow> nat \<Rightarrow> nat \<Rightarrow> byte list \<Rightarrow> byte list option" where
  "dab hi distance opacity py px pixels =
     (if half_stroke < distance (design_at hi px) (design_at hi py) then Some pixels
      else ink_pixel opacity (py * hi * 3 + px * 3) pixels)"

definition box_from :: "nat \<Rightarrow> real \<Rightarrow> nat" where
  "box_from hi x0 = nat (max 0 (py_int (origin hi + (x0 - half_stroke) * scale hi) - 2))"

definition box_to :: "nat \<Rightarrow> real \<Rightarrow> nat" where
  "box_to hi x1 = nat (min (int hi) (py_int (origin hi + (x1 + half_stroke) * scale hi) + 3))"

definition paint ::
  "nat \<Rightarrow> real \<Rightarrow> real \<Rightarrow> real \<Rightarrow> real \<Rightarrow> (real \<Rightarrow> real \<Rightarrow> real) \<Rightarrow> real \<Rightarrow> byte list \<Rightarrow> byte list option"
where
  "paint hi x0 y0 x1 y1 distance opacity =
     each (\<lambda>py. each (dab hi distance opacity py) [box_from hi x0..<box_to hi x1])
       [box_from hi y0..<box_to hi y1]"

text \<open>Averaging blocks of four by four.\<close>

definition add_sample :: "byte list \<Rightarrow> nat \<Rightarrow> nat \<times> nat \<times> nat \<Rightarrow> (nat \<times> nat \<times> nat) option" where
  "add_sample pixels offset totals =
     (case totals of (r, g, b) \<Rightarrow>
        if offset + 2 < length pixels then
          Some (r + unat (pixels ! offset), g + unat (pixels ! (offset + 1)), b + unat (pixels ! (offset + 2)))
        else None)"

definition block_totals :: "byte list \<Rightarrow> nat \<Rightarrow> nat \<Rightarrow> nat \<Rightarrow> (nat \<times> nat \<times> nat) option" where
  "block_totals pixels hi y x =
     each (\<lambda>sy. each (\<lambda>sx. add_sample pixels (((y * SUPERSAMPLE + sy) * hi + x * SUPERSAMPLE) * 3 + sx * 3))
         [0..<SUPERSAMPLE])
       [0..<SUPERSAMPLE] (0, 0, 0)"

definition put_average :: "byte list \<Rightarrow> nat \<Rightarrow> nat \<Rightarrow> nat \<Rightarrow> nat \<Rightarrow> byte list \<Rightarrow> byte list option" where
  "put_average pixels hi size' y x out =
     Option.bind (block_totals pixels hi y x) (\<lambda>(r, g, b).
       each (\<lambda>(channel, total). put_byte ((y * size' + x) * 3 + channel)
           (int (total div (SUPERSAMPLE * SUPERSAMPLE))))
         [(0, r), (1, g), (2, b)] out)"

definition downsample :: "byte list \<Rightarrow> nat \<Rightarrow> nat \<Rightarrow> byte list option" where
  "downsample pixels hi size' =
     each (\<lambda>y. each (put_average pixels hi size' y) [0..<size']) [0..<size'] (replicate (size' * size' * 3) 0)"

definition paint_wave :: "nat \<Rightarrow> wave \<Rightarrow> byte list \<Rightarrow> byte list option" where
  "paint_wave hi w =
     paint hi WAVE_START (wv_baseline w - wv_amplitude w) WAVE_END (wv_baseline w + wv_amplitude w)
       (\<lambda>x y. wave_distance x y (wv_baseline w) (wv_amplitude w)) (wv_opacity w)"

definition render_icon :: "nat \<Rightarrow> byte list option" where
  "render_icon size' =
     (let hi = size' * SUPERSAMPLE in
      Option.bind (each (gradient_row hi) [0..<hi] (replicate (hi * hi * 3) 0)) (\<lambda>background.
      Option.bind (paint hi (fst (ROOF ! 0)) (snd (ROOF ! 1)) (fst (ROOF ! 2)) (snd (ROOF ! 0))
          roof_distance 1 background) (\<lambda>roofed.
      Option.bind (each (paint_wave hi) WAVES roofed) (\<lambda>pixels.
      downsample pixels hi size'))))"

subsection \<open>Writing\<close>

text \<open>\<open>struct.pack(">I", n)\<close>, and \<open>zlib.crc32\<close> as the standard defines it.\<close>

definition pack_I :: "nat \<Rightarrow> byte list option" where
  "pack_I n =
     (if n < 2 ^ 32 then Some [of_nat (n div 2 ^ 24), of_nat (n div 2 ^ 16), of_nat (n div 2 ^ 8), of_nat n]
      else None)"

definition crc_bit :: "32 word \<Rightarrow> 32 word" where
  "crc_bit c = (if bit c 0 then drop_bit 1 c XOR 0xEDB88320 else drop_bit 1 c)"

definition crc_byte :: "byte \<Rightarrow> 32 word \<Rightarrow> 32 word" where
  "crc_byte b c = (crc_bit ^^ 8) (c XOR ucast b)"

definition crc32 :: "byte list \<Rightarrow> 32 word" where
  "crc32 bs = NOT (fold crc_byte bs (NOT 0))"

definition png_chunk :: "byte list \<Rightarrow> byte list \<Rightarrow> byte list option" where
  "png_chunk kind payload =
     Option.bind (pack_I (length payload)) (\<lambda>len.
     map_option (\<lambda>crc. len @ kind @ payload @ crc) (pack_I (unat (crc32 (kind @ payload)))))"

definition PNG_SIGNATURE :: "byte list" where "PNG_SIGNATURE = [0x89, 0x50, 0x4E, 0x47, 13, 10, 26, 10]"
definition IHDR :: "byte list" where "IHDR = [0x49, 0x48, 0x44, 0x52]"
definition IDAT :: "byte list" where "IDAT = [0x49, 0x44, 0x41, 0x54]"
definition IEND :: "byte list" where "IEND = [0x49, 0x45, 0x4E, 0x44]"

definition scanlines :: "nat \<Rightarrow> byte list \<Rightarrow> byte list" where
  "scanlines size' rgb =
     (let stride = size' * 3 in concat (map (\<lambda>y. 0 # take stride (drop (y * stride) rgb)) [0..<size']))"

text \<open>The content of the file; \<open>compress\<close> is \<open>zlib.compress\<close> at level 9.\<close>

definition write_png :: "(byte list \<Rightarrow> byte list) \<Rightarrow> nat \<Rightarrow> byte list \<Rightarrow> byte list option" where
  "write_png compress size' rgb =
     Option.bind (pack_I size') (\<lambda>side.
     Option.bind (png_chunk IHDR (side @ side @ [8, 2, 0, 0, 0])) (\<lambda>header.
     Option.bind (png_chunk IDAT (compress (scanlines size' rgb))) (\<lambda>data.
     map_option (\<lambda>end'. PNG_SIGNATURE @ header @ data @ end') (png_chunk IEND []))))"

text \<open>\<open>main\<close>: the files it writes, by the size in their names, in this order.\<close>

definition icon_files :: "(byte list \<Rightarrow> byte list) \<Rightarrow> (nat \<times> byte list) list option" where
  "icon_files compress =
     each (\<lambda>size' files.
       map_option (\<lambda>png. files @ [(size', png)]) (Option.bind (render_icon size') (write_png compress size')))
       SIZES []"

end
