(* ===== verification/Icon_Properties.thy ===== *)
theory Icon_Properties
  imports Icon_Generator
begin

section \<open>What the icon generator guarantees\<close>

text \<open>
  Two things can go wrong with a drawing routine like this: its search box cuts off part of the
  shape, or it writes outside its array or a value that is no byte.
\<close>

subsection \<open>Loops\<close>

lemma each_append: "each f (xs @ ys) s = Option.bind (each f xs s) (each f ys)"
proof (induction xs arbitrary: s)
  case (Cons x xs)
  then show ?case by (cases "f x s") simp_all
qed simp

text \<open>
  A loop keeps what its body keeps; where the body never raises, neither does the loop. The first
  rule counts: each round may add \<open>k\<close> to what is allowed.
\<close>

lemma each_counts:
  assumes "I n s" and "\<And>x s n. x \<in> set xs \<Longrightarrow> I n s \<Longrightarrow> \<exists>s'. f x s = Some s' \<and> I (n + k) s'"
  shows "\<exists>s'. each f xs s = Some s' \<and> I (n + length xs * k) s'"
  using assms
proof (induction xs arbitrary: s n)
  case (Cons x xs)
  from Cons.prems obtain s1 where "f x s = Some s1" "I (n + k) s1" by force
  with Cons.IH[of "n + k" s1] Cons.prems(2) show ?case by (simp add: algebra_simps)
qed simp

lemma each_keeps:
  assumes "I s" and "\<And>x s. x \<in> set xs \<Longrightarrow> I s \<Longrightarrow> \<exists>s'. f x s = Some s' \<and> I s'"
  shows "\<exists>s'. each f xs s = Some s' \<and> I s'"
  using each_counts[of "\<lambda>n. I" 0 s xs f 0] assms by blast

text \<open>Rounds that do nothing can be left out.\<close>

lemma each_skip: "(\<And>x s. x \<in> set xs \<Longrightarrow> f x s = Some s) \<Longrightarrow> each f xs s = Some s"
  by (induction xs) simp_all

lemma each_cong: "(\<And>x s. x \<in> set xs \<Longrightarrow> f x s = g x s) \<Longrightarrow> each f xs s = each g xs s"
proof (induction xs arbitrary: s)
  case (Cons x xs)
  then show ?case by (cases "g x s") simp_all
qed simp

lemma each_range:
  assumes skip: "\<And>x s. x < n \<Longrightarrow> \<not> (a \<le> x \<and> x < b) \<Longrightarrow> f x s = Some s" and "b \<le> n"
  shows "each f [a..<b] s = each f [0..<n] s"
proof (cases "a \<le> b")
  case True
  then have "[0..<n] = [0..<a] @ [a..<b] @ [b..<n]"
    using assms(2) upt_add_eq_append[of 0 a "b - a"] upt_add_eq_append[of 0 b "n - b"] by simp
  moreover have "each f [0..<a] s = Some s" using True assms(2) by (intro each_skip skip) simp_all
  moreover have "each f [b..<n] t = Some t" for t by (intro each_skip skip) simp_all
  ultimately show ?thesis by (simp only: each_append bind.bind_lunit) (cases "each f [a..<b] s"; simp)
next
  case False
  then have "each f [0..<n] s = Some s" by (intro each_skip skip) simp_all
  with False show ?thesis by simp
qed

subsection \<open>Lengths\<close>

lemma hypot_ge: "\<bar>x\<bar> \<le> hypot x y" "\<bar>y\<bar> \<le> hypot x y"
  by (simp_all add: hypot_def real_le_rsqrt)

lemma between_lerp: "0 \<le> t \<Longrightarrow> t \<le> 1 \<Longrightarrow> min a b \<le> a + t * (b - a) \<and> a + t * (b - a) \<le> max a b" for a b t :: real
proof -
  assume t: "0 \<le> t" "t \<le> 1"
  have eq: "a + t * (b - a) = (1 - t) * a + t * b" by (simp add: algebra_simps)
  have "(1 - t) * min a b + t * min a b \<le> (1 - t) * a + t * b" using t by (intro add_mono mult_left_mono) simp_all
  moreover have "(1 - t) * a + t * b \<le> (1 - t) * max a b + t * max a b" using t by (intro add_mono mult_left_mono) simp_all
  ultimately show ?thesis unfolding eq by (simp add: algebra_simps)
qed

text \<open>A point near a segment is near the rectangle around it.\<close>

lemma near_segment:
  assumes "distance_to_segment x y (ax, ay) (bx, by') \<le> h"
  shows "min ax bx - h \<le> x \<and> x \<le> max ax bx + h \<and> min ay by' - h \<le> y \<and> y \<le> max ay by' + h"
proof -
  obtain t where t: "0 \<le> t" "t \<le> 1" and d: "hypot (x - (ax + t * (bx - ax))) (y - (ay + t * (by' - ay))) \<le> h"
  proof (cases "(bx - ax) * (bx - ax) + (by' - ay) * (by' - ay) = 0")
    case True
    with assms have "hypot (x - ax) (y - ay) \<le> h" by (simp add: distance_to_segment_def Let_def)
    with that[of 0] show thesis by simp
  next
    case False
    let ?t = "max 0 (min 1 (((x - ax) * (bx - ax) + (y - ay) * (by' - ay)) /
        ((bx - ax) * (bx - ax) + (by' - ay) * (by' - ay))))"
    have "distance_to_segment x y (ax, ay) (bx, by') = hypot (x - (ax + ?t * (bx - ax))) (y - (ay + ?t * (by' - ay)))"
      using False by (simp only: distance_to_segment_def Let_def case_prod_conv if_False)
    with assms show thesis by (intro that[of ?t]) simp_all
  qed
  have "\<bar>x - (ax + t * (bx - ax))\<bar> \<le> h" "\<bar>y - (ay + t * (by' - ay))\<bar> \<le> h"
    using hypot_ge[where x = "x - (ax + t * (bx - ax))" and y = "y - (ay + t * (by' - ay))"] d by linarith+
  with between_lerp[OF t, of ax bx] between_lerp[OF t, of ay by'] show ?thesis by linarith
qed

lemma near_roof:
  assumes "roof_distance x y \<le> half_stroke"
  shows "12 - half_stroke \<le> x \<and> x \<le> 52 + half_stroke \<and> 11 - half_stroke \<le> y \<and> y \<le> 27 + half_stroke"
proof -
  from assms consider "distance_to_segment x y (12, 27) (32, 11) \<le> half_stroke"
    | "distance_to_segment x y (32, 11) (52, 27) \<le> half_stroke"
    by (auto simp: roof_distance_def ROOF_def min_le_iff_disj)
  then show ?thesis by cases (auto dest!: near_segment)
qed

text \<open>\<open>pi\<close> is small enough: where the wave is steep, it is far from its crest.\<close>

lemma pi_less: "pi < 33 / 10"
proof -
  define x where "x = pi / 6"
  have "\<bar>sin x - (\<Sum>m<3. sin_coeff m * x ^ m)\<bar> \<le> inverse (fact 3) * \<bar>x\<bar> ^ 3"
    by (rule Maclaurin_sin_bound)
  moreover have "(\<Sum>m<3. sin_coeff m * x ^ m) = x"
    by (simp add: numeral_3_eq_3 sin_coeff_def)
  moreover have "sin x = 1 / 2" by (simp add: x_def sin_30)
  moreover have x: "0 < x" "x < 2 / 3" using pi_less_4 by (simp_all add: x_def)
  moreover have "inverse (fact 3) = (1 / 6 :: real)" by (simp add: fact_numeral)
  ultimately have s: "\<bar>1 / 2 - x\<bar> \<le> x ^ 3 / 6" by simp
  have "x\<^sup>2 \<le> (2 / 3)\<^sup>2" using x by (intro power_mono) simp_all
  then have "x * x\<^sup>2 \<le> x * (4 / 9)" using x by (intro mult_left_mono) (simp_all add: power2_eq_square)
  then have "x ^ 3 \<le> x * (4 / 9)" by (simp add: power3_eq_cube power2_eq_square)
  with s have "x < 11 / 20" by linarith
  then show ?thesis by (simp add: x_def)
qed

lemma crest_bound:
  fixes s c k :: real
  assumes circle: "s\<^sup>2 + c\<^sup>2 = 1" and k: "0 \<le> k" "k \<le> 27 / 100"
  shows "42 / 10 * \<bar>s\<bar> + half_stroke * hypot 1 (42 / 10 * k * c) \<le> 42 / 10 + half_stroke"
proof -
  let ?u = "(42 / 10 * k * c)\<^sup>2"
  have "1 + v \<le> (1 + v / 2)\<^sup>2" for v :: real
    using zero_le_power2[of v] by (simp add: power2_eq_square algebra_simps)
  then have "1 + ?u \<le> (1 + ?u / 2)\<^sup>2" .
  then have root: "hypot 1 (42 / 10 * k * c) \<le> 1 + ?u / 2" unfolding hypot_def by (intro real_le_lsqrt) simp_all
  have "\<bar>s\<bar> \<le> 1" using circle by (metis abs_le_square_iff abs_one le_add_same_cancel1 one_power2 zero_le_power2)
  then have "(1 - \<bar>s\<bar>) * (1 + \<bar>s\<bar>) \<le> (1 - \<bar>s\<bar>) * 2" by (intro mult_left_mono) simp_all
  moreover have "(1 - \<bar>s\<bar>) * (1 + \<bar>s\<bar>) = 1 - s\<^sup>2" by (simp add: algebra_simps power2_eq_square)
  ultimately have far: "c\<^sup>2 \<le> 2 * (1 - \<bar>s\<bar>)" using circle by simp
  have "k\<^sup>2 \<le> (27 / 100)\<^sup>2" using k by (intro power_mono) simp_all
  then have "c\<^sup>2 * k\<^sup>2 \<le> c\<^sup>2 * (27 / 100)\<^sup>2" by (intro mult_left_mono) simp_all
  moreover have "?u = 1764 / 100 * (c\<^sup>2 * k\<^sup>2)" by (simp add: power2_eq_square)
  ultimately have "?u \<le> 1764 / 100 * (c\<^sup>2 * (27 / 100)\<^sup>2)" by simp
  also have "\<dots> \<le> 13 / 10 * c\<^sup>2" by (simp add: power2_eq_square)
  finally have u: "?u \<le> 13 / 10 * c\<^sup>2" .
  have "half_stroke * r \<le> half_stroke + 42 / 10 * (1 - a)"
    if "v \<le> 13 / 10 * q" "r \<le> 1 + v / 2" "q \<le> 2 * (1 - a)" "a \<le> 1" for r v q a :: real
    using that unfolding half_stroke_def STROKE_def by argo
  from this[OF u root far \<open>\<bar>s\<bar> \<le> 1\<close>]
  show ?thesis by argo
qed

lemma wave_y_bounds:
  "0 \<le> a \<Longrightarrow> \<bar>wave_y x b a - b\<bar> \<le> a"
  by (simp add: wave_y_def abs_mult mult_left_le)

lemma near_wave:
  assumes "wave_distance x y b (42 / 10) \<le> half_stroke"
  shows "WAVE_START - half_stroke \<le> x \<and> x \<le> WAVE_END + half_stroke \<and>
    b - 42 / 10 - half_stroke \<le> y \<and> y \<le> b + 42 / 10 + half_stroke"
proof (cases "x < WAVE_START \<or> WAVE_END < x")
  case True
  define e where "e = (if x < WAVE_START then WAVE_START else WAVE_END)"
  have "hypot (x - e) (y - wave_y e b (42 / 10)) \<le> half_stroke"
    using assms True by (simp add: wave_distance_def e_def Let_def split: if_splits)
  then have "\<bar>x - e\<bar> \<le> half_stroke" "\<bar>y - wave_y e b (42 / 10)\<bar> \<le> half_stroke"
    using hypot_ge[where x = "x - e" and y = "y - wave_y e b (42 / 10)"] by linarith+
  moreover have "\<bar>wave_y e b (42 / 10) - b\<bar> \<le> 42 / 10" by (rule wave_y_bounds) simp
  moreover have "e = WAVE_START \<or> e = WAVE_END" "WAVE_START \<le> WAVE_END"
    by (simp_all add: e_def WAVE_START_def WAVE_END_def)
  ultimately show ?thesis by linarith
next
  case False
  define u where "u = 2 * pi * (x - WAVE_START) / WAVE_LENGTH"
  let ?r = "hypot 1 (42 / 10 * (2 * pi / WAVE_LENGTH) * cos u)"
  have "\<bar>1\<bar> \<le> ?r" by (rule hypot_ge(1))
  then have "0 < ?r" by linarith
  moreover have "\<bar>y - (b + 42 / 10 * sin u)\<bar> / ?r \<le> half_stroke"
    using assms False by (simp add: wave_distance_def wave_y_def u_def Let_def)
  ultimately have "\<bar>y - (b + 42 / 10 * sin u)\<bar> \<le> half_stroke * ?r" by (simp add: pos_divide_le_eq)
  moreover have "42 / 10 * \<bar>sin u\<bar> + half_stroke * ?r \<le> 42 / 10 + half_stroke"
    using pi_less by (intro crest_bound) (simp_all add: WAVE_LENGTH_def)
  moreover have "\<bar>42 / 10 * sin u\<bar> = 42 / 10 * \<bar>sin u\<bar>" by (simp add: abs_mult)
  ultimately have "\<bar>y - b\<bar> \<le> 42 / 10 + half_stroke" by linarith
  moreover have "0 < half_stroke" by (simp add: half_stroke_def STROKE_def)
  ultimately show ?thesis using False by linarith
qed

subsection \<open>The search box\<close>

text \<open>A pixel whose place in the design lies between two bounds, widened by the stroke, is in the box.\<close>

lemma py_int_bounds: "real_of_int (py_int x) < x + 1" "x - 1 < real_of_int (py_int x)"
proof -
  have "real_of_int \<lfloor>x\<rfloor> < x + 1" "x - 1 < real_of_int \<lfloor>x\<rfloor>" "real_of_int \<lceil>x\<rceil> < x + 1" "x - 1 < real_of_int \<lceil>x\<rceil>"
    by linarith+
  then show "real_of_int (py_int x) < x + 1" "x - 1 < real_of_int (py_int x)" by (simp_all add: py_int_def)
qed

lemma in_box:
  assumes "px < hi" and "x0 - half_stroke \<le> design_at hi px" and "design_at hi px \<le> x1 + half_stroke"
  shows "box_from hi x0 \<le> px \<and> px < box_to hi x1"
proof -
  have sc: "0 < scale hi" using assms(1) by (simp add: scale_def CONTENT_INSET_def DESIGN_def)
  have "design_at hi px * scale hi = real px + 1 / 2 - origin hi" using sc by (simp add: design_at_def)
  moreover have "(x0 - half_stroke) * scale hi \<le> design_at hi px * scale hi"
    "design_at hi px * scale hi \<le> (x1 + half_stroke) * scale hi"
    using assms sc by (simp_all add: mult_right_mono)
  ultimately have b: "origin hi + (x0 - half_stroke) * scale hi \<le> real px + 1 / 2"
    "real px + 1 / 2 \<le> origin hi + (x1 + half_stroke) * scale hi" by linarith+
  have "real_of_int (py_int (origin hi + (x0 - half_stroke) * scale hi)) - 2 < real px"
    using b(1) py_int_bounds(1)[of "origin hi + (x0 - half_stroke) * scale hi"] by linarith
  moreover have "real px < real_of_int (py_int (origin hi + (x1 + half_stroke) * scale hi)) + 3"
    using b(2) py_int_bounds(2)[of "origin hi + (x1 + half_stroke) * scale hi"] by linarith
  ultimately have "py_int (origin hi + (x0 - half_stroke) * scale hi) - 2 < int px"
    "int px < py_int (origin hi + (x1 + half_stroke) * scale hi) + 3" by linarith+
  then show ?thesis using assms(1) by (auto simp: box_from_def box_to_def)
qed

text \<open>The same drawing without search boxes: every pixel is tried.\<close>

definition paint_everywhere ::
  "nat \<Rightarrow> (real \<Rightarrow> real \<Rightarrow> real) \<Rightarrow> real \<Rightarrow> byte list \<Rightarrow> byte list option"
where
  "paint_everywhere hi distance opacity =
     each (\<lambda>py. each (dab hi distance opacity py) [0..<hi]) [0..<hi]"

definition render_everywhere :: "nat \<Rightarrow> byte list option" where
  "render_everywhere size' =
     (let hi = size' * SUPERSAMPLE in
      Option.bind (each (gradient_row hi) [0..<hi] (replicate (hi * hi * 3) 0)) (\<lambda>background.
      Option.bind (paint_everywhere hi roof_distance 1 background) (\<lambda>roofed.
      Option.bind (each (\<lambda>w. paint_everywhere hi (\<lambda>x y. wave_distance x y (wv_baseline w) (wv_amplitude w))
          (wv_opacity w)) WAVES roofed) (\<lambda>pixels.
      downsample pixels hi size'))))"

lemma paint_complete:
  assumes near: "\<And>x y. distance x y \<le> half_stroke \<Longrightarrow>
    x0 - half_stroke \<le> x \<and> x \<le> x1 + half_stroke \<and> y0 - half_stroke \<le> y \<and> y \<le> y1 + half_stroke"
  shows "paint hi x0 y0 x1 y1 distance opacity pixels = paint_everywhere hi distance opacity pixels"
proof -
  have le: "box_to hi z \<le> hi" for z by (simp add: box_to_def)
  have miss: "dab hi distance opacity py px s = Some s"
    if "px < hi" "py < hi" "\<not> (box_from hi x0 \<le> px \<and> px < box_to hi x1 \<and> box_from hi y0 \<le> py \<and> py < box_to hi y1)"
    for px py s
  proof (rule ccontr)
    assume "dab hi distance opacity py px s \<noteq> Some s"
    then have "distance (design_at hi px) (design_at hi py) \<le> half_stroke"
      by (auto simp: dab_def split: if_splits)
    from near[OF this] in_box[of px hi x0 x1] in_box[of py hi y0 y1] that show False by blast
  qed
  have row: "each (dab hi distance opacity py) [box_from hi x0..<box_to hi x1] s = each (dab hi distance opacity py) [0..<hi] s"
    if "py < hi" for py s
    by (rule each_range) (use miss that le in blast)+
  have "paint hi x0 y0 x1 y1 distance opacity pixels =
      each (\<lambda>py. each (dab hi distance opacity py) [0..<hi]) [box_from hi y0..<box_to hi y1] pixels"
    unfolding paint_def using row le[of y1] by (intro each_cong) simp
  also have "\<dots> = paint_everywhere hi distance opacity pixels"
    unfolding paint_everywhere_def
  proof (rule each_range[OF _ le])
    fix py s
    assume "py < hi" "\<not> (box_from hi y0 \<le> py \<and> py < box_to hi y1)"
    then show "each (dab hi distance opacity py) [0..<hi] s = Some s" using miss by (intro each_skip) auto
  qed
  finally show ?thesis .
qed

lemma roof_complete:
  "paint hi (fst (ROOF ! 0)) (snd (ROOF ! 1)) (fst (ROOF ! 2)) (snd (ROOF ! 0)) roof_distance 1 pixels =
     paint_everywhere hi roof_distance 1 pixels"
  by (rule paint_complete) (use near_roof in \<open>simp add: ROOF_def\<close>)

lemma wave_complete:
  assumes "w \<in> set WAVES"
  shows "paint_wave hi w pixels =
    paint_everywhere hi (\<lambda>x y. wave_distance x y (wv_baseline w) (wv_amplitude w)) (wv_opacity w) pixels"
proof -
  have a: "wv_amplitude w = 42 / 10" using assms by (auto simp: WAVES_def)
  show ?thesis unfolding paint_wave_def a by (rule paint_complete) (rule near_wave)
qed

lemma waves_complete:
  "each (paint_wave hi) WAVES pixels = each (\<lambda>w. paint_everywhere hi
     (\<lambda>x y. wave_distance x y (wv_baseline w) (wv_amplitude w)) (wv_opacity w)) WAVES pixels"
  by (rule each_cong) (rule wave_complete)

text \<open>
  C39. The search boxes cut nothing off. The icon drawn with them, for every size, is the icon drawn
  by trying every pixel for the roof and for each wave: the boxes are widened by the stroke, the
  waves are nowhere steep enough for the approximate distance to their curve to reach past the
  stroke above a crest, and the truncation of the corners is made up for.
\<close>

theorem search_boxes_complete: "render_icon size' = render_everywhere size'"
  by (simp only: render_icon_def render_everywhere_def roof_complete waves_complete)

subsection \<open>Drawing never raises\<close>

lemma round_even_between:
  assumes "of_int a \<le> x" and "x \<le> of_int b"
  shows "a \<le> round_even x \<and> round_even x \<le> b"
proof -
  have f: "a \<le> \<lfloor>x\<rfloor>" "\<lfloor>x\<rfloor> \<le> b" using assms by linarith+
  have "\<lfloor>x\<rfloor> + 1 \<le> b" if "1 / 2 \<le> x - of_int \<lfloor>x\<rfloor>" using that assms by linarith
  with f show ?thesis by (auto simp: round_even_def Let_def not_less)
qed

lemma lerp_byte:
  assumes "byte_value a" and "byte_value b" and "0 \<le> t" and "t \<le> 1"
  shows "byte_value (round_even (lerp (of_int a) (of_int b) t))"
proof -
  have "lerp (of_int a) (of_int b) t = of_int a + t * (of_int b - of_int a)" by (simp add: lerp_def)
  with between_lerp[OF assms(3,4), of "of_int a" "of_int b"] assms(1,2)
  have "of_int 0 \<le> lerp (of_int a) (of_int b) t" "lerp (of_int a) (of_int b) t \<le> of_int 255"
    by (auto simp: byte_value_def)
  then show ?thesis unfolding byte_value_def by (rule round_even_between)
qed

lemma byte_value_uint: "byte_value (uint (b :: byte))"
  using uint_bounded[of b] by (simp add: byte_value_def)

lemma put_byte_total:
  "i < length bs \<Longrightarrow> byte_value v \<Longrightarrow> \<exists>bs'. put_byte i v bs = Some bs' \<and> length bs' = length bs"
  by (simp add: put_byte_def)

lemma ink_values: "channel \<in> set [0, 1, 2] \<Longrightarrow> byte_value (INK ! channel)"
  by (auto simp: INK_def byte_value_def)

lemma ink_pixel_total:
  assumes index: "index + 2 < n" and len: "length pixels = n" and opacity: "0 \<le> opacity"
  shows "\<exists>pixels'. ink_pixel opacity index pixels = Some pixels' \<and> length pixels' = n"
proof -
  have put: "\<exists>s'. put_byte (index + channel) v s = Some s' \<and> length s' = n"
    if "channel \<in> set [0, 1, 2]" "length s = n" "byte_value v" for channel s v
    using put_byte_total[of "index + channel" s v] that index by auto
  show ?thesis
  proof (cases "1 \<le> opacity")
    case True
    show ?thesis
      unfolding ink_pixel_def if_P[OF True]
      by (rule each_keeps[where I = "\<lambda>s. length s = n", OF len], rule put) (auto intro: ink_values)
  next
    case False
    then have "opacity \<le> 1" by simp
    note blend = lerp_byte[OF byte_value_uint ink_values opacity this]
    show ?thesis
      unfolding ink_pixel_def if_not_P[OF False]
    proof (rule each_keeps[where I = "\<lambda>s. length s = n", OF len])
      fix channel :: nat and s :: "byte list"
      assume c: "channel \<in> set [0, 1, 2]" "length s = n"
      then have "index + channel < length s" using index by auto
      then show "\<exists>s'. (if index + channel < length s then put_byte (index + channel) (round_even
          (lerp (real_of_int (uint (s ! (index + channel)))) (real_of_int (INK ! channel)) opacity)) s else None) = Some s' \<and>
          length s' = n"
        using put[OF c blend[OF c(1)]] by (simp only: if_True)
    qed
  qed
qed

lemma pixel_index: "y < n \<Longrightarrow> x < n \<Longrightarrow> (y * n + x) * 3 + 2 < n * n * 3" for n :: nat
proof -
  assume "y < n" "x < n"
  then have "y * n + n \<le> n * n" by (metis Suc_leI add.commute mult_Suc mult_le_mono1)
  with \<open>x < n\<close> show ?thesis by simp
qed

lemma paint_everywhere_total:
  assumes "length pixels = hi * hi * 3" and "0 \<le> opacity"
  shows "\<exists>pixels'. paint_everywhere hi distance opacity pixels = Some pixels' \<and> length pixels' = hi * hi * 3"
  unfolding paint_everywhere_def
proof (rule each_keeps[where I = "\<lambda>s. length s = hi * hi * 3"], rule assms(1), rule each_keeps[where I = "\<lambda>s. length s = hi * hi * 3"])
  fix py px and s :: "byte list"
  assume "py \<in> set [0..<hi]" "px \<in> set [0..<hi]" "length s = hi * hi * 3"
  with ink_pixel_total[of "py * hi * 3 + px * 3" "hi * hi * 3" s opacity] pixel_index[of py hi px] assms(2)
  show "\<exists>s'. dab hi distance opacity py px s = Some s' \<and> length s' = hi * hi * 3"
    by (simp add: dab_def algebra_simps)
qed

lemma gradient_row_total:
  assumes "y < hi" and "length pixels = hi * hi * 3"
  shows "\<exists>pixels'. gradient_row hi y pixels = Some pixels' \<and> length pixels' = hi * hi * 3"
proof -
  let ?t = "real y / (real hi - 1)"
  have t: "0 \<le> ?t" "?t \<le> 1" using assms(1) by (cases "hi = 1"; simp add: divide_le_eq)+
  have "(y + 1) * hi \<le> hi * hi" using assms(1) by (intro mult_le_mono1) simp
  then have len: "y * hi * 3 + (hi * 3 + (hi * hi * 3 - (y + 1) * hi * 3)) = hi * hi * 3" by (simp add: algebra_simps)
  let ?row = "map2 (\<lambda>a b. round_even (lerp (of_int a) (of_int b) ?t)) GRADIENT_TOP GRADIENT_BOTTOM"
  have "list_all byte_value ?row"
    using lerp_byte[OF _ _ t, of 11 27] lerp_byte[OF _ _ t, of 59 127] lerp_byte[OF _ _ t, of 111 208]
    by (simp add: GRADIENT_TOP_def GRADIENT_BOTTOM_def byte_value_def)
  moreover have "length ?row = 3" by (simp add: GRADIENT_TOP_def GRADIENT_BOTTOM_def)
  ultimately obtain rgb where "bytes_of ?row = Some rgb" "length rgb = 3" by (auto simp: bytes_of_def)
  then show ?thesis
    using assms(2) len \<open>(y + 1) * hi \<le> hi * hi\<close>
    by (simp add: gradient_row_def Let_def length_concat sum_list_replicate)
qed

definition totals_at_most :: "nat \<Rightarrow> nat \<times> nat \<times> nat \<Rightarrow> bool" where
  "totals_at_most n totals \<longleftrightarrow> fst totals \<le> 255 * n \<and> fst (snd totals) \<le> 255 * n \<and> snd (snd totals) \<le> 255 * n"

lemma byte_le: "unat (b :: byte) \<le> 255"
proof -
  have "unat b < 2 ^ LENGTH(8)" by (rule unsigned_less)
  then show ?thesis by simp
qed

lemma add_sample_total:
  assumes "offset + 2 < length pixels" and "totals_at_most n totals"
  shows "\<exists>totals'. add_sample pixels offset totals = Some totals' \<and> totals_at_most (n + 1) totals'"
  using assms byte_le[of "pixels ! offset"] byte_le[of "pixels ! (offset + 1)"] byte_le[of "pixels ! (offset + 2)"]
  by (cases totals) (simp add: add_sample_def totals_at_most_def)

lemma block_totals_total:
  assumes "length pixels = hi * hi * 3" and "hi = size' * SUPERSAMPLE" and "y < size'" and "x < size'"
  shows "\<exists>totals. block_totals pixels hi y x = Some totals \<and> totals_at_most 16 totals"
proof -
  have add: "\<exists>t'. add_sample pixels (((y * SUPERSAMPLE + sy) * hi + x * SUPERSAMPLE) * 3 + sx * 3) t = Some t' \<and>
      totals_at_most (n + 1) t'"
    if "sy < SUPERSAMPLE" "sx < SUPERSAMPLE" "totals_at_most n t" for sy sx n t
  proof (rule add_sample_total[OF _ that(3)])
    have "y * SUPERSAMPLE + sy < hi" "x * SUPERSAMPLE + sx < hi"
      using assms that by (simp_all add: SUPERSAMPLE_def)
    from pixel_index[OF this] show "((y * SUPERSAMPLE + sy) * hi + x * SUPERSAMPLE) * 3 + sx * 3 + 2 < length pixels"
      using assms(1) by (simp add: algebra_simps)
  qed
  have row: "\<exists>t'. each (\<lambda>sx. add_sample pixels (((y * SUPERSAMPLE + sy) * hi + x * SUPERSAMPLE) * 3 + sx * 3))
      [0..<SUPERSAMPLE] t = Some t' \<and> totals_at_most (n + 4) t'"
    if "sy < SUPERSAMPLE" "totals_at_most n t" for sy n t
    using each_counts[of totals_at_most n t "[0..<SUPERSAMPLE]"
        "\<lambda>sx. add_sample pixels (((y * SUPERSAMPLE + sy) * hi + x * SUPERSAMPLE) * 3 + sx * 3)" 1, OF that(2)] add[OF that(1)]
    by (simp add: SUPERSAMPLE_def)
  show ?thesis
    using each_counts[of totals_at_most 0 "(0, 0, 0)" "[0..<SUPERSAMPLE]"
        "\<lambda>sy. each (\<lambda>sx. add_sample pixels (((y * SUPERSAMPLE + sy) * hi + x * SUPERSAMPLE) * 3 + sx * 3)) [0..<SUPERSAMPLE]" 4] row
    by (simp add: block_totals_def totals_at_most_def SUPERSAMPLE_def)
qed

lemma put_average_total:
  assumes "length pixels = hi * hi * 3" and "hi = size' * SUPERSAMPLE" and "y < size'" and "x < size'"
    and "length out = size' * size' * 3"
  shows "\<exists>out'. put_average pixels hi size' y x out = Some out' \<and> length out' = size' * size' * 3"
proof -
  obtain r g b where t: "block_totals pixels hi y x = Some (r, g, b)" "totals_at_most 16 (r, g, b)"
    using block_totals_total[OF assms(1-4)] by (metis prod.exhaust)
  have v: "byte_value (int (total div (SUPERSAMPLE * SUPERSAMPLE)))" if "total \<in> {r, g, b}" for total
    using that t(2) by (auto simp: byte_value_def totals_at_most_def SUPERSAMPLE_def simp flip: of_nat_le_iff)
  show ?thesis
    unfolding put_average_def t(1) bind.bind_lunit case_prod_conv
  proof (rule each_keeps[where I = "\<lambda>s. length s = size' * size' * 3", OF assms(5)])
    fix p :: "nat \<times> nat" and s :: "byte list"
    assume p: "p \<in> set [(0, r), (1, g), (2, b)]" and s: "length s = size' * size' * 3"
    obtain channel total where c: "p = (channel, total)" "channel \<le> 2" "total \<in> {r, g, b}" using p by auto
    with put_byte_total[of "(y * size' + x) * 3 + channel" s, OF _ v] pixel_index[OF assms(3,4)] s
    show "\<exists>s'. (case p of (channel, total) \<Rightarrow> put_byte ((y * size' + x) * 3 + channel)
        (int (total div (SUPERSAMPLE * SUPERSAMPLE)))) s = Some s' \<and> length s' = size' * size' * 3" by simp
  qed
qed

lemma downsample_total:
  assumes "length pixels = hi * hi * 3" and "hi = size' * SUPERSAMPLE"
  shows "\<exists>out. downsample pixels hi size' = Some out \<and> length out = size' * size' * 3"
  unfolding downsample_def
  by (rule each_keeps[where I = "\<lambda>s. length s = size' * size' * 3"], simp,
      rule each_keeps[where I = "\<lambda>s. length s = size' * size' * 3"], assumption)
    (use put_average_total[OF assms] in simp)

lemma render_icon_total: "\<exists>rgb. render_icon size' = Some rgb \<and> length rgb = size' * size' * 3"
proof -
  let ?hi = "size' * SUPERSAMPLE" let ?I = "\<lambda>s :: byte list. length s = ?hi * ?hi * 3"
  obtain background where bg: "each (gradient_row ?hi) [0..<?hi] (replicate (?hi * ?hi * 3) 0) = Some background" "?I background"
    using each_keeps[of ?I "replicate (?hi * ?hi * 3) 0" "[0..<?hi]" "gradient_row ?hi"] gradient_row_total by auto
  obtain roofed where roof: "paint_everywhere ?hi roof_distance 1 background = Some roofed" "?I roofed"
    using paint_everywhere_total[of background ?hi 1 roof_distance] bg(2) by auto
  have "\<exists>s'. paint_everywhere ?hi d (wv_opacity w) s = Some s' \<and> ?I s'" if "w \<in> set WAVES" "?I s" for d w s
    using paint_everywhere_total[of s ?hi "wv_opacity w" d] that by (auto simp: WAVES_def)
  then obtain pixels where waves: "each (\<lambda>w. paint_everywhere ?hi
      (\<lambda>x y. wave_distance x y (wv_baseline w) (wv_amplitude w)) (wv_opacity w)) WAVES roofed = Some pixels" "?I pixels"
    using each_keeps[of ?I roofed WAVES] roof(2) by meson
  show ?thesis
    unfolding render_icon_def Let_def bg(1) bind.bind_lunit roof_complete waves_complete roof(1) waves(1)
    by (rule downsample_total[OF waves(2) refl])
qed

end
