(* ===== verification/Icon_Files.thy ===== *)
theory Icon_Files
  imports Icon_Properties
begin

section \<open>The icon files can be read back\<close>

text \<open>
  A reader of PNG as far as these files go: chunks with their checksum, one header for eight bits of
  red, green and blue, one block of data whose rows are stored without a filter, the end.
  \<open>decompress\<close> is the inverse \<open>zlib\<close> documents for its \<open>compress\<close>.
\<close>

definition unpack_I :: "byte list \<Rightarrow> nat" where
  "unpack_I bs = foldl (\<lambda>n b. n * 256 + unat b) 0 bs"

definition read_chunk :: "byte list \<Rightarrow> (byte list \<times> byte list \<times> byte list) option" where
  "read_chunk bs =
     (let n = unpack_I (take 4 bs); kind = take 4 (drop 4 bs); payload = take n (drop 8 bs) in
      if length bs < 12 + n \<or> unpack_I (take 4 (drop (8 + n) bs)) \<noteq> unat (crc32 (kind @ payload)) then None
      else Some (kind, payload, drop (12 + n) bs))"

primrec read_rows :: "nat \<Rightarrow> nat \<Rightarrow> byte list \<Rightarrow> byte list option" where
  "read_rows 0 stride raw = (if raw = [] then Some [] else None)"
| "read_rows (Suc rows) stride raw =
     (if length raw < Suc stride \<or> hd raw \<noteq> 0 then None
      else map_option (\<lambda>rest. take stride (tl raw) @ rest) (read_rows rows stride (drop (Suc stride) raw)))"

definition read_png :: "(byte list \<Rightarrow> byte list option) \<Rightarrow> byte list \<Rightarrow> (nat \<times> nat \<times> byte list) option" where
  "read_png decompress bs =
     (if take 8 bs \<noteq> PNG_SIGNATURE then None
      else Option.bind (read_chunk (drop 8 bs)) (\<lambda>(kind, header, rest).
      if kind \<noteq> IHDR \<or> drop 8 header \<noteq> [8, 2, 0, 0, 0] then None
      else Option.bind (read_chunk rest) (\<lambda>(kind, data, rest).
      if kind \<noteq> IDAT then None
      else Option.bind (read_chunk rest) (\<lambda>(kind, payload, rest).
      if kind \<noteq> IEND \<or> payload \<noteq> [] \<or> rest \<noteq> [] then None
      else (let width = unpack_I (take 4 header); height = unpack_I (take 4 (drop 4 header)) in
        Option.bind (decompress data) (\<lambda>raw.
        map_option (\<lambda>rgb. (width, height, rgb)) (read_rows height (width * 3) raw)))))))"

lemma pack_unpack: "pack_I n = Some bs \<Longrightarrow> length bs = 4 \<and> unpack_I bs = n"
proof -
  assume p: "pack_I n = Some bs"
  then have n: "n < 2 ^ 32" and bs: "bs = [of_nat (n div 2 ^ 24), of_nat (n div 2 ^ 16), of_nat (n div 2 ^ 8), of_nat n]"
    by (simp_all add: pack_I_def split: if_splits)
  have b: "unat (of_nat k :: byte) = k mod 256" for k by (simp add: unat_of_nat take_bit_eq_mod)
  have "n div 2 ^ 24 < 256" using n by (simp add: less_mult_imp_div_less)
  moreover have "n div 2 ^ 24 = n div 256 div 256 div 256" "n div 2 ^ 16 = n div 256 div 256"
    by (simp_all add: div_mult2_eq[symmetric])
  ultimately show ?thesis unfolding bs unpack_I_def by (simp add: b)
qed

lemma pack_less: "n < 2 ^ 32 \<Longrightarrow> \<exists>bs. pack_I n = Some bs"
  by (simp add: pack_I_def)

lemma pack_crc: "\<exists>bs. pack_I (unat (crc32 bs')) = Some bs"
  using unsigned_less[of "crc32 bs'"] by (intro pack_less) simp

lemma read_png_chunk:
  assumes "png_chunk kind payload = Some c" and "length kind = 4"
  shows "read_chunk (c @ rest) = Some (kind, payload, rest)"
proof -
  obtain len crc where c: "pack_I (length payload) = Some len" "pack_I (unat (crc32 (kind @ payload))) = Some crc"
    "c = len @ kind @ payload @ crc"
    using assms(1) by (auto simp: png_chunk_def bind_eq_Some_conv)
  note len = pack_unpack[OF c(1)] and crc = pack_unpack[OF c(2)]
  have "take 4 (c @ rest) = len" "take 4 (drop 4 (c @ rest)) = kind" "take (length payload) (drop 8 (c @ rest)) = payload"
    "take 4 (drop (8 + length payload) (c @ rest)) = crc" "drop (12 + length payload) (c @ rest) = rest"
    "length (c @ rest) = 12 + length payload + length rest"
    using len crc assms(2) by (simp_all add: c(3))
  then show ?thesis using len crc by (simp add: read_chunk_def Let_def)
qed

lemma read_scanlines:
  "length rgb = n * stride \<Longrightarrow>
     read_rows n stride (concat (map (\<lambda>y. 0 # take stride (drop (y * stride) rgb)) [0..<n])) = Some rgb"
proof (induction n arbitrary: rgb)
  case (Suc n)
  let ?f = "\<lambda>rgb y. 0 # take stride (drop (y * stride) rgb)"
  have "map (?f rgb) [0..<Suc n] = ?f rgb 0 # map (?f (drop stride rgb)) [0..<n]"
    by (simp only: upt_conv_Cons[of 0 "Suc n"] map_Suc_upt[symmetric] list.map map_map) (simp add: algebra_simps)
  moreover have "read_rows n stride (concat (map (?f (drop stride rgb)) [0..<n])) = Some (drop stride rgb)"
    using Suc.prems by (intro Suc.IH) simp
  ultimately show ?case using Suc.prems by simp
qed simp

lemma png_chunk_total: "length payload < 2 ^ 32 \<Longrightarrow> \<exists>c. png_chunk kind payload = Some c"
  using pack_less[of "length payload"] pack_crc[of "kind @ payload"] by (auto simp: png_chunk_def)

lemma write_png_reads:
  assumes inverse: "decompress (compress (scanlines size' rgb)) = Some (scanlines size' rgb)"
    and fits: "length (compress (scanlines size' rgb)) < 2 ^ 32" "size' < 2 ^ 32"
    and len: "length rgb = size' * size' * 3"
  shows "\<exists>png. write_png compress size' rgb = Some png \<and> read_png decompress png = Some (size', size', rgb)"
proof -
  obtain side where side: "pack_I size' = Some side" using pack_less[OF fits(2)] by blast
  note four = pack_unpack[OF side]
  let ?header = "side @ side @ [8, 2, 0, 0, 0]"
  obtain h where h: "png_chunk IHDR ?header = Some h" using png_chunk_total[of ?header] four by auto
  obtain d where d: "png_chunk IDAT (compress (scanlines size' rgb)) = Some d" using png_chunk_total[OF fits(1)] by blast
  obtain e where e: "png_chunk IEND [] = Some e" using png_chunk_total[of "[]"] by auto
  have "read_rows size' (size' * 3) (scanlines size' rgb) = Some rgb"
    using read_scanlines[of rgb size' "size' * 3"] len by (simp add: scanlines_def Let_def mult.assoc)
  then have "read_png decompress (PNG_SIGNATURE @ h @ d @ e) = Some (size', size', rgb)"
    using read_png_chunk[OF h, of "d @ e"] read_png_chunk[OF d, of e] read_png_chunk[OF e, of "[]"] four inverse
    by (simp add: read_png_def PNG_SIGNATURE_def IHDR_def IDAT_def IEND_def)
  with side h d e show ?thesis by (simp add: write_png_def)
qed

lemma length_rows: "length (concat (map (\<lambda>y. b # take k (f y)) ys)) \<le> length ys * Suc k"
  by (induction ys) auto

text \<open>The checksum, against the value every PNG ends with.\<close>

lemma crc_bit_numeral:
  "crc_bit (numeral n) =
     (if bit (numeral n :: 32 word) 0 then drop_bit 1 (numeral n) XOR 0xEDB88320 else drop_bit 1 (numeral n))"
  by (rule crc_bit_def)

lemma crc_byte_eight:
  "crc_byte b c = crc_bit (crc_bit (crc_bit (crc_bit (crc_bit (crc_bit (crc_bit (crc_bit (c XOR ucast b))))))))"
  by (simp add: crc_byte_def eval_nat_numeral)

lemma crc_bytes:
  "crc_byte 0x49 0xFFFFFFFF = 0x22FDE946" "crc_byte 0x45 0x22FDE946 = 0x992BAC53"
  "crc_byte 0x4E 0x992BAC53 = 0x639F4775" "crc_byte 0x44 0x639F4775 = 0x51BD9F7D"
  unfolding crc_byte_eight by (simp; simp add: crc_bit_numeral)+

lemma crc32_IEND: "crc32 IEND = 0xAE426082"
proof -
  have "(NOT 0 :: 32 word) = 0xFFFFFFFF" by simp
  then have "fold crc_byte IEND (NOT 0) = 0x51BD9F7D" by (simp only: IEND_def fold_simps crc_bytes)
  then show ?thesis by (simp add: crc32_def)
qed

text \<open>
  C40. Every icon is drawn and can be read back: \<open>main\<close> raises nothing, writes one file for each size
  in order, and a reader of PNG finds in it the size and exactly the pixels that were drawn, three
  bytes each, provided decompression undoes compression and the compressed rows fit a chunk.
\<close>

theorem icons_read_back:
  assumes "\<forall>raw. decompress (compress raw) = Some raw \<and> length (compress raw) \<le> 2 * length raw + 64"
  shows "\<exists>files. icon_files compress = Some files \<and> map fst files = SIZES \<and>
    list_all (\<lambda>(side, png). \<exists>rgb. render_icon side = Some rgb \<and> length rgb = side * side * 3 \<and>
      read_png decompress png = Some (side, side, rgb)) files"
proof -
  let ?ok = "\<lambda>(side, png). \<exists>rgb. render_icon side = Some rgb \<and> length rgb = side * side * 3 \<and>
      read_png decompress png = Some (side, side, rgb)"
  have one: "\<exists>png. Option.bind (render_icon side) (write_png compress side) = Some png \<and> ?ok (side, png)"
    if "side \<in> set SIZES" for side
  proof -
    obtain rgb where rgb: "render_icon side = Some rgb" "length rgb = side * side * 3"
      using render_icon_total by blast
    have "length (scanlines side rgb) \<le> side * Suc (side * 3)"
      using length_rows[of 0 "side * 3" "\<lambda>y. drop (y * (side * 3)) rgb" "[0..<side]"] by (simp add: scanlines_def Let_def)
    moreover have "length (compress (scanlines side rgb)) \<le> 2 * length (scanlines side rgb) + 64" using assms by blast
    moreover have "side < 2 ^ 32" "2 * (side * Suc (side * 3)) + 64 < 2 ^ 32" using that by (auto simp: SIZES_def)
    ultimately have fits: "length (compress (scanlines side rgb)) < 2 ^ 32" and "side < 2 ^ 32" by linarith+
    have "decompress (compress (scanlines side rgb)) = Some (scanlines side rgb)" using assms by blast
    from write_png_reads[where compress = compress and decompress = decompress, OF this fits \<open>side < 2 ^ 32\<close> rgb(2)] rgb show ?thesis by simp
  qed
  have "\<exists>files. each (\<lambda>side files. map_option (\<lambda>png. files @ [(side, png)])
      (Option.bind (render_icon side) (write_png compress side))) sides files0 = Some (files0 @ files) \<and>
      map fst files = sides \<and> list_all ?ok files" if "set sides \<subseteq> set SIZES" for sides files0
    using that
  proof (induction sides arbitrary: files0)
    case (Cons side sides)
    then have "side \<in> set SIZES" by simp
    from one[OF this] obtain png
      where "Option.bind (render_icon side) (write_png compress side) = Some png" "?ok (side, png)" by blast
    with Cons.IH[of "files0 @ [(side, png)]"] Cons.prems show ?case by fastforce
  qed simp
  from this[of SIZES "[]"] show ?thesis by (auto simp: icon_files_def)
qed

theorem icons_read_back_witness:
  "\<exists>files. icon_files (\<lambda>raw. 0x78 # raw) = Some files \<and> map fst files = [180, 192, 512]"
  using icons_read_back[of "\<lambda>bs. case bs of [] \<Rightarrow> None | b # raw \<Rightarrow> Some raw" "\<lambda>raw. 0x78 # raw"]
  by (auto simp: SIZES_def)

end
