(* ===== verification/Spec2Isabelle.thy ===== *)
theory Spec2Isabelle
  imports Command_Properties Device_Properties Rate_Limiter Schedule_Claims Composition
    Bestway_Properties Demo_Properties HA_Properties Api_Properties Command_Tasks Stream_Supervisor
    Log_Redaction Stream_Session Probe_Properties HA_Address
    Adapter_Closing Demo_Deployment Stage_Properties Stream_Sources Icon_Files
begin

text \<open>
  \<^bold>\<open>A verification library for the homeflow gateway\<close>

  The program is the backend under \<open>src/backend/src/homeflow\<close>: a gateway that shows the devices of
  one household to its clients over HTTP and a WebSocket and writes to them through adapters. The
  script \<open>src/scripts/bestway_probe.py\<close> belongs to one of the adapters, and
  \<open>src/scripts/generate_web_icons.py\<close> draws the icons of the web client. Paths below are relative to
  the package.

  \<^bold>\<open>How the parts interact.\<close> \<open>main.py\<close> builds a container (\<open>container.py\<close>) from validated settings,
  asks every adapter for its devices, and starts one task per adapter stream and one for the timers.
  A request passes the middleware, is authenticated and charged to a rate limiter (\<open>api/deps.py\<close>),
  and reaches a route. Every write, of a client or of a timer, goes through
  \<open>CommandService.submit\<close>: look the device up, check reachability, capability, parameters and
  limits, refuse the highest risk class, audit, then write under a lock per device, with a read-back
  when the adapter could not tell what happened. Observations, from adapter streams and from
  commands, go through \<open>DeviceService.ingest\<close> into the registry, and each transition is published on
  the event bus, from which the WebSocket sessions are fed.

  \<^bold>\<open>State.\<close> The services share one bus, one audit log, one clock, one registry; they are the record
  \<open>gateway\<close>, and \<open>container\<close> adds what the API keeps. A handler is a function from its arguments and
  \<open>(gateway, world)\<close> to a result and the state it leaves, where the world \<open>'w\<close> is what the adapters
  act on; an exception is a value of a sum type, and every \<open>raise\<close> and early return is a branch. Where
  tasks interleave there is a step relation: \<open>task_step\<close> (tasks over the device locks), \<open>stage_step\<close>
  (submissions cut at the points where they wait, with the locks they have taken), \<open>timer_step\<close>
  (the timer loop and the creation of timers, cut where they wait for such a submission, against
  clients), \<open>session_step\<close> (reader and writer of one connection),
  \<open>demo_step\<close> (commands and ticks of the simulation).
\<close>

text \<open>
  \<^bold>\<open>Theories and the code they model\<close>

  \<^item> \<open>Prelude\<close>, \<open>Ordered_Dict\<close>, \<open>Text_Format\<close>: Python idioms. JSON values, rounding, bounded deques,
    insertion-ordered dictionaries with the locales \<open>keyed_map\<close> and \<open>bounded_store\<close>, the texts of
    identifiers and times.
  \<^item> \<open>Domain_Errors\<close> (\<open>errors.py\<close>), \<open>Device_Model\<close> (\<open>capabilities/models.py\<close>, \<open>devices/models.py\<close>),
    \<open>Command_Model\<close> (\<open>commands/models.py\<close>, \<open>policy.py\<close>, \<open>reconcile.py\<close>), \<open>Schedule_Model\<close>
    (\<open>schedules/models.py\<close>), \<open>Provider_Base\<close> (\<open>integrations/base\<close>; the locale \<open>adapter_contract\<close>):
    data and its validation.
  \<^item> \<open>Identity\<close>, \<open>Device_Registry\<close>, \<open>Device_Service\<close> (\<open>devices/identity.py\<close>, \<open>registry.py\<close>,
    \<open>service.py\<close>), \<open>Event_Bus\<close> (\<open>events/bus.py\<close>), \<open>Audit_Log\<close> (\<open>audit/log.py\<close>; the locale \<open>audit_sink\<close>),
    \<open>Gateway_State\<close> (the shared state), \<open>Client_Auth\<close> (\<open>auth\<close>), \<open>Rate_Limiter\<close> (\<open>ratelimit.py\<close>).
  \<^item> \<open>Command_Service\<close> (\<open>commands/service.py\<close>; the locale \<open>command_submitter\<close>), \<open>Command_Tasks\<close> (its
    tasks over the locks), \<open>Command_Stages\<close>, \<open>Stage_Properties\<close> (the same service with its
    submissions interleaved), \<open>Schedule_Service\<close>, \<open>Schedule_Properties\<close>, \<open>Schedule_Stages\<close> (the
    same with its coroutines cut at their awaits), \<open>Schedule_Claims\<close> (\<open>schedules/service.py\<close>).
  \<^item> \<open>Settings\<close> (\<open>config/settings.py\<close>), \<open>Composition\<close> (\<open>container.py\<close>).
  \<^item> \<open>Bestway_Protocol\<close>, \<open>Bestway_Stream\<close> (\<open>integrations/bestway/protocol.py\<close>; the locale
    \<open>frame_stream\<close>), \<open>Bestway_Client\<close>, \<open>Bestway_Datapoints\<close>, \<open>Bestway_Provider\<close> (the files of these
    names), \<open>Bestway_Probe\<close> (\<open>scripts/bestway_probe.py\<close>).
  \<^item> \<open>Demo_Provider\<close>, \<open>Weather_Provider\<close>, \<open>HA_Entities\<close>, \<open>HA_Client\<close>, \<open>HA_Address\<close>, \<open>HA_Provider\<close>
    (\<open>integrations/demo\<close>, \<open>weather\<close>, \<open>home_assistant\<close>).
  \<^item> \<open>Api_Schemas\<close> (\<open>api/schemas.py\<close>, \<open>api/errors.py\<close>), \<open>Api_Routes\<close> (\<open>api/deps.py\<close>,
    \<open>api/v1/router.py\<close>, \<open>api/v1/auth.py\<close>), \<open>Api_Stream\<close>, \<open>Stream_Session\<close> (\<open>api/v1/ws.py\<close>),
    \<open>Stream_Supervisor\<close>, \<open>Stream_Sources\<close> (the streams of the four adapters under the supervisor of
    \<open>main.py\<close>; the locale \<open>event_source\<close>), \<open>Gateway_Process\<close>, \<open>Adapter_Closing\<close>
    (\<open>main.py\<close>, \<open>api/middleware.py\<close>, the \<open>aclose\<close> of the adapters; the locale \<open>client_owner\<close>),
    \<open>Log_Scrub\<close>, \<open>Log_Redaction\<close> (\<open>log.py\<close>), \<open>Log_Leaks\<close> (what must not be read in
    a log, said without the patterns of \<open>log.py\<close>).
  \<^item> \<open>Icon_Generator\<close>, \<open>Icon_Properties\<close>, \<open>Icon_Files\<close> (\<open>scripts/generate_web_icons.py\<close>): the
    distance functions, the canvas with its search boxes, the PNG and ICO containers.
  \<^item> \<open>Sample_Gateway\<close> is one pool behind one adapter, the concrete input of the witnesses. The theories
    whose names end in \<open>Properties\<close>, and \<open>HA_Effects\<close>, hold lemmas and properties only.
    \<open>Demo_Deployment\<close> puts container, discovery, commands and simulation together for the default
    deployment.

  A definition carries the name of the function it translates; names that clash, and record fields,
  carry a prefix.

  \<^bold>\<open>Contracts.\<close> \<open>bounded_store\<close> is interpreted on the settled commands, the locks, the tickets and the
  buckets; \<open>audit_sink\<close> on the in-memory log; \<open>adapter_contract\<close>, with the adapter's own invariant as
  a parameter, on all four adapters; \<open>command_submitter\<close> on \<open>CommandService.submit\<close>, so the timers'
  operations in one piece keep their invariant over the real pipeline; \<open>frame_stream\<close> on the frame decoder; \<open>event_source\<close> on the
  streams of all four adapters; \<open>client_owner\<close> on the two adapters that make an HTTP client when they
  need one.
\<close>

text \<open>
  \<^bold>\<open>What is shown\<close>

  \<^item> Commands: nothing is written unless every gate was passed; an admitted command causes one write
    and at most one read-back and reports the verdict of that run; a door is never opened; a timed-out
    write is succeeded or unknown by what was observed; every outcome is documented and audited; stored
    commands stay well typed and the registry consistent. Two writes to one device can overlap exactly
    if commands may address more devices than there are locks. Submissions interleaved at their
    awaits keep the gateway consistent, account for every command, take their locks in the order of
    the task relation while there are locks for all devices, give every lock back, and all end.
  \<^item> Devices: discovery yields a consistent registry; an observation changes one device and only what it
    reports, and publishes the events an independent comparison calls for. Timers: one per device
    and function, each fires once and settles, in every interleaving at the awaits; as a lemma, a
    timer cancelled while another one's command is running is fired all the same.
  \<^item> Bus, streams and clients: no event is lost without the lag being told; a ticket works once; a budget
    bounds what is allowed in any window as long as no key is evicted; a refused request reads the
    clock and charges its peer's budget, nothing else, and a registered client does not notice how many
    attempts failed; a handshake costs a credential; inbound frames are bounded; a violation closes the connection exactly if the queue has
    room for the end marker.
  \<^item> Bestway: any cut of the stream is decoded alike and the buffer stays bounded; control frames round
    trip and only released datapoints of a trusted layout are written, at most once per command, leaving alone
    every field that shares no bit with the written one; a reported success was observed in a block of the
    controller, a setpoint in the unit of the block read before. The probe hides every passcode in a
    frame it decoded, and prints the others.
  \<^item> Home Assistant: one call per command on a released domain, success is observed except for playback, only released
    entities offer control, the normalised address keeps the host it was given. Demo: the pool reaches its
    target, if a tick moves it at all; the default deployment starts and stays consistent under any
    commands and ticks.
  \<^item> Configuration: unsafe combinations do not start, and what is built fits the settings. Logging:
    what stands under a private name does not reach the log, and no credential or address of the five
    kinds can be read in a logged text, while objects and the names of fields are written as they
    are. Process: every response carries the server's identifier;
    all but the answer to a crash carry the security headers; an adapter owns at most one HTTP client
    beside the one it was given, and a stopped gateway has let go of what it held
    unless closing it failed.
  \<^item> Icons: painting only inside the search boxes gives the picture that painting everywhere gives,
    and what is written is read back as the picture that was drawn.

  Each component's own theory holds the lemmas behind these: what a branch returns, what an operation
  leaves alone (the collection \<open>frame_simps\<close>), and that it keeps the component's invariant.

  \<^bold>\<open>Bounds and fuel.\<close> The constants of the source are definitions under its names (256 locks, 500 commands,
  1024 keys, 64 tickets, 2048 payload bytes, and so on). Loops end by recursion on a list or by a measure. Two
  loops of the source end by a deadline instead: an exchange with the controller reads at most
  \<open>net_reads\<close> times, and a conversation over the WebSocket of Home Assistant sees the finite list
  of messages its peer sends; both are arbitrary, so nothing depends on a particular number. Loops
  that run for ever (polling, ticking, the timer loop) are modelled by their turn, and by the step
  relations above.
\<close>

text \<open>
  \<^bold>\<open>Parameters.\<close> Code that is not in the repository is an argument of the definitions that use it:
  the scalar conversions of the validation library (\<open>coercions\<close>), HMAC and SHA-256, random tickets,
  identifiers and jitter, readings of the clock, sockets, HTTP and WebSocket libraries (\<open>network\<close>,
  \<open>ha_net\<close>, \<open>weather_net\<close>), the reading of files, the compression library, the check of IPv6
  literals, the host check and the file server of the web framework. What is relied on of them is a
  hypothesis where it is used.

  \<^bold>\<open>Simplifications.\<close> Floats are exact rationals: rounding errors, infinities and NaN are outside, the
  explicit \<open>round\<close> calls are inside. Text is ASCII. Times are microseconds in UTC. A deadline of the
  caller is a result of the adapter (\<open>TimeoutError\<close>, or \<open>Cancelled\<close> inside an adapter), which may or may
  not have acted. Between two awaits a task is one step, and the call of an adapter acts on the
  world in the step that delivers its result; a coroutine that waits for another may resume
  later than the source does, so the relations have every run of the program and more. The
  submissions of \<open>Command_Service\<close> and the timers of \<open>Schedule_Service\<close> in one piece are shown to be
  their pieces with nothing in between. The lock of the Bestway client around an exchange
  is left out: its exchanges are one after the other. The geometry of the icons is over the real numbers, which
  have square roots and are not evaluated.

  \<^bold>\<open>Not modelled.\<close> The routing, serialisation and error plumbing of the web framework, the JSON text of a
  log line, the layout of the lines the probe prints (their dumps are modelled), command-line
  arguments; the web client, which is another language; the tests and simulators.
\<close>

end
